(* ===== verification/Prelude.thy ===== *)
theory Prelude
  imports Complex_Main "HOL-Library.Char_ord"
begin

text \<open>
  Shared ground of the development: the text and number conversions of the source language
  that the gateway's code uses (\<open>String(n)\<close>, \<open>Number(s)\<close>, \<open>trim\<close>, \<open>toLowerCase\<close>,
  \<open>padStart\<close>, \<open>%\<close>), the state-and-exception monad in which synchronous store code is
  written, and the lemmas about them that every component uses.

  Numbers: counters, clocks and limits are exact (\<open>int\<close> and \<open>rat\<close>); the rounding of IEEE
  doubles, which starts beyond 2^53, is not modelled. Text is a list of 8-bit characters.
\<close>

named_theorems run_simps \<open>how a sequence of store commands runs\<close>
named_theorems key_simps \<open>which key names are different\<close>
named_theorems text_simps \<open>text conversions\<close>

subsection \<open>Synchronous code: state, value or exception\<close>

type_synonym ('s, 'e, 'a) run = "'s \<Rightarrow> ('e + 'a) \<times> 's"

definition return_m :: "'a \<Rightarrow> ('s, 'e, 'a) run" where
  "return_m x s = (Inr x, s)"

definition throw_m :: "'e \<Rightarrow> ('s, 'e, 'a) run" where
  "throw_m e s = (Inl e, s)"

definition bind_m :: "('s, 'e, 'a) run \<Rightarrow> ('a \<Rightarrow> ('s, 'e, 'b) run) \<Rightarrow> ('s, 'e, 'b) run" where
  "bind_m m f s = (case m s of (Inl e, s') \<Rightarrow> (Inl e, s') | (Inr x, s') \<Rightarrow> f x s')"

definition then_m :: "('s, 'e, 'a) run \<Rightarrow> ('s, 'e, 'b) run \<Rightarrow> ('s, 'e, 'b) run" where
  "then_m m k = bind_m m (\<lambda>_. k)"

lemma bind_return [simp]: "bind_m (return_m x) f = f x"
  by (rule ext) (simp add: bind_m_def return_m_def)

lemma bind_throw [simp]: "bind_m (throw_m e) f = throw_m e"
  by (rule ext) (simp add: bind_m_def throw_m_def)

lemma bind_assoc: "bind_m (bind_m m f) g = bind_m m (\<lambda>x. bind_m (f x) g)"
  by (rule ext) (simp add: bind_m_def split: prod.splits sum.splits)

lemma bind_run [run_simps]: "m s = (Inr x, s') \<Longrightarrow> bind_m m f s = f x s'"
  by (simp add: bind_m_def)

lemma bind_raise [run_simps]: "m s = (Inl e, s') \<Longrightarrow> bind_m m f s = (Inl e, s')"
  by (simp add: bind_m_def)

lemma then_run [run_simps]: "m s = (Inr x, s') \<Longrightarrow> then_m m k s = k s'"
  by (simp add: then_m_def bind_m_def)

lemma return_run [run_simps]: "return_m x s = (Inr x, s)"
  by (simp add: return_m_def)

lemma throw_run [run_simps]: "throw_m e s = (Inl e, s)"
  by (simp add: throw_m_def)

subsection \<open>Arithmetic of the source language\<close>

text \<open>The remainder \<open>a % b\<close> takes the sign of \<open>a\<close>.\<close>

definition js_rem :: "int \<Rightarrow> int \<Rightarrow> int" where
  "js_rem a b = (if a < 0 then - ((- a) mod \<bar>b\<bar>) else a mod \<bar>b\<bar>)"

lemma js_rem_nonneg: "0 \<le> a \<Longrightarrow> 0 < b \<Longrightarrow> js_rem a b = a mod b"
  by (simp add: js_rem_def)

text \<open>\<open>Math.ceil(a / b)\<close> for integers.\<close>

definition ceil_div :: "int \<Rightarrow> int \<Rightarrow> int" where
  "ceil_div a b = - ((- a) div b)"

lemma ceil_div_bounds: "0 < b \<Longrightarrow> a \<le> ceil_div a b * b \<and> ceil_div a b * b < a + b"
proof -
  assume b: "0 < b"
  define q r where "q = (- a) div b" and "r = (- a) mod b"
  have "b * q + r = - a" by (simp add: q_def r_def)
  moreover have "0 \<le> r" "r < b" using b by (simp_all add: r_def)
  ultimately show ?thesis unfolding ceil_div_def q_def [symmetric] by (simp add: algebra_simps)
qed

definition clamp_int :: "int \<Rightarrow> int \<Rightarrow> int \<Rightarrow> int" where
  "clamp_int lo hi n = min hi (max lo n)"

lemma clamp_int_bounds: "lo \<le> hi \<Longrightarrow> lo \<le> clamp_int lo hi n \<and> clamp_int lo hi n \<le> hi"
  by (simp add: clamp_int_def)

lemma clamp_int_id: "lo \<le> n \<Longrightarrow> n \<le> hi \<Longrightarrow> clamp_int lo hi n = n"
  by (simp add: clamp_int_def)

subsection \<open>Decimal text of integers\<close>

definition digit_char :: "nat \<Rightarrow> char" where
  "digit_char d = char_of (48 + d)"

definition digit_val :: "char \<Rightarrow> nat" where
  "digit_val c = of_char c - 48"

definition is_digit :: "char \<Rightarrow> bool" where
  "is_digit c \<longleftrightarrow> 48 \<le> (of_char c :: nat) \<and> (of_char c :: nat) \<le> 57"

lemma digit_char_val: "d < 10 \<Longrightarrow> digit_val (digit_char d) = d"
  by (simp add: digit_val_def digit_char_def)

lemma digit_char_digit: "d < 10 \<Longrightarrow> is_digit (digit_char d)"
  by (simp add: is_digit_def digit_char_def)

fun nat_string :: "nat \<Rightarrow> string" where
  "nat_string n = (if n < 10 then [digit_char n]
     else nat_string (n div 10) @ [digit_char (n mod 10)])"

declare nat_string.simps [simp del]

definition int_string :: "int \<Rightarrow> string" where
  "int_string i = (if i < 0 then CHR ''-'' # nat_string (nat (- i)) else nat_string (nat i))"

definition digits_val :: "string \<Rightarrow> nat" where
  "digits_val ds = foldl (\<lambda>a c. 10 * a + digit_val c) 0 ds"

lemma nat_string_digits: "\<forall>c \<in> set (nat_string n). is_digit c"
proof (induction n rule: nat_string.induct)
  case (1 n)
  then show ?case
    by (subst nat_string.simps) (auto simp: digit_char_digit)
qed

lemma nat_string_nonempty [simp]: "nat_string n \<noteq> []"
  by (subst nat_string.simps) simp

lemma nat_string_length: "n < 10 ^ Suc k \<Longrightarrow> length (nat_string n) \<le> Suc k"
proof (induction k arbitrary: n)
  case 0
  then show ?case by (subst nat_string.simps) simp
next
  case (Suc k)
  then have "n div 10 < 10 ^ Suc k" by (simp add: div_less_iff_less_mult mult.commute)
  from Suc.IH [OF this] show ?case by (subst nat_string.simps) simp
qed

lemma digits_val_nat_string: "digits_val (nat_string n) = n"
proof (induction n rule: nat_string.induct)
  case (1 n)
  show ?case
  proof (cases "n < 10")
    case True
    then show ?thesis
      by (subst nat_string.simps) (simp add: digits_val_def digit_char_val)
  next
    case False
    with 1 have "digits_val (nat_string (n div 10)) = n div 10" by simp
    with False show ?thesis
      by (subst nat_string.simps) (simp add: digits_val_def digit_char_val)
  qed
qed

lemma nat_string_inj [simp]: "nat_string m = nat_string n \<longleftrightarrow> m = n"
  by (metis digits_val_nat_string)

lemma nat_string_hd_digit: "is_digit (hd (nat_string n))"
  using nat_string_digits [of n] nat_string_nonempty [of n] by (meson hd_in_set)

lemma minus_no_digit [simp]: "\<not> is_digit (CHR ''-'')"
  by (simp add: is_digit_def)

lemma colon_no_digit [simp]: "\<not> is_digit (CHR '':'')"
  by (simp add: is_digit_def)

lemma nat_string_no_minus [simp]: "nat_string n \<noteq> CHR ''-'' # ds"
  using nat_string_hd_digit [of n] by (metis list.sel(1) minus_no_digit)

lemma int_string_inj [simp]: "int_string i = int_string j \<longleftrightarrow> i = j"
proof -
  have m: "CHR ''-'' # ds \<noteq> nat_string n" for ds n
    using nat_string_no_minus [of n ds] by metis
  show ?thesis
    by (auto simp: int_string_def m)
qed

lemma int_string_no_colon: "CHR '':'' \<notin> set (int_string i)"
  using nat_string_digits [of "nat (- i)"] nat_string_digits [of "nat i"]
  by (auto simp: int_string_def)

subsection \<open>Text helpers\<close>

definition option_or :: "'a option \<Rightarrow> 'a \<Rightarrow> 'a" where
  "option_or x d = (case x of Some v \<Rightarrow> v | None \<Rightarrow> d)"

lemma option_or_simps [simp]: "option_or (Some v) d = v" "option_or None d = d"
  by (simp_all add: option_or_def)

definition is_space :: "char \<Rightarrow> bool" where
  "is_space c \<longleftrightarrow> (of_char c :: nat) \<in> {9, 10, 11, 12, 13, 32, 160}"

definition trim_start :: "string \<Rightarrow> string" where
  "trim_start s = dropWhile is_space s"

definition trim :: "string \<Rightarrow> string" where
  "trim s = rev (dropWhile is_space (rev (dropWhile is_space s)))"

definition lower_char :: "char \<Rightarrow> char" where
  "lower_char c = (if 65 \<le> (of_char c :: nat) \<and> (of_char c :: nat) \<le> 90
     then char_of ((of_char c :: nat) + 32) else c)"

definition to_lower :: "string \<Rightarrow> string" where
  "to_lower s = map lower_char s"

definition upper_char :: "char \<Rightarrow> char" where
  "upper_char c = (if 97 \<le> (of_char c :: nat) \<and> (of_char c :: nat) \<le> 122
     then char_of ((of_char c :: nat) - 32) else c)"

definition to_upper :: "string \<Rightarrow> string" where
  "to_upper s = map upper_char s"

definition pad_start :: "nat \<Rightarrow> char \<Rightarrow> string \<Rightarrow> string" where
  "pad_start n c s = replicate (n - length s) c @ s"

definition starts_with :: "string \<Rightarrow> string \<Rightarrow> bool" where
  "starts_with p s \<longleftrightarrow> take (length p) s = p"

definition ends_with :: "string \<Rightarrow> string \<Rightarrow> bool" where
  "ends_with p s \<longleftrightarrow> length p \<le> length s \<and> drop (length s - length p) s = p"

fun split_on :: "(char \<Rightarrow> bool) \<Rightarrow> string \<Rightarrow> string list" where
  "split_on p [] = [[]]"
| "split_on p (c # cs) =
     (if p c then [] # split_on p cs
      else (case split_on p cs of [] \<Rightarrow> [[c]] | w # ws \<Rightarrow> (c # w) # ws))"

lemma split_on_nonempty [simp]: "split_on p s \<noteq> []"
  by (induction s) (auto split: list.splits)

lemma split_on_sep: "(\<forall>c \<in> set w. \<not> p c) \<Longrightarrow> p x \<Longrightarrow> split_on p (w @ x # s) = w # split_on p s"
  by (induction w) auto

lemma split_on_whole: "(\<forall>c \<in> set w. \<not> p c) \<Longrightarrow> split_on p w = [w]"
  by (induction w) auto

lemma digit_not_space: "is_digit c \<Longrightarrow> \<not> is_space c"
  by (auto simp: is_digit_def is_space_def)

lemma dropWhile_none: "(\<forall>c \<in> set s. \<not> p c) \<Longrightarrow> dropWhile p s = s"
  by (cases s) auto

lemma trim_no_space: "(\<forall>c \<in> set s. \<not> is_space c) \<Longrightarrow> trim s = s"
  by (simp add: trim_def dropWhile_none)

lemma length_pad_start: "length (pad_start n c s) = max n (length s)"
  by (simp add: pad_start_def)

subsection \<open>Numbers read from text\<close>

text \<open>
  \<open>Number(s)\<close> on the forms of the language's numeric literals: surrounding white space is
  dropped, the empty string is 0, a \<open>0x\<close>, \<open>0o\<close> or \<open>0b\<close> prefix selects the base, otherwise an
  optional sign, digits with an optional fraction, and an optional exponent. \<open>None\<close> stands for
  every result that is not a finite number (NaN and the infinities).
\<close>

definition hex_val :: "char \<Rightarrow> nat" where
  "hex_val c = (if is_digit c then digit_val c
     else if 97 \<le> (of_char c :: nat) \<and> (of_char c :: nat) \<le> 122 then of_char c - 87
     else if 65 \<le> (of_char c :: nat) \<and> (of_char c :: nat) \<le> 90 then of_char c - 55 else 99)"

definition radix_val :: "nat \<Rightarrow> string \<Rightarrow> rat option" where
  "radix_val b ds = (if ds = [] \<or> (\<exists>d \<in> set ds. b \<le> hex_val d) then None
     else Some (of_nat (foldl (\<lambda>a d. b * a + hex_val d) 0 ds)))"

definition exponent_val :: "string \<Rightarrow> int option" where
  "exponent_val s = (let neg = (case s of c # _ \<Rightarrow> c = CHR ''-'' | [] \<Rightarrow> False);
        ds = (case s of c # cs \<Rightarrow> if c = CHR ''-'' \<or> c = CHR ''+'' then cs else s | [] \<Rightarrow> s)
      in if ds = [] \<or> (\<exists>d \<in> set ds. \<not> is_digit d) then None
         else Some (if neg then - int (digits_val ds) else int (digits_val ds)))"

definition scale10 :: "rat \<Rightarrow> int \<Rightarrow> rat" where
  "scale10 r e = (if 0 \<le> e then r * 10 ^ nat e else r / 10 ^ nat (- e))"

definition unsigned_decimal :: "string \<Rightarrow> rat option" where
  "unsigned_decimal s =
     (let ip = takeWhile is_digit s; r1 = dropWhile is_digit s;
          dot = (case r1 of c # _ \<Rightarrow> c = CHR ''.'' | [] \<Rightarrow> False);
          fp = (if dot then takeWhile is_digit (tl r1) else []);
          r2 = (if dot then dropWhile is_digit (tl r1) else r1);
          m = of_nat (digits_val ip) + of_nat (digits_val fp) / 10 ^ length fp
      in if ip = [] \<and> fp = [] then None
         else (case r2 of [] \<Rightarrow> Some m
               | c # es \<Rightarrow> if c = CHR ''e'' \<or> c = CHR ''E''
                   then map_option (scale10 m) (exponent_val es) else None))"

definition js_Number :: "string \<Rightarrow> rat option" where
  "js_Number s = (let t = trim s in
     case t of
       [] \<Rightarrow> Some 0
     | [c] \<Rightarrow> unsigned_decimal t
     | c # d # r \<Rightarrow>
         if c = CHR ''0'' \<and> (d = CHR ''x'' \<or> d = CHR ''X'') then radix_val 16 r
         else if c = CHR ''0'' \<and> (d = CHR ''o'' \<or> d = CHR ''O'') then radix_val 8 r
         else if c = CHR ''0'' \<and> (d = CHR ''b'' \<or> d = CHR ''B'') then radix_val 2 r
         else if c = CHR ''-'' then map_option uminus (unsigned_decimal (d # r))
         else if c = CHR ''+'' then unsigned_decimal (d # r)
         else unsigned_decimal t)"

lemma unsigned_decimal_digits:
  assumes "\<forall>c \<in> set ds. is_digit c" and "ds \<noteq> []"
  shows "unsigned_decimal ds = Some (of_nat (digits_val ds))"
proof -
  have t: "takeWhile is_digit ds = ds" "dropWhile is_digit ds = []"
    using assms(1) by (simp_all add: takeWhile_eq_all_conv dropWhile_eq_Nil_conv)
  show ?thesis using assms(2) by (simp add: unsigned_decimal_def t digits_val_def)
qed

lemma digit_no_radix:
  assumes "is_digit d"
  shows "d \<noteq> CHR ''x''" "d \<noteq> CHR ''X''" "d \<noteq> CHR ''o''" "d \<noteq> CHR ''O''" "d \<noteq> CHR ''b''" "d \<noteq> CHR ''B''"
    "d \<noteq> CHR ''-''" "d \<noteq> CHR ''+''"
  using assms by (auto simp: is_digit_def)

lemma js_Number_digits:
  assumes "\<forall>c \<in> set ds. is_digit c" and "ds \<noteq> []"
  shows "js_Number ds = Some (of_nat (digits_val ds))"
proof -
  have t: "trim ds = ds" using assms(1) by (intro trim_no_space) (auto dest: digit_not_space)
  note u = unsigned_decimal_digits [OF assms]
  show ?thesis
  proof (cases ds)
    case Nil with assms show ?thesis by simp
  next
    case (Cons c cs)
    show ?thesis
    proof (cases cs)
      case Nil
      with t u Cons show ?thesis by (simp add: js_Number_def)
    next
      case (Cons d r)
      with \<open>ds = c # cs\<close> assms(1) have "is_digit c" "is_digit d" by auto
      with t u \<open>ds = c # cs\<close> Cons show ?thesis
        by (simp add: js_Number_def digit_no_radix)
    qed
  qed
qed

text \<open>Reading back an integer that was written as text gives the integer.\<close>

lemma js_Number_int_string [simp, text_simps]: "js_Number (int_string i) = Some (of_int i)"
proof (cases "i < 0")
  case True
  let ?ds = "nat_string (nat (- i))"
  have t: "trim (CHR ''-'' # ?ds) = CHR ''-'' # ?ds"
    using nat_string_digits [of "nat (- i)"] digit_not_space
    by (intro trim_no_space) (auto simp: is_space_def [of "CHR ''-''"])
  obtain c cs where c: "?ds = c # cs" using nat_string_nonempty by (meson neq_Nil_conv)
  have u: "unsigned_decimal ?ds = Some (of_nat (nat (- i)))"
    using unsigned_decimal_digits [OF nat_string_digits nat_string_nonempty]
    by (simp add: digits_val_nat_string)
  have "js_Number (int_string i) = map_option uminus (unsigned_decimal ?ds)"
    using True t c by (simp add: js_Number_def int_string_def)
  with True u show ?thesis by simp
next
  case False
  then show ?thesis
    using js_Number_digits [OF nat_string_digits nat_string_nonempty, of "nat i"]
    by (simp add: int_string_def digits_val_nat_string)
qed

subsection \<open>Text of numbers\<close>

text \<open>
  \<open>String(x)\<close>: integers in decimal; other numbers with up to 17 fractional digits, the trailing
  zeros dropped (exact for every decimal of that many digits; the exponent form the language
  uses beyond 1e21 is not modelled).
\<close>

definition frac_digits :: "nat \<Rightarrow> rat \<Rightarrow> string" where
  "frac_digits n r = rev (dropWhile (\<lambda>c. c = CHR ''0'')
     (rev (pad_start n (CHR ''0'') (nat_string (nat \<lfloor>r * 10 ^ n\<rfloor>)))))"

definition js_String :: "rat \<Rightarrow> string" where
  "js_String r = (if r = of_int \<lfloor>r\<rfloor> then int_string \<lfloor>r\<rfloor>
     else (let a = \<bar>r\<bar> in (if r < 0 then ''-'' else []) @ nat_string (nat \<lfloor>a\<rfloor>)
        @ ''.'' @ frac_digits 17 (a - of_int \<lfloor>a\<rfloor>)))"

lemma js_String_int [simp, text_simps]: "js_String (of_int i) = int_string i"
  by (simp add: js_String_def)

text \<open>
  \<open>parseFloat(s)\<close> reads the longest decimal prefix; \<open>None\<close> is NaN.
\<close>

definition js_parseFloat :: "string \<Rightarrow> rat option" where
  "js_parseFloat s = (let t = trim_start s;
       neg = (case t of c # _ \<Rightarrow> c = CHR ''-'' | [] \<Rightarrow> False);
       u = (case t of c # cs \<Rightarrow> if c = CHR ''-'' \<or> c = CHR ''+'' then cs else t | [] \<Rightarrow> t);
       ip = takeWhile is_digit u; r1 = dropWhile is_digit u;
       dot = (case r1 of c # _ \<Rightarrow> c = CHR ''.'' | [] \<Rightarrow> False);
       fp = (if dot then takeWhile is_digit (tl r1) else []);
       r2 = (if dot then dropWhile is_digit (tl r1) else r1);
       m = of_nat (digits_val ip) + of_nat (digits_val fp) / 10 ^ length fp;
       ex = (case r2 of c # d # es \<Rightarrow>
               if c = CHR ''e'' \<or> c = CHR ''E''
               then option_or (exponent_val
                      ((if d = CHR ''-'' \<or> d = CHR ''+'' then [d] else [])
                       @ takeWhile is_digit (if d = CHR ''-'' \<or> d = CHR ''+'' then es else d # es))) 0
               else 0
             | _ \<Rightarrow> 0)
     in if ip = [] \<and> fp = [] then None
        else Some (if neg then - scale10 m ex else scale10 m ex))"

text \<open>\<open>x.toPrecision(p)\<close> read back as a number: x rounded to p significant digits, ties upward.\<close>

fun lead_exp :: "nat \<Rightarrow> rat \<Rightarrow> int" where
  "lead_exp 0 a = 0"
| "lead_exp (Suc f) a = (if 1 \<le> a then int (length (nat_string (nat \<lfloor>a\<rfloor>))) - 1
     else lead_exp f (a * 10) - 1)"

definition to_precision :: "nat \<Rightarrow> rat \<Rightarrow> rat" where
  "to_precision p x = (if x = 0 then 0 else
     (let a = \<bar>x\<bar>; e = lead_exp 400 a;
          n = \<lfloor>scale10 a (int p - 1 - e) + 1/2\<rfloor>
      in (if x < 0 then -1 else 1) * scale10 (of_int n) (e + 1 - int p)))"

subsection \<open>Key names\<close>

lemma colon_suffix_inj:
  assumes "CHR '':'' \<notin> set u" and "CHR '':'' \<notin> set v"
  shows "a @ CHR '':'' # u = b @ CHR '':'' # v \<longleftrightarrow> a = b \<and> u = v"
proof
  assume eq: "a @ CHR '':'' # u = b @ CHR '':'' # v"
  have r: "takeWhile (\<lambda>c. c \<noteq> CHR '':'') (rev w @ CHR '':'' # z) = rev w"
    if "CHR '':'' \<notin> set w" for w z
    using that by (subst takeWhile_append2) auto
  from eq have "rev u @ CHR '':'' # rev a = rev v @ CHR '':'' # rev b"
    by (metis append.assoc append_Cons append_Nil rev.simps(2) rev_append)
  with r [OF assms(1), of "rev a"] r [OF assms(2), of "rev b"] have "rev u = rev v" by metis
  with eq show "a = b \<and> u = v" by simp
qed simp

lemma indexed_key_inj [simp, key_simps]:
  "a @ '':'' @ int_string i = b @ '':'' @ int_string j \<longleftrightarrow> a = b \<and> i = j"
  using colon_suffix_inj [OF int_string_no_colon int_string_no_colon, of a i b j] by simp

subsection \<open>Lists\<close>

end
