(* ===== verification/Js_Map.thy ===== *)
theory Js_Map
  imports Prelude "HOL-Library.AList"
begin

text \<open>
  Insertion-ordered maps, the \<open>Map\<close> of the source language: an association list with distinct
  keys, \<open>AList.update\<close> for \<open>set\<close> (an existing key keeps its place, a new one goes to the end),
  \<open>AList.delete\<close> for \<open>delete\<close>. The locale \<open>keyed_map\<close> is the contract the gateway's caches and
  stores rely on; it is interpreted here on the map itself and in other theories on the stores
  built from it.
\<close>

subsection \<open>The contract of a keyed store\<close>

locale keyed_map =
  fixes lookup :: "'s \<Rightarrow> 'k \<Rightarrow> 'v option"
    and put :: "'k \<Rightarrow> 'v \<Rightarrow> 's \<Rightarrow> 's"
    and remove :: "'k \<Rightarrow> 's \<Rightarrow> 's"
    and storable :: "'v \<Rightarrow> bool"
  assumes lookup_put: "storable v \<Longrightarrow> lookup (put k v s) = (lookup s)(k \<mapsto> v)"
    and lookup_remove: "lookup (remove k s) = (lookup s)(k := None)"
begin

lemma read_own_write: "storable v \<Longrightarrow> lookup (put k v s) k = Some v"
  by (simp add: lookup_put)

lemma put_frame: "storable v \<Longrightarrow> k \<noteq> k' \<Longrightarrow> lookup (put k v s) k' = lookup s k'"
  by (simp add: lookup_put)

lemma remove_gone: "lookup (remove k s) k = None"
  by (simp add: lookup_remove)

lemma remove_frame: "k \<noteq> k' \<Longrightarrow> lookup (remove k s) k' = lookup s k'"
  by (simp add: lookup_remove)

lemma put_overwrites:
  "storable v \<Longrightarrow> storable w \<Longrightarrow> lookup (put k w (put k v s)) = lookup (put k w s)"
  by (simp add: lookup_put)

lemma fold_remove: "lookup (fold remove ks s) k = (if k \<in> set ks then None else lookup s k)"
  by (induction ks arbitrary: s) (auto simp: lookup_remove)

lemma fold_put_frame:
  "\<forall>(k, v) \<in> set kvs. storable v \<Longrightarrow> k \<notin> fst ` set kvs \<Longrightarrow>
   lookup (fold (\<lambda>(k, v). put k v) kvs s) k = lookup s k"
  by (induction kvs arbitrary: s) (auto simp: lookup_put)

end

subsection \<open>The insertion-ordered map\<close>

type_synonym ('k, 'v) jsmap = "('k \<times> 'v) list"

definition jsmap_ok :: "('k, 'v) jsmap \<Rightarrow> bool" where
  "jsmap_ok m \<longleftrightarrow> distinct (map fst m)"

lemma jsmap_ok_update [intro]: "jsmap_ok m \<Longrightarrow> jsmap_ok (AList.update k v m)"
  by (simp add: jsmap_ok_def distinct_update)

lemma jsmap_ok_delete [intro]: "jsmap_ok m \<Longrightarrow> jsmap_ok (AList.delete k m)"
  by (simp add: jsmap_ok_def distinct_delete)

lemma jsmap_ok_filter [intro]: "jsmap_ok m \<Longrightarrow> jsmap_ok (filter P m)"
  unfolding jsmap_ok_def by (induction m) auto

lemma jsmap_ok_Nil [simp]: "jsmap_ok []"
  by (simp add: jsmap_ok_def)

interpretation jm: keyed_map map_of AList.update AList.delete "\<lambda>_. True"
  by unfold_locales (simp_all add: update_conv' delete_conv')

lemma map_of_filter:
  "jsmap_ok m \<Longrightarrow> map_of (filter (\<lambda>(k, v). P k v) m) k =
     (case map_of m k of Some v \<Rightarrow> if P k v then Some v else None | None \<Rightarrow> None)"
proof (induction m)
  case Nil
  then show ?case by simp
next
  case (Cons a m)
  obtain k' v' where a: "a = (k', v')" by (cases a)
  from Cons.prems have ok: "jsmap_ok m" and fresh: "k' \<notin> fst ` set m"
    by (auto simp: jsmap_ok_def a)
  from fresh have "map_of m k' = None" by (simp add: map_of_eq_None_iff)
  with Cons.IH [OF ok] show ?case by (auto simp: a)
qed

end
