(* ===== verification/Kv_Glob.thy ===== *)
theory Kv_Glob
  imports Prelude
begin

text \<open>
  \<open>src/lib/kv/glob.ts\<close>: the Redis glob used by SCAN. The code writes a regular expression as text
  and lets the language compile it; the model keeps the pieces of that expression as a list
  (\<open>rx\<close>), one piece per fragment the code appends, and gives them the matching the engine gives:
  anchored at both ends, \<open>.\<close> matching every character. An inverted range such as \<open>[z-a]\<close> makes
  the engine throw when it compiles; it is \<open>None\<close> here. The cache of compiled patterns only
  saves work and is not modelled.
\<close>

datatype rx =
    RLit char
  | RAny
  | RRun
  | RClass bool string

text \<open>\<open>findClassEnd\<close>, on the text after the opening bracket: the class body and what follows it.\<close>

fun class_scan :: "string \<Rightarrow> string \<Rightarrow> (string \<times> string) option" where
  "class_scan acc [] = None"
| "class_scan acc (c # cs) =
     (if c = CHR 0x5C then (case cs of [] \<Rightarrow> None | d # ds \<Rightarrow> class_scan (d # c # acc) ds)
      else if c = CHR '']'' then Some (rev acc, cs)
      else class_scan (c # acc) cs)"

fun skip_lead :: "char \<Rightarrow> string \<times> string \<Rightarrow> string \<times> string" where
  "skip_lead d (acc, []) = (acc, [])"
| "skip_lead d (acc, c # cs) = (if c = d then (c # acc, cs) else (acc, c # cs))"

definition find_class_end :: "string \<Rightarrow> (string \<times> string) option" where
  "find_class_end s =
     (case skip_lead (CHR '']'') (skip_lead (CHR ''^'') ([], s)) of (acc, r) \<Rightarrow> class_scan acc r)"

lemma skip_lead_shorter: "length (snd (skip_lead d p)) \<le> length (snd p)"
  by (cases "(d, p)" rule: skip_lead.cases) simp_all

lemma class_scan_shorter: "class_scan acc s = Some (b, r) \<Longrightarrow> length r < length s"
proof (induction acc s rule: class_scan.induct)
  case (2 acc c cs)
  consider "c = CHR 0x5C" | "c \<noteq> CHR 0x5C" "c = CHR '']''" | "c \<noteq> CHR 0x5C" "c \<noteq> CHR '']''" by blast
  then show ?case
  proof cases
    case 1
    then obtain d ds where cs: "cs = d # ds" using "2.prems" by (cases cs) simp_all
    with 1 "2.prems" have "class_scan (d # c # acc) ds = Some (b, r)" by simp
    then have "length r < length ds" by (rule "2.IH" (1) [OF 1 cs])
    with cs show ?thesis by simp
  next
    case 2
    with "2.prems" show ?thesis by simp
  next
    case 3
    with "2.prems" "2.IH"(2) show ?thesis by simp
  qed
qed simp

lemma find_class_end_shorter: "find_class_end s = Some (b, r) \<Longrightarrow> length r < length s"
proof -
  assume f: "find_class_end s = Some (b, r)"
  obtain acc t where t: "skip_lead (CHR '']'') (skip_lead (CHR ''^'') ([], s)) = (acc, t)"
    by (meson surj_pair)
  have "length t \<le> length s"
    using skip_lead_shorter [of "CHR '']''" "skip_lead (CHR ''^'') ([], s)"]
      skip_lead_shorter [of "CHR ''^''" "([], s)"] by (simp add: t)
  moreover from f t have "length r < length t"
    by (intro class_scan_shorter [of acc t b]) (simp add: find_class_end_def)
  ultimately show ?thesis by simp
qed

function glob_pieces :: "string \<Rightarrow> rx list" where
  "glob_pieces p = (case p of
       [] \<Rightarrow> []
     | c # cs \<Rightarrow>
         if c = CHR 0x5C then (case cs of [] \<Rightarrow> [RLit c] | d # ds \<Rightarrow> RLit d # glob_pieces ds)
         else if c = CHR ''*'' then RRun # glob_pieces cs
         else if c = CHR ''?'' then RAny # glob_pieces cs
         else if c = CHR ''['' then
           (case find_class_end cs of
              None \<Rightarrow> RLit c # glob_pieces cs
            | Some (body, rest) \<Rightarrow>
                (case body of b # bs \<Rightarrow> if b = CHR ''^'' then RClass True bs else RClass False body
                            | [] \<Rightarrow> RClass False body) # glob_pieces rest)
         else RLit c # glob_pieces cs)"
  by pat_completeness auto
termination
  by (relation "measure length") (auto dest: find_class_end_shorter)

declare glob_pieces.simps [simp del]

text \<open>The members of a class body, as the engine reads it: single characters and ranges.\<close>

fun class_items :: "string \<Rightarrow> (char \<times> char) list option" where
  "class_items [] = Some []"
| "class_items (x # d # y # r) =
     (if d = CHR ''-'' then
        if x \<le> y then map_option ((#) (x, y)) (class_items r) else None
      else map_option ((#) (x, x)) (class_items (d # y # r)))"
| "class_items (x # r) = map_option ((#) (x, x)) (class_items r)"

definition in_class :: "bool \<Rightarrow> string \<Rightarrow> char \<Rightarrow> bool" where
  "in_class neg body c = (neg \<noteq> (case class_items body of
      None \<Rightarrow> False | Some its \<Rightarrow> (\<exists>(a, b) \<in> set its. a \<le> c \<and> c \<le> b)))"

definition rx_compiles :: "rx list \<Rightarrow> bool" where
  "rx_compiles ps \<longleftrightarrow> list_all (\<lambda>p. case p of RClass _ b \<Rightarrow> class_items b \<noteq> None | _ \<Rightarrow> True) ps"

fun rx_test :: "rx list \<Rightarrow> string \<Rightarrow> bool" where
  "rx_test [] s = (s = [])"
| "rx_test (RRun # ps) [] = rx_test ps []"
| "rx_test (RRun # ps) (c # s) = (rx_test ps (c # s) \<or> rx_test (RRun # ps) s)"
| "rx_test (RLit a # ps) [] = False"
| "rx_test (RLit a # ps) (c # s) = (a = c \<and> rx_test ps s)"
| "rx_test (RAny # ps) [] = False"
| "rx_test (RAny # ps) (c # s) = rx_test ps s"
| "rx_test (RClass n b # ps) [] = False"
| "rx_test (RClass n b # ps) (c # s) = (in_class n b c \<and> rx_test ps s)"

definition globMatch :: "string \<Rightarrow> string \<Rightarrow> bool option" where
  "globMatch pattern key = (let ps = glob_pieces pattern in
     if rx_compiles ps then Some (rx_test ps key) else None)"

subsection \<open>Which keys a pattern selects\<close>

definition glob_special :: "char \<Rightarrow> bool" where
  "glob_special c \<longleftrightarrow> c \<in> {CHR 0x5C, CHR ''*'', CHR ''?'', CHR ''[''}"

lemma glob_pieces_plain:
  "\<forall>c \<in> set p. \<not> glob_special c \<Longrightarrow> glob_pieces (p @ q) = map RLit p @ glob_pieces q"
proof (induction p)
  case (Cons c p)
  then show ?case
    by (subst glob_pieces.simps) (simp add: glob_special_def)
qed simp

lemma glob_pieces_Nil [simp]: "glob_pieces [] = []"
  by (subst glob_pieces.simps) simp

lemma glob_pieces_star: "glob_pieces (CHR ''*'' # q) = RRun # glob_pieces q"
  by (subst glob_pieces.simps) simp

lemma rx_test_lits: "rx_test (map RLit p @ ps) s \<longleftrightarrow> (\<exists>r. s = p @ r \<and> rx_test ps r)"
proof (induction p arbitrary: s)
  case (Cons a p)
  then show ?case by (cases s) auto
qed simp

lemma rx_test_run: "rx_test (RRun # ps) s \<longleftrightarrow> (\<exists>a b. s = a @ b \<and> rx_test ps b)"
proof (induction s)
  case (Cons c s)
  show ?case
  proof
    assume "rx_test (RRun # ps) (c # s)"
    then consider "rx_test ps (c # s)" | "rx_test (RRun # ps) s" by auto
    then show "\<exists>a b. c # s = a @ b \<and> rx_test ps b"
    proof cases
      case 1
      then show ?thesis by (metis append_Nil)
    next
      case 2
      then show ?thesis using Cons.IH by (metis append_Cons)
    qed
  next
    assume "\<exists>a b. c # s = a @ b \<and> rx_test ps b"
    then obtain a b where ab: "c # s = a @ b" "rx_test ps b" by blast
    then show "rx_test (RRun # ps) (c # s)"
      using Cons.IH by (cases a) auto
  qed
qed simp

lemma rx_compiles_lits [simp]: "rx_compiles (map RLit p)"
  by (simp add: rx_compiles_def list_all_iff)

lemma globMatch_literal:
  "\<forall>c \<in> set p. \<not> glob_special c \<Longrightarrow> globMatch p key = Some (key = p)"
  using glob_pieces_plain [of p "[]"] rx_test_lits [of p "[]" key]
  by (simp add: globMatch_def)

lemma globMatch_prefix:
  "\<forall>c \<in> set p. \<not> glob_special c \<Longrightarrow> globMatch (p @ ''*'') key = Some (\<exists>r. key = p @ r)"
proof -
  assume p: "\<forall>c \<in> set p. \<not> glob_special c"
  have g: "glob_pieces (p @ ''*'') = map RLit p @ [RRun]"
    using glob_pieces_plain [OF p, of "''*''"] by (simp add: glob_pieces_star)
  have "rx_compiles (map RLit p @ [RRun])" by (simp add: rx_compiles_def list_all_iff)
  then show ?thesis
    using rx_test_lits [of p "[RRun]" key] rx_test_run [of "[]"] by (simp add: globMatch_def g)
qed

end
