(* ===== verification/Kv_Store.thy ===== *)
theory Kv_Store
  imports Js_Map Kv_Glob
begin

text \<open>
  \<open>src/lib/kv/memory.ts\<close>: the in-process stand-in for the commands of Redis that the gateway uses.
  \<open>Store\<close> is synchronous, so an operation is a function from the store to a value or an exception
  and the new store; \<open>now\<close> is what \<open>Date.now()\<close> answers while it runs. A key past its expiry is
  dropped when it is next touched: \<open>view\<close> is what a client can see, and the laws of every
  operation are stated over it.
\<close>

datatype kv_value = VStr string | VSet "string list"

record kv_entry =
  val_of :: kv_value
  expires_at :: "int option"

type_synonym store = "(string, kv_entry) jsmap"

datatype kv_error = WRONGTYPE | NotAnInteger | NotAFloat | PatternSyntax

type_synonym 'a kv = "(store, kv_error, 'a) run"

definition expired :: "int \<Rightarrow> kv_entry \<Rightarrow> bool" where
  "expired now e = (case expires_at e of None \<Rightarrow> False | Some t \<Rightarrow> t \<le> now)"

definition store_set :: "string \<Rightarrow> kv_entry \<Rightarrow> store \<Rightarrow> store" where
  "store_set k e s = AList.update k e s"

definition store_delete :: "string \<Rightarrow> store \<Rightarrow> store" where
  "store_delete k s = AList.delete k s"

subsection \<open>Operations\<close>

definition live :: "int \<Rightarrow> string \<Rightarrow> kv_entry option kv" where
  "live now k s = (case map_of s k of
       None \<Rightarrow> (Inr None, s)
     | Some e \<Rightarrow> if expired now e then (Inr None, store_delete k s) else (Inr (Some e), s))"

definition asString :: "int \<Rightarrow> string \<Rightarrow> string option kv" where
  "asString now k = bind_m (live now k) (\<lambda>e. case e of
       None \<Rightarrow> return_m None
     | Some e \<Rightarrow> (case val_of e of VSet _ \<Rightarrow> throw_m WRONGTYPE | VStr v \<Rightarrow> return_m (Some v)))"

definition asSet :: "int \<Rightarrow> string \<Rightarrow> string list option kv" where
  "asSet now k = bind_m (live now k) (\<lambda>e. case e of
       None \<Rightarrow> return_m None
     | Some e \<Rightarrow> (case val_of e of VSet xs \<Rightarrow> return_m (Some xs) | VStr _ \<Rightarrow> throw_m WRONGTYPE))"

definition sweep :: "int \<Rightarrow> store \<Rightarrow> store" where
  "sweep now s = filter (\<lambda>(k, e). \<not> expired now e) s"

definition kv_size :: "int \<Rightarrow> nat kv" where
  "kv_size now s = (Inr (length (sweep now s)), sweep now s)"

definition kv_get :: "int \<Rightarrow> string \<Rightarrow> string option kv" where
  "kv_get now k = asString now k"

fun kv_mget :: "int \<Rightarrow> string list \<Rightarrow> string option list kv" where
  "kv_mget now [] = return_m []"
| "kv_mget now (k # ks) = bind_m (asString now k) (\<lambda>v. bind_m (kv_mget now ks) (\<lambda>vs. return_m (v # vs)))"

text \<open>The option words of SET, with their numbers already read.\<close>

datatype set_opt = OptEX int | OptPX int | OptNX | OptXX | OptKEEPTTL

record set_flags =
  f_ttl :: "int option"
  f_nx :: bool
  f_keep :: bool

text \<open>The option loop; \<open>None\<close> is the early return of \<open>XX\<close> on an absent key.\<close>

fun set_options :: "int \<Rightarrow> string \<Rightarrow> set_opt list \<Rightarrow> set_flags \<Rightarrow> set_flags option kv" where
  "set_options now k [] f = return_m (Some f)"
| "set_options now k (OptEX n # os) f = set_options now k os (f\<lparr>f_ttl := Some (n * 1000)\<rparr>)"
| "set_options now k (OptPX n # os) f = set_options now k os (f\<lparr>f_ttl := Some n\<rparr>)"
| "set_options now k (OptNX # os) f = set_options now k os (f\<lparr>f_nx := True\<rparr>)"
| "set_options now k (OptXX # os) f = bind_m (live now k) (\<lambda>e.
     if e = None then return_m None else set_options now k os f)"
| "set_options now k (OptKEEPTTL # os) f = set_options now k os (f\<lparr>f_keep := True\<rparr>)"

text \<open>\<open>True\<close> is the answer OK, \<open>False\<close> is null.\<close>

definition kv_set :: "int \<Rightarrow> string \<Rightarrow> string \<Rightarrow> set_opt list \<Rightarrow> bool kv" where
  "kv_set now k v opts =
     bind_m (set_options now k opts \<lparr>f_ttl = None, f_nx = False, f_keep = False\<rparr>) (\<lambda>r. case r of
         None \<Rightarrow> return_m False
       | Some f \<Rightarrow> bind_m (live now k) (\<lambda>existing.
           if f_nx f \<and> existing \<noteq> None then return_m False
           else (\<lambda>s. (Inr True, store_set k \<lparr>val_of = VStr v,
                  expires_at = (case f_ttl f of Some t \<Rightarrow> Some (now + t)
                    | None \<Rightarrow> if f_keep f then Option.bind existing expires_at else None)\<rparr> s))))"

fun kv_del :: "int \<Rightarrow> string list \<Rightarrow> nat kv" where
  "kv_del now [] = return_m 0"
| "kv_del now (k # ks) = bind_m (live now k) (\<lambda>e. \<lambda>s.
     bind_m (kv_del now ks) (\<lambda>n. return_m (if e = None then n else Suc n)) (store_delete k s))"

fun kv_exists :: "int \<Rightarrow> string list \<Rightarrow> nat kv" where
  "kv_exists now [] = return_m 0"
| "kv_exists now (k # ks) = bind_m (live now k) (\<lambda>e.
     bind_m (kv_exists now ks) (\<lambda>n. return_m (if e = None then n else Suc n)))"

text \<open>The expiry a write that is not a SET keeps: the raw entry's, read after \<open>asString\<close>.\<close>

definition kept_expiry :: "string \<Rightarrow> store \<Rightarrow> int option" where
  "kept_expiry k s = Option.bind (map_of s k) expires_at"

definition kv_incrby :: "int \<Rightarrow> string \<Rightarrow> rat \<Rightarrow> rat kv" where
  "kv_incrby now k n = bind_m (asString now k) (\<lambda>cur.
     case (case cur of None \<Rightarrow> Some 0 | Some t \<Rightarrow> js_Number t) of
       None \<Rightarrow> throw_m NotAnInteger
     | Some c \<Rightarrow> (\<lambda>s. (Inr (c + n), store_set k
          \<lparr>val_of = VStr (js_String (c + n)), expires_at = kept_expiry k s\<rparr> s)))"

definition kv_incr :: "int \<Rightarrow> string \<Rightarrow> rat kv" where
  "kv_incr now k = kv_incrby now k 1"

definition kv_decrby :: "int \<Rightarrow> string \<Rightarrow> rat \<Rightarrow> rat kv" where
  "kv_decrby now k n = kv_incrby now k (- n)"

definition kv_incrbyfloat :: "int \<Rightarrow> string \<Rightarrow> rat \<Rightarrow> string kv" where
  "kv_incrbyfloat now k n = bind_m (asString now k) (\<lambda>cur.
     case (case cur of None \<Rightarrow> Some 0 | Some t \<Rightarrow> js_parseFloat t) of
       None \<Rightarrow> throw_m NotAFloat
     | Some c \<Rightarrow> (\<lambda>s. let out = js_String (to_precision 15 (c + n)) in
          (Inr out, store_set k \<lparr>val_of = VStr out, expires_at = kept_expiry k s\<rparr> s)))"

definition kv_expire :: "int \<Rightarrow> string \<Rightarrow> int \<Rightarrow> bool kv" where
  "kv_expire now k secs = bind_m (live now k) (\<lambda>e. case e of
       None \<Rightarrow> return_m False
     | Some e \<Rightarrow> (\<lambda>s. (Inr True, store_set k (e\<lparr>expires_at := Some (now + secs * 1000)\<rparr>) s)))"

definition NO_SUCH_KEY :: int where "NO_SUCH_KEY = -2"
definition NO_EXPIRY :: int where "NO_EXPIRY = -1"

definition kv_ttl :: "int \<Rightarrow> string \<Rightarrow> int kv" where
  "kv_ttl now k = bind_m (live now k) (\<lambda>e. return_m (case e of
       None \<Rightarrow> NO_SUCH_KEY
     | Some e \<Rightarrow> (case expires_at e of None \<Rightarrow> NO_EXPIRY | Some t \<Rightarrow> ceil_div (t - now) 1000)))"

text \<open>Adding members in order; a set keeps the order of first insertion.\<close>

fun add_members :: "string list \<Rightarrow> string list \<Rightarrow> string list \<times> nat" where
  "add_members xs [] = (xs, 0)"
| "add_members xs (m # ms) = (if m \<in> set xs then add_members xs ms
     else map_prod id Suc (add_members (xs @ [m]) ms))"

fun del_members :: "string list \<Rightarrow> string list \<Rightarrow> string list \<times> nat" where
  "del_members xs [] = (xs, 0)"
| "del_members xs (m # ms) = (if m \<in> set xs
     then map_prod id Suc (del_members (filter (\<lambda>x. x \<noteq> m) xs) ms)
     else del_members xs ms)"

definition kv_sadd :: "int \<Rightarrow> string \<Rightarrow> string list \<Rightarrow> nat kv" where
  "kv_sadd now k ms = bind_m (asSet now k) (\<lambda>r. \<lambda>s.
     let (xs, n) = add_members (option_or r []) ms
     in (Inr n, store_set k \<lparr>val_of = VSet xs, expires_at = kept_expiry k s\<rparr> s))"

definition kv_srem :: "int \<Rightarrow> string \<Rightarrow> string list \<Rightarrow> nat kv" where
  "kv_srem now k ms = bind_m (asSet now k) (\<lambda>r. case r of
       None \<Rightarrow> return_m 0
     | Some xs \<Rightarrow> (\<lambda>s. let (ys, n) = del_members xs ms in
          (Inr n, if ys = [] then store_delete k s
             else store_set k \<lparr>val_of = VSet ys, expires_at = kept_expiry k s\<rparr> s)))"

definition kv_smembers :: "int \<Rightarrow> string \<Rightarrow> string list kv" where
  "kv_smembers now k = bind_m (asSet now k) (\<lambda>r. return_m (option_or r []))"

definition kv_sismember :: "int \<Rightarrow> string \<Rightarrow> string \<Rightarrow> bool kv" where
  "kv_sismember now k m = bind_m (asSet now k) (\<lambda>r. return_m (m \<in> set (option_or r [])))"

definition kv_scard :: "int \<Rightarrow> string \<Rightarrow> nat kv" where
  "kv_scard now k = bind_m (asSet now k) (\<lambda>r. return_m (length (option_or r [])))"

text \<open>
  One page of SCAN over the key list taken at its start. \<open>fuel\<close>-free: the walk is structural on
  the keys from the cursor on. A pattern that does not compile raises.
\<close>

fun scan_page :: "int \<Rightarrow> string \<Rightarrow> nat \<Rightarrow> string list \<Rightarrow> nat \<Rightarrow> string list \<Rightarrow> (nat \<times> string list) kv" where
  "scan_page now pat count [] i page = return_m (i, page)"
| "scan_page now pat count (k # ks) i page =
     (if count \<le> length page then return_m (i, page)
      else bind_m (live now k) (\<lambda>e. case e of
          None \<Rightarrow> scan_page now pat count ks (Suc i) page
        | Some _ \<Rightarrow> (case globMatch pat k of
            None \<Rightarrow> throw_m PatternSyntax
          | Some b \<Rightarrow> scan_page now pat count ks (Suc i) (if b then page @ [k] else page))))"

definition kv_scan :: "int \<Rightarrow> nat \<Rightarrow> string \<Rightarrow> nat \<Rightarrow> (string \<times> string list) kv" where
  "kv_scan now cursor pat count s0 =
     (let s = (if cursor = 0 then sweep now s0 else s0); keys = map fst s in
      bind_m (scan_page now pat count (drop cursor keys) cursor []) (\<lambda>(i, page).
        return_m (if length keys \<le> i then ''0'' else nat_string i, page)) s)"

definition approximateBytes :: "store \<Rightarrow> nat" where
  "approximateBytes s = sum_list (map (\<lambda>(k, e). length k * 2 +
     (case val_of e of VSet xs \<Rightarrow> sum_list (map (\<lambda>m. length m * 2) xs) | VStr v \<Rightarrow> length v * 2)) s)"

subsection \<open>What a client sees\<close>

definition view :: "int \<Rightarrow> store \<Rightarrow> string \<Rightarrow> kv_entry option" where
  "view now s k = (case map_of s k of
      None \<Rightarrow> None | Some e \<Rightarrow> if expired now e then None else Some e)"

definition purge :: "int \<Rightarrow> string \<Rightarrow> store \<Rightarrow> store" where
  "purge now k s = (case map_of s k of
      None \<Rightarrow> s | Some e \<Rightarrow> if expired now e then store_delete k s else s)"

lemma live_run [run_simps]: "live now k s = (Inr (view now s k), purge now k s)"
  by (simp add: live_def view_def purge_def split: option.split)

lemma map_of_store_set: "map_of (store_set k e s) = (map_of s)(k \<mapsto> e)"
  by (simp add: store_set_def update_conv')

lemma map_of_store_delete: "map_of (store_delete k s) = (map_of s)(k := None)"
  by (simp add: store_delete_def delete_conv')

lemma view_store_set:
  "view now (store_set k e s) = (view now s)(k := if expired now e then None else Some e)"
  by (rule ext) (simp add: view_def map_of_store_set)

lemma view_store_delete: "view now (store_delete k s) = (view now s)(k := None)"
  by (rule ext) (simp add: view_def map_of_store_delete)

lemma view_purge [simp]: "view now (purge now k s) = view now s"
  by (rule ext) (auto simp: purge_def view_def map_of_store_delete split: option.splits)

lemma map_of_purge [simp]: "map_of (purge now k s) k = view now s k"
  by (simp add: purge_def view_def map_of_store_delete split: option.split)

lemma kept_expiry_purge [simp]: "kept_expiry k (purge now k s) = Option.bind (view now s k) expires_at"
  by (simp add: kept_expiry_def)

text \<open>At one instant the store is a keyed map of the entries that are alive.\<close>

interpretation kvm: keyed_map "view now" store_set store_delete "\<lambda>e. \<not> expired now e" for now
  by unfold_locales (simp_all add: view_store_set view_store_delete)

end
