(* ===== verification/Kv_Laws.thy ===== *)
theory Kv_Laws
  imports Kv_Store
begin

text \<open>
  The laws of the store's operations, over \<open>view\<close>: how each command runs when the key holds the
  kind of value the command expects, what it leaves visible, and that every command keeps the
  store well formed. Components that use the store rest on these equations, not on the map.
\<close>

subsection \<open>Typed readings of a key\<close>

definition str_at :: "int \<Rightarrow> store \<Rightarrow> string \<Rightarrow> string option" where
  "str_at now s k = (case view now s k of
      Some e \<Rightarrow> (case val_of e of VStr v \<Rightarrow> Some v | VSet _ \<Rightarrow> None) | None \<Rightarrow> None)"

definition set_at :: "int \<Rightarrow> store \<Rightarrow> string \<Rightarrow> string list" where
  "set_at now s k = (case view now s k of
      Some e \<Rightarrow> (case val_of e of VSet xs \<Rightarrow> xs | VStr _ \<Rightarrow> []) | None \<Rightarrow> [])"

definition holds_str :: "int \<Rightarrow> store \<Rightarrow> string \<Rightarrow> bool" where
  "holds_str now s k = (case view now s k of
      Some e \<Rightarrow> (case val_of e of VStr _ \<Rightarrow> True | VSet _ \<Rightarrow> False) | None \<Rightarrow> True)"

definition holds_set :: "int \<Rightarrow> store \<Rightarrow> string \<Rightarrow> bool" where
  "holds_set now s k = (case view now s k of
      Some e \<Rightarrow> (case val_of e of VSet _ \<Rightarrow> True | VStr _ \<Rightarrow> False) | None \<Rightarrow> True)"

definition expiry_at :: "int \<Rightarrow> store \<Rightarrow> string \<Rightarrow> int option" where
  "expiry_at now s k = Option.bind (view now s k) expires_at"

text \<open>The number a counter key holds; an absent key counts as 0.\<close>

definition counter_at :: "int \<Rightarrow> store \<Rightarrow> string \<Rightarrow> rat option" where
  "counter_at now s k = (case str_at now s k of None \<Rightarrow> Some 0 | Some t \<Rightarrow> js_Number t)"

lemma view_expiry_alive: "expiry_at now s k = Some t \<Longrightarrow> now < t"
  by (auto simp: expiry_at_def view_def expired_def split: option.splits if_splits)

lemma holds_str_view:
  "holds_str now s k \<Longrightarrow> (view now s k = None \<and> str_at now s k = None) \<or>
     (\<exists>v x. view now s k = Some \<lparr>val_of = VStr v, expires_at = x\<rparr> \<and> str_at now s k = Some v)"
proof -
  assume h: "holds_str now s k"
  show ?thesis
  proof (cases "view now s k")
    case None
    then show ?thesis by (simp add: str_at_def)
  next
    case (Some e)
    then show ?thesis using h
      by (cases e; cases "val_of e") (auto simp: holds_str_def str_at_def)
  qed
qed

lemma view_eq_typed:
  assumes "view now s = view now s'"
  shows "str_at now s k = str_at now s' k" "set_at now s k = set_at now s' k"
    "holds_str now s k = holds_str now s' k" "holds_set now s k = holds_set now s' k"
    "expiry_at now s k = expiry_at now s' k" "counter_at now s k = counter_at now s' k"
  by (simp_all add: assms str_at_def set_at_def holds_str_def holds_set_def expiry_at_def counter_at_def)

lemma typed_purge [simp]:
  "str_at now (purge now k' s) k = str_at now s k" "set_at now (purge now k' s) k = set_at now s k"
  "holds_str now (purge now k' s) k = holds_str now s k" "holds_set now (purge now k' s) k = holds_set now s k"
  "expiry_at now (purge now k' s) k = expiry_at now s k" "counter_at now (purge now k' s) k = counter_at now s k"
  by (simp_all add: str_at_def set_at_def holds_str_def holds_set_def expiry_at_def counter_at_def)

lemma typed_store_set:
  "str_at now (store_set k e s) k' = (if k' = k then (if expired now e then None else
      (case val_of e of VStr v \<Rightarrow> Some v | VSet _ \<Rightarrow> None)) else str_at now s k')"
  "set_at now (store_set k e s) k' = (if k' = k then (if expired now e then [] else
      (case val_of e of VSet v \<Rightarrow> v | VStr _ \<Rightarrow> [])) else set_at now s k')"
  "holds_str now (store_set k e s) k' = (if k' = k then (expired now e \<or>
      (case val_of e of VStr v \<Rightarrow> True | VSet _ \<Rightarrow> False)) else holds_str now s k')"
  "holds_set now (store_set k e s) k' = (if k' = k then (expired now e \<or>
      (case val_of e of VSet v \<Rightarrow> True | VStr _ \<Rightarrow> False)) else holds_set now s k')"
  "expiry_at now (store_set k e s) k' = (if k' = k then (if expired now e then None else expires_at e)
      else expiry_at now s k')"
  by (simp_all add: str_at_def set_at_def holds_str_def holds_set_def expiry_at_def view_store_set)

lemma typed_store_delete:
  "str_at now (store_delete k s) k' = (if k' = k then None else str_at now s k')"
  "set_at now (store_delete k s) k' = (if k' = k then [] else set_at now s k')"
  "holds_str now (store_delete k s) k' = (k' = k \<or> holds_str now s k')"
  "holds_set now (store_delete k s) k' = (k' = k \<or> holds_set now s k')"
  "expiry_at now (store_delete k s) k' = (if k' = k then None else expiry_at now s k')"
  by (simp_all add: str_at_def set_at_def holds_str_def holds_set_def expiry_at_def view_store_delete)

lemmas typed_simps = typed_store_set typed_store_delete

lemma not_expired_kept [simp]: "expires_at e = expiry_at now s k \<Longrightarrow> \<not> expired now e"
  using view_expiry_alive [of now s k] by (auto simp: expired_def split: option.splits)

lemma not_expired_forever [simp]: "expires_at e = None \<Longrightarrow> \<not> expired now e"
  by (simp add: expired_def)

lemma not_expired_future [simp]: "expires_at e = Some t \<Longrightarrow> now < t \<Longrightarrow> \<not> expired now e"
  by (simp add: expired_def)

subsection \<open>How the commands run\<close>

lemma asString_run: "asString now k s = (case view now s k of
     None \<Rightarrow> (Inr None, purge now k s)
   | Some e \<Rightarrow> (case val_of e of VSet _ \<Rightarrow> (Inl WRONGTYPE, purge now k s)
       | VStr v \<Rightarrow> (Inr (Some v), purge now k s)))"
  by (simp add: asString_def bind_m_def live_run return_m_def throw_m_def
      split: option.split kv_value.split)

lemma asSet_run: "asSet now k s = (case view now s k of
     None \<Rightarrow> (Inr None, purge now k s)
   | Some e \<Rightarrow> (case val_of e of VStr _ \<Rightarrow> (Inl WRONGTYPE, purge now k s)
       | VSet xs \<Rightarrow> (Inr (Some xs), purge now k s)))"
  by (simp add: asSet_def bind_m_def live_run return_m_def throw_m_def
      split: option.split kv_value.split)

lemma asString_str: "holds_str now s k \<Longrightarrow> asString now k s = (Inr (str_at now s k), purge now k s)"
  by (auto simp: asString_run holds_str_def str_at_def split: option.splits kv_value.splits)

lemma kv_get_run [run_simps]: "holds_str now s k \<Longrightarrow> kv_get now k s = (Inr (str_at now s k), purge now k s)"
  by (simp add: kv_get_def asString_str)

lemma asSet_set: "holds_set now s k \<Longrightarrow> asSet now k s =
    (Inr (map_option (\<lambda>_. set_at now s k) (view now s k)), purge now k s)"
  by (auto simp: asSet_run holds_set_def set_at_def split: option.splits kv_value.splits)

lemma kv_incrby_run [run_simps]:
  assumes "holds_str now s k" and "counter_at now s k = Some c"
  shows "kv_incrby now k n s = (Inr (c + n), store_set k
     \<lparr>val_of = VStr (js_String (c + n)), expires_at = expiry_at now s k\<rparr> (purge now k s))"
  using assms by (simp add: kv_incrby_def bind_m_def asString_str counter_at_def expiry_at_def
      split: option.splits)

lemma kv_incr_run [run_simps]:
  assumes "holds_str now s k" and "counter_at now s k = Some c"
  shows "kv_incr now k s = (Inr (c + 1), store_set k
     \<lparr>val_of = VStr (js_String (c + 1)), expires_at = expiry_at now s k\<rparr> (purge now k s))"
  using kv_incrby_run [OF assms] by (simp add: kv_incr_def)

lemma kv_expire_run [run_simps]: "kv_expire now k secs s = (case view now s k of
     None \<Rightarrow> (Inr False, purge now k s)
   | Some e \<Rightarrow> (Inr True, store_set k (e\<lparr>expires_at := Some (now + secs * 1000)\<rparr>) (purge now k s)))"
  by (simp add: kv_expire_def bind_m_def live_run return_m_def split: option.split)

lemma kv_ttl_run [run_simps]: "kv_ttl now k s = (Inr (case view now s k of
     None \<Rightarrow> NO_SUCH_KEY
   | Some e \<Rightarrow> (case expires_at e of None \<Rightarrow> NO_EXPIRY | Some t \<Rightarrow> ceil_div (t - now) 1000)), purge now k s)"
  by (simp add: kv_ttl_def bind_m_def live_run return_m_def)

lemma kv_set_ex_run [run_simps]: "kv_set now k v [OptEX n] s =
    (Inr True, store_set k \<lparr>val_of = VStr v, expires_at = Some (now + n * 1000)\<rparr> (purge now k s))"
  by (simp add: kv_set_def bind_m_def live_run return_m_def)

lemma kv_set_nx_run [run_simps]: "kv_set now k v [OptNX, OptEX n] s =
    (if view now s k \<noteq> None then (Inr False, purge now k s)
     else (Inr True, store_set k \<lparr>val_of = VStr v, expires_at = Some (now + n * 1000)\<rparr> (purge now k s)))"
  by (simp add: kv_set_def bind_m_def live_run return_m_def)

lemma kv_set_ex_nx_run [run_simps]: "kv_set now k v [OptEX n, OptNX] s =
    (if view now s k \<noteq> None then (Inr False, purge now k s)
     else (Inr True, store_set k \<lparr>val_of = VStr v, expires_at = Some (now + n * 1000)\<rparr> (purge now k s)))"
  by (simp add: kv_set_def bind_m_def live_run return_m_def)

lemma kv_sismember_run [run_simps]: "holds_set now s k \<Longrightarrow>
    kv_sismember now k m s = (Inr (m \<in> set (set_at now s k)), purge now k s)"
  by (cases "view now s k") (auto simp: kv_sismember_def bind_m_def asSet_set return_m_def set_at_def)

lemma kv_scard_run [run_simps]: "holds_set now s k \<Longrightarrow>
    kv_scard now k s = (Inr (length (set_at now s k)), purge now k s)"
  by (cases "view now s k") (auto simp: kv_scard_def bind_m_def asSet_set return_m_def set_at_def)

lemma kv_sadd_run [run_simps]: "holds_set now s k \<Longrightarrow>
    kv_sadd now k ms s = (Inr (snd (add_members (set_at now s k) ms)), store_set k
      \<lparr>val_of = VSet (fst (add_members (set_at now s k) ms)), expires_at = expiry_at now s k\<rparr> (purge now k s))"
  by (cases "view now s k") (auto simp: kv_sadd_def bind_m_def asSet_set set_at_def expiry_at_def
      split: prod.splits)

lemma kv_del_cons_run: "kv_del now (k # ks) s = (case kv_del now ks (store_delete k (purge now k s)) of
      (Inl e, s') \<Rightarrow> (Inl e, s')
    | (Inr n, s') \<Rightarrow> (Inr (if view now s k = None then n else Suc n), s'))"
  by (simp add: bind_m_def live_run return_m_def split: prod.split sum.split)

lemma kv_del_view:
  "\<exists>n s'. kv_del now ks s = (Inr n, s') \<and>
     view now s' = (\<lambda>k. if k \<in> set ks then None else view now s k) \<and>
     (distinct ks \<longrightarrow> n = length (filter (\<lambda>k. view now s k \<noteq> None) ks))"
proof (induction ks arbitrary: s)
  case Nil
  then show ?case by (simp add: return_m_def)
next
  case (Cons k ks)
  let ?t = "store_delete k (purge now k s)"
  from Cons.IH [of ?t] obtain n s' where r: "kv_del now ks ?t = (Inr n, s')"
    and v: "view now s' = (\<lambda>k. if k \<in> set ks then None else view now ?t k)"
    and c: "distinct ks \<longrightarrow> n = length (filter (\<lambda>k. view now ?t k \<noteq> None) ks)" by blast
  have vt: "view now ?t = (view now s)(k := None)" by (simp add: view_store_delete)
  have f: "k \<notin> set ks \<Longrightarrow> filter (\<lambda>k. view now ?t k \<noteq> None) ks = filter (\<lambda>k. view now s k \<noteq> None) ks"
    by (rule filter_cong) (auto simp: vt)
  show ?case using r v c f by (auto simp: kv_del_cons_run vt fun_eq_iff simp del: kv_del.simps)
qed

lemma kv_del_typed:
  assumes "kv_del now ks s = (Inr n, s')"
  shows "view now s' = (\<lambda>k. if k \<in> set ks then None else view now s k)"
  using kv_del_view [of now ks s] assms by auto

subsection \<open>A well-formed store\<close>

definition entry_ok :: "kv_entry \<Rightarrow> bool" where
  "entry_ok e = (case val_of e of VStr _ \<Rightarrow> True | VSet xs \<Rightarrow> distinct xs)"

definition store_ok :: "store \<Rightarrow> bool" where
  "store_ok s \<longleftrightarrow> jsmap_ok s \<and> (\<forall>k e. map_of s k = Some e \<longrightarrow> entry_ok e)"

lemma store_ok_set [intro]: "store_ok s \<Longrightarrow> entry_ok e \<Longrightarrow> store_ok (store_set k e s)"
  by (auto simp: store_ok_def store_set_def update_conv')

lemma store_ok_delete [intro]: "store_ok s \<Longrightarrow> store_ok (store_delete k s)"
  by (auto simp: store_ok_def store_delete_def delete_conv' split: if_splits)

lemma store_ok_purge [intro]: "store_ok s \<Longrightarrow> store_ok (purge now k s)"
  by (simp add: purge_def store_ok_delete split: option.split)

lemma store_ok_view: "store_ok s \<Longrightarrow> view now s k = Some e \<Longrightarrow> entry_ok e"
  by (auto simp: store_ok_def view_def split: option.splits if_splits)

lemma add_members_distinct: "distinct xs \<Longrightarrow> distinct (fst (add_members xs ms))"
  by (induction xs ms rule: add_members.induct) simp_all

lemma add_members_mem: "x \<in> set (fst (add_members xs ms)) \<longleftrightarrow> x \<in> set xs \<or> x \<in> set ms"
  by (induction xs ms rule: add_members.induct) auto

lemma add_members_count: "length (fst (add_members xs ms)) = length xs + snd (add_members xs ms)"
  by (induction xs ms rule: add_members.induct) simp_all

lemma del_members_distinct: "distinct xs \<Longrightarrow> distinct (fst (del_members xs ms))"
  by (induction xs ms rule: del_members.induct) simp_all

lemma del_members_mem: "x \<in> set (fst (del_members xs ms)) \<longleftrightarrow> x \<in> set xs \<and> x \<notin> set ms"
  by (induction xs ms rule: del_members.induct) auto

lemma set_at_distinct: "store_ok s \<Longrightarrow> distinct (set_at now s k)"
proof (cases "view now s k")
  case (Some e)
  moreover assume "store_ok s"
  ultimately have "entry_ok e" by (simp add: store_ok_view)
  with Some show ?thesis by (cases "val_of e") (simp_all add: set_at_def entry_ok_def)
qed (simp add: set_at_def)

lemma length_set_at: "store_ok s \<Longrightarrow> card (set (set_at now s k)) = length (set_at now s k)"
  by (simp add: distinct_card set_at_distinct)

end
