(* ===== verification/Kv_Commands.thy ===== *)
theory Kv_Commands
  imports Kv_Laws
begin

text \<open>
  The command surface of \<open>MemoryKv\<close> (\<open>src/lib/kv/memory.ts\<close>) as data, the queued commands of
  MULTI/EXEC, and the keyspace walks of \<open>src/lib/redisScan.ts\<close>. The promise layer adds nothing but
  the promise and is not modelled; neither are PING, INFO and the connection events.
\<close>

subsection \<open>Commands as data\<close>

datatype kv_cmd =
    CGet string
  | CMget "string list"
  | CSet string string "set_opt list"
  | CDel "string list"
  | CExists "string list"
  | CIncrby string rat
  | CDecrby string rat
  | CIncrbyfloat string rat
  | CExpire string int
  | CTtl string
  | CSadd string "string list"
  | CSrem string "string list"
  | CSmembers string
  | CSismember string string
  | CScard string
  | CScan nat string nat

datatype kv_reply =
    RText "string option"
  | RTexts "string option list"
  | RNum rat
  | RInt int
  | RFlag bool
  | RMembers "string list"
  | RPage string "string list"

definition kv_command :: "int \<Rightarrow> kv_cmd \<Rightarrow> kv_reply kv" where
  "kv_command now c = (case c of
       CGet k \<Rightarrow> bind_m (kv_get now k) (\<lambda>v. return_m (RText v))
     | CMget ks \<Rightarrow> bind_m (kv_mget now ks) (\<lambda>vs. return_m (RTexts vs))
     | CSet k v os \<Rightarrow> bind_m (kv_set now k v os) (\<lambda>b. return_m (RFlag b))
     | CDel ks \<Rightarrow> bind_m (kv_del now ks) (\<lambda>n. return_m (RInt (int n)))
     | CExists ks \<Rightarrow> bind_m (kv_exists now ks) (\<lambda>n. return_m (RInt (int n)))
     | CIncrby k n \<Rightarrow> bind_m (kv_incrby now k n) (\<lambda>r. return_m (RNum r))
     | CDecrby k n \<Rightarrow> bind_m (kv_decrby now k n) (\<lambda>r. return_m (RNum r))
     | CIncrbyfloat k n \<Rightarrow> bind_m (kv_incrbyfloat now k n) (\<lambda>t. return_m (RText (Some t)))
     | CExpire k n \<Rightarrow> bind_m (kv_expire now k n) (\<lambda>b. return_m (RFlag b))
     | CTtl k \<Rightarrow> bind_m (kv_ttl now k) (\<lambda>n. return_m (RInt n))
     | CSadd k ms \<Rightarrow> bind_m (kv_sadd now k ms) (\<lambda>n. return_m (RInt (int n)))
     | CSrem k ms \<Rightarrow> bind_m (kv_srem now k ms) (\<lambda>n. return_m (RInt (int n)))
     | CSmembers k \<Rightarrow> bind_m (kv_smembers now k) (\<lambda>ms. return_m (RMembers ms))
     | CSismember k m \<Rightarrow> bind_m (kv_sismember now k m) (\<lambda>b. return_m (RFlag b))
     | CScard k \<Rightarrow> bind_m (kv_scard now k) (\<lambda>n. return_m (RInt (int n)))
     | CScan c p n \<Rightarrow> bind_m (kv_scan now c p n) (\<lambda>(c', page). return_m (RPage c' page)))"

text \<open>A history: commands with the instants at which they ran.\<close>

fun kv_history :: "(int \<times> kv_cmd) list \<Rightarrow> store \<Rightarrow> store" where
  "kv_history [] s = s"
| "kv_history ((now, c) # cs) s = kv_history cs (snd (kv_command now c s))"

text \<open>EXEC: every queued command runs, an exception is that command's answer.\<close>

fun multi_exec :: "int \<Rightarrow> kv_cmd list \<Rightarrow> store \<Rightarrow> (kv_error + kv_reply) list \<times> store" where
  "multi_exec now [] s = ([], s)"
| "multi_exec now (c # cs) s = (case kv_command now c s of (r, s') \<Rightarrow>
     (case multi_exec now cs s' of (rs, s'') \<Rightarrow> (r # rs, s'')))"

subsection \<open>Every command keeps the store well formed\<close>

text \<open>A computation keeps a property of the state, whether it returns or raises.\<close>

definition keeps :: "('s \<Rightarrow> bool) \<Rightarrow> ('s, 'e, 'a) run \<Rightarrow> bool" where
  "keeps P m \<longleftrightarrow> (\<forall>s. P s \<longrightarrow> P (snd (m s)))"

lemma keeps_return [intro, simp]: "keeps P (return_m x)"
  by (simp add: keeps_def return_m_def)

lemma keeps_throw [intro, simp]: "keeps P (throw_m e)"
  by (simp add: keeps_def throw_m_def)

lemma keeps_bind [intro]: "keeps P m \<Longrightarrow> (\<And>x. keeps P (f x)) \<Longrightarrow> keeps P (bind_m m f)"
proof -
  assume m: "keeps P m" and f: "\<And>x. keeps P (f x)"
  show "keeps P (bind_m m f)"
    unfolding keeps_def
  proof (intro allI impI)
    fix s assume "P s"
    with m have p: "P (snd (m s))" by (simp add: keeps_def)
    show "P (snd (bind_m m f s))"
    proof (cases "m s")
      case (Pair r s')
      with p f show ?thesis by (cases r) (simp_all add: bind_m_def keeps_def)
    qed
  qed
qed

lemma keeps_step: "(\<And>s. P s \<Longrightarrow> P (snd (m s))) \<Longrightarrow> keeps P m"
  by (simp add: keeps_def)

lemma keeps_live [intro, simp]: "keeps store_ok (live now k)"
  by (rule keeps_step) (simp add: live_run store_ok_purge)

lemma keeps_asString [intro, simp]: "keeps store_ok (asString now k)"
  unfolding asString_def by (intro keeps_bind) (auto split: option.split kv_value.split)

lemma keeps_set_options [intro, simp]: "keeps store_ok (set_options now k os f)"
  by (induction now k os f rule: set_options.induct) (auto split: if_split)

lemma keeps_kv_mget [intro, simp]: "keeps store_ok (kv_mget now ks)"
  by (induction ks) auto

lemma store_ok_str [intro]: "store_ok s \<Longrightarrow> store_ok (store_set k \<lparr>val_of = VStr v, expires_at = x\<rparr> s)"
  by (rule store_ok_set) (simp_all add: entry_ok_def)

lemma store_ok_members [intro]: "store_ok s \<Longrightarrow> distinct xs \<Longrightarrow>
    store_ok (store_set k \<lparr>val_of = VSet xs, expires_at = x\<rparr> s)"
  by (rule store_ok_set) (simp_all add: entry_ok_def)

lemma keeps_kv_set [intro, simp]: "keeps store_ok (kv_set now k v os)"
proof -
  have w: "keeps store_ok (\<lambda>s. (Inr True, store_set k \<lparr>val_of = VStr v, expires_at = x\<rparr> s))" for x
    by (rule keeps_step) auto
  show ?thesis
    unfolding kv_set_def by (intro keeps_bind) (auto split: option.split intro!: keeps_bind keeps_live w)
qed

lemma keeps_kv_incrby [intro, simp]: "keeps store_ok (kv_incrby now k n)"
  unfolding kv_incrby_def
  by (intro keeps_bind) (auto intro!: keeps_step split: option.split)

lemma keeps_kv_incrbyfloat [intro, simp]: "keeps store_ok (kv_incrbyfloat now k n)"
  unfolding kv_incrbyfloat_def
  by (intro keeps_bind) (auto intro!: keeps_step simp: Let_def split: option.split)

lemma keeps_kv_del [intro, simp]: "keeps store_ok (kv_del now ks)"
proof (induction ks)
  case (Cons k ks)
  have "keeps store_ok (\<lambda>s. bind_m (kv_del now ks) (\<lambda>n. return_m (f n)) (store_delete k s))" for f :: "nat \<Rightarrow> nat"
  proof (rule keeps_step)
    fix s assume "store_ok s"
    then have "store_ok (store_delete k s)" by blast
    moreover have "keeps store_ok (bind_m (kv_del now ks) (\<lambda>n. return_m (f n)))"
      using Cons.IH by blast
    ultimately show "store_ok (snd (bind_m (kv_del now ks) (\<lambda>n. return_m (f n)) (store_delete k s)))"
      by (simp add: keeps_def)
  qed
  then show ?case by (simp only: kv_del.simps) (rule keeps_bind, simp_all)
qed simp

lemma keeps_kv_exists [intro, simp]: "keeps store_ok (kv_exists now ks)"
  by (induction ks) auto

lemma keeps_kv_expire [intro, simp]: "keeps store_ok (kv_expire now k n)"
proof (rule keeps_step)
  fix s assume ok: "store_ok s"
  show "store_ok (snd (kv_expire now k n s))"
  proof (cases "view now s k")
    case None
    with ok show ?thesis by (simp add: kv_expire_run store_ok_purge)
  next
    case (Some e)
    with ok have "entry_ok e" by (simp add: store_ok_view)
    then have "entry_ok (e\<lparr>expires_at := Some (now + n * 1000)\<rparr>)" by (simp add: entry_ok_def)
    with ok Some show ?thesis by (simp add: kv_expire_run store_ok_purge store_ok_set)
  qed
qed

lemma asSet_cases:
  "(\<exists>e. asSet now k s = (Inl e, purge now k s)) \<or>
   (\<exists>r. asSet now k s = (Inr r, purge now k s) \<and> (\<forall>xs. r = Some xs \<longrightarrow> xs = set_at now s k) \<and>
        (r = None \<longrightarrow> set_at now s k = []))"
  by (simp add: asSet_run set_at_def split: option.split kv_value.split)

lemma keeps_asSet_bind:
  assumes "\<And>r s. store_ok s \<Longrightarrow> distinct (option_or r []) \<Longrightarrow> store_ok (snd (f r s))"
  shows "keeps store_ok (bind_m (asSet now k) f)"
proof (rule keeps_step)
  fix s assume ok: "store_ok s"
  from asSet_cases [of now k s]
  show "store_ok (snd (bind_m (asSet now k) f s))"
  proof (elim disjE exE conjE)
    fix e assume "asSet now k s = (Inl e, purge now k s)"
    then show ?thesis using ok by (simp add: bind_m_def store_ok_purge)
  next
    fix r assume r: "asSet now k s = (Inr r, purge now k s)" "\<forall>xs. r = Some xs \<longrightarrow> xs = set_at now s k"
    from ok have "distinct (set_at now s k)" by (rule set_at_distinct)
    with r have "distinct (option_or r [])" by (cases r) auto
    with r ok assms show ?thesis by (simp add: bind_m_def store_ok_purge)
  qed
qed

lemma keeps_kv_sadd [intro, simp]: "keeps store_ok (kv_sadd now k ms)"
  unfolding kv_sadd_def
  by (rule keeps_asSet_bind) (auto simp: case_prod_unfold Let_def intro!: store_ok_members add_members_distinct)

lemma keeps_kv_srem [intro, simp]: "keeps store_ok (kv_srem now k ms)"
  unfolding kv_srem_def
  by (rule keeps_asSet_bind)
    (auto simp: case_prod_unfold Let_def return_m_def intro!: store_ok_members del_members_distinct split: option.splits)

lemma keeps_set_readers [intro, simp]:
  "keeps store_ok (kv_smembers now k)" "keeps store_ok (kv_sismember now k m)" "keeps store_ok (kv_scard now k)"
  unfolding kv_smembers_def kv_sismember_def kv_scard_def
  by (rule keeps_asSet_bind, simp add: return_m_def)+

lemma keeps_scan_page [intro, simp]: "keeps store_ok (scan_page now p n ks i page)"
  by (induction now p n ks i page rule: scan_page.induct) (auto split: option.split)

lemma store_ok_sweep [intro]: "store_ok s \<Longrightarrow> store_ok (sweep now s)"
  by (auto simp: store_ok_def sweep_def map_of_filter [where P = "\<lambda>_ e. \<not> expired now e"] jsmap_ok_filter
      split: option.splits if_splits)

lemma keeps_kv_scan [intro, simp]: "keeps store_ok (kv_scan now c p n)"
proof (rule keeps_step)
  fix s assume ok: "store_ok s"
  define t where "t = (if c = 0 then sweep now s else s)"
  have t: "store_ok t" using ok by (auto simp: t_def)
  have "keeps store_ok (bind_m (scan_page now p n (drop c (map fst t)) c []) (\<lambda>(i, page).
      return_m (if length (map fst t) \<le> i then ''0'' else nat_string i, page)))"
    by (intro keeps_bind keeps_scan_page) (simp split: prod.split)
  with t show "store_ok (snd (kv_scan now c p n s))" by (simp add: kv_scan_def t_def keeps_def Let_def)
qed

lemma keeps_kv_command: "keeps store_ok (kv_command now c)"
  by (cases c) (auto simp: kv_command_def kv_get_def kv_decrby_def kv_ttl_def intro!: keeps_bind)

lemma kv_history_ok: "store_ok s \<Longrightarrow> store_ok (kv_history cs s)"
proof (induction cs arbitrary: s)
  case (Cons c cs)
  then show ?case using keeps_kv_command by (cases c) (simp add: keeps_def)
qed simp

lemma multi_exec_ok: "store_ok s \<Longrightarrow> store_ok (snd (multi_exec now cs s))"
proof (induction cs arbitrary: s)
  case (Cons c cs)
  obtain r s' where r: "kv_command now c s = (r, s')" by (meson surj_pair)
  have "store_ok s'" using keeps_kv_command [of now c] Cons.prems r by (auto simp: keeps_def)
  from Cons.IH [OF this] r show ?case by (simp add: case_prod_unfold)
qed simp

subsection \<open>Property\<close>


end
