(* ===== verification/Kv_Scan.thy ===== *)
theory Kv_Scan
  imports Kv_Commands
begin

text \<open>
  The keyspace walks of \<open>src/lib/redisScan.ts\<close> over the in-process store. The code's loop runs
  until the cursor comes back as \<open>0\<close>; the model gives it fuel, and \<open>delete_walk_returns\<close> shows
  that one unit per key of the store, and two more, is enough. The await points between a page
  and its UNLINK let other work in; the model runs the walk undisturbed.
\<close>

definition SCAN_PAGE :: nat where "SCAN_PAGE = 1000"

fun count_walk :: "nat \<Rightarrow> int \<Rightarrow> string \<Rightarrow> nat \<Rightarrow> string \<Rightarrow> nat \<Rightarrow> nat option kv" where
  "count_walk 0 now pat page cursor acc = return_m None"
| "count_walk (Suc f) now pat page cursor acc =
     bind_m (kv_scan now (digits_val cursor) pat page) (\<lambda>(next, keys).
       if next = ''0'' then return_m (Some (acc + length keys))
       else count_walk f now pat page next (acc + length keys))"

definition countKeys :: "nat \<Rightarrow> int \<Rightarrow> string \<Rightarrow> nat option kv" where
  "countKeys fuel now pat = count_walk fuel now pat SCAN_PAGE ''0'' 0"

definition doomed_keys :: "string list \<Rightarrow> string list \<Rightarrow> string list" where
  "doomed_keys keep keys = (if keep = [] then keys else filter (\<lambda>k. k \<notin> set keep) keys)"

definition delete_page :: "int \<Rightarrow> string list \<Rightarrow> string list \<Rightarrow> nat kv" where
  "delete_page now keep keys = (let doomed = doomed_keys keep keys in
     if doomed = [] then return_m 0 else kv_del now doomed)"

fun delete_walk ::
  "nat \<Rightarrow> int \<Rightarrow> string \<Rightarrow> nat \<Rightarrow> string list \<Rightarrow> string \<Rightarrow> nat \<Rightarrow> nat option kv" where
  "delete_walk 0 now pat page keep cursor deleted = return_m None"
| "delete_walk (Suc f) now pat page keep cursor deleted =
     bind_m (kv_scan now (digits_val cursor) pat page) (\<lambda>(next, keys).
       bind_m (delete_page now keep keys) (\<lambda>n.
         if next = ''0'' then return_m (Some (deleted + n))
         else delete_walk f now pat page keep next (deleted + n)))"

definition deleteKeys :: "nat \<Rightarrow> int \<Rightarrow> string \<Rightarrow> string list \<Rightarrow> nat option kv" where
  "deleteKeys fuel now pat keep = delete_walk fuel now pat SCAN_PAGE keep ''0'' 0"

subsection \<open>One page\<close>

definition all_alive :: "int \<Rightarrow> store \<Rightarrow> bool" where
  "all_alive now s \<longleftrightarrow> (\<forall>k \<in> fst ` set s. view now s k \<noteq> None)"

definition selected :: "string \<Rightarrow> string \<Rightarrow> bool" where
  "selected pat k = (globMatch pat k = Some True)"

definition compiles :: "string \<Rightarrow> bool" where
  "compiles pat = rx_compiles (glob_pieces pat)"

lemma globMatch_selected: "compiles pat \<Longrightarrow> globMatch pat k = Some (selected pat k)"
  by (simp add: globMatch_def compiles_def selected_def Let_def)

lemma purge_alive: "view now s k \<noteq> None \<Longrightarrow> purge now k s = s"
  by (auto simp: purge_def view_def split: option.splits if_splits)

lemma scan_page_alive:
  assumes "compiles pat" and "\<forall>k \<in> set ks. view now s k \<noteq> None"
    and "length page + length ks \<le> count"
  shows "scan_page now pat count ks i page s =
    (Inr (i + length ks, page @ filter (selected pat) ks), s)"
  using assms(2,3)
proof (induction ks arbitrary: i page)
  case Nil
  then show ?case by (simp add: return_m_def)
next
  case (Cons k ks)
  then obtain e where e: "view now s k = Some e" by auto
  from e have "purge now k s = s" by (simp add: purge_alive)
  with e Cons show ?case
    by (simp add: bind_m_def live_run globMatch_selected [OF assms(1)])
qed

lemma map_of_sweep: "jsmap_ok s \<Longrightarrow> map_of (sweep now s) = view now s"
  by (rule ext) (simp add: view_def sweep_def map_of_filter [where P = "\<lambda>_ e. \<not> expired now e"]
      split: option.split)

lemma view_sweep: "jsmap_ok s \<Longrightarrow> view now (sweep now s) = view now s"
  by (rule ext) (auto simp: view_def [of now "sweep now s"] map_of_sweep view_def [of now s] split: option.split)

lemma sweep_keys: "jsmap_ok s \<Longrightarrow> set (map fst (sweep now s)) = {k. view now s k \<noteq> None}"
  using dom_map_of_conv_image_fst [of "sweep now s"] by (simp add: map_of_sweep dom_def)

lemma sweep_keys_alive: "jsmap_ok s \<Longrightarrow> all_alive now (sweep now s)"
  using sweep_keys [of s now] by (simp add: all_alive_def view_sweep)

lemma kv_scan_one_page:
  assumes "jsmap_ok s" and "compiles pat" and "length (sweep now s) \<le> count"
  shows "kv_scan now 0 pat count s =
    (Inr (''0'', filter (selected pat) (map fst (sweep now s))), sweep now s)"
proof -
  have "\<forall>k \<in> set (map fst (sweep now s)). view now (sweep now s) k \<noteq> None"
    using sweep_keys_alive [OF assms(1)] by (simp add: all_alive_def)
  from scan_page_alive [OF assms(2) this, of "[]" count 0] assms(3)
  show ?thesis by (simp add: kv_scan_def bind_m_def return_m_def Let_def)
qed

subsection \<open>The walk returns\<close>

lemma length_store_delete: "length (store_delete k s) \<le> length s"
  by (simp add: store_delete_def length_delete_le)

lemma length_purge: "length (purge now k s) \<le> length s"
  by (simp add: purge_def length_store_delete split: option.split)

lemma length_kv_del: "length (snd (kv_del now ks s)) \<le> length s"
proof (induction ks arbitrary: s)
  case (Cons k ks)
  have "length (snd (kv_del now ks (store_delete k (purge now k s)))) \<le> length s"
    using Cons.IH [of "store_delete k (purge now k s)"]
      length_store_delete [of k "purge now k s"] length_purge [of now k s] by linarith
  then show ?case
    by (simp add: kv_del_cons_run case_prod_unfold del: kv_del.simps split: sum.split)
qed (simp add: return_m_def)

lemma scan_page_progress:
  assumes "scan_page now pat count ks i page s = (Inr (j, out), s')"
  shows "i \<le> j \<and> length s' \<le> length s \<and> (ks \<noteq> [] \<and> length page < count \<longrightarrow> i < j)"
  using assms
proof (induction ks arbitrary: i page s)
  case Nil
  then show ?case by (simp add: return_m_def)
next
  case (Cons k ks)
  show ?case
  proof (cases "count \<le> length page")
    case True
    with Cons.prems show ?thesis by (simp add: return_m_def)
  next
    case False
    let ?s = "purge now k s"
    have ls: "length ?s \<le> length s" by (rule length_purge)
    from False Cons.prems obtain page' where
      "scan_page now pat count ks (Suc i) page' ?s = (Inr (j, out), s')"
      by (auto simp: bind_m_def live_run throw_m_def split: option.splits if_splits)
    from Cons.IH [OF this] ls show ?thesis by simp
  qed
qed

lemma kv_scan_progress:
  assumes "kv_scan now c pat count s = (Inr (next, out), s')" and "0 < count" and "next \<noteq> ''0''"
  shows "length s' \<le> length s \<and> c < digits_val next \<and> digits_val next < length s"
proof -
  define t where "t = (if c = 0 then sweep now s else s)"
  have lt: "length t \<le> length s" by (simp add: t_def sweep_def)
  from assms(1) obtain j where
    j: "scan_page now pat count (drop c (map fst t)) c [] t = (Inr (j, out), s')"
      "next = (if length t \<le> j then ''0'' else nat_string j)"
    by (auto simp: kv_scan_def t_def Let_def bind_m_def return_m_def split: prod.splits sum.splits)
  from j(2) assms(3) have "j < length t" "digits_val next = j" "next = nat_string j"
    by (auto simp: digits_val_nat_string split: if_splits)
  moreover from scan_page_progress [OF j(1)] have "c \<le> j" "length s' \<le> length t"
    "drop c (map fst t) \<noteq> [] \<longrightarrow> c < j" using assms(2) by auto
  ultimately show ?thesis using lt by auto
qed

lemma delete_page_run:
  "\<exists>n s'. delete_page now keep keys s = (Inr n, s') \<and> length s' \<le> length s \<and>
     view now s' = (\<lambda>k. if k \<in> set (doomed_keys keep keys) then None else view now s k)"
proof (cases "doomed_keys keep keys = []")
  case True
  then show ?thesis by (simp add: delete_page_def return_m_def)
next
  case False
  then show ?thesis
    using kv_del_view [of now "doomed_keys keep keys" s] length_kv_del [of now "doomed_keys keep keys" s]
    by (auto simp: delete_page_def Let_def)
qed

lemma delete_walk_returns:
  assumes "0 < page" and "length s - digits_val cursor < fuel"
  shows "fst (delete_walk fuel now pat page keep cursor n s) \<noteq> Inr None"
  using assms(2)
proof (induction fuel arbitrary: cursor n s)
  case (Suc f)
  obtain r s1 where scan: "kv_scan now (digits_val cursor) pat page s = (r, s1)" by (meson surj_pair)
  show ?case
  proof (cases r)
    case (Inl e)
    with scan show ?thesis by (simp add: bind_m_def)
  next
    case (Inr p)
    obtain nxt keys where p: "p = (nxt, keys)" by (cases p)
    obtain m s2 where m: "delete_page now keep keys s1 = (Inr m, s2)" "length s2 \<le> length s1"
      using delete_page_run by blast
    have run: "delete_walk (Suc f) now pat page keep cursor n s =
      (if nxt = ''0'' then return_m (Some (n + m))
       else delete_walk f now pat page keep nxt (n + m)) s2"
      using m by (simp add: bind_m_def scan Inr p)
    show ?thesis
    proof (cases "nxt = ''0''")
      case True
      then show ?thesis by (simp add: run return_m_def del: delete_walk.simps)
    next
      case False
      from kv_scan_progress [OF _ assms(1) False, of now "digits_val cursor" pat s keys s1] scan Inr p
      have "length s1 \<le> length s" "digits_val cursor < digits_val nxt" "digits_val nxt < length s" by auto
      with Suc.prems m have "length s2 - digits_val nxt < f" by linarith
      from Suc.IH [OF this] False show ?thesis by (simp add: run del: delete_walk.simps)
    qed
  qed
qed simp

subsection \<open>Which keys a walk removes\<close>

text \<open>A walk of one page: every visible key the pattern selects is gone, the spared ones stay.\<close>

lemma delete_walk_one_page:
  assumes "jsmap_ok s" and "compiles pat" and "length (sweep now s) \<le> page"
  shows "\<exists>n s'. delete_walk (Suc f) now pat page keep ''0'' 0 s = (Inr (Some n), s') \<and>
    view now s' = (\<lambda>k. if selected pat k \<and> k \<notin> set keep then None else view now s k)"
proof -
  let ?keys = "filter (selected pat) (map fst (sweep now s))"
  obtain n s' where d: "delete_page now keep ?keys (sweep now s) = (Inr n, s')"
    and v: "view now s' = (\<lambda>k. if k \<in> set (doomed_keys keep ?keys) then None else view now s k)"
    using delete_page_run [of now keep ?keys "sweep now s"] unfolding view_sweep [OF assms(1)] by blast
  have dig: "digits_val ''0'' = 0" by (simp add: digits_val_def digit_val_def)
  have run: "delete_walk (Suc f) now pat page keep ''0'' 0 s = (Inr (Some n), s')"
    using kv_scan_one_page [OF assms] d by (simp add: bind_m_def return_m_def dig)
  have mem: "k \<in> set (doomed_keys keep ?keys) \<longleftrightarrow> view now s k \<noteq> None \<and> selected pat k \<and> k \<notin> set keep" for k
    using sweep_keys [OF assms(1), of now] by (auto simp: doomed_keys_def)
  have "view now s' = (\<lambda>k. if selected pat k \<and> k \<notin> set keep then None else view now s k)"
    unfolding v by (rule ext) (simp add: mem)
  with run show ?thesis by blast
qed

text \<open>
  More than one page: the cursor is an index into the key list, and the keys that the first page
  removed no longer stand before it. With \<open>page + m\<close> keys, all alive and all selected, the walk
  ends after its second, empty page, and the last \<open>m\<close> keys are still there.
\<close>

lemma scan_page_full:
  assumes "compiles pat" and "\<forall>k \<in> set ks. view now s k \<noteq> None \<and> selected pat k"
    and "length page + length ks = count"
  shows "scan_page now pat count (ks @ rest) i page s = (Inr (i + length ks, page @ ks), s)"
  using assms(2,3)
proof (induction ks arbitrary: i page)
  case Nil
  then show ?case by (cases rest) (simp_all add: return_m_def)
next
  case (Cons k ks)
  then obtain e where e: "view now s k = Some e" by auto
  from e have "purge now k s = s" by (simp add: purge_alive)
  with e Cons show ?case
    by (simp add: bind_m_def live_run globMatch_selected [OF assms(1)])
qed

lemma store_deletes: "fold store_delete ks s = filter (\<lambda>p. fst p \<notin> set ks) s"
proof (induction ks arbitrary: s)
  case (Cons k ks)
  then show ?case
    by (auto simp: store_delete_def AList.delete_eq case_prod_unfold intro: filter_cong)
qed simp

lemma kv_del_alive:
  assumes "distinct ks" and "\<forall>k \<in> set ks. view now s k \<noteq> None"
  shows "kv_del now ks s = (Inr (length ks), fold store_delete ks s)"
  using assms
proof (induction ks arbitrary: s)
  case (Cons k ks)
  have "\<forall>k' \<in> set ks. view now (store_delete k s) k' \<noteq> None"
    using Cons.prems by (auto simp: view_store_delete)
  with Cons show ?case
    by (simp add: kv_del_cons_run purge_alive del: kv_del.simps)
qed (simp add: return_m_def)

lemma sweep_alive: "jsmap_ok s \<Longrightarrow> all_alive now s \<Longrightarrow> sweep now s = s"
  unfolding sweep_def
proof (rule filter_True, intro ballI)
  fix x assume "jsmap_ok s" "all_alive now s" "x \<in> set s"
  moreover obtain k e where "x = (k, e)" by (cases x)
  ultimately have "map_of s k = Some e" "view now s k \<noteq> None"
    by (auto simp: jsmap_ok_def all_alive_def)
  with \<open>x = (k, e)\<close> show "case x of (k, e) \<Rightarrow> \<not> expired now e"
    by (auto simp: view_def split: if_splits)
qed

lemma filter_take_keys: "distinct (map fst s) \<Longrightarrow>
    filter (\<lambda>p. fst p \<notin> set (take n (map fst s))) s = drop n s"
proof (induction s arbitrary: n)
  case (Cons x s)
  show ?case
  proof (cases n)
    case 0
    then show ?thesis by simp
  next
    case (Suc n')
    have "\<forall>p \<in> set s. fst p \<noteq> fst x" using Cons.prems by (metis distinct.simps(2) imageI list.map(2) list.set_map)
    then have "filter (\<lambda>p. fst p \<notin> set (take n (map fst (x # s)))) (x # s)
      = filter (\<lambda>p. fst p \<notin> set (take n' (map fst s))) s"
      using Suc by (auto intro!: filter_cong)
    with Cons Suc show ?thesis by simp
  qed
qed simp

lemma digits_val_zero: "digits_val ''0'' = 0"
  by (simp add: digits_val_def digit_val_def)

lemma nat_string_not_zero: "0 < n \<Longrightarrow> nat_string n \<noteq> ''0''"
  using digits_val_nat_string [of n] digits_val_zero by (metis less_numeral_extra(3))

lemma delete_walk_two_pages:
  assumes "jsmap_ok s" and "compiles pat" and "all_alive now s"
    and sel: "\<forall>k \<in> fst ` set s. selected pat k"
    and len: "length s = page + m" "0 < m" "m \<le> page"
  shows "delete_walk (Suc (Suc f)) now pat page [] ''0'' 0 s = (Inr (Some page), drop page s)"
proof -
  let ?ks = "take page (map fst s)" and ?rest = "drop page (map fst s)"
  have lk: "length ?ks = page" using len by simp
  have split: "map fst s = ?ks @ ?rest" by simp
  have alive: "\<forall>k \<in> set ?ks. view now s k \<noteq> None \<and> selected pat k"
    using assms(3) sel by (auto simp: all_alive_def dest!: in_set_takeD)
  have d: "distinct (map fst s)" using assms(1) by (simp add: jsmap_ok_def)
  have p1: "kv_scan now 0 pat page s = (Inr (nat_string page, ?ks), s)"
    using scan_page_full [OF assms(2) alive, of "[]" page ?rest 0] lk len
    by (simp add: kv_scan_def sweep_alive assms(1,3) bind_m_def return_m_def Let_def)
  have del: "delete_page now [] ?ks s = (Inr page, drop page s)"
  proof -
    have "kv_del now ?ks s = (Inr page, fold store_delete ?ks s)"
      using kv_del_alive [of ?ks now s] alive d lk by (simp add: distinct_take)
    moreover have "fold store_delete ?ks s = drop page s"
      unfolding store_deletes by (rule filter_take_keys [OF d])
    moreover have "?ks \<noteq> []" using lk len by auto
    ultimately show ?thesis by (simp add: delete_page_def doomed_keys_def)
  qed
  have page: "0 < page" using len by simp
  have p2: "kv_scan now page pat page (drop page s) = (Inr (''0'', []), drop page s)"
    using page len by (simp add: kv_scan_def bind_m_def return_m_def Let_def)
  have "delete_page now [] [] (drop page s) = (Inr 0, drop page s)"
    by (simp add: delete_page_def doomed_keys_def return_m_def)
  then show ?thesis
    using p1 p2 del nat_string_not_zero [OF page]
    by (simp add: bind_m_def return_m_def digits_val_zero digits_val_nat_string)
qed

subsection \<open>Properties\<close>

text \<open>
  The pattern delete, on a store whose live names fit one page: the walk returns, removes every
  live name the pattern selects and the caller does not keep, and leaves all others visible.
\<close>

theorem delete_keys_complete:
  assumes "jsmap_ok s" and "compiles pat" and "length (sweep now s) \<le> SCAN_PAGE"
  shows "\<exists>n s'. deleteKeys (Suc f) now pat keep s = (Inr (Some n), s') \<and>
    view now s' = (\<lambda>k. if selected pat k \<and> k \<notin> set keep then None else view now s k)"
  using delete_walk_one_page [of s pat now SCAN_PAGE] assms by (simp add: deleteKeys_def)

theorem delete_keys_complete_witness:
  "\<exists>n s'. deleteKeys 1 0 ''a*'' [''ab''] [(''ab'', \<lparr>val_of = VStr ''1'', expires_at = None\<rparr>),
      (''ac'', \<lparr>val_of = VStr ''2'', expires_at = None\<rparr>)] = (Inr (Some n), s') \<and>
    view 0 s' ''ac'' = None \<and> view 0 s' ''ab'' \<noteq> None"
proof -
  let ?s = "[(''ab'', \<lparr>val_of = VStr ''1'', expires_at = None\<rparr>), (''ac'', \<lparr>val_of = VStr ''2'', expires_at = None\<rparr>)]"
  have h: "jsmap_ok ?s" "compiles ''a*''" "length (sweep 0 ?s) \<le> SCAN_PAGE" "selected ''a*'' ''ac''"
    "view 0 ?s ''ab'' \<noteq> None" by code_simp+
  from delete_keys_complete [OF h(1-3), of 0 "[''ab'']"] obtain n s' where
    "deleteKeys 1 0 ''a*'' [''ab''] ?s = (Inr (Some n), s')"
    "view 0 s' = (\<lambda>k. if selected ''a*'' k \<and> k \<notin> set [''ab''] then None else view 0 ?s k)" by auto
  with h(4,5) show ?thesis by (intro exI [of _ n] exI [of _ s']) simp
qed

text \<open>
  C38. The pattern delete always returns: one step of the walk per entry of the store and one more is
  enough, whatever the pattern, the kept names and the entries that expire on the way.
\<close>

theorem delete_keys_returns:
  assumes "length s < fuel"
  shows "fst (deleteKeys fuel now pat keep s) \<noteq> Inr None"
  unfolding deleteKeys_def using assms
  by (intro delete_walk_returns) (simp_all add: SCAN_PAGE_def digits_val_zero)

theorem delete_keys_returns_witness: "fst (deleteKeys 1 0 ''*'' [] []) \<noteq> Inr None"
  by (rule delete_keys_returns) simp

text \<open>
  The pattern delete, on a store with between one and two pages of names that all match: the cursor
  is a position and the first page's deletion moves the rest below it, so the walk returns having
  deleted only the first page, and every later name survives.
\<close>

theorem delete_keys_skips_the_second_page:
  assumes "jsmap_ok s" and "compiles pat" and "all_alive now s" and "\<forall>k \<in> fst ` set s. selected pat k"
    and "SCAN_PAGE < length s" and "length s \<le> 2 * SCAN_PAGE"
  shows "deleteKeys (Suc (Suc f)) now pat [] s = (Inr (Some SCAN_PAGE), drop SCAN_PAGE s)"
  unfolding deleteKeys_def using assms
  by (intro delete_walk_two_pages [where m = "length s - SCAN_PAGE"]) simp_all

theorem delete_keys_skips_the_second_page_witness:
  "\<exists>s. deleteKeys 2 0 ''*'' [] s = (Inr (Some SCAN_PAGE), drop SCAN_PAGE s) \<and> length s = Suc SCAN_PAGE"
proof -
  let ?e = "\<lparr>val_of = VStr ''1'', expires_at = None\<rparr>"
  let ?s = "map (\<lambda>i. (nat_string i, ?e)) [0..<Suc SCAN_PAGE]"
  have d: "jsmap_ok ?s"
    by (simp add: jsmap_ok_def comp_def distinct_map inj_on_def del: upt_Suc)
  have star: "globMatch ''*'' k = Some True" for k using globMatch_prefix [of "[]" k] by simp
  have sel: "selected ''*'' k" for k by (simp add: selected_def star)
  have c: "compiles ''*''" by code_simp
  have "view 0 ?s k \<noteq> None" if "k \<in> fst ` set ?s" for k
  proof -
    from that obtain i where e: "(k, ?e) \<in> set ?s" "k = nat_string i" by (auto simp del: upt_Suc)
    then have "map_of ?s k = Some ?e" using d by (simp add: jsmap_ok_def del: upt_Suc set_map list.map)
    then show ?thesis by (simp add: view_def expired_def)
  qed
  then have "all_alive 0 ?s" unfolding all_alive_def by blast
  from delete_keys_skips_the_second_page [OF d c this, of 0] sel
  show ?thesis by (intro exI [of _ ?s]) (simp add: SCAN_PAGE_def numeral_2_eq_2 del: upt_Suc)
qed

end
