(* ===== verification/Json.thy ===== *)
theory Json
  imports Prelude
begin

text \<open>
  Values of unknown shape, as bodies and provider answers hold them. \<open>None\<close> is undefined. An object is
  its entries in order; \<open>JNum None\<close> is a number that is not finite.
\<close>

datatype json = JNull | JBool bool | JNum "rat option" | JStr string | JArr "json list" | JObj "(string \<times> json) list"

text \<open>\<open>o?.name\<close> on a value that may be undefined.\<close>

definition jget :: "string \<Rightarrow> json option \<Rightarrow> json option" where
  "jget name v = (case v of Some (JObj kvs) \<Rightarrow> map_of kvs name | _ \<Rightarrow> None)"

text \<open>A plain object: neither null nor an array.\<close>

definition jobject :: "json option \<Rightarrow> (string \<times> json) list option" where
  "jobject v = (case v of Some (JObj kvs) \<Rightarrow> Some kvs | _ \<Rightarrow> None)"

definition jnumber :: "json option \<Rightarrow> rat option" where
  "jnumber v = (case v of Some (JNum n) \<Rightarrow> n | _ \<Rightarrow> None)"

text \<open>\<open>Math.round\<close>: to the nearest integer, halves upwards.\<close>

definition math_round :: "rat \<Rightarrow> int" where
  "math_round x = \<lfloor>x + 1/2\<rfloor>"

lemma math_round_int [simp]: "math_round (of_int n) = n"
proof -
  have "\<lfloor>(of_int n :: rat) + 1/2\<rfloor> = n" by (rule floor_unique) simp_all
  then show ?thesis by (simp add: math_round_def)
qed

lemma math_round_nonneg: "0 \<le> x \<Longrightarrow> 0 \<le> math_round x"
  by (simp add: math_round_def)

end
