(* ===== verification/Token_Estimate.thy ===== *)
theory Token_Estimate
  imports Json
begin

text \<open>
  \<open>src/lib/tokenEstimate.ts\<close>: the token count estimated in one pass, and the sums over messages of
  \<open>src/lib/tokenizer.ts\<close>. A text is its list of UTF-16 code units. The weights are exact decimals; the
  rounding of doubles in the weighted sum is not modelled.
\<close>

subsection \<open>Classes and weights\<close>

text \<open>\<open>[run, char]\<close> of each class, in the order of \<open>CLASSES\<close>; class ids start at 1.\<close>

definition class_costs :: "(rat \<times> rat) list" where
  "class_costs = [
     (7/10, 15/100), (7/10, 1/2), (15/100, 3/10), (135/100, 4/100), (135/100, 1/4), (135/100, 1), (1, 1/16), (0, 1),
     (1, 2), (145/100, 1/2), (0, 105/100), (155/100, 35/100), (3/2, 195/100), (0, 115/100), (18/10, 7/10), (0, 2),
     (0, 19/10), (0, 9/10), (17/10, 195/100),
     (0, 12/10), (0, 85/100), (0, 14/10), (0, 27/10), (0, 1), (0, 175/100), (0, 3)]"

definition digitGroup :: rat where "digitGroup = 16/10"
definition spaceRun :: rat where "spaceRun = 9/10"
definition space_weight :: rat where "space_weight = 1/80"
definition breakSplit :: rat where "breakSplit = 1"
definition headroom :: rat where "headroom = 105/100"

definition LOWER :: nat where "LOWER = 1"
definition UPPER :: nat where "UPPER = 2"
definition PUNCT :: nat where "PUNCT = 3"
definition BREAK :: nat where "BREAK = 4"
definition CR :: nat where "CR = 5"
definition LONE_CR :: nat where "LONE_CR = 6"
definition TAB :: nat where "TAB = 7"
definition CONTROL :: nat where "CONTROL = 8"
definition C1 :: nat where "C1 = 9"
definition LATIN :: nat where "LATIN = 10"
definition GREEK :: nat where "GREEK = 11"
definition CYRILLIC :: nat where "CYRILLIC = 12"
definition ARMENIAN :: nat where "ARMENIAN = 13"
definition HEBREW :: nat where "HEBREW = 14"
definition ARABIC :: nat where "ARABIC = 15"
definition OTHER2 :: nat where "OTHER2 = 16"
definition INDIC :: nat where "INDIC = 17"
definition THAI :: nat where "THAI = 18"
definition GEORGIAN :: nat where "GEORGIAN = 19"
definition HANGUL :: nat where "HANGUL = 20"
definition KANA :: nat where "KANA = 21"
definition HAN :: nat where "HAN = 22"
definition CJK_PUNCT :: nat where "CJK_PUNCT = 23"
definition GEN_PUNCT :: nat where "GEN_PUNCT = 24"
definition OTHER3 :: nat where "OTHER3 = 25"
definition ASTRAL :: nat where "ASTRAL = 26"
definition DIGIT :: nat where "DIGIT = 27"
definition SPACE :: nat where "SPACE = 28"
definition COUNT :: nat where "COUNT = 29"

lemmas class_ids = LOWER_def UPPER_def PUNCT_def BREAK_def CR_def LONE_CR_def TAB_def CONTROL_def C1_def LATIN_def
  GREEK_def CYRILLIC_def ARMENIAN_def HEBREW_def ARABIC_def OTHER2_def INDIC_def THAI_def GEORGIAN_def HANGUL_def
  KANA_def HAN_def CJK_PUNCT_def GEN_PUNCT_def OTHER3_def ASTRAL_def DIGIT_def SPACE_def COUNT_def

definition RUN :: "nat \<Rightarrow> rat" where
  "RUN c = (if 1 \<le> c \<and> c \<le> 26 then fst (class_costs ! (c - 1)) else 0)"

definition CHAR_cost :: "nat \<Rightarrow> rat" where
  "CHAR_cost c = (if 1 \<le> c \<and> c \<le> 26 then snd (class_costs ! (c - 1)) else 0)"

definition BYTES :: "nat \<Rightarrow> nat" where
  "BYTES c = (if c \<in> {C1, LATIN, GREEK, CYRILLIC, ARMENIAN, HEBREW, ARABIC, OTHER2} then 2
     else if c \<in> {INDIC, THAI, GEORGIAN, HANGUL, KANA, HAN, CJK_PUNCT, GEN_PUNCT, OTHER3} then 3
     else if c = ASTRAL then 4 else 1)"

definition ascii_class :: "nat \<Rightarrow> nat" where
  "ascii_class x = (if x = 32 then SPACE else if x = 9 then TAB else if x = 10 then BREAK else if x = 13 then CR
     else if x < 32 \<or> x = 127 then CONTROL
     else if 97 \<le> x \<and> x \<le> 122 then LOWER else if 65 \<le> x \<and> x \<le> 90 then UPPER
     else if 48 \<le> x \<and> x \<le> 57 then DIGIT else PUNCT)"

definition wideClass :: "nat \<Rightarrow> nat" where
  "wideClass x =
     (if x < 0x800 then
        (if x < 0xa0 then C1 else if x < 0x250 then LATIN else if x < 0x370 then OTHER2 else if x < 0x400 then GREEK
         else if x < 0x530 then CYRILLIC else if x < 0x590 then ARMENIAN else if x < 0x600 then HEBREW else ARABIC)
      else if 0x4e00 \<le> x \<and> x < 0xa000 then HAN
      else if 0xac00 \<le> x \<and> x < 0xd7b0 then HANGUL
      else if 0xd800 \<le> x \<and> x < 0xdc00 then ASTRAL
      else if 0x3040 \<le> x \<and> x < 0x3100 then KANA
      else if (0x3000 \<le> x \<and> x < 0x3040) \<or> (0xff00 \<le> x \<and> x < 0xfff0) then CJK_PUNCT
      else if (0x3400 \<le> x \<and> x < 0x4dc0) \<or> (0xf900 \<le> x \<and> x < 0xfb00) then HAN
      else if 0x0900 \<le> x \<and> x < 0x0e00 then INDIC
      else if 0x0e00 \<le> x \<and> x < 0x0f00 then THAI
      else if 0x10a0 \<le> x \<and> x < 0x1100 then GEORGIAN
      else if 0x1100 \<le> x \<and> x < 0x1200 then HANGUL
      else if 0x2000 \<le> x \<and> x < 0x2070 then GEN_PUNCT
      else OTHER3)"

subsection \<open>The pass\<close>

record tally =
  ta_chars :: "nat \<Rightarrow> nat"
  ta_runs :: "nat \<Rightarrow> nat"
  ta_digitGroups :: nat
  ta_spaceRuns :: nat
  ta_spaces :: nat
  ta_breakSplits :: nat
  ta_prev :: nat
  ta_run :: nat

definition empty_tally :: tally where
  "empty_tally = \<lparr>ta_chars = (\<lambda>_. 0), ta_runs = (\<lambda>_. 0), ta_digitGroups = 0, ta_spaceRuns = 0, ta_spaces = 0,
     ta_breakSplits = 0, ta_prev = 0, ta_run = 0\<rparr>"

definition unit_at :: "nat list \<Rightarrow> nat \<Rightarrow> nat option" where
  "unit_at text i = (if i < length text then Some (text ! i) else None)"

definition unit_back :: "nat list \<Rightarrow> nat \<Rightarrow> nat \<Rightarrow> nat option" where
  "unit_back text i k = (if k \<le> i then unit_at text (i - k) else None)"

definition low_surrogate :: "nat option \<Rightarrow> bool" where
  "low_surrogate u = (case u of Some x \<Rightarrow> 0xdc00 \<le> x \<and> x < 0xe000 | None \<Rightarrow> False)"

definition is_line_break :: "nat \<Rightarrow> bool" where
  "is_line_break c \<longleftrightarrow> BREAK \<le> c \<and> c \<le> LONE_CR"

text \<open>The end of a run of digits or spaces.\<close>

definition close_run :: "tally \<Rightarrow> tally" where
  "close_run T = (if ta_prev T = DIGIT then T\<lparr>ta_digitGroups := ta_digitGroups T + (ta_run T + 2) div 3\<rparr>
     else if ta_prev T = SPACE \<and> 1 < ta_run T
     then T\<lparr>ta_spaceRuns := ta_spaceRuns T + 1, ta_spaces := ta_spaces T + ta_run T\<rparr> else T)"

text \<open>The class of the unit at \<open>i\<close>, whether a low surrogate is skipped with it, and the break splits.\<close>

definition unit_class :: "nat list \<Rightarrow> nat \<Rightarrow> tally \<Rightarrow> nat \<times> bool \<times> nat" where
  "unit_class text i T =
     (let code = text ! i; c = (if code < 0x80 then ascii_class code else wideClass code) in
      if c = ASTRAL then (if low_surrogate (unit_at text (i + 1)) then (ASTRAL, True, 0) else (OTHER3, False, 0))
      else if c = CR then
        (if unit_at text (i + 1) \<noteq> Some 0x0a then LONE_CR else CR, False,
         if (ta_prev T = BREAK \<and> unit_back text i 2 \<noteq> Some 0x0d) \<or> (ta_prev T = SPACE \<and> ta_run T = 1) then 1 else 0)
      else if c = BREAK \<and> ta_prev T = BREAK \<and> unit_back text i 2 = Some 0x0a \<and> unit_back text i 3 = Some 0x0d
      then (c, False, 1)
      else (c, False, 0))"

definition tally_unit :: "nat \<Rightarrow> nat \<Rightarrow> tally \<Rightarrow> tally" where
  "tally_unit c splits T0 =
     (let T = T0\<lparr>ta_breakSplits := ta_breakSplits T0 + splits\<rparr>;
          T1 = (if c \<noteq> ta_prev T \<and> \<not> (ta_prev T = UPPER \<and> c = LOWER) \<and> \<not> (is_line_break (ta_prev T) \<and> is_line_break c)
                then (let T' = close_run T in T'\<lparr>ta_runs := (ta_runs T')(c := ta_runs T' c + 1), ta_run := 0\<rparr>)
                else T)
      in T1\<lparr>ta_run := ta_run T1 + 1, ta_chars := (ta_chars T1)(c := ta_chars T1 c + 1), ta_prev := c\<rparr>)"

function tally_from :: "nat list \<Rightarrow> nat \<Rightarrow> tally \<Rightarrow> tally" where
  "tally_from text i T = (if length text \<le> i then T
     else (case unit_class text i T of (c, skip, splits) \<Rightarrow>
       tally_from text (if skip then i + 2 else i + 1) (tally_unit c splits T)))"
  by pat_completeness auto
termination by (relation "measure (\<lambda>(text, i, T). length text - i)") auto

declare tally_from.simps [simp del]

definition tally_sum :: "tally \<Rightarrow> rat" where
  "tally_sum T = digitGroup * of_nat (ta_digitGroups T) + spaceRun * of_nat (ta_spaceRuns T)
     + space_weight * of_nat (ta_spaces T) + breakSplit * of_nat (ta_breakSplits T)
     + sum_list (map (\<lambda>c. RUN c * of_nat (ta_runs T c) + CHAR_cost c * of_nat (ta_chars T c)) [1..<COUNT])"

definition tally_bytes :: "tally \<Rightarrow> nat" where
  "tally_bytes T = sum_list (map (\<lambda>c. BYTES c * ta_chars T c) [1..<COUNT])"

definition estimateTokens :: "nat list \<Rightarrow> int" where
  "estimateTokens text = (if text = [] then 0
     else let T = close_run (tally_from text 0 empty_tally) in
       min (int (tally_bytes T)) (max 1 \<lceil>tally_sum T * headroom\<rceil>))"

subsection \<open>Messages\<close>

definition units :: "string \<Rightarrow> nat list" where
  "units s = map of_char s"

definition part_text :: "json \<Rightarrow> string" where
  "part_text part = (case jget ''text'' (Some part) of Some (JStr s) \<Rightarrow> s | _ \<Rightarrow> [])"

definition extractText :: "json option \<Rightarrow> string" where
  "extractText content = (case content of Some (JStr s) \<Rightarrow> s
     | Some (JArr parts) \<Rightarrow> concat (map part_text parts) | _ \<Rightarrow> [])"

definition message_count :: "(string \<Rightarrow> int) \<Rightarrow> json \<Rightarrow> int" where
  "message_count count m = (case jget ''content'' (Some m) of
      None \<Rightarrow> 0 | Some c \<Rightarrow> count (extractText (Some c)) + 4)"

definition sumMessages :: "json list \<Rightarrow> (string \<Rightarrow> int) \<Rightarrow> int" where
  "sumMessages messages count = max 1 (sum_list (map (message_count count) messages))"

definition estimateMessageTokens :: "json list \<Rightarrow> int" where
  "estimateMessageTokens messages = sumMessages messages (\<lambda>s. estimateTokens (units s))"

definition planned_output :: "rat option \<Rightarrow> rat \<Rightarrow> rat" where
  "planned_output maxTokens dflt = (case maxTokens of Some n \<Rightarrow> if 0 < n then n else dflt | None \<Rightarrow> dflt)"

subsection \<open>The byte count is the UTF-8 length\<close>

definition unit_bytes :: "nat \<Rightarrow> nat" where
  "unit_bytes x = (if x < 0x80 then 1 else if x < 0x800 then 2 else 3)"

fun utf8_length :: "nat list \<Rightarrow> nat" where
  "utf8_length [] = 0"
| "utf8_length [x] = unit_bytes x"
| "utf8_length (x # y # r) = (if 0xd800 \<le> x \<and> x < 0xdc00 \<and> 0xdc00 \<le> y \<and> y < 0xe000 then 4 + utf8_length r
     else unit_bytes x + utf8_length (y # r))"

lemma close_run_fields [simp]: "ta_chars (close_run T) = ta_chars T"
  by (simp add: close_run_def)

lemma tally_unit_chars [simp]: "ta_chars (tally_unit c k T) = (ta_chars T)(c := ta_chars T c + 1)"
  by (simp add: tally_unit_def Let_def)

lemma sum_list_upd:
  "distinct cs \<Longrightarrow> c \<in> set cs \<Longrightarrow> sum_list (map (\<lambda>x. b x * (f(c := f c + 1)) x) cs) = sum_list (map (\<lambda>x. b x * f x) cs) + b c"
  for b f :: "nat \<Rightarrow> nat"
proof (induction cs)
  case (Cons a cs)
  show ?case
  proof (cases "a = c")
    case True
    with Cons.prems have "map (\<lambda>x. b x * (f(c := f c + 1)) x) cs = map (\<lambda>x. b x * f x) cs"
      by (intro map_cong) auto
    with True show ?thesis by (simp only: list.map sum_list.Cons fun_upd_same) simp
  next
    case False
    with Cons show ?thesis by simp
  qed
qed simp

lemma tally_bytes_unit: "1 \<le> c \<Longrightarrow> c < COUNT \<Longrightarrow> tally_bytes (tally_unit c k T) = tally_bytes T + BYTES c"
  unfolding tally_bytes_def tally_unit_chars by (rule sum_list_upd) simp_all

lemma ascii_class_bytes: "BYTES (ascii_class x) = 1 \<and> 1 \<le> ascii_class x \<and> ascii_class x < COUNT \<and> ascii_class x \<noteq> ASTRAL"
  by (simp add: ascii_class_def BYTES_def class_ids)

definition class_of :: "nat \<Rightarrow> nat \<Rightarrow> bool" where
  "class_of n c \<longleftrightarrow> BYTES c = n \<and> 1 \<le> c \<and> c < COUNT \<and> c \<noteq> ASTRAL \<and> c \<noteq> CR \<and> c \<noteq> BREAK"

lemma class_if: "(b \<Longrightarrow> class_of n x) \<Longrightarrow> (\<not> b \<Longrightarrow> class_of n y) \<Longrightarrow> class_of n (if b then x else y)"
  by simp

lemma two_byte_classes: "class_of 2 C1" "class_of 2 LATIN" "class_of 2 OTHER2" "class_of 2 GREEK" "class_of 2 CYRILLIC"
  "class_of 2 ARMENIAN" "class_of 2 HEBREW" "class_of 2 ARABIC"
  by (simp_all add: class_of_def BYTES_def class_ids)

lemma three_byte_classes: "class_of 3 HAN" "class_of 3 HANGUL" "class_of 3 KANA" "class_of 3 CJK_PUNCT" "class_of 3 INDIC"
  "class_of 3 THAI" "class_of 3 GEORGIAN" "class_of 3 GEN_PUNCT" "class_of 3 OTHER3"
  by (simp_all add: class_of_def BYTES_def class_ids)

lemma wideClass_two: "x < 0x800 \<Longrightarrow> class_of 2 (wideClass x)"
  unfolding wideClass_def by (simp only: if_True) (intro class_if two_byte_classes)

lemma wideClass_three: "\<not> x < 0x800 \<Longrightarrow> \<not> (0xd800 \<le> x \<and> x < 0xdc00) \<Longrightarrow> class_of 3 (wideClass x)"
  unfolding wideClass_def by (simp only: if_False) (intro class_if three_byte_classes)

lemma wideClass_bytes: "0x80 \<le> x \<Longrightarrow> \<not> (0xd800 \<le> x \<and> x < 0xdc00) \<Longrightarrow> class_of (unit_bytes x) (wideClass x)"
  using wideClass_two [of x] wideClass_three [of x] by (cases "x < 0x800") (simp_all add: unit_bytes_def)

lemma wideClass_high: "0xd800 \<le> x \<Longrightarrow> x < 0xdc00 \<Longrightarrow> wideClass x = ASTRAL"
  by (simp add: wideClass_def)

lemma BYTES_simps: "BYTES LONE_CR = 1" "BYTES CR = 1" "BYTES OTHER3 = 3" "BYTES ASTRAL = 4"
  by (simp_all add: BYTES_def class_ids)

lemma unit_class_bytes:
  assumes i: "i < length text" and u: "unit_class text i T = (c, skip, k)"
  shows "1 \<le> c \<and> c < COUNT \<and>
    utf8_length (drop i text) = BYTES c + utf8_length (drop (if skip then i + 2 else i + 1) text)"
proof -
  let ?x = "text ! i"
  have d: "drop i text = ?x # drop (Suc i) text" using i by (simp add: Cons_nth_drop_Suc)
  have plain: "utf8_length (drop i text) = unit_bytes ?x + utf8_length (drop (Suc i) text)"
    if "\<not> (0xd800 \<le> ?x \<and> ?x < 0xdc00 \<and> low_surrogate (unit_at text (Suc i)))"
  proof (cases "Suc i < length text")
    case True
    then have "drop (Suc i) text = text ! Suc i # drop (Suc (Suc i)) text" by (simp add: Cons_nth_drop_Suc)
    with d True that show ?thesis by (auto simp: low_surrogate_def unit_at_def)
  next
    case False
    with d show ?thesis by simp
  qed
  show ?thesis
  proof (cases "0xd800 \<le> ?x \<and> ?x < 0xdc00")
    case high: True
    then have w: "wideClass ?x = ASTRAL" "\<not> ?x < 0x80" by (simp_all add: wideClass_high)
    show ?thesis
    proof (cases "low_surrogate (unit_at text (Suc i))")
      case True
      then have l: "Suc i < length text" "0xdc00 \<le> text ! Suc i" "text ! Suc i < 0xe000"
        by (auto simp: low_surrogate_def unit_at_def split: if_splits)
      then have "drop (Suc i) text = text ! Suc i # drop (Suc (Suc i)) text" by (simp add: Cons_nth_drop_Suc)
      with d high l have "utf8_length (drop i text) = 4 + utf8_length (drop (Suc (Suc i)) text)" by simp
      with u w True show ?thesis by (auto simp: unit_class_def Let_def BYTES_simps) (simp_all add: class_ids)
    next
      case False
      with u w plain high show ?thesis
        by (auto simp: unit_class_def Let_def BYTES_simps unit_bytes_def) (simp_all add: class_ids)
    qed
  next
    case low: False
    then have p: "utf8_length (drop i text) = unit_bytes ?x + utf8_length (drop (Suc i) text)" using plain by blast
    show ?thesis
    proof (cases "?x < 0x80")
      case True
      have a: "BYTES (ascii_class ?x) = 1" "1 \<le> ascii_class ?x" "ascii_class ?x < COUNT" "ascii_class ?x \<noteq> ASTRAL"
        using ascii_class_bytes by simp_all
      have l: "1 \<le> LONE_CR \<and> LONE_CR < COUNT" by (simp add: class_ids)
      from True have "unit_bytes ?x = 1" by (simp add: unit_bytes_def)
      with u a p l True show ?thesis
        by (auto simp: unit_class_def Let_def BYTES_simps split: if_splits)
    next
      case False
      with low have "class_of (unit_bytes ?x) (wideClass ?x)" by (intro wideClass_bytes) auto
      with u p False show ?thesis by (auto simp: unit_class_def Let_def class_of_def)
    qed
  qed
qed

lemma tally_from_bytes: "tally_bytes (tally_from text i T) = tally_bytes T + utf8_length (drop i text)"
proof (induction "text" i T rule: tally_from.induct)
  case (1 us i T)
  show ?case
  proof (cases "length us \<le> i")
    case True
    then show ?thesis by (simp add: tally_from.simps [of us i T])
  next
    case False
    obtain c skip k where u: "unit_class us i T = (c, skip, k)" by (metis prod.exhaust)
    from False have "i < length us" by simp
    from unit_class_bytes [OF this u] have c: "1 \<le> c" "c < COUNT"
      "utf8_length (drop i us) = BYTES c + utf8_length (drop (if skip then i + 2 else i + 1) us)" by simp_all
    have "tally_bytes (tally_from us i T) = tally_bytes (tally_unit c k T) + utf8_length (drop (if skip then i + 2 else i + 1) us)"
      using 1 [OF False u [symmetric] refl] False u by (simp add: tally_from.simps [of us i T])
    then show ?thesis using c tally_bytes_unit by simp
  qed
qed

lemma tally_bytes_total: "tally_bytes (close_run (tally_from text 0 empty_tally)) = utf8_length text"
  using tally_from_bytes [of "text" 0 empty_tally]
  by (simp add: tally_bytes_def empty_tally_def)

lemma utf8_length_pos: "text \<noteq> [] \<Longrightarrow> 1 \<le> utf8_length text"
  by (induction "text" rule: utf8_length.induct) (auto simp: unit_bytes_def)

subsection \<open>Property\<close>

text \<open>
  The estimate of a text is nothing for the empty text and otherwise at least one token and at most
  one token per byte of its UTF-8 form, for any sequence of UTF-16 units, paired or not.
\<close>

theorem estimate_within_bytes:
  "estimateTokens [] = 0 \<and>
   (\<forall>text. text = [] \<or> 1 \<le> estimateTokens text \<and> estimateTokens text \<le> int (utf8_length text))"
  using utf8_length_pos by (auto simp: estimateTokens_def Let_def tally_bytes_total)

end
