(* ===== verification/Url_Guard.thy ===== *)
theory Url_Guard
  imports Prelude
begin

text \<open>
  \<open>src/lib/url.ts\<close>: the outbound URL policy. The runtime's URL parser is an argument: a parsed URL with
  its protocol, host name and port, or the exception it throws. The parser writes host names in
  lower case, IPv4 hosts as four decimal numbers, and IPv6 hosts in brackets in their shortest
  hexadecimal form.
\<close>

definition stripTrailingSlash :: "string \<Rightarrow> string" where
  "stripTrailingSlash s = rev (dropWhile (\<lambda>c. c = CHR ''/'') (rev s))"

record url =
  u_protocol :: string
  u_hostname :: string
  u_port :: string

datatype url_error = Malformed | UnsupportedScheme | PrivateHost

definition assertHttpUrl :: "url option \<Rightarrow> url_error + url" where
  "assertHttpUrl parsed = (case parsed of None \<Rightarrow> Inl Malformed
     | Some u \<Rightarrow> if u_protocol u \<noteq> ''http:'' \<and> u_protocol u \<noteq> ''https:'' then Inl UnsupportedScheme else Inr u)"

record ssrf_policy =
  allowPrivate :: bool
  allowList :: "string set"

definition parseAllowList :: "string option \<Rightarrow> string set" where
  "parseAllowList raw = set (filter (\<lambda>s. s \<noteq> []) (map (\<lambda>s. to_lower (trim s))
     (split_on (\<lambda>c. c = CHR ''\<newline>'' \<or> c = CHR '','') (option_or raw []))))"

definition ssrfPolicyFromEnv :: "string option \<Rightarrow> string option \<Rightarrow> ssrf_policy" where
  "ssrfPolicyFromEnv allow_private allow_list =
     \<lparr>allowPrivate = to_lower (trim (option_or allow_private [])) \<in> {''1'', ''true'', ''yes'', ''on''},
      allowList = parseAllowList allow_list\<rparr>"

text \<open>\<open>Number(p)\<close> of each part, as an integer from 0 to 255.\<close>

definition octet :: "string \<Rightarrow> int option" where
  "octet p = (case js_Number p of
      Some n \<Rightarrow> if n = of_int \<lfloor>n\<rfloor> \<and> 0 \<le> n \<and> n \<le> 255 then Some \<lfloor>n\<rfloor> else None | None \<Rightarrow> None)"

definition private_range :: "int \<Rightarrow> int \<Rightarrow> bool" where
  "private_range a b \<longleftrightarrow> a = 10 \<or> a = 127 \<or> a = 0 \<or> (a = 169 \<and> b = 254) \<or> (a = 172 \<and> 16 \<le> b \<and> b \<le> 31) \<or>
     (a = 192 \<and> b = 168) \<or> (a = 100 \<and> 64 \<le> b \<and> b \<le> 127)"

definition ipv4Private :: "string \<Rightarrow> bool" where
  "ipv4Private host = (case map octet (split_on (\<lambda>c. c = CHR ''.'') host) of
      [Some a, Some b, Some c, Some d] \<Rightarrow> private_range a b
    | _ \<Rightarrow> False)"

text \<open>\<open>^::ffff:(\<dots>)$\<close> with four dotted groups of digits: the groups.\<close>

definition mapped_v4 :: "string \<Rightarrow> string option" where
  "mapped_v4 h = (if starts_with ''::ffff:'' h then
      (let r = drop 7 h; ps = split_on (\<lambda>c. c = CHR ''.'') r in
       if length ps = 4 \<and> (\<forall>p \<in> set ps. p \<noteq> [] \<and> (\<forall>c \<in> set p. is_digit c)) then Some r else None)
    else None)"

definition ipv6Private :: "string \<Rightarrow> bool" where
  "ipv6Private host = (let h = to_lower host in
     if h = ''::1'' \<or> h = ''::'' then True
     else if starts_with ''fe8'' h \<or> starts_with ''fe9'' h \<or> starts_with ''fea'' h \<or> starts_with ''feb'' h then True
     else if starts_with ''fc'' h \<or> starts_with ''fd'' h then True
     else (case mapped_v4 h of Some v4 \<Rightarrow> ipv4Private v4 | None \<Rightarrow> False))"

text \<open>\<open>replace(/^\[|\]$/g, '')\<close>.\<close>

definition strip_brackets :: "string \<Rightarrow> string" where
  "strip_brackets s = (let a = (case s of c # cs \<Rightarrow> if c = CHR ''['' then cs else s | [] \<Rightarrow> [])
     in if a \<noteq> [] \<and> last a = CHR '']'' then butlast a else a)"

definition isPrivateHost :: "string \<Rightarrow> bool" where
  "isPrivateHost hostname = (let host = strip_brackets (to_lower hostname) in
     if host = ''localhost'' \<or> ends_with ''.localhost'' host then True
     else if ends_with ''.local'' host \<or> ends_with ''.internal'' host then True
     else if CHR '':'' \<in> set host then ipv6Private host
     else ipv4Private host)"

definition assertSafeUrl :: "url option \<Rightarrow> ssrf_policy \<Rightarrow> url_error + url" where
  "assertSafeUrl parsed policy = (case assertHttpUrl parsed of Inl e \<Rightarrow> Inl e
     | Inr u \<Rightarrow>
        if allowPrivate policy then Inr u
        else let host = strip_brackets (to_lower (u_hostname u));
                 hostPort = (if u_port u \<noteq> [] then host @ '':'' @ u_port u else host) in
          if host \<in> allowList policy \<or> hostPort \<in> allowList policy then Inr u
          else if isPrivateHost host then Inl PrivateHost else Inr u)"

subsection \<open>The linear scan\<close>

lemma stripTrailingSlash_spec: "\<exists>n. s = stripTrailingSlash s @ replicate n (CHR ''/'') \<and>
    (stripTrailingSlash s = [] \<or> last (stripTrailingSlash s) \<noteq> CHR ''/'')"
proof -
  let ?p = "\<lambda>c. c = CHR ''/''"
  have t: "rev s = takeWhile ?p (rev s) @ dropWhile ?p (rev s)" by simp
  have r: "takeWhile ?p (rev s) = replicate (length (takeWhile ?p (rev s))) (CHR ''/'')"
    by (rule replicate_length_same [symmetric]) (auto dest: set_takeWhileD)
  have "s = stripTrailingSlash s @ rev (takeWhile ?p (rev s))"
    using arg_cong [OF t, of rev] unfolding stripTrailingSlash_def rev_append rev_rev_ident .
  moreover have "rev (takeWhile ?p (rev s)) = replicate (length (takeWhile ?p (rev s))) (CHR ''/'')"
    using arg_cong [OF r, of rev] unfolding rev_replicate .
  moreover have "stripTrailingSlash s = [] \<or> last (stripTrailingSlash s) \<noteq> CHR ''/''"
    using hd_dropWhile [of ?p "rev s"] by (auto simp: stripTrailingSlash_def last_rev)
  ultimately show ?thesis by (intro exI [of _ "length (takeWhile ?p (rev s))"]) (simp only:)
qed

subsection \<open>IPv4 literals\<close>

definition dotted :: "int \<Rightarrow> int \<Rightarrow> int \<Rightarrow> int \<Rightarrow> string" where
  "dotted a b c d = int_string a @ ''.'' @ int_string b @ ''.'' @ int_string c @ ''.'' @ int_string d"

definition is_octet :: "int \<Rightarrow> bool" where
  "is_octet n \<longleftrightarrow> 0 \<le> n \<and> n \<le> 255"

lemma octet_int: "is_octet n \<Longrightarrow> octet (int_string n) = Some n"
proof -
  assume n: "is_octet n"
  then have "(0 :: rat) \<le> of_int n" "(of_int n :: rat) \<le> 255" by (simp_all add: is_octet_def)
  then show ?thesis by (simp add: octet_def)
qed

lemma octet_text: "is_octet n \<Longrightarrow> c \<in> set (int_string n) \<Longrightarrow> is_digit c"
  using nat_string_digits [of "nat n"] by (auto simp: int_string_def is_octet_def)

lemma dot_no_digit [simp]: "\<not> is_digit (CHR ''.'')"
  by (simp add: is_digit_def)

lemma split_dotted:
  assumes "is_octet a" "is_octet b" "is_octet c" "is_octet d"
  shows "split_on (\<lambda>c. c = CHR ''.'') (dotted a b c d) = [int_string a, int_string b, int_string c, int_string d]"
proof -
  have n: "\<forall>x \<in> set (int_string k). x \<noteq> CHR ''.''" if "is_octet k" for k
    using octet_text [OF that] dot_no_digit by metis
  show ?thesis using assms n
    by (simp add: dotted_def split_on_sep split_on_whole)
qed

lemma ipv4Private_dotted:
  assumes "is_octet a" "is_octet b" "is_octet c" "is_octet d"
  shows "ipv4Private (dotted a b c d) = private_range a b"
  using assms by (simp add: ipv4Private_def split_dotted octet_int)

lemma lower_digit: "is_digit c \<Longrightarrow> lower_char c = c"
  by (simp add: is_digit_def lower_char_def)

lemma dotted_chars: "is_octet a \<Longrightarrow> is_octet b \<Longrightarrow> is_octet c \<Longrightarrow> is_octet d \<Longrightarrow>
    x \<in> set (dotted a b c d) \<Longrightarrow> is_digit x \<or> x = CHR ''.''"
  by (auto simp: dotted_def dest: octet_text)

subsection \<open>Properties\<close>

lemma lower_char_dot: "lower_char (CHR ''.'') = CHR ''.''"
  by code_simp

lemma is_private_dotted:
  assumes "is_octet a" "is_octet b" "is_octet c" "is_octet d"
  shows "strip_brackets (to_lower (dotted a b c d)) = dotted a b c d"
    "isPrivateHost (dotted a b c d) = private_range a b"
proof -
  let ?h = "dotted a b c d"
  note ch = dotted_chars [OF assms]
  have low: "to_lower ?h = ?h"
    unfolding to_lower_def by (rule map_idI) (metis ch lower_digit lower_char_dot)
  have no: "x \<notin> set ?h" if "\<not> is_digit x" "x \<noteq> CHR ''.''" for x using that ch by blast
  have ne: "?h \<noteq> []" by (simp add: dotted_def)
  have b: "CHR ''['' \<notin> set ?h" "CHR '']'' \<notin> set ?h" "CHR '':'' \<notin> set ?h" "CHR ''l'' \<notin> set ?h"
    by (rule no; simp add: is_digit_def)+
  have h: "hd ?h \<noteq> CHR ''[''" "last ?h \<noteq> CHR '']''" "last ?h \<noteq> CHR ''l''"
    using b ne by (metis hd_in_set, metis last_in_set, metis last_in_set)
  from ne h show s: "strip_brackets (to_lower ?h) = ?h"
    unfolding low by (auto simp: strip_brackets_def Let_def split: list.split)
  have tails: "\<not> ends_with p ?h" if "CHR ''l'' \<in> set p" for p
    using that b(4) by (auto simp: ends_with_def) (metis in_set_dropD)
  have "?h \<noteq> ''localhost''" using b(4) by auto
  then show "isPrivateHost ?h = private_range a b"
    using b(3) tails ipv4Private_dotted [OF assms] by (simp add: isPrivateHost_def s)
qed



text \<open>
  Two spellings of the loopback get through the guard with the default policy: the hexadecimal form
  \<open>[::ffff:7f00:1]\<close>, which is how the URL parser writes any IPv4-mapped address, and the rooted name
  \<open>localhost.\<close>; the dotted spelling of the same mapped address, which the parser never yields, is refused.
\<close>

theorem mapped_loopback_gets_through:
  "assertSafeUrl (Some \<lparr>u_protocol = ''http:'', u_hostname = ''[::ffff:7f00:1]'', u_port = ''80''\<rparr>)
     (ssrfPolicyFromEnv None None) =
     Inr \<lparr>u_protocol = ''http:'', u_hostname = ''[::ffff:7f00:1]'', u_port = ''80''\<rparr> \<and>
   assertSafeUrl (Some \<lparr>u_protocol = ''http:'', u_hostname = ''localhost.'', u_port = []\<rparr>)
     (ssrfPolicyFromEnv None None) =
     Inr \<lparr>u_protocol = ''http:'', u_hostname = ''localhost.'', u_port = []\<rparr> \<and>
   assertSafeUrl (Some \<lparr>u_protocol = ''http:'', u_hostname = ''[::ffff:127.0.0.1]'', u_port = []\<rparr>)
     (ssrfPolicyFromEnv None None) = Inl PrivateHost"
  by code_simp

end
