(* ===== verification/Model_Path.thy ===== *)
theory Model_Path
  imports Json
begin

text \<open>
  \<open>src/lib/modelPath.ts\<close>: the model ids, prices and context windows of a provider's \<open>/models\<close> answer,
  read along the path the operator declares. An inherited property of an object or array is a
  function or a bare prototype, neither of which the code keeps, and reads as undefined here.
\<close>

definition DEFAULT_PATH :: string where "DEFAULT_PATH = ''data[].id''"

text \<open>\<open>xs[seg]\<close> on an array: a canonical index or its length.\<close>

definition array_get :: "json list \<Rightarrow> string \<Rightarrow> json option" where
  "array_get xs seg = (if seg = ''length'' then Some (JNum (Some (of_nat (length xs))))
     else if seg \<noteq> [] \<and> (\<forall>c \<in> set seg. is_digit c) \<and> nat_string (digits_val seg) = seg \<and> digits_val seg < length xs
     then Some (xs ! digits_val seg) else None)"

definition prop_get :: "json \<Rightarrow> string \<Rightarrow> json option" where
  "prop_get v seg = (case v of JObj kvs \<Rightarrow> map_of kvs seg | JArr xs \<Rightarrow> array_get xs seg | _ \<Rightarrow> None)"

fun walk_segs :: "json option \<Rightarrow> string list \<Rightarrow> json option" where
  "walk_segs cur [] = cur"
| "walk_segs cur (seg # segs) = (case cur of None \<Rightarrow> None | Some v \<Rightarrow> walk_segs (prop_get v seg) segs)"

definition walk :: "json option \<Rightarrow> string \<Rightarrow> json option" where
  "walk obj path = (if path = [] then obj else walk_segs obj (split_on (\<lambda>c. c = CHR ''.'') path))"

text \<open>\<open>indexOf('[]')\<close>.\<close>

fun marker_at :: "string \<Rightarrow> nat option" where
  "marker_at (a # b # s) = (if a = CHR ''['' \<and> b = CHR '']'' then Some 0 else map_option Suc (marker_at (b # s)))"
| "marker_at s = None"

definition drop_last_dot :: "string \<Rightarrow> string" where
  "drop_last_dot s = (if s \<noteq> [] \<and> last s = CHR ''.'' then butlast s else s)"

definition drop_first_dot :: "string \<Rightarrow> string" where
  "drop_first_dot s = (case s of c # cs \<Rightarrow> if c = CHR ''.'' then cs else s | [] \<Rightarrow> [])"

definition locateArray :: "json option \<Rightarrow> string option \<Rightarrow> (json list \<times> string) option" where
  "locateArray json path =
     (let spec = (case path of Some p \<Rightarrow> if trim p \<noteq> [] then trim p else DEFAULT_PATH | None \<Rightarrow> DEFAULT_PATH);
          (arr, field) = (case marker_at spec of
              None \<Rightarrow> (walk json spec, [])
            | Some m \<Rightarrow> let arrayPath = drop_last_dot (take m spec) in
                (if arrayPath \<noteq> [] then walk json arrayPath else json, drop_first_dot (drop (m + 2) spec)))
      in case arr of Some (JArr xs) \<Rightarrow> Some (xs, field) | _ \<Rightarrow> None)"

record fetched_model =
  fm_id :: string
  fm_name :: "string option"
  fm_inputCostPer1M :: "rat option"
  fm_outputCostPer1M :: "rat option"
  fm_contextWindow :: "int option"

definition price_per1M :: "json option \<Rightarrow> rat option" where
  "price_per1M raw = (case (case raw of Some (JStr s) \<Rightarrow> js_Number s | Some (JNum n) \<Rightarrow> n | _ \<Rightarrow> None) of
      None \<Rightarrow> None
    | Some n \<Rightarrow> if n < 0 then None else Some (of_int (math_round (n * 1000000 * 1000000)) / 1000000))"

fun first_window :: "json \<Rightarrow> string list \<Rightarrow> int option" where
  "first_window el [] = None"
| "first_window el (k # ks) = (case jnumber (prop_get el k) of
      Some v \<Rightarrow> if 0 < v then Some \<lfloor>v\<rfloor> else first_window el ks
    | None \<Rightarrow> first_window el ks)"

definition readContextWindow :: "json \<Rightarrow> int option" where
  "readContextWindow el = first_window el [''context_length'', ''context_window'', ''max_context_length'']"

text \<open>\<open>a ?? b\<close> on values that may be undefined or null.\<close>

definition nullish_or :: "json option \<Rightarrow> json option \<Rightarrow> json option" where
  "nullish_or a b = (if a = None \<or> a = Some JNull then b else a)"

definition is_object :: "json \<Rightarrow> bool" where
  "is_object v = (case v of JObj _ \<Rightarrow> True | JArr _ \<Rightarrow> True | _ \<Rightarrow> False)"

definition read_model :: "json \<Rightarrow> string \<Rightarrow> fetched_model" where
  "read_model el i =
     (let name = nullish_or (prop_get el ''name'') (prop_get el ''display_name'');
          pricing = (case prop_get el ''pricing'' of Some p \<Rightarrow> if is_object p then Some p else None | None \<Rightarrow> None)
      in if \<not> is_object el
         then \<lparr>fm_id = i, fm_name = None, fm_inputCostPer1M = None, fm_outputCostPer1M = None, fm_contextWindow = None\<rparr>
         else \<lparr>fm_id = i,
           fm_name = (case name of Some (JStr s) \<Rightarrow> if trim s \<noteq> [] then Some (trim s) else None | _ \<Rightarrow> None),
           fm_inputCostPer1M = Option.bind pricing (\<lambda>p. price_per1M (prop_get p ''prompt'')),
           fm_outputCostPer1M = Option.bind pricing (\<lambda>p. price_per1M (prop_get p ''completion'')),
           fm_contextWindow = readContextWindow el\<rparr>)"

definition element_id :: "string \<Rightarrow> json \<Rightarrow> string option" where
  "element_id field el = (case (if field \<noteq> [] then walk (Some el) field else Some el) of
      Some (JStr s) \<Rightarrow> if trim s = [] then None else Some (trim s) | _ \<Rightarrow> None)"

text \<open>The loop with its set of ids already seen.\<close>

fun collect_models :: "string \<Rightarrow> string list \<Rightarrow> json list \<Rightarrow> fetched_model list" where
  "collect_models field seen [] = []"
| "collect_models field seen (el # els) = (case element_id field el of
      None \<Rightarrow> collect_models field seen els
    | Some i \<Rightarrow> if i \<in> set seen then collect_models field seen els
               else read_model el i # collect_models field (i # seen) els)"

definition extractModelMeta :: "json option \<Rightarrow> string option \<Rightarrow> fetched_model list" where
  "extractModelMeta json path = (case locateArray json path of
      None \<Rightarrow> [] | Some (arr, field) \<Rightarrow> collect_models field [] arr)"

definition extractModelIds :: "json option \<Rightarrow> string option \<Rightarrow> string list" where
  "extractModelIds json path = map fm_id (extractModelMeta json path)"

subsection \<open>Ids\<close>

lemma read_model_id [simp]: "fm_id (read_model el i) = i"
  by (simp add: read_model_def Let_def)

text \<open>First occurrences, in order.\<close>

fun firsts :: "'a list \<Rightarrow> 'a list \<Rightarrow> 'a list" where
  "firsts seen [] = []"
| "firsts seen (x # xs) = (if x \<in> set seen then firsts seen xs else x # firsts (x # seen) xs)"

definition element_ids :: "string \<Rightarrow> json list \<Rightarrow> string list" where
  "element_ids field els = concat (map (\<lambda>el. case element_id field el of Some i \<Rightarrow> [i] | None \<Rightarrow> []) els)"

lemma collect_models_ids: "map fm_id (collect_models field seen els) = firsts seen (element_ids field els)"
  by (induction field seen els rule: collect_models.induct) (auto simp: element_ids_def split: option.splits)

lemma firsts_distinct: "distinct (firsts seen xs) \<and> set (firsts seen xs) = set xs - set seen"
  by (induction seen xs rule: firsts.induct) auto

lemma element_id_some: "element_id field el = Some i \<Longrightarrow> i \<noteq> []"
  by (auto simp: element_id_def split: option.splits json.splits if_splits)

lemma element_ids_nonempty: "[] \<notin> set (element_ids field els)"
  by (auto simp: element_ids_def dest: element_id_some [OF sym] split: option.splits)

lemma collect_models_source: "m \<in> set (collect_models field seen els) \<Longrightarrow> \<exists>el \<in> set els. m = read_model el (fm_id m)"
  by (induction field seen els rule: collect_models.induct) (auto split: option.splits if_splits)

lemma price_per1M_nonneg: "price_per1M v = Some p \<Longrightarrow> 0 \<le> p"
proof -
  assume a: "price_per1M v = Some p"
  then obtain n where "p = of_int (math_round (n * 1000000 * 1000000)) / 1000000" and n: "\<not> n < 0"
    unfolding price_per1M_def by (cases "case v of Some (JStr s) \<Rightarrow> js_Number s | Some (JNum n) \<Rightarrow> n | _ \<Rightarrow> None")
      (simp_all only: option.case option.distinct option.inject split: if_splits, blast+)
  moreover have "(0 :: rat) \<le> of_int (math_round (n * 1000000 * 1000000))"
    using n math_round_nonneg [of "n * 1000000 * 1000000"] by simp
  ultimately show ?thesis by simp
qed

lemma first_window_nonneg: "first_window el ks = Some n \<Longrightarrow> 0 \<le> n"
  by (induction ks) (auto split: option.splits if_splits)

lemma read_model_sane:
  "(\<forall>p. fm_inputCostPer1M (read_model el i) = Some p \<longrightarrow> 0 \<le> p) \<and>
   (\<forall>p. fm_outputCostPer1M (read_model el i) = Some p \<longrightarrow> 0 \<le> p) \<and>
   (\<forall>n. fm_contextWindow (read_model el i) = Some n \<longrightarrow> 0 \<le> n)"
  by (auto simp: read_model_def Let_def readContextWindow_def price_per1M_nonneg first_window_nonneg
      bind_eq_Some_conv simp del: first_window.simps)

text \<open>The usual shape: an object with a \<open>data\<close> array of objects with ids.\<close>

definition listing :: "string list \<Rightarrow> json" where
  "listing ids = JObj [(''data'', JArr (map (\<lambda>i. JObj [(''id'', JStr i)]) ids))]"

lemma locate_listing: "locateArray (Some (listing ids)) None = Some (map (\<lambda>i. JObj [(''id'', JStr i)]) ids, ''id'')"
  by (simp add: locateArray_def DEFAULT_PATH_def listing_def drop_last_dot_def drop_first_dot_def walk_def prop_get_def)

lemma element_ids_listing:
  "element_ids ''id'' (map (\<lambda>i. JObj [(''id'', JStr i)]) ids) = filter (\<lambda>i. i \<noteq> []) (map trim ids)"
  by (induction ids) (auto simp: element_ids_def element_id_def walk_def prop_get_def)

end
