(* ===== verification/Usage_Pricing.thy ===== *)
theory Usage_Pricing
  imports Js_Map Json
begin

text \<open>
  What a request's usage is and what it costs: \<open>src/lib/usageDetail.ts\<close> (the extra token kinds, in any
  provider's format), \<open>src/lib/anthropicUsage.ts\<close> (the parts of Anthropic's usage, folded frame by
  frame) and \<open>src/lib/usagePrice.ts\<close> (the price).
\<close>

subsection \<open>Token kinds\<close>

record usage_detail =
  cachedInputTokens :: "int option"
  cacheWriteTokens :: "int option"
  cacheWrite5mTokens :: "int option"
  cacheWrite1hTokens :: "int option"
  cacheMissTokens :: "int option"
  reasoningTokens :: "int option"

definition no_detail :: usage_detail where
  "no_detail = \<lparr>cachedInputTokens = None, cacheWriteTokens = None, cacheWrite5mTokens = None,
     cacheWrite1hTokens = None, cacheMissTokens = None, reasoningTokens = None\<rparr>"

definition MAX_COUNT :: int where "MAX_COUNT = 2147483647"

definition detail_count :: "json option \<Rightarrow> int option" where
  "detail_count v = (case jnumber v of
      Some n \<Rightarrow> if 0 \<le> n \<and> n \<le> of_int MAX_COUNT then Some (math_round n) else None
    | None \<Rightarrow> None)"

fun first_count :: "json option list \<Rightarrow> int option" where
  "first_count [] = None"
| "first_count (v # vs) = (case detail_count v of Some n \<Rightarrow> Some n | None \<Rightarrow> first_count vs)"

definition jblock :: "json option \<Rightarrow> json option" where
  "jblock v = map_option JObj (jobject v)"

definition readUsageDetail :: "json option \<Rightarrow> usage_detail" where
  "readUsageDetail usage = (case jblock usage of None \<Rightarrow> no_detail
    | Some _ \<Rightarrow>
        let u = jblock usage;
            prompt = jblock (jget ''prompt_tokens_details'' u);
            completion = jblock (jget ''completion_tokens_details'' u);
            creation = jblock (jget ''cache_creation'' u)
        in \<lparr>cachedInputTokens = first_count [jget ''cached_tokens'' prompt, jget ''cache_read_input_tokens'' u,
               jget ''prompt_cache_hit_tokens'' u, jget ''cachedContentTokenCount'' u],
            cacheWriteTokens = first_count [jget ''cache_creation_input_tokens'' u, jget ''cache_write_tokens'' prompt],
            cacheWrite5mTokens = detail_count (jget ''ephemeral_5m_input_tokens'' creation),
            cacheWrite1hTokens = detail_count (jget ''ephemeral_1h_input_tokens'' creation),
            cacheMissTokens = detail_count (jget ''prompt_cache_miss_tokens'' u),
            reasoningTokens = first_count [jget ''reasoning_tokens'' completion, jget ''thoughtsTokenCount'' u]\<rparr>)"

definition keep_or :: "'a option \<Rightarrow> 'a option \<Rightarrow> 'a option" where
  "keep_or old new = (case new of Some _ \<Rightarrow> new | None \<Rightarrow> old)"

definition mergeUsageDetail :: "usage_detail \<Rightarrow> usage_detail \<Rightarrow> usage_detail" where
  "mergeUsageDetail a b =
     \<lparr>cachedInputTokens = keep_or (cachedInputTokens a) (cachedInputTokens b),
      cacheWriteTokens = keep_or (cacheWriteTokens a) (cacheWriteTokens b),
      cacheWrite5mTokens = keep_or (cacheWrite5mTokens a) (cacheWrite5mTokens b),
      cacheWrite1hTokens = keep_or (cacheWrite1hTokens a) (cacheWrite1hTokens b),
      cacheMissTokens = keep_or (cacheMissTokens a) (cacheMissTokens b),
      reasoningTokens = keep_or (reasoningTokens a) (reasoningTokens b)\<rparr>"

subsection \<open>Anthropic's parts\<close>

type_synonym server_tool_use = "(string \<times> int) list"

record anthropic_parts =
  p_uncached :: "int option"
  p_cacheRead :: "int option"
  p_cacheWrite :: "int option"
  p_output :: "int option"
  p_serverToolUse :: "server_tool_use option"

definition no_parts :: anthropic_parts where
  "no_parts = \<lparr>p_uncached = None, p_cacheRead = None, p_cacheWrite = None, p_output = None, p_serverToolUse = None\<rparr>"

definition usage_count :: "json option \<Rightarrow> int option" where
  "usage_count v = (case jnumber v of Some n \<Rightarrow> if 0 \<le> n then Some (math_round n) else None | None \<Rightarrow> None)"

text \<open>\<open>{ ...uses, [name]: n }\<close> over the reported entries.\<close>

fun merge_tools :: "server_tool_use option \<Rightarrow> (string \<times> json) list \<Rightarrow> server_tool_use option" where
  "merge_tools uses [] = uses"
| "merge_tools uses ((name, v) # kvs) = merge_tools (case usage_count (Some v) of
      Some n \<Rightarrow> Some (AList.update name n (option_or uses [])) | None \<Rightarrow> uses) kvs"

definition mergeAnthropicUsage :: "anthropic_parts \<Rightarrow> json option \<Rightarrow> bool \<Rightarrow> anthropic_parts" where
  "mergeAnthropicUsage parts usage withOutput = (case jobject usage of None \<Rightarrow> parts
    | Some kvs \<Rightarrow>
        let u = Some (JObj kvs) in
        \<lparr>p_uncached = keep_or (p_uncached parts) (usage_count (jget ''input_tokens'' u)),
         p_cacheRead = keep_or (p_cacheRead parts) (usage_count (jget ''cache_read_input_tokens'' u)),
         p_cacheWrite = keep_or (p_cacheWrite parts) (usage_count (jget ''cache_creation_input_tokens'' u)),
         p_output = (if withOutput then keep_or (p_output parts) (usage_count (jget ''output_tokens'' u)) else p_output parts),
         p_serverToolUse = (case jobject (jget ''server_tool_use'' u) of
             Some tools \<Rightarrow> merge_tools (p_serverToolUse parts) tools | None \<Rightarrow> p_serverToolUse parts)\<rparr>)"

record anthropic_tokens =
  at_input :: "int option"
  at_output :: "int option"

definition anthropicTotals :: "anthropic_parts \<Rightarrow> anthropic_tokens" where
  "anthropicTotals parts =
     \<lparr>at_input = map_option (\<lambda>u. u + option_or (p_cacheRead parts) 0 + option_or (p_cacheWrite parts) 0) (p_uncached parts),
      at_output = p_output parts\<rparr>"

definition readAnthropicTokens :: "json option \<Rightarrow> anthropic_tokens" where
  "readAnthropicTokens usage = anthropicTotals (mergeAnthropicUsage no_parts usage True)"

definition readServerToolUse :: "json option \<Rightarrow> server_tool_use option" where
  "readServerToolUse usage = p_serverToolUse (mergeAnthropicUsage no_parts usage True)"

subsection \<open>Prices\<close>

record extra_prices =
  cacheReadCostPer1M :: "rat option"
  cacheWrite5mCostPer1M :: "rat option"
  cacheWrite1hCostPer1M :: "rat option"
  webSearchCostPer1K :: "rat option"
  webFetchCostPer1K :: "rat option"

definition real_price :: "json option \<Rightarrow> rat option" where
  "real_price v = (case jnumber v of Some p \<Rightarrow> if 0 \<le> p then Some p else None | None \<Rightarrow> None)"

definition readExtraPrices :: "json option \<Rightarrow> extra_prices" where
  "readExtraPrices raw = \<lparr>cacheReadCostPer1M = real_price (jget ''cacheReadCostPer1M'' raw),
     cacheWrite5mCostPer1M = real_price (jget ''cacheWrite5mCostPer1M'' raw),
     cacheWrite1hCostPer1M = real_price (jget ''cacheWrite1hCostPer1M'' raw),
     webSearchCostPer1K = real_price (jget ''webSearchCostPer1K'' raw),
     webFetchCostPer1K = real_price (jget ''webFetchCostPer1K'' raw)\<rparr>"

text \<open>Family, reported counter, price.\<close>

definition METERED_SERVER_TOOLS :: "(string \<times> string \<times> (extra_prices \<Rightarrow> rat option)) list" where
  "METERED_SERVER_TOOLS = [(''web_search'', ''web_search_requests'', webSearchCostPer1K),
     (''web_fetch'', ''web_fetch_requests'', webFetchCostPer1K)]"

definition serverToolPriced :: "json option \<Rightarrow> string \<Rightarrow> bool" where
  "serverToolPriced m family = (case map_of METERED_SERVER_TOOLS family of
      None \<Rightarrow> False | Some (counter, price) \<Rightarrow> m \<noteq> None \<and> price (readExtraPrices m) \<noteq> None)"

text \<open>The price fields of a registry entry are finite numbers when they are numbers.\<close>

definition per1M :: "json option \<Rightarrow> string \<Rightarrow> rat" where
  "per1M m side = (case jnumber (jget (side @ ''PricePer1k'') m) of
      Some k \<Rightarrow> k * 1000
    | None \<Rightarrow> option_or (jnumber (jget (side @ ''CostPer1M'') m)) 0)"

definition cache_rate :: "bool \<Rightarrow> rat \<Rightarrow> rat option \<Rightarrow> rat \<Rightarrow> rat" where
  "cache_rate anthropic inPrice own mult = option_or own (if anthropic then inPrice * mult else inPrice)"

definition split_cost :: "bool \<Rightarrow> rat \<Rightarrow> extra_prices \<Rightarrow> int \<Rightarrow> usage_detail \<Rightarrow> rat" where
  "split_cost anthropic inPrice extra inp d =
     (let reads = option_or (cachedInputTokens d) 0;
          w5m = option_or (cacheWrite5mTokens d) 0;
          w1h = option_or (cacheWrite1hTokens d) 0;
          writes = max (option_or (cacheWriteTokens d) 0) (w5m + w1h);
          unsplit = writes - w5m - w1h;
          uncached = max 0 (inp - reads - writes)
      in of_int uncached * inPrice
         + of_int reads * cache_rate anthropic inPrice (cacheReadCostPer1M extra) (1/10)
         + of_int w5m * cache_rate anthropic inPrice (cacheWrite5mCostPer1M extra) (5/4)
         + of_int (w1h + unsplit) * cache_rate anthropic inPrice (cacheWrite1hCostPer1M extra) 2)"

definition tools_cost :: "extra_prices \<Rightarrow> server_tool_use \<Rightarrow> rat" where
  "tools_cost extra uses = sum_list (map (\<lambda>(family, counter, price).
      let n = option_or (map_of uses counter) 0 in
      case price extra of Some p \<Rightarrow> if 0 < n then of_int n / 1000 * p else 0 | None \<Rightarrow> 0) METERED_SERVER_TOOLS)"

definition tokenCost ::
  "json option \<Rightarrow> string \<Rightarrow> int \<Rightarrow> int \<Rightarrow> usage_detail \<Rightarrow> server_tool_use \<Rightarrow> rat" where
  "tokenCost m provider inp outp detail uses =
     (let inPrice = per1M m ''input''; extra = readExtraPrices m;
          anthropic = (provider = ''anthropic'');
          ownRates = (cacheReadCostPer1M extra \<noteq> None \<or> cacheWrite5mCostPer1M extra \<noteq> None
                      \<or> cacheWrite1hCostPer1M extra \<noteq> None);
          inputUsd = (if anthropic \<or> ownRates then split_cost anthropic inPrice extra inp detail
                      else of_int inp * inPrice)
      in (inputUsd + of_int outp * per1M m ''output'') / 1000000 + tools_cost extra uses)"

subsection \<open>A count is a count\<close>

lemma detail_count_bounds: "detail_count v = Some n \<Longrightarrow> 0 \<le> n \<and> n \<le> MAX_COUNT"
proof -
  assume "detail_count v = Some n"
  then obtain x where x: "0 \<le> x" "x \<le> of_int MAX_COUNT" "n = math_round x"
    by (auto simp: detail_count_def split: option.splits if_splits)
  then have "x + 1/2 < of_int (MAX_COUNT + 1)" by simp
  then have "\<lfloor>x + 1/2\<rfloor> < MAX_COUNT + 1" by (simp only: floor_less_iff)
  then show ?thesis using x math_round_nonneg [OF x(1)] by (simp add: math_round_def)
qed

lemma first_count_bounds: "first_count vs = Some n \<Longrightarrow> 0 \<le> n \<and> n \<le> MAX_COUNT"
  by (induction vs) (auto dest: detail_count_bounds split: option.splits)

definition detail_values :: "usage_detail \<Rightarrow> int option list" where
  "detail_values d = [cachedInputTokens d, cacheWriteTokens d, cacheWrite5mTokens d, cacheWrite1hTokens d,
     cacheMissTokens d, reasoningTokens d]"

definition detail_ok :: "usage_detail \<Rightarrow> bool" where
  "detail_ok d \<longleftrightarrow> (\<forall>n. Some n \<in> set (detail_values d) \<longrightarrow> 0 \<le> n \<and> n \<le> MAX_COUNT)"

lemma readUsageDetail_ok: "detail_ok (readUsageDetail u)"
proof (cases "jblock u")
  case None
  then show ?thesis by (simp add: readUsageDetail_def detail_ok_def detail_values_def no_detail_def)
next
  case (Some b)
  then have *: "Some n \<in> set (detail_values (readUsageDetail u)) \<Longrightarrow> (\<exists>vs. first_count vs = Some n) \<or> (\<exists>v. detail_count v = Some n)" for n
    by (simp add: readUsageDetail_def Let_def detail_values_def del: first_count.simps) metis
  show ?thesis unfolding detail_ok_def using * first_count_bounds detail_count_bounds by blast
qed

lemma mergeUsageDetail_ok: "detail_ok a \<Longrightarrow> detail_ok b \<Longrightarrow> detail_ok (mergeUsageDetail a b)"
  by (auto simp: detail_ok_def detail_values_def mergeUsageDetail_def keep_or_def split: option.splits)

lemma keep_or_assoc: "keep_or (keep_or a b) c = keep_or a (keep_or b c)"
  by (simp add: keep_or_def split: option.split)

lemma mergeUsageDetail_assoc:
  "mergeUsageDetail (mergeUsageDetail a b) c = mergeUsageDetail a (mergeUsageDetail b c)"
  by (simp add: mergeUsageDetail_def keep_or_assoc)

lemma mergeUsageDetail_unit: "mergeUsageDetail no_detail a = a" "mergeUsageDetail a no_detail = a"
  by (simp_all add: mergeUsageDetail_def no_detail_def keep_or_def split: option.split)

subsection \<open>The price\<close>

lemma real_price_nonneg: "real_price v = Some p \<Longrightarrow> 0 \<le> p"
  by (simp add: real_price_def split: option.splits if_splits)

lemma cache_rate_nonneg:
  "0 \<le> inPrice \<Longrightarrow> own = None \<or> (\<exists>v. own = real_price v) \<Longrightarrow> 0 \<le> mult \<Longrightarrow> 0 \<le> cache_rate a inPrice own mult"
  by (cases own) (auto simp: cache_rate_def dest: real_price_nonneg [OF sym])


lemma split_cost_nonneg:
  assumes "0 \<le> inPrice" and "detail_ok d"
  shows "0 \<le> split_cost a inPrice (readExtraPrices m) n d"
proof -
  let ?r = "option_or (cachedInputTokens d) 0" and ?wf = "option_or (cacheWrite5mTokens d) 0"
    and ?wo = "option_or (cacheWrite1hTokens d) 0" and ?w = "option_or (cacheWriteTokens d) 0"
  have c: "0 \<le> option_or (f d) 0" if "f d \<in> set (detail_values d)" for f
    using assms(2) that by (cases "f d") (auto simp: detail_ok_def)
  have n: "0 \<le> ?r" "0 \<le> ?wf" "0 \<le> ?wo" by (rule c, simp add: detail_values_def)+
  have u: "0 \<le> ?wo + (max ?w (?wf + ?wo) - ?wf - ?wo)" using n by (simp add: max_def)
  have rates: "0 \<le> cache_rate a inPrice (cacheReadCostPer1M (readExtraPrices m)) (1/10)"
    "0 \<le> cache_rate a inPrice (cacheWrite5mCostPer1M (readExtraPrices m)) (5/4)"
    "0 \<le> cache_rate a inPrice (cacheWrite1hCostPer1M (readExtraPrices m)) 2"
    using assms(1) by (auto intro!: cache_rate_nonneg simp: readExtraPrices_def)
  have ni: "(0 :: rat) \<le> of_int k" if "0 \<le> k" for k using that by (simp only: of_int_0_le_iff)
  show ?thesis unfolding split_cost_def Let_def
    by (intro add_nonneg_nonneg mult_nonneg_nonneg ni n u rates assms(1)) simp
qed

lemma tools_cost_nonneg: "0 \<le> tools_cost (readExtraPrices m) uses"
  by (auto simp: tools_cost_def METERED_SERVER_TOOLS_def Let_def readExtraPrices_def dest: real_price_nonneg
      intro!: add_nonneg_nonneg divide_nonneg_nonneg mult_nonneg_nonneg split: option.splits)

text \<open>Away from Anthropic and without own cache rates, the split of the input does not matter.\<close>

lemma tokenCost_plain:
  assumes "provider \<noteq> ''anthropic''" and "cacheReadCostPer1M (readExtraPrices m) = None"
    and "cacheWrite5mCostPer1M (readExtraPrices m) = None" and "cacheWrite1hCostPer1M (readExtraPrices m) = None"
  shows "tokenCost m provider i ou d uses =
    (of_int i * per1M m ''input'' + of_int ou * per1M m ''output'') / 1000000 + tools_cost (readExtraPrices m) uses"
  using assms by (simp add: tokenCost_def Let_def)

text \<open>Anthropic's published multipliers, when the parts fit the prompt and no own rate is set.\<close>

lemma split_cost_anthropic:
  assumes "cacheReadCostPer1M e = None" and "cacheWrite5mCostPer1M e = None" and "cacheWrite1hCostPer1M e = None"
    and "cachedInputTokens d = Some r" and "cacheWriteTokens d = Some w" and "cacheWrite5mTokens d = Some w5"
    and "cacheWrite1hTokens d = Some w1" and "w5 + w1 \<le> w" and "r + w \<le> n"
  shows "split_cost True p e n d =
    of_int (n - r - w) * p + of_int r * (p * (1/10)) + of_int w5 * (p * (5/4)) + of_int (w - w5) * (p * 2)"
  using assms by (simp add: split_cost_def Let_def cache_rate_def max_def)

subsection \<open>Properties\<close>

text \<open>
  Whatever a provider reports, a stored price entry says and the request used, pricing never yields
  a negative amount, given prompt and answer counts that are not negative and base prices that are not:
  the usage split is the one read from the reports of a stream, merged in any number.
\<close>

theorem price_never_negative:
  assumes "0 \<le> inp" and "0 \<le> outp" and "0 \<le> per1M m ''input''" and "0 \<le> per1M m ''output''"
  shows "0 \<le> tokenCost m provider inp outp (foldl mergeUsageDetail no_detail (map readUsageDetail reports)) uses"
proof -
  have ok: "detail_ok (foldl mergeUsageDetail d (map readUsageDetail reports))" if "detail_ok d" for d
    using that by (induction reports arbitrary: d) (simp_all add: mergeUsageDetail_ok readUsageDetail_ok)
  have "detail_ok no_detail" by (simp add: no_detail_def detail_ok_def detail_values_def)
  from split_cost_nonneg [OF assms(3) ok [OF this]] tools_cost_nonneg assms show ?thesis
    by (simp add: tokenCost_def Let_def)
qed

theorem price_never_negative_witness:
  "0 \<le> tokenCost None ''anthropic'' 10 5 (foldl mergeUsageDetail no_detail (map readUsageDetail [None]))
     [(''web_search_requests'', 2)]"
proof -
  have "0 \<le> per1M None ''input''" "0 \<le> per1M None ''output''" by code_simp+
  from price_never_negative [of 10 5, OF _ _ this, of "''anthropic''" "[None]" "[(''web_search_requests'', 2)]"]
  show ?thesis by simp
qed
text \<open>
  The usage split of a stream does not depend on how its reports are grouped: merging is
  associative with the empty split as its unit,
  and every count of a merge of read reports stays a count between zero and the largest one accepted.
\<close>

theorem usage_reports_merge:
  "mergeUsageDetail (mergeUsageDetail a b) c = mergeUsageDetail a (mergeUsageDetail b c) \<and>
   mergeUsageDetail no_detail a = a \<and> mergeUsageDetail a no_detail = a \<and>
   detail_ok (mergeUsageDetail (readUsageDetail u) (readUsageDetail v))"
  using mergeUsageDetail_assoc mergeUsageDetail_unit mergeUsageDetail_ok readUsageDetail_ok by metis

end
