(* ===== verification/Js_Date.thy ===== *)
theory Js_Date
  imports Prelude
begin

text \<open>
  The calendar behind \<open>Date\<close> in UTC, as the language defines it: days since 1970, the year, month and
  date of a day, the weekday, and \<open>Date.UTC\<close> with its overflow of months and days. An instant is a
  number of milliseconds. (The two-digit-year rule of \<open>Date.UTC\<close> concerns years 0 to 99 only and is
  left out.)
\<close>

definition MS_PER_DAY :: int where "MS_PER_DAY = 86400000"

definition day_of :: "int \<Rightarrow> int" where
  "day_of t = t div MS_PER_DAY"

definition day_from_year :: "int \<Rightarrow> int" where
  "day_from_year y = 365 * (y - 1970) + (y - 1969) div 4 - (y - 1901) div 100 + (y - 1601) div 400"

definition leap :: "int \<Rightarrow> bool" where
  "leap y \<longleftrightarrow> (y mod 4 = 0 \<and> y mod 100 \<noteq> 0) \<or> y mod 400 = 0"

definition year_of_day :: "int \<Rightarrow> int" where
  "year_of_day d = (let y = 1970 + (400 * d) div 146097 in
     if d < day_from_year y then y - 1 else if day_from_year (y + 1) \<le> d then y + 1 else y)"

text \<open>Days before each month, in a common year and in a leap year.\<close>

definition month_starts :: "bool \<Rightarrow> int list" where
  "month_starts lp = (if lp then [0, 31, 60, 91, 121, 152, 182, 213, 244, 274, 305, 335, 366]
     else [0, 31, 59, 90, 120, 151, 181, 212, 243, 273, 304, 334, 365])"

text \<open>Months count from 0, dates from 1, weekdays from Sunday = 0.\<close>

fun last_start :: "nat \<Rightarrow> int list \<Rightarrow> int \<Rightarrow> nat" where
  "last_start 0 ms n = 0"
| "last_start (Suc k) ms n = (if ms ! Suc k \<le> n then Suc k else last_start k ms n)"

definition day_in_year :: "int \<Rightarrow> int" where
  "day_in_year d = d - day_from_year (year_of_day d)"

definition month_of_day :: "int \<Rightarrow> nat" where
  "month_of_day d = last_start 11 (month_starts (leap (year_of_day d))) (day_in_year d)"

definition date_of_day :: "int \<Rightarrow> int" where
  "date_of_day d = day_in_year d - month_starts (leap (year_of_day d)) ! month_of_day d + 1"

definition weekday :: "int \<Rightarrow> int" where
  "weekday d = (d + 4) mod 7"

definition make_day :: "int \<Rightarrow> int \<Rightarrow> int \<Rightarrow> int" where
  "make_day y m d = (let y' = y + m div 12 in
     day_from_year y' + month_starts (leap y') ! nat (m mod 12) + d - 1)"

definition UTCFullYear :: "int \<Rightarrow> int" where "UTCFullYear t = year_of_day (day_of t)"
definition UTCMonth :: "int \<Rightarrow> int" where "UTCMonth t = int (month_of_day (day_of t))"
definition UTCDate :: "int \<Rightarrow> int" where "UTCDate t = date_of_day (day_of t)"
definition UTCDay :: "int \<Rightarrow> int" where "UTCDay t = weekday (day_of t)"

definition Date_UTC :: "int \<Rightarrow> int \<Rightarrow> int \<Rightarrow> int" where
  "Date_UTC y m d = make_day y m d * MS_PER_DAY"

text \<open>\<open>setUTCDate\<close> on an instant: the same month, the date given, the same time of day.\<close>

definition setUTCDate :: "int \<Rightarrow> int \<Rightarrow> int" where
  "setUTCDate t d = make_day (UTCFullYear t) (UTCMonth t) d * MS_PER_DAY + t mod MS_PER_DAY"

subsection \<open>The year of a day\<close>

lemma div_bounds: "0 < b \<Longrightarrow> b * (a div b) \<le> a \<and> a < b * (a div b) + b" for a b :: int
  using pos_mod_bound [of b a] pos_mod_sign [of b a] mult_div_mod_eq [of b a] by linarith

lemma div_step: "0 < b \<Longrightarrow> (a + 1) div b = a div b + (if (a + 1) mod b = 0 then 1 else 0)" for a b :: int
proof -
  assume b: "0 < b"
  define q p r where "q = a div b" and "p = (a + 1) div b" and "r = (a + 1) mod b"
  have 1: "b * q \<le> a" "a < b * q + b" "b * p + r = a + 1" "0 \<le> r" "r < b"
    using div_bounds [OF b, of a] b by (simp_all add: q_def p_def r_def)
  have "p = q + (if r = 0 then 1 else 0)"
  proof (cases "r = 0")
    case True
    with 1 have "b * q < b * p" "b * p < b * (q + 2)" unfolding distrib_left by linarith+
    with b have "q < p" "p < q + 2" by (simp_all only: mult_less_cancel_left_pos)
    with True show ?thesis by simp
  next
    case False
    with 1 have "b * q < b * (p + 1)" "b * p < b * (q + 1)" unfolding distrib_left by linarith+
    with b have "q < p + 1" "p < q + 1" by (simp_all only: mult_less_cancel_left_pos)
    with False show ?thesis by simp
  qed
  then show ?thesis by (simp only: p_def q_def r_def)
qed

lemma day_from_year_bounds:
  "146097 * (y - 1970) - 600 \<le> 400 * day_from_year y" "400 * day_from_year y \<le> 146097 * (y - 1970) + 600"
  using div_bounds [of 4 "y - 1969"] div_bounds [of 100 "y - 1901"] div_bounds [of 400 "y - 1601"]
  by (simp_all add: day_from_year_def)

lemma year_arith:
  fixes y p q r p' q' r' :: int
  assumes "p' = p + (if a then 1 else 0)" and "q' = q + (if b then 1 else 0)" and "r' = r + (if c then 1 else 0)"
    and "c \<longrightarrow> b" and "b \<longrightarrow> a"
  shows "365 * (y + 1 - 1970) + p' - q' + r' = (365 * (y - 1970) + p - q + r) + (if (a \<and> \<not> b) \<or> c then 366 else 365)"
  using assms by (cases a; cases b; cases c) simp_all

lemma day_from_year_step: "day_from_year (y + 1) = day_from_year y + (if leap y then 366 else 365)"
proof -
  have e: "y + 1 - 1969 = y - 1969 + 1" "y + 1 - 1901 = y - 1901 + 1" "y + 1 - 1601 = y - 1601 + 1" by simp_all
  have m: "(y - 1969 + 1) mod 4 = y mod 4" "(y - 1901 + 1) mod 100 = y mod 100" "(y - 1601 + 1) mod 400 = y mod 400"
    using mod_mult_self1 [of y "- 492" 4] mod_mult_self1 [of y "- 19" 100] mod_mult_self1 [of y "- 4" 400] by simp_all
  have c: "y mod 400 = 0 \<longrightarrow> y mod 100 = 0" "y mod 100 = 0 \<longrightarrow> y mod 4 = 0"
    unfolding mod_eq_0_iff_dvd by (auto intro: dvd_trans [of 100 400] dvd_trans [of 4 100])
  show ?thesis unfolding day_from_year_def leap_def e
  proof (rule year_arith)
    show "(y - 1969 + 1) div 4 = (y - 1969) div 4 + (if y mod 4 = 0 then 1 else 0)"
      using div_step [of 4 "y - 1969"] unfolding m by (simp only: zero_less_numeral)
    show "(y - 1901 + 1) div 100 = (y - 1901) div 100 + (if y mod 100 = 0 then 1 else 0)"
      using div_step [of 100 "y - 1901"] unfolding m by (simp only: zero_less_numeral)
    show "(y - 1601 + 1) div 400 = (y - 1601) div 400 + (if y mod 400 = 0 then 1 else 0)"
      using div_step [of 400 "y - 1601"] unfolding m by (simp only: zero_less_numeral)
  qed (rule c)+
qed

lemma day_from_year_mono: "y \<le> z \<Longrightarrow> day_from_year y \<le> day_from_year z"
proof (induction z rule: int_ge_induct)
  case (step z)
  then show ?case using day_from_year_step [of z] by (auto split: if_splits)
qed simp

lemma year_of_day_bounds: "day_from_year (year_of_day d) \<le> d \<and> d < day_from_year (year_of_day d + 1)"
proof -
  define y where "y = 1970 + (400 * d) div 146097"
  have q: "146097 * (y - 1970) \<le> 400 * d" "400 * d < 146097 * (y - 1970) + 146097"
    using div_bounds [of 146097 "400 * d"] by (simp_all add: y_def)
  have "day_from_year (y - 1) \<le> d" "d < day_from_year (y + 1 + 1)"
    using day_from_year_bounds [of "y - 1"] day_from_year_bounds [of "y + 2"] q by (simp_all add: algebra_simps)
  moreover have "year_of_day d = (if d < day_from_year y then y - 1 else if day_from_year (y + 1) \<le> d then y + 1 else y)"
    by (simp add: year_of_day_def y_def)
  ultimately show ?thesis by (cases "d < day_from_year y"; cases "day_from_year (y + 1) \<le> d") simp_all
qed

lemma year_of_day_unique: "day_from_year y \<le> d \<Longrightarrow> d < day_from_year (y + 1) \<Longrightarrow> year_of_day d = y"
proof -
  assume y: "day_from_year y \<le> d" "d < day_from_year (y + 1)"
  have "\<not> y + 1 \<le> year_of_day d"
  proof
    assume "y + 1 \<le> year_of_day d"
    from day_from_year_mono [OF this] year_of_day_bounds [of d] y show False by linarith
  qed
  moreover have "\<not> year_of_day d + 1 \<le> y"
  proof
    assume "year_of_day d + 1 \<le> y"
    from day_from_year_mono [OF this] year_of_day_bounds [of d] y show False by linarith
  qed
  ultimately show ?thesis by simp
qed

lemma year_nonneg: "0 \<le> d \<Longrightarrow> 1970 \<le> year_of_day d"
proof (rule ccontr)
  assume d: "0 \<le> d" and "\<not> 1970 \<le> year_of_day d"
  then have "year_of_day d + 1 \<le> 1970" by simp
  moreover have "day_from_year 1970 = 0" by (simp add: day_from_year_def)
  ultimately have "day_from_year (year_of_day d + 1) \<le> 0" using day_from_year_mono by metis
  with year_of_day_bounds [of d] d show False by linarith
qed

subsection \<open>Months and dates\<close>

lemma day_in_year_bounds: "0 \<le> day_in_year d \<and> day_in_year d < month_starts (leap (year_of_day d)) ! 12"
  using year_of_day_bounds [of d] day_from_year_step [of "year_of_day d"]
  by (auto simp: day_in_year_def month_starts_def split: if_splits)

lemma last_start_bounds: "ms ! 0 \<le> n \<Longrightarrow> n < ms ! Suc k \<Longrightarrow>
    last_start k ms n \<le> k \<and> ms ! last_start k ms n \<le> n \<and> n < ms ! Suc (last_start k ms n)"
  by (induction k) (auto simp: le_Suc_eq)

lemma month_bounds:
  "month_of_day d \<le> 11 \<and> month_starts (leap (year_of_day d)) ! month_of_day d \<le> day_in_year d \<and>
   day_in_year d < month_starts (leap (year_of_day d)) ! Suc (month_of_day d)"
proof -
  have "month_starts lp ! 0 = 0" for lp by (simp add: month_starts_def)
  then show ?thesis unfolding month_of_day_def
    using day_in_year_bounds [of d] by (intro last_start_bounds) (simp_all add: eval_nat_numeral)
qed

lemma make_day_id: "make_day (year_of_day d) (int (month_of_day d)) (date_of_day d) = d"
proof -
  have m: "month_of_day d \<le> 11" using month_bounds by blast
  then have "int (month_of_day d) div 12 = 0" "int (month_of_day d) mod 12 = int (month_of_day d)" by simp_all
  then show ?thesis by (simp add: make_day_def date_of_day_def day_in_year_def Let_def)
qed

lemma make_day_shift: "make_day y m (d + k) = make_day y m d + k"
  by (simp add: make_day_def Let_def)

lemma month_length: "lp = leap y \<Longrightarrow> k < 12 \<Longrightarrow> month_starts lp ! Suc k - month_starts lp ! k \<le> 31 \<and>
    28 \<le> month_starts lp ! Suc k - month_starts lp ! k"
  by (cases lp) (auto simp: month_starts_def numeral_eq_Suc less_Suc_eq)

lemma date_bounds: "1 \<le> date_of_day d \<and> date_of_day d \<le> 31"
  using month_bounds [of d] month_length [of "leap (year_of_day d)" "year_of_day d" "month_of_day d"]
  by (auto simp: date_of_day_def)

text \<open>The first day of a day's month, and of the next month.\<close>

lemma month_window:
  "make_day (year_of_day d) (int (month_of_day d)) 1 \<le> d"
  "d < make_day (year_of_day d) (int (month_of_day d) + 1) 1"
  "make_day (year_of_day d) (int (month_of_day d) + 1) 1 \<le> make_day (year_of_day d) (int (month_of_day d)) 1 + 31"
proof -
  let ?y = "year_of_day d" and ?m = "month_of_day d"
  have m: "?m \<le> 11" using month_bounds by blast
  then have "int ?m div 12 = 0" "int ?m mod 12 = int ?m" by simp_all
  then have s: "make_day ?y (int ?m) 1 = day_from_year ?y + month_starts (leap ?y) ! ?m"
    by (simp add: make_day_def Let_def)
  have e: "make_day ?y (int ?m + 1) 1 = day_from_year ?y + month_starts (leap ?y) ! Suc ?m"
  proof (cases "?m = 11")
    case True
    have "month_starts lp ! 0 = 0" for lp by (simp add: month_starts_def)
    with True show ?thesis
      by (simp add: make_day_def day_from_year_step Let_def) (simp add: month_starts_def eval_nat_numeral)
  next
    case False
    with m have "(int ?m + 1) div 12 = 0" "(int ?m + 1) mod 12 = int ?m + 1" by simp_all
    then show ?thesis by (simp add: make_day_def nat_add_distrib Let_def)
  qed
  show "make_day ?y (int ?m) 1 \<le> d" "d < make_day ?y (int ?m + 1) 1"
    "make_day ?y (int ?m + 1) 1 \<le> make_day ?y (int ?m) 1 + 31"
    using s e month_bounds [of d] month_length [of "leap ?y" ?y ?m] m by (auto simp: day_in_year_def)
qed

lemma last_start_at: "m \<le> k \<Longrightarrow> ms ! m \<le> n \<Longrightarrow> (\<forall>j. m < j \<longrightarrow> j \<le> k \<longrightarrow> n < ms ! j) \<Longrightarrow> last_start k ms n = m"
proof (induction k)
  case (Suc k)
  show ?case
  proof (cases "m = Suc k")
    case True
    with Suc.prems show ?thesis by simp
  next
    case False
    with Suc.prems have s: "n < ms ! Suc k" "m \<le> k" by auto
    have "last_start k ms n = m" using Suc.prems s by (intro Suc.IH) auto
    with s show ?thesis by simp
  qed
qed simp

lemma month_starts_increase: "m < j \<Longrightarrow> j \<le> 12 \<Longrightarrow> month_starts lp ! m < month_starts lp ! j"
proof (induction j)
  case (Suc j)
  have "month_starts lp ! j < month_starts lp ! Suc j" if "j < 12"
    using that by (cases lp) (auto simp: month_starts_def numeral_eq_Suc less_Suc_eq)
  with Suc show ?case by (cases "m = j") auto
qed simp

text \<open>The first day of a month is in its year and month.\<close>

lemma first_of_month:
  assumes "m \<le> 11"
  shows "year_of_day (make_day y (int m) 1) = y \<and> month_of_day (make_day y (int m) 1) = m"
proof -
  have "int m div 12 = 0" "int m mod 12 = int m" using assms by simp_all
  then have d: "make_day y (int m) 1 = day_from_year y + month_starts (leap y) ! m"
    by (simp add: make_day_def Let_def)
  have l: "month_starts lp ! 12 = (if lp then 366 else 365)" "month_starts lp ! 0 = 0" for lp
    by (simp_all add: month_starts_def)
  have "0 \<le> month_starts (leap y) ! m" using month_starts_increase [of 0 m "leap y"] l(2) [of "leap y"] assms by (cases m) auto
  moreover have "month_starts (leap y) ! m < month_starts (leap y) ! 12"
    using month_starts_increase [of m 12 "leap y"] assms by simp
  ultimately have yr: "year_of_day (make_day y (int m) 1) = y"
    using day_from_year_step [of y] l(1) [of "leap y"] unfolding d by (intro year_of_day_unique) (auto split: if_splits)
  have "last_start 11 (month_starts (leap y)) (month_starts (leap y) ! m) = m"
    using assms month_starts_increase by (intro last_start_at) auto
  with yr show ?thesis by (simp add: month_of_day_def day_in_year_def d)
qed

lemma day_of_bounds: "day_of t * MS_PER_DAY \<le> t \<and> t < day_of t * MS_PER_DAY + MS_PER_DAY"
  using div_bounds [of MS_PER_DAY t] by (simp add: day_of_def MS_PER_DAY_def algebra_simps)

lemma day_of_whole [simp]: "day_of (d * MS_PER_DAY) = d"
  by (simp add: day_of_def MS_PER_DAY_def)

lemma setUTCDate_shift: "setUTCDate t (UTCDate t + k) = t + k * MS_PER_DAY"
proof -
  have "make_day (UTCFullYear t) (UTCMonth t) (UTCDate t + k) = day_of t + k"
    unfolding UTCFullYear_def UTCMonth_def UTCDate_def make_day_shift make_day_id ..
  then show ?thesis by (simp add: setUTCDate_def day_of_def distrib_right)
qed

lemma Date_UTC_today: "Date_UTC (UTCFullYear t) (UTCMonth t) (UTCDate t) = day_of t * MS_PER_DAY"
  by (simp add: Date_UTC_def UTCFullYear_def UTCMonth_def UTCDate_def make_day_id)

end
