(* ===== verification/Rate_Window.thy ===== *)
theory Rate_Window
  imports Kv_Commands
begin

text \<open>
  \<open>src/lib/rateWindow.ts\<close>: the one rule by which a key's requests and tokens are counted, two
  counters per limit with the previous one weighted by the part of it still inside the trailing
  window. A count is a number or NaN (\<open>None\<close>, when a counter holds text that is no number), and a
  comparison with NaN is false.
\<close>

record rate_window =
  w_current :: string
  w_previous :: string
  w_weight :: rat

definition rateWindow :: "string \<Rightarrow> int \<Rightarrow> int \<Rightarrow> rate_window" where
  "rateWindow prefix nowMs windowSeconds =
     (let windowMs = windowSeconds * 1000; index = nowMs div windowMs in
      \<lparr>w_current = prefix @ '':'' @ int_string index,
       w_previous = prefix @ '':'' @ int_string (index - 1),
       w_weight = 1 - of_int (js_rem nowMs windowMs) / of_int windowMs\<rparr>)"

definition counted :: "string option \<Rightarrow> rat option" where
  "counted v = js_Number (option_or v ''0'')"

definition nan_add :: "rat option \<Rightarrow> rat option \<Rightarrow> rat option" where
  "nan_add a b = (case (a, b) of (Some x, Some y) \<Rightarrow> Some (x + y) | _ \<Rightarrow> None)"

definition nan_gt :: "rat option \<Rightarrow> rat \<Rightarrow> bool" where
  "nan_gt a limit = (case a of Some x \<Rightarrow> limit < x | None \<Rightarrow> False)"

definition rateCount :: "int \<Rightarrow> rate_window \<Rightarrow> rat option kv" where
  "rateCount now w = bind_m (kv_get now (w_current w)) (\<lambda>c. bind_m (kv_get now (w_previous w)) (\<lambda>p.
     return_m (nan_add (counted c) (map_option (\<lambda>x. x * w_weight w) (counted p)))))"

definition windowTtl :: "int \<Rightarrow> int" where
  "windowTtl windowSeconds = windowSeconds * 2"

subsection \<open>The weight\<close>

lemma rateWindow_weight:
  assumes "0 \<le> nowMs" and "0 < secs"
  shows "w_weight (rateWindow p nowMs secs) = 1 - of_int (nowMs mod (secs * 1000)) / of_int (secs * 1000)"
  using assms by (simp add: rateWindow_def Let_def js_rem_nonneg)

lemma rateWindow_weight_bounds:
  assumes "0 \<le> nowMs" and "0 < secs"
  shows "0 < w_weight (rateWindow p nowMs secs)" "w_weight (rateWindow p nowMs secs) \<le> 1"
proof -
  let ?W = "secs * 1000"
  have W: "0 < ?W" using assms by simp
  have "nowMs mod ?W < ?W" "0 \<le> nowMs mod ?W" using W by simp_all
  then have "(of_int (nowMs mod ?W) :: rat) < of_int ?W" "(0 :: rat) \<le> of_int (nowMs mod ?W)"
    by (simp_all only: of_int_less_iff of_int_0_le_iff)
  moreover have "(0 :: rat) < of_int ?W" using W by (simp only: of_int_0_less_iff)
  ultimately show "0 < w_weight (rateWindow p nowMs secs)" "w_weight (rateWindow p nowMs secs) \<le> 1"
    unfolding rateWindow_weight [OF assms] by (simp_all add: divide_less_eq_1 del: of_int_mult)
qed

lemma window_keys:
  "w_current (rateWindow p t w) = p @ '':'' @ int_string (t div (w * 1000))"
  "w_previous (rateWindow p t w) = p @ '':'' @ int_string (t div (w * 1000) - 1)"
  by (simp_all add: rateWindow_def Let_def)

subsection \<open>Integer counters\<close>

definition counts :: "int \<Rightarrow> store \<Rightarrow> string \<Rightarrow> int \<Rightarrow> bool" where
  "counts now s k n \<longleftrightarrow> holds_str now s k \<and> counter_at now s k = Some (of_int n)"

lemma js_Number_0 [simp]: "js_Number ''0'' = Some 0"
  using js_Number_digits [of "''0''"] by (simp add: is_digit_def digits_val_def digit_val_def)

lemma counts_counted: "counts now s k n \<Longrightarrow> counted (str_at now s k) = Some (of_int n)"
  by (cases "str_at now s k") (simp_all add: counts_def counter_at_def counted_def)

lemma counts_purge [simp]: "counts now (purge now k' s) k n = counts now s k n"
  by (simp add: counts_def)

lemma counts_view_cong: "view now s k = view now s' k \<Longrightarrow> counts now s k n = counts now s' k n"
  by (simp add: counts_def holds_str_def counter_at_def str_at_def)

lemma rateCount_run [run_simps]:
  assumes "counts now s (w_current w) c" and "counts now s (w_previous w) p"
  shows "rateCount now w s = (Inr (Some (of_int c + of_int p * w_weight w)),
    purge now (w_previous w) (purge now (w_current w) s))"
  using assms
  by (simp add: rateCount_def bind_m_def kv_get_run counts_def return_m_def nan_add_def
      counts_counted [OF assms(1)] counts_counted [OF assms(2)])

text \<open>Counting: the incremented counter with a fresh deadline, as both admission scripts write it.\<close>

definition bump :: "int \<Rightarrow> string \<Rightarrow> rat \<Rightarrow> int \<Rightarrow> bool kv" where
  "bump now k n ttl = then_m (kv_incrby now k n) (kv_expire now k ttl)"

definition bumped :: "int \<Rightarrow> int \<Rightarrow> int \<Rightarrow> kv_entry" where
  "bumped now n ttl = \<lparr>val_of = VStr (int_string n), expires_at = Some (now + ttl * 1000)\<rparr>"

lemma js_String_sum [simp]: "js_String (of_int a + of_int b) = int_string (a + b)"
  by (metis js_String_int of_int_add)

lemma bump_run [run_simps]:
  assumes "counts now s k c" and "0 < ttl"
  shows "\<exists>s'. bump now k (of_int n) ttl s = (Inr True, s') \<and>
    view now s' = (view now s)(k \<mapsto> bumped now (c + n) ttl)"
proof -
  let ?e = "\<lparr>val_of = VStr (int_string (c + n)), expires_at = expiry_at now s k\<rparr>"
  let ?s1 = "store_set k ?e (purge now k s)"
  have a: "kv_incrby now k (of_int n) s = (Inr (of_int c + of_int n), ?s1)"
    using assms(1) by (simp add: kv_incrby_run counts_def)
  have v1: "view now ?s1 = (view now s)(k \<mapsto> ?e)"
    by (simp add: kvm.lookup_put)
  have b: "kv_expire now k ttl ?s1 = (Inr True, store_set k (?e\<lparr>expires_at := Some (now + ttl * 1000)\<rparr>) (purge now k ?s1))"
    by (simp add: kv_expire_run v1)
  have "view now (store_set k (?e\<lparr>expires_at := Some (now + ttl * 1000)\<rparr>) (purge now k ?s1))
     = (view now s)(k \<mapsto> bumped now (c + n) ttl)"
    using assms(2) by (simp add: view_store_set v1 expired_def bumped_def)
  with a b show ?thesis by (simp add: bump_def then_run)
qed

lemma bumped_alive: "0 < ttl \<Longrightarrow> \<not> expired now (bumped now n ttl)"
  by (simp add: expired_def bumped_def)

lemma counts_bumped: "view now s k = Some (bumped now' n ttl) \<Longrightarrow> counts now s k n"
  by (simp add: counts_def holds_str_def counter_at_def str_at_def bumped_def)

lemma counts_absent: "view now s k = None \<Longrightarrow> counts now s k 0"
  by (simp add: counts_def holds_str_def counter_at_def str_at_def)

end
