(* ===== verification/Admission.thy ===== *)
theory Admission
  imports Rate_Window
begin

text \<open>
  \<open>src/lib/admission.ts\<close>: atomic admission against a key's RPM and TPM limits, the reconciliation
  of a token reservation with real usage, and the Max Users cap. The scripts are the synchronous
  twins the in-process store runs; \<open>now\<close> is the store's clock and \<open>nowMs\<close> the instant the caller
  passes. The Lua texts are what Redis runs and are not modelled. Numbers of the environment
  appear at their defaults; console warnings are not modelled.
\<close>

definition RPM_TPM_WINDOW_SECONDS :: int where "RPM_TPM_WINDOW_SECONDS = 60"

definition rpmKey :: "string \<Rightarrow> string" where "rpmKey keyId = ''nexus:rpm:'' @ keyId"
definition tpmKey :: "string \<Rightarrow> string" where "tpmKey keyId = ''nexus:tpm:'' @ keyId"
definition usersKey :: "string \<Rightarrow> string" where "usersKey keyId = ''nexus:users:'' @ keyId"

definition MAXUSERS_WINDOW_SECONDS :: int where "MAXUSERS_WINDOW_SECONDS = 86400"

definition admit_script ::
  "int \<Rightarrow> string \<Rightarrow> string \<Rightarrow> int \<Rightarrow> int \<Rightarrow> int \<Rightarrow> int \<Rightarrow> int \<Rightarrow> nat kv" where
  "admit_script now rpmKeyName tpmKeyName rpmLimit tpmLimit reserve window nowMs =
     (let rpmW = rateWindow rpmKeyName nowMs window; tpmW = rateWindow tpmKeyName nowMs window in
      bind_m (rateCount now rpmW) (\<lambda>r.
        if nan_gt (nan_add r (Some 1)) (of_int rpmLimit) then return_m 0 else
      bind_m (rateCount now tpmW) (\<lambda>t.
        if nan_gt (nan_add t (Some (of_int reserve))) (of_int tpmLimit) then return_m 0 else
        then_m (kv_incrby now (w_current rpmW) 1)
        (then_m (kv_expire now (w_current rpmW) (windowTtl window))
        (then_m (kv_incrby now (w_current tpmW) (of_int reserve))
        (then_m (kv_expire now (w_current tpmW) (windowTtl window))
        (return_m 1)))))))"

definition reconcile_script :: "int \<Rightarrow> string \<Rightarrow> int \<Rightarrow> int \<Rightarrow> int \<Rightarrow> rat option kv" where
  "reconcile_script now tpmKeyName amount window nowMs =
     (let cur = w_current (rateWindow tpmKeyName nowMs window) in
      bind_m (kv_get now cur) (\<lambda>v.
        let held = counted v;
            giveBack = (case held of Some h \<Rightarrow> if h < of_int amount then h else of_int amount
                        | None \<Rightarrow> of_int amount)
        in if giveBack \<le> 0 then return_m held
           else bind_m (kv_decrby now cur giveBack) (\<lambda>r. return_m (Some r))))"

definition charge_script :: "int \<Rightarrow> string \<Rightarrow> int \<Rightarrow> int \<Rightarrow> int \<Rightarrow> rat option kv" where
  "charge_script now tpmKeyName amount window nowMs =
     (let cur = w_current (rateWindow tpmKeyName nowMs window) in
      if amount \<le> 0 then bind_m (kv_get now cur) (\<lambda>v. return_m (counted v))
      else bind_m (kv_incrby now cur (of_int amount)) (\<lambda>sum.
        bind_m (kv_ttl now cur) (\<lambda>t.
          if t = -1 then then_m (kv_expire now cur (windowTtl window)) (return_m (Some sum))
          else return_m (Some sum))))"

datatype tpm_reconcile = Refund | TwoWay

datatype tpm_estimate = EstimateExact | EstimateFast

definition readTpmReconcile :: "string option \<Rightarrow> tpm_reconcile" where
  "readTpmReconcile raw = (case map_option (\<lambda>r. to_lower (trim r)) raw of
      None \<Rightarrow> Refund
    | Some v \<Rightarrow> if v = [] \<or> v = ''refund'' then Refund
               else if v = ''two-way'' then TwoWay else Refund)"

text \<open>\<open>readTpmEstimate\<close> of \<open>src/lib/tokenEstimate.ts\<close>.\<close>

definition readTpmEstimate :: "string option \<Rightarrow> tpm_estimate" where
  "readTpmEstimate raw = (case map_option (\<lambda>r. to_lower (trim r)) raw of
      None \<Rightarrow> EstimateExact
    | Some v \<Rightarrow> if v = [] \<or> v = ''tokenizer'' then EstimateExact
               else if v = ''fast'' then EstimateFast else EstimateExact)"

definition effectiveTpmReconcile :: "tpm_estimate \<Rightarrow> string option \<Rightarrow> tpm_reconcile" where
  "effectiveTpmReconcile estimate raw =
     (if estimate \<noteq> EstimateFast then readTpmReconcile raw else TwoWay)"

definition MAX_USAGE_TOKENS :: int where "MAX_USAGE_TOKENS = 10000000"

definition admitKey :: "int \<Rightarrow> string \<Rightarrow> int \<Rightarrow> int \<Rightarrow> rat \<Rightarrow> int \<Rightarrow> bool kv" where
  "admitKey now keyId rpmLimit tpmLimit reserve nowMs =
     bind_m (admit_script now (rpmKey keyId) (tpmKey keyId) rpmLimit tpmLimit
        (max 1 \<lceil>reserve\<rceil>) RPM_TPM_WINDOW_SECONDS nowMs)
       (\<lambda>r. return_m (r = 1))"

text \<open>\<open>actual\<close> is the figure after \<open>Number(\<dots>)\<close>: \<open>None\<close> when that is not finite.\<close>

definition MAX_SAFE_INTEGER :: int where "MAX_SAFE_INTEGER = 9007199254740991"

definition reconcileTpm ::
  "tpm_reconcile \<Rightarrow> int \<Rightarrow> string \<Rightarrow> rat \<Rightarrow> rat option \<Rightarrow> int \<Rightarrow> unit kv" where
  "reconcileTpm mode now keyId reserved actual nowMs = (case actual of
      None \<Rightarrow> return_m ()
    | Some used \<Rightarrow>
        if used < 0 \<or> of_int MAX_USAGE_TOKENS < used then return_m ()
        else let giveBack = \<lfloor>reserved - used\<rfloor> in
          if 0 < giveBack then
            then_m (reconcile_script now (tpmKey keyId) giveBack RPM_TPM_WINDOW_SECONDS nowMs) (return_m ())
          else if mode \<noteq> TwoWay then return_m ()
          else let excess = \<lceil>used - reserved\<rceil> in
            if MAX_SAFE_INTEGER < \<bar>excess\<bar> \<or> excess \<le> 0 then return_m ()
            else then_m (charge_script now (tpmKey keyId) excess RPM_TPM_WINDOW_SECONDS nowMs) (return_m ()))"

definition admit_user_script :: "int \<Rightarrow> string \<Rightarrow> string \<Rightarrow> int \<Rightarrow> int \<Rightarrow> nat kv" where
  "admit_user_script now usersKeyName userId maxUsers windowSeconds =
     bind_m (kv_sismember now usersKeyName userId) (\<lambda>known.
       if known then return_m 1
       else bind_m (kv_scard now usersKeyName) (\<lambda>n.
         if maxUsers \<le> int n then return_m 0
         else then_m (kv_sadd now usersKeyName [userId])
           (then_m (kv_expire now usersKeyName windowSeconds) (return_m 1))))"

definition admitUser :: "int \<Rightarrow> string \<Rightarrow> rat \<Rightarrow> string option \<Rightarrow> int \<Rightarrow> bool kv" where
  "admitUser now keyId maxUsers userId windowSeconds = (case userId of
      None \<Rightarrow> return_m True
    | Some u \<Rightarrow> if u = [] then return_m True
        else bind_m (admit_user_script now (usersKey keyId) u (max 1 \<lfloor>maxUsers\<rfloor>) windowSeconds)
          (\<lambda>r. return_m (r = 1)))"

subsection \<open>Key names are kept apart\<close>

lemma key_prefixes [simp, key_simps]:
  "rpmKey a \<noteq> tpmKey b" "tpmKey b \<noteq> rpmKey a" "usersKey a \<noteq> rpmKey b" "usersKey a \<noteq> tpmKey b"
  "rpmKey a = rpmKey b \<longleftrightarrow> a = b" "tpmKey a = tpmKey b \<longleftrightarrow> a = b" "usersKey a = usersKey b \<longleftrightarrow> a = b"
  by (simp_all add: rpmKey_def tpmKey_def usersKey_def)

subsection \<open>The decision of one admission\<close>

definition win :: "int \<Rightarrow> int \<Rightarrow> int" where
  "win window t = t div (window * 1000)"

definition slot :: "string \<Rightarrow> int \<Rightarrow> string" where
  "slot p i = p @ '':'' @ int_string i"

lemma slot_inj [simp]: "slot p i = slot q j \<longleftrightarrow> p = q \<and> i = j"
  by (simp only: slot_def indexed_key_inj)

lemma window_slots:
  "w_current (rateWindow p t w) = slot p (win w t)" "w_previous (rateWindow p t w) = slot p (win w t - 1)"
  by (simp_all add: slot_def win_def window_keys)

definition weight :: "int \<Rightarrow> int \<Rightarrow> rat" where
  "weight window t = 1 - of_int (js_rem t (window * 1000)) / of_int (window * 1000)"

lemma window_weight: "w_weight (rateWindow p t w) = weight w t"
  by (simp add: rateWindow_def weight_def Let_def)

text \<open>The same rule on plain numbers: what the counters of the two windows decide.\<close>

definition has_room :: "int \<Rightarrow> int \<Rightarrow> int \<Rightarrow> int \<Rightarrow> int \<Rightarrow> int \<Rightarrow> bool" where
  "has_room window t cur prev n limit \<longleftrightarrow>
     of_int cur + of_int prev * weight window t + of_int n \<le> (of_int limit :: rat)"

lemma admit_script_run:
  assumes rc: "counts now s (slot rk (win w t)) rc" and rp: "counts now s (slot rk (win w t - 1)) rp"
    and tc: "counts now s (slot tk (win w t)) tc" and tp: "counts now s (slot tk (win w t - 1)) tp"
    and ne: "rk \<noteq> tk" and w: "0 < w"
  shows "\<exists>s'. admit_script now rk tk lr lt n w t s =
      (Inr (if has_room w t rc rp 1 lr \<and> has_room w t tc tp n lt then 1 else 0), s') \<and>
    view now s' = (if has_room w t rc rp 1 lr \<and> has_room w t tc tp n lt
      then (view now s)(slot rk (win w t) \<mapsto> bumped now (rc + 1) (windowTtl w),
                        slot tk (win w t) \<mapsto> bumped now (tc + n) (windowTtl w))
      else view now s)"
proof -
  let ?rc = "slot rk (win w t)" and ?tc = "slot tk (win w t)"
  let ?s1 = "purge now (slot rk (win w t - 1)) (purge now ?rc s)"
  have r: "rateCount now (rateWindow rk t w) s = (Inr (Some (of_int rc + of_int rp * weight w t)), ?s1)"
    using rateCount_run [of now s "rateWindow rk t w" rc rp] rc rp by (simp only: window_slots window_weight)
  let ?s2 = "purge now (slot tk (win w t - 1)) (purge now ?tc ?s1)"
  have t: "rateCount now (rateWindow tk t w) ?s1 = (Inr (Some (of_int tc + of_int tp * weight w t)), ?s2)"
    using rateCount_run [of now ?s1 "rateWindow tk t w" tc tp] tc tp
    by (simp only: window_slots window_weight counts_purge)
  have gr: "nan_gt (nan_add (Some (of_int rc + of_int rp * weight w t)) (Some 1)) (of_int lr)
      \<longleftrightarrow> \<not> has_room w t rc rp 1 lr"
    by (auto simp: nan_gt_def nan_add_def has_room_def)
  have gt: "nan_gt (nan_add (Some (of_int tc + of_int tp * weight w t)) (Some (of_int n))) (of_int lt)
      \<longleftrightarrow> \<not> has_room w t tc tp n lt"
    by (auto simp: nan_gt_def nan_add_def has_room_def)
  note d = admit_script_def Let_def window_slots bind_run r t gr gt
  show ?thesis
  proof (cases "has_room w t rc rp 1 lr \<and> has_room w t tc tp n lt")
    case False
    then show ?thesis by (auto simp: d return_run)
  next
    case True
    have ttl: "0 < windowTtl w" using w by (simp add: windowTtl_def)
    from bump_run [of now ?s2 ?rc rc "windowTtl w" 1] rc ttl obtain s3 where
      b1: "bump now ?rc 1 (windowTtl w) ?s2 = (Inr True, s3)"
      and v3: "view now s3 = (view now s)(?rc \<mapsto> bumped now (rc + 1) (windowTtl w))" by auto
    have "counts now s3 ?tc tc"
      using tc ne counts_view_cong [of now s ?tc s3] by (simp add: v3)
    from bump_run [OF this ttl, of n] obtain s4 where
      b2: "bump now ?tc (of_int n) (windowTtl w) s3 = (Inr True, s4)"
      and v4: "view now s4 = (view now s3)(?tc \<mapsto> bumped now (tc + n) (windowTtl w))" by auto
    have two: "then_m (kv_incrby now k q) (then_m (kv_expire now k x) m) a =
        then_m (bump now k q x) m a" for k q x a and m :: "nat kv"
      by (simp add: bump_def then_m_def bind_assoc)
    show ?thesis
      using True by (simp add: d two then_run b1 b2 return_run v4 v3)
  qed
qed

end
