(* ===== verification/Admission_Spec.thy ===== *)
theory Admission_Spec
  imports Admission
begin

text \<open>
  What admission promises, as an abstract limiter: two functions from window indices to counts, no
  keys, no expiry. The store-backed script refines it over every sequence of requests in time
  order, because a counter outlives both windows it is read in. Reconciliation and the Max Users
  cap are characterised over the store.
\<close>

subsection \<open>The abstract limiter\<close>

record limiter =
  a_req :: "int \<Rightarrow> int"
  a_tok :: "int \<Rightarrow> int"

definition fresh_limiter :: limiter where
  "fresh_limiter = \<lparr>a_req = (\<lambda>_. 0), a_tok = (\<lambda>_. 0)\<rparr>"

definition limiter_room :: "int \<Rightarrow> int \<Rightarrow> int \<Rightarrow> limiter \<Rightarrow> int \<Rightarrow> int \<Rightarrow> bool" where
  "limiter_room w lr lt L t n \<longleftrightarrow>
     has_room w t (a_req L (win w t)) (a_req L (win w t - 1)) 1 lr \<and>
     has_room w t (a_tok L (win w t)) (a_tok L (win w t - 1)) n lt"

definition limiter_step :: "int \<Rightarrow> int \<Rightarrow> int \<Rightarrow> limiter \<Rightarrow> int \<Rightarrow> int \<Rightarrow> limiter" where
  "limiter_step w lr lt L t n = (if limiter_room w lr lt L t n
     then L\<lparr>a_req := (a_req L)(win w t := a_req L (win w t) + 1),
            a_tok := (a_tok L)(win w t := a_tok L (win w t) + n)\<rparr> else L)"

fun limiter_run :: "int \<Rightarrow> int \<Rightarrow> int \<Rightarrow> limiter \<Rightarrow> (int \<times> int) list \<Rightarrow> bool list \<times> limiter" where
  "limiter_run w lr lt L [] = ([], L)"
| "limiter_run w lr lt L ((t, n) # rs) =
     (case limiter_run w lr lt (limiter_step w lr lt L t n) rs of (ds, L') \<Rightarrow>
        (limiter_room w lr lt L t n # ds, L'))"

text \<open>The same requests against the store, each at its own instant.\<close>

fun admit_run :: "int \<Rightarrow> string \<Rightarrow> string \<Rightarrow> int \<Rightarrow> int \<Rightarrow> (int \<times> int) list \<Rightarrow> store \<Rightarrow> bool list \<times> store" where
  "admit_run w rk tk lr lt [] s = ([], s)"
| "admit_run w rk tk lr lt ((t, n) # rs) s =
     (case admit_script t rk tk lr lt n w t s of (r, s') \<Rightarrow>
       (case admit_run w rk tk lr lt rs s' of (ds, s'') \<Rightarrow> ((r = Inr 1) # ds, s'')))"

subsection \<open>Counters outlive their windows\<close>

lemma view_later: "t0 \<le> t \<Longrightarrow> view t s k = (case view t0 s k of
    None \<Rightarrow> None | Some e \<Rightarrow> if expired t e then None else Some e)"
  by (auto simp: view_def expired_def split: option.splits)

lemma view_later_eq: "t0 \<le> t \<Longrightarrow> view t0 s k = view t0 s' k \<Longrightarrow> view t s k = view t s' k"
  by (simp add: view_later)

lemma win_bound:
  assumes "0 < w" and "win w t' \<le> win w t + 1"
  shows "t' < t + windowTtl w * 1000"
proof -
  let ?W = "w * 1000"
  have W: "0 < ?W" using assms(1) by simp
  have "t' = ?W * (t' div ?W) + t' mod ?W" "t = ?W * (t div ?W) + t mod ?W" by simp_all
  moreover have "t' mod ?W < ?W" "0 \<le> t mod ?W" using W by simp_all
  moreover have "?W * (t' div ?W) \<le> ?W * (t div ?W + 1)"
    using assms W by (intro mult_left_mono) (simp_all add: win_def)
  ultimately have "t' < t + 2 * ?W" by (simp add: algebra_simps)
  then show ?thesis by (simp add: windowTtl_def)
qed

lemma win_mono: "0 < w \<Longrightarrow> t \<le> t' \<Longrightarrow> win w t \<le> win w t'"
  by (simp add: win_def zdiv_mono1)

text \<open>From \<open>t0\<close> on, the counters of every window that can still be read are the abstract ones.\<close>

definition tracks :: "int \<Rightarrow> string \<Rightarrow> int \<Rightarrow> store \<Rightarrow> (int \<Rightarrow> int) \<Rightarrow> bool" where
  "tracks w p t0 s A \<longleftrightarrow> (\<forall>t \<ge> t0. \<forall>i \<ge> win w t - 1. counts t s (slot p i) (A i))"

lemma tracks_empty: "tracks w p t0 [] (\<lambda>_. 0)"
  by (simp add: tracks_def counts_absent view_def)

lemma tracks_later: "tracks w p t0 s A \<Longrightarrow> t0 \<le> t \<Longrightarrow> tracks w p t s A"
  by (simp add: tracks_def)

lemma tracks_same: "tracks w p t s A \<Longrightarrow> view t s' = view t s \<Longrightarrow> tracks w p t s' A"
  unfolding tracks_def by (metis counts_view_cong view_later_eq)

lemma tracks_bump:
  assumes "tracks w p t s A" and "0 < w"
    and v: "\<And>i. view t s' (slot p i) = (if i = win w t then Some (bumped t (A i + n) (windowTtl w))
        else view t s (slot p i))"
  shows "tracks w p t s' (A(win w t := A (win w t) + n))"
  unfolding tracks_def
proof (intro allI impI)
  fix t' i assume t': "t \<le> t'" and i: "win w t' - 1 \<le> i"
  show "counts t' s' (slot p i) ((A(win w t := A (win w t) + n)) i)"
  proof (cases "i = win w t")
    case True
    with i have "win w t' \<le> win w t + 1" by simp
    then have "\<not> expired t' (bumped t (A i + n) (windowTtl w))"
      using win_bound [OF assms(2)] by (simp add: expired_def bumped_def not_le)
    with True v [of i] t' have "view t' s' (slot p i) = Some (bumped t (A i + n) (windowTtl w))"
      by (simp add: view_later)
    then show ?thesis using True by (simp add: counts_bumped)
  next
    case False
    with v [of i] have "view t' s' (slot p i) = view t' s (slot p i)"
      using view_later_eq [OF t', of s' "slot p i" s] by simp
    with False assms(1) t' i show ?thesis
      using counts_view_cong [of t' s' "slot p i" s] by (simp add: tracks_def)
  qed
qed

lemma admit_step_refines:
  assumes R: "tracks w rk t s (a_req L)" and T: "tracks w tk t s (a_tok L)"
    and ne: "rk \<noteq> tk" and w: "0 < w"
  shows "\<exists>s'. admit_script t rk tk lr lt n w t s = (Inr (if limiter_room w lr lt L t n then 1 else 0), s') \<and>
    tracks w rk t s' (a_req (limiter_step w lr lt L t n)) \<and>
    tracks w tk t s' (a_tok (limiter_step w lr lt L t n))"
proof -
  have c: "counts t s (slot rk (win w t)) (a_req L (win w t))"
    "counts t s (slot rk (win w t - 1)) (a_req L (win w t - 1))"
    "counts t s (slot tk (win w t)) (a_tok L (win w t))"
    "counts t s (slot tk (win w t - 1)) (a_tok L (win w t - 1))"
    using R T by (simp_all add: tracks_def)
  from admit_script_run [OF c ne w, of lr lt n] obtain s' where
    run: "admit_script t rk tk lr lt n w t s = (Inr (if limiter_room w lr lt L t n then 1 else 0), s')"
    and v: "view t s' = (if limiter_room w lr lt L t n
      then (view t s)(slot rk (win w t) \<mapsto> bumped t (a_req L (win w t) + 1) (windowTtl w),
                      slot tk (win w t) \<mapsto> bumped t (a_tok L (win w t) + n) (windowTtl w))
      else view t s)" by (auto simp: limiter_room_def)
  show ?thesis
  proof (cases "limiter_room w lr lt L t n")
    case False
    with run v R T show ?thesis by (auto simp: limiter_step_def intro: tracks_same)
  next
    case True
    have "tracks w rk t s' ((a_req L)(win w t := a_req L (win w t) + 1))"
      using v True ne by (intro tracks_bump [OF R w]) simp
    moreover have "tracks w tk t s' ((a_tok L)(win w t := a_tok L (win w t) + n))"
      using v True ne by (intro tracks_bump [OF T w]) simp
    ultimately show ?thesis using run True by (simp add: limiter_step_def)
  qed
qed

lemma admit_run_refines:
  assumes "tracks w rk t0 s (a_req L)" and "tracks w tk t0 s (a_tok L)"
    and "rk \<noteq> tk" and "0 < w" and "sorted (t0 # map fst rs)"
  shows "fst (admit_run w rk tk lr lt rs s) = fst (limiter_run w lr lt L rs)"
  using assms(1,2,5)
proof (induction rs arbitrary: s L t0)
  case (Cons r rs)
  obtain t n where r: "r = (t, n)" by (cases r)
  with Cons.prems have le: "t0 \<le> t" and so: "sorted (t # map fst rs)" by auto
  from admit_step_refines [OF tracks_later [OF Cons.prems(1) le] tracks_later [OF Cons.prems(2) le] assms(3,4),
      of lr lt n] obtain s' where
    run: "admit_script t rk tk lr lt n w t s = (Inr (if limiter_room w lr lt L t n then 1 else 0), s')"
    and R': "tracks w rk t s' (a_req (limiter_step w lr lt L t n))"
    and T': "tracks w tk t s' (a_tok (limiter_step w lr lt L t n))" by blast
  from Cons.IH [OF R' T' so] run r show ?case by (auto simp: case_prod_unfold)
qed simp

subsection \<open>What the limiter guarantees\<close>

definition within_limits :: "int \<Rightarrow> int \<Rightarrow> limiter \<Rightarrow> bool" where
  "within_limits lr lt L \<longleftrightarrow> (\<forall>i. 0 \<le> a_req L i \<and> a_req L i \<le> lr \<and> 0 \<le> a_tok L i \<and> a_tok L i \<le> lt)"

lemma weight_bounds: "0 \<le> t \<Longrightarrow> 0 < w \<Longrightarrow> 0 < weight w t \<and> weight w t \<le> 1"
  using rateWindow_weight_bounds [of t w "[]"] by (simp add: window_weight)

lemma has_room_bound:
  assumes "has_room w t cur prev n limit" and "0 \<le> prev" and "0 \<le> t" and "0 < w"
  shows "cur + n \<le> limit"
proof -
  have "0 \<le> (of_int prev :: rat) * weight w t"
    using assms weight_bounds [OF assms(3,4)] by simp
  with assms(1) have "(of_int (cur + n) :: rat) \<le> of_int limit"
    unfolding has_room_def of_int_add by linarith
  then show ?thesis by (simp only: of_int_le_iff)
qed

lemma limiter_step_limits:
  assumes "within_limits lr lt L" and "0 \<le> t" and "0 < w" and "0 \<le> n"
  shows "within_limits lr lt (limiter_step w lr lt L t n)"
proof (cases "limiter_room w lr lt L t n")
  case False
  with assms show ?thesis by (simp add: limiter_step_def)
next
  case True
  then have "a_req L (win w t) + 1 \<le> lr" "a_tok L (win w t) + n \<le> lt"
    using assms by (auto simp: limiter_room_def within_limits_def intro: has_room_bound)
  with assms True show ?thesis by (auto simp: limiter_step_def within_limits_def)
qed

lemma limiter_run_limits:
  assumes "within_limits lr lt L" and "0 < w" and "\<forall>(t, n) \<in> set rs. 0 \<le> t \<and> 0 \<le> n"
  shows "within_limits lr lt (snd (limiter_run w lr lt L rs))"
  using assms(1,3)
proof (induction rs arbitrary: L)
  case (Cons r rs)
  obtain t n where "r = (t, n)" by (cases r)
  with Cons limiter_step_limits [OF _ _ assms(2), of lr lt L t n]
  show ?case by (auto simp: case_prod_unfold)
qed simp

text \<open>How many of a run's requests were admitted in one window.\<close>

definition admitted_in :: "int \<Rightarrow> int \<Rightarrow> (int \<times> int) list \<Rightarrow> bool list \<Rightarrow> nat" where
  "admitted_in w i rs ds = length (filter (\<lambda>((t, n), d). d \<and> win w t = i) (zip rs ds))"

lemma limiter_run_counts:
  "a_req (snd (limiter_run w lr lt L rs)) i =
     a_req L i + int (admitted_in w i rs (fst (limiter_run w lr lt L rs)))"
proof (induction rs arbitrary: L)
  case (Cons r rs)
  obtain t n where r: "r = (t, n)" by (cases r)
  show ?case using Cons.IH [of "limiter_step w lr lt L t n"]
    by (auto simp: r case_prod_unfold admitted_in_def limiter_step_def)
qed (simp add: admitted_in_def)

text \<open>The tokens those requests reserved.\<close>

definition tokens_in :: "int \<Rightarrow> int \<Rightarrow> (int \<times> int) list \<Rightarrow> bool list \<Rightarrow> int" where
  "tokens_in w i rs ds = sum_list (map (\<lambda>((t, n), d). if d \<and> win w t = i then n else 0) (zip rs ds))"

lemma limiter_run_tokens:
  "a_tok (snd (limiter_run w lr lt L rs)) i =
     a_tok L i + tokens_in w i rs (fst (limiter_run w lr lt L rs))"
proof (induction rs arbitrary: L)
  case (Cons r rs)
  obtain t n where r: "r = (t, n)" by (cases r)
  show ?case using Cons.IH [of "limiter_step w lr lt L t n"]
    by (auto simp: r case_prod_unfold tokens_in_def limiter_step_def)
qed (simp add: tokens_in_def)

subsection \<open>Requests through \<open>admitKey\<close>\<close>

fun admitKey_run :: "string \<Rightarrow> int \<Rightarrow> int \<Rightarrow> (int \<times> rat) list \<Rightarrow> store \<Rightarrow> bool list \<times> store" where
  "admitKey_run k lr lt [] s = ([], s)"
| "admitKey_run k lr lt ((t, n) # rs) s =
     (case admitKey t k lr lt n t s of (r, s') \<Rightarrow>
       (case admitKey_run k lr lt rs s' of (ds, s'') \<Rightarrow> ((r = Inr True) # ds, s'')))"

definition whole_tokens :: "(int \<times> rat) list \<Rightarrow> (int \<times> int) list" where
  "whole_tokens rs = map (\<lambda>(t, n). (t, max 1 \<lceil>n\<rceil>)) rs"

lemma whole_tokens_simps [simp]:
  "whole_tokens [] = []" "whole_tokens ((t, n) # rs) = (t, max 1 \<lceil>n\<rceil>) # whole_tokens rs"
  "map fst (whole_tokens rs) = map fst rs"
  by (simp_all add: whole_tokens_def comp_def case_prod_unfold)

lemma admitKey_run_script:
  "admitKey_run k lr lt rs s = admit_run RPM_TPM_WINDOW_SECONDS (rpmKey k) (tpmKey k) lr lt (whole_tokens rs) s"
proof (induction rs arbitrary: s)
  case (Cons r rs)
  obtain t n where r: "r = (t, n)" by (cases r)
  obtain a s' where run: "admit_script t (rpmKey k) (tpmKey k) lr lt (max 1 \<lceil>n\<rceil>) RPM_TPM_WINDOW_SECONDS t s = (a, s')"
    by fastforce
  have "admitKey t k lr lt n t s = (map_sum id (\<lambda>x. x = 1) a, s')"
    by (cases a) (simp_all add: admitKey_def bind_m_def run return_m_def)
  moreover have "(map_sum id (\<lambda>x. x = 1) a = Inr True) = (a = Inr 1)" by (cases a) simp_all
  ultimately show ?case using Cons.IH [of s'] by (simp add: r run case_prod_unfold)
qed simp

lemma fresh_tracks: "tracks w p t0 [] (a_req fresh_limiter)" "tracks w p t0 [] (a_tok fresh_limiter)"
  using tracks_empty [of w p t0] by (simp_all add: fresh_limiter_def)

lemma window_positive: "0 < RPM_TPM_WINDOW_SECONDS"
  by (simp add: RPM_TPM_WINDOW_SECONDS_def)

lemma admitKey_decisions:
  assumes "sorted (map fst rs)"
  shows "fst (admitKey_run k lr lt rs []) =
    fst (limiter_run RPM_TPM_WINDOW_SECONDS lr lt fresh_limiter (whole_tokens rs))"
proof (cases rs)
  case (Cons r rs')
  then have "sorted (fst r # map fst (whole_tokens rs))" using assms by (auto simp: le_fun_def)
  from admit_run_refines [OF fresh_tracks(1) fresh_tracks(2) _ window_positive this]
  show ?thesis by (simp add: admitKey_run_script)
qed simp

subsection \<open>Properties\<close>

text \<open>
  C1. The admission script, run from an empty store on any requests in time order, takes exactly the
  decisions of a limiter that has no store, no key names and no expiry: every counter lives as long as
  the windows in which it is read.
\<close>

theorem admission_refines_limiter:
  assumes "sorted (map fst rs)"
  shows "fst (admitKey_run k lr lt rs []) =
    fst (limiter_run RPM_TPM_WINDOW_SECONDS lr lt fresh_limiter (whole_tokens rs))"
  using assms by (rule admitKey_decisions)

theorem admission_refines_limiter_witness:
  "fst (admitKey_run ''k'' 2 100 [(0, 60), (1000, 60), (2000, 40), (3000, 1)] []) = [True, False, True, False]"
  using admission_refines_limiter [of "[(0, 60), (1000, 60), (2000, 40), (3000, 1)]" "''k''" 2 100]
  by (simp add: limiter_room_def limiter_step_def has_room_def win_def weight_def js_rem_def fresh_limiter_def
      RPM_TPM_WINDOW_SECONDS_def)

text \<open>
  C14. A key's limits hold in every window: however requests arrive, at most \<open>rpmLimit\<close> of them are
  admitted in one window and the tokens they reserve there stay within \<open>tpmLimit\<close>.
\<close>

theorem admission_within_limits:
  assumes "sorted (map fst rs)" and "\<forall>(t, n) \<in> set rs. 0 \<le> t" and "0 \<le> lr" and "0 \<le> lt"
  shows "int (admitted_in RPM_TPM_WINDOW_SECONDS i (whole_tokens rs) (fst (admitKey_run k lr lt rs []))) \<le> lr \<and>
    tokens_in RPM_TPM_WINDOW_SECONDS i (whole_tokens rs) (fst (admitKey_run k lr lt rs [])) \<le> lt"
proof -
  have "within_limits lr lt fresh_limiter" using assms(3, 4) by (simp add: within_limits_def fresh_limiter_def)
  moreover have "\<forall>(t, n) \<in> set (whole_tokens rs). 0 \<le> t \<and> 0 \<le> n" using assms(2) by (auto simp: whole_tokens_def)
  ultimately have "within_limits lr lt (snd (limiter_run RPM_TPM_WINDOW_SECONDS lr lt fresh_limiter (whole_tokens rs)))"
    by (intro limiter_run_limits window_positive)
  then show ?thesis unfolding admitKey_decisions [OF assms(1)]
    by (simp add: within_limits_def limiter_run_counts limiter_run_tokens) (simp add: fresh_limiter_def)
qed

theorem admission_within_limits_witness:
  "tokens_in RPM_TPM_WINDOW_SECONDS 0 (whole_tokens [(0, 60), (1000, 60), (2000, 40)])
     (fst (admitKey_run ''k'' 2 100 [(0, 60), (1000, 60), (2000, 40)] [])) \<le> 100"
  using admission_within_limits [of "[(0, 60), (1000, 60), (2000, 40)]" 2 100 0 "''k''"] by simp

end
