(* ===== verification/Reconcile.thy ===== *)
theory Reconcile
  imports Admission_Spec
begin

text \<open>
  What the reservation of a request becomes once its real usage is known, and the Max Users cap
  (\<open>reconcileTpm\<close> and \<open>admitUser\<close> of \<open>src/lib/admission.ts\<close>): the scripts' effect on the window's
  counter, its deadline and every other key.
\<close>

definition written :: "int \<Rightarrow> int option \<Rightarrow> kv_entry" where
  "written n x = \<lparr>val_of = VStr (int_string n), expires_at = x\<rparr>"

lemma js_String_diff [simp]: "js_String (of_int a - of_int b) = int_string (a - b)"
  by (metis js_String_int of_int_diff)

lemma kv_incrby_counts [run_simps]:
  assumes "counts now s k c"
  shows "\<exists>s'. kv_incrby now k (of_int n) s = (Inr (of_int (c + n)), s') \<and>
    view now s' = (view now s)(k \<mapsto> written (c + n) (expiry_at now s k))"
  using assms by (simp add: kv_incrby_run counts_def kvm.lookup_put written_def)

lemma kv_decrby_counts [run_simps]:
  assumes "counts now s k c"
  shows "\<exists>s'. kv_decrby now k (of_int n) s = (Inr (of_int (c - n)), s') \<and>
    view now s' = (view now s)(k \<mapsto> written (c - n) (expiry_at now s k))"
  using kv_incrby_counts [OF assms, of "- n"] by (simp add: kv_decrby_def)

lemma kv_get_counts:
  "counts now s k c \<Longrightarrow> kv_get now k s = (Inr (str_at now s k), purge now k s) \<and>
     counted (str_at now s k) = Some (of_int c)"
  using counts_counted [of now s k c] by (simp add: kv_get_run counts_def)

lemma reconcile_script_run:
  assumes c: "counts now s (slot p (win w t)) c"
  shows "\<exists>s'. reconcile_script now p a w t s = (Inr (Some (of_int (c - max 0 (min c a)))), s') \<and>
    view now s' = (if 0 < min c a
      then (view now s)(slot p (win w t) \<mapsto> written (c - min c a) (expiry_at now s (slot p (win w t))))
      else view now s)"
proof -
  let ?k = "slot p (win w t)"
  define m where "m = min c a"
  have gb: "(if c < a then (of_int c :: rat) else of_int a) = of_int m"
    by (simp add: m_def min_def)
  note g = kv_get_counts [OF c]
  note d = reconcile_script_def Let_def window_slots bind_run g gb return_run m_def [symmetric]
  show ?thesis
  proof (cases "0 < m")
    case False
    then have "(of_int m :: rat) \<le> 0" by simp
    with False show ?thesis by (simp add: d max_def)
  next
    case True
    from kv_decrby_counts [of now "purge now ?k s" ?k c m] c obtain s' where
      "kv_decrby now ?k (of_int m) (purge now ?k s) = (Inr (of_int (c - m)), s')"
      "view now s' = (view now s)(?k \<mapsto> written (c - m) (expiry_at now s ?k))" by auto
    with True show ?thesis by (simp add: d max_def)
  qed
qed

lemma charge_script_run:
  assumes c: "counts now s (slot p (win w t)) c" and a: "0 < a" and w: "0 < w"
  shows "\<exists>s'. charge_script now p a w t s = (Inr (Some (of_int (c + a))), s') \<and>
    view now s' = (view now s)(slot p (win w t) \<mapsto> written (c + a)
      (Some (option_or (expiry_at now s (slot p (win w t))) (now + windowTtl w * 1000))))"
proof -
  let ?k = "slot p (win w t)"
  from kv_incrby_counts [OF c, of a] obtain s1 where
    i: "kv_incrby now ?k (of_int a) s = (Inr (of_int (c + a)), s1)"
    and v1: "view now s1 = (view now s)(?k \<mapsto> written (c + a) (expiry_at now s ?k))" by auto
  show ?thesis
  proof (cases "expiry_at now s ?k")
    case None
    have t: "kv_ttl now ?k s1 = (Inr (-1), purge now ?k s1)"
      by (simp add: kv_ttl_run v1 written_def None NO_EXPIRY_def)
    have "kv_expire now ?k (windowTtl w) (purge now ?k s1) = (Inr True, store_set ?k
        ((written (c + a) None)\<lparr>expires_at := Some (now + windowTtl w * 1000)\<rparr>) (purge now ?k (purge now ?k s1)))"
      by (simp add: kv_expire_run v1 None)
    moreover have "0 < windowTtl w" using w by (simp add: windowTtl_def)
    ultimately show ?thesis using a i t None
      by (simp add: charge_script_def Let_def window_slots bind_run then_run return_run
          view_store_set v1 written_def expired_def)
  next
    case (Some x)
    then have "now < x" by (rule view_expiry_alive)
    then have pos: "0 < ceil_div (x - now) 1000"
      using ceil_div_bounds [of 1000 "x - now"] by linarith
    then have t: "kv_ttl now ?k s1 = (Inr (ceil_div (x - now) 1000), purge now ?k s1)"
      by (simp add: kv_ttl_run v1 written_def Some)
    have "ceil_div (x - now) 1000 \<noteq> -1" using pos by linarith
    with a i t Some show ?thesis
      by (simp add: charge_script_def Let_def window_slots bind_run return_run v1)
  qed
qed

subsection \<open>One request's tokens after the answer\<close>

definition tpm_slot :: "string \<Rightarrow> int \<Rightarrow> string" where
  "tpm_slot keyId t = slot (tpmKey keyId) (win RPM_TPM_WINDOW_SECONDS t)"

text \<open>What the counter should become: the reservation given back and the real usage charged.\<close>

definition settled :: "tpm_reconcile \<Rightarrow> int \<Rightarrow> int \<Rightarrow> int \<Rightarrow> int" where
  "settled mode c n u = (if u < n then c - max 0 (min c (n - u))
     else if mode = TwoWay then c + (u - n) else c)"

lemma settled_exact: "n \<le> c \<Longrightarrow> 0 \<le> u \<Longrightarrow> settled TwoWay c n u = c - n + u"
  by (simp add: settled_def)

lemma settled_nonneg: "0 \<le> c \<Longrightarrow> 0 \<le> settled mode c n u"
  by (simp add: settled_def)

lemma reconcileTpm_garbage:
  assumes "used = None \<or> (\<exists>u. used = Some u \<and> (u < 0 \<or> of_int MAX_USAGE_TOKENS < u))"
  shows "reconcileTpm mode now k reserved used t s = (Inr (), s)"
  using assms by (auto simp: reconcileTpm_def return_run)

lemma of_int_gap: "\<lfloor>(of_int n :: rat) - of_int u\<rfloor> = n - u" "\<lceil>(of_int u :: rat) - of_int n\<rceil> = u - n"
  by (metis floor_of_int of_int_diff, metis ceiling_of_int of_int_diff)

lemma reconcileTpm_run:
  assumes c: "counts now s (tpm_slot k t) c" and u: "0 \<le> u" "u \<le> MAX_USAGE_TOKENS" and n: "0 \<le> n"
  shows "\<exists>s'. reconcileTpm mode now k (of_int n) (Some (of_int u)) t s = (Inr (), s') \<and>
    counts now s' (tpm_slot k t) (settled mode c n u) \<and>
    (\<forall>k'. k' \<noteq> tpm_slot k t \<longrightarrow> view now s' k' = view now s k') \<and>
    (expiry_at now s (tpm_slot k t) \<noteq> None \<longrightarrow> expiry_at now s' (tpm_slot k t) = expiry_at now s (tpm_slot k t))"
proof -
  let ?k = "tpm_slot k t"
  have ok: "\<not> ((of_int u :: rat) < 0 \<or> of_int MAX_USAGE_TOKENS < (of_int u :: rat))"
    using u by simp
  have cw: "counts now s' ?k m" if "view now s' ?k = Some (written m x)" for s' m x
    using that by (simp add: counts_def holds_str_def counter_at_def str_at_def written_def)
  have ex: "expiry_at now s' ?k = x" if "view now s' ?k = Some (written m x)" for s' m x
    using that by (simp add: expiry_at_def written_def)
  consider (give) "u < n" | (one) "n \<le> u" "mode \<noteq> TwoWay \<or> u = n" | (charge) "n < u" "mode = TwoWay"
    by linarith
  then show ?thesis
  proof cases
    case give
    from reconcile_script_run [of now s "tpmKey k" RPM_TPM_WINDOW_SECONDS t c "n - u"] c obtain s' where
      r: "reconcile_script now (tpmKey k) (n - u) RPM_TPM_WINDOW_SECONDS t s
        = (Inr (Some (of_int (c - max 0 (min c (n - u))))), s')"
      and v: "view now s' = (if 0 < min c (n - u)
        then (view now s)(?k \<mapsto> written (c - min c (n - u)) (expiry_at now s ?k)) else view now s)"
      unfolding tpm_slot_def by blast
    have "reconcileTpm mode now k (of_int n) (Some (of_int u)) t s = (Inr (), s')"
      using ok give r by (simp add: reconcileTpm_def of_int_gap then_run return_run)
    moreover have "counts now s' ?k (settled mode c n u)"
    proof (cases "0 < min c (n - u)")
      case True
      then have "view now s' ?k = Some (written (settled mode c n u) (expiry_at now s ?k))"
        using v give by (simp add: settled_def max_def)
      then show ?thesis by (rule cw)
    next
      case False
      then have "settled mode c n u = c" using give by (simp add: settled_def max_def)
      moreover have "view now s' = view now s" unfolding v by (rule if_not_P [OF False])
      then have "view now s ?k = view now s' ?k" by simp
      ultimately show ?thesis using c counts_view_cong by metis
    qed
    moreover have "expiry_at now s' ?k = expiry_at now s ?k"
    proof (cases "0 < min c (n - u)")
      case True
      with v show ?thesis by (intro ex) simp
    next
      case False
      have "view now s' = view now s" unfolding v by (rule if_not_P [OF False])
      then show ?thesis by (simp add: expiry_at_def)
    qed
    moreover have "k' \<noteq> ?k \<longrightarrow> view now s' k' = view now s k'" for k' using v by simp
    ultimately show ?thesis by blast
  next
    case one
    then have e: "mode = TwoWay \<Longrightarrow> u - n \<le> 0" and le: "\<not> u < n" by auto
    have "reconcileTpm mode now k (of_int n) (Some (of_int u)) t s = (Inr (), s)"
      using e by (cases "mode = TwoWay") (simp_all add: reconcileTpm_def ok of_int_gap le return_run)
    moreover have "settled mode c n u = c" using one by (auto simp: settled_def)
    ultimately show ?thesis using c by auto
  next
    case charge
    have W: "0 < RPM_TPM_WINDOW_SECONDS" by (simp add: RPM_TPM_WINDOW_SECONDS_def)
    have small: "\<not> (MAX_SAFE_INTEGER < \<bar>u - n\<bar> \<or> u - n \<le> 0)"
      using charge u n by (simp add: MAX_SAFE_INTEGER_def MAX_USAGE_TOKENS_def)
    from charge_script_run [of now s "tpmKey k" RPM_TPM_WINDOW_SECONDS t c "u - n"] c W charge obtain s' where
      r: "charge_script now (tpmKey k) (u - n) RPM_TPM_WINDOW_SECONDS t s = (Inr (Some (of_int (c + (u - n)))), s')"
      and v: "view now s' = (view now s)(?k \<mapsto> written (c + (u - n))
        (Some (option_or (expiry_at now s ?k) (now + windowTtl RPM_TPM_WINDOW_SECONDS * 1000))))"
      unfolding tpm_slot_def by fastforce
    have "reconcileTpm mode now k (of_int n) (Some (of_int u)) t s = (Inr (), s')"
      using ok charge small r by (simp add: reconcileTpm_def of_int_gap then_run return_run)
    moreover have "counts now s' ?k (settled mode c n u)"
      using charge v cw [of s'] by (simp add: settled_def)
    ultimately show ?thesis using v ex [of s'] by auto
  qed
qed

subsection \<open>The Max Users cap\<close>

definition user_cap :: "rat \<Rightarrow> int" where "user_cap maxUsers = max 1 \<lfloor>maxUsers\<rfloor>"

lemma admitUser_run:
  assumes h: "holds_set now s (usersKey k)" and u: "u \<noteq> []" and ttl: "0 < secs"
  shows "\<exists>s'. admitUser now k m (Some u) secs s =
      (Inr (u \<in> set (set_at now s (usersKey k)) \<or> int (length (set_at now s (usersKey k))) < user_cap m), s') \<and>
    holds_set now s' (usersKey k) \<and>
    set_at now s' (usersKey k) =
      (if u \<notin> set (set_at now s (usersKey k)) \<and> int (length (set_at now s (usersKey k))) < user_cap m
       then set_at now s (usersKey k) @ [u] else set_at now s (usersKey k)) \<and>
    (\<forall>k'. k' \<noteq> usersKey k \<longrightarrow> view now s' k' = view now s k')"
proof -
  let ?k = "usersKey k"
  let ?xs = "set_at now s ?k"
  let ?p = "purge now ?k s"
  have m: "kv_sismember now ?k u s = (Inr (u \<in> set ?xs), ?p)" using h by (simp add: kv_sismember_run)
  have n: "kv_scard now ?k ?p = (Inr (length ?xs), purge now ?k ?p)" using h by (simp add: kv_scard_run)
  let ?pp = "purge now ?k (purge now ?k s)"
  note d = admitUser_def admit_user_script_def u bind_assoc bind_run m n return_run user_cap_def
  consider (known) "u \<in> set ?xs" | (full) "u \<notin> set ?xs" "user_cap m \<le> int (length ?xs)"
    | (room) "u \<notin> set ?xs" "int (length ?xs) < user_cap m" by linarith
  then show ?thesis
  proof cases
    case known
    then show ?thesis using h u by (auto simp: d)
  next
    case full
    then show ?thesis using h u by (auto simp: d)
  next
    case room
    let ?e = "\<lparr>val_of = VSet (?xs @ [u]), expires_at = expiry_at now s ?k\<rparr>"
    have a: "kv_sadd now ?k [u] ?pp = (Inr 1, store_set ?k ?e (purge now ?k ?pp))"
      using h room by (simp add: kv_sadd_run)
    let ?q = "store_set ?k ?e (purge now ?k ?pp)"
    have v: "view now ?q ?k = Some ?e" by (simp add: view_store_set)
    have e: "kv_expire now ?k secs ?q = (Inr True, store_set ?k (?e\<lparr>expires_at := Some (now + secs * 1000)\<rparr>) (purge now ?k ?q))"
      by (simp add: kv_expire_run v)
    have alive: "\<not> expired now \<lparr>val_of = VSet (?xs @ [u]), expires_at = Some (now + secs * 1000)\<rparr>"
      using ttl by (simp add: expired_def)
    have "\<not> user_cap m \<le> int (length ?xs)" using room by simp
    then have "admitUser now k m (Some u) secs s = (Inr True,
        store_set ?k (?e\<lparr>expires_at := Some (now + secs * 1000)\<rparr>) (purge now ?k ?q))"
      using room(1) u unfolding user_cap_def by (simp add: d then_run a e)
    with room alive show ?thesis
      by (simp add: typed_simps view_store_set)
  qed
qed

subsection \<open>The cap over time\<close>

text \<open>Requests of end users on one key, each at its own instant.\<close>

fun admitUser_run :: "string \<Rightarrow> rat \<Rightarrow> int \<Rightarrow> (int \<times> string) list \<Rightarrow> store \<Rightarrow> bool list \<times> store" where
  "admitUser_run k m secs [] s = ([], s)"
| "admitUser_run k m secs ((t, u) # us) s =
     (case admitUser t k m (Some u) secs s of (r, s') \<Rightarrow>
       (case admitUser_run k m secs us s' of (ds, s'') \<Rightarrow> ((r = Inr True) # ds, s'')))"

lemma set_later: "t0 \<le> t \<Longrightarrow> holds_set t0 s q \<Longrightarrow> holds_set t s q \<and> set_at t s q \<in> {set_at t0 s q, []}"
  by (auto simp: holds_set_def set_at_def view_later split: option.splits)

lemma admitUser_run_cap:
  assumes "sorted (t0 # map fst us)" and "holds_set t0 s (usersKey k)"
    and "int (length (set_at t0 s (usersKey k))) \<le> user_cap m" and "0 < secs" and "\<forall>(t, u) \<in> set us. u \<noteq> []"
  shows "let s' = snd (admitUser_run k m secs us s) in
    holds_set (last (t0 # map fst us)) s' (usersKey k) \<and>
    int (length (set_at (last (t0 # map fst us)) s' (usersKey k))) \<le> user_cap m"
  using assms
proof (induction us arbitrary: t0 s)
  case Nil
  then show ?case by simp
next
  case (Cons r us)
  obtain t u where r: "r = (t, u)" by (cases r)
  with Cons.prems have le: "t0 \<le> t" and so: "sorted (t # map fst us)" and u: "u \<noteq> []" by auto
  from set_later [OF le Cons.prems(2)] Cons.prems(3)
  have h: "holds_set t s (usersKey k)" and n: "int (length (set_at t s (usersKey k))) \<le> user_cap m"
    by (auto simp: user_cap_def)
  from admitUser_run [OF h u Cons.prems(4), of m] obtain b s' where
    run: "admitUser t k m (Some u) secs s = (Inr b, s')" and h': "holds_set t s' (usersKey k)"
    and xs: "set_at t s' (usersKey k) = (if u \<notin> set (set_at t s (usersKey k)) \<and>
      int (length (set_at t s (usersKey k))) < user_cap m
       then set_at t s (usersKey k) @ [u] else set_at t s (usersKey k))" by blast
  from xs n have "int (length (set_at t s' (usersKey k))) \<le> user_cap m" by auto
  from Cons.IH [OF so h' this Cons.prems(4)] Cons.prems(5)
  show ?case by (simp add: r run case_prod_unfold)
qed

subsection \<open>Properties\<close>

text \<open>
  C29. With two-way reconciliation a request ends up costing what it really used: whatever was reserved
  is taken out of the window's counter and the reported usage put in its place, no other key of the
  store changes, and a deadline the counter had is kept.
\<close>

theorem reconcile_settles_usage:
  assumes "counts now s (tpm_slot k t) c" and "0 \<le> u" "u \<le> MAX_USAGE_TOKENS" and "0 \<le> n" "n \<le> c"
  shows "\<exists>s'. reconcileTpm TwoWay now k (of_int n) (Some (of_int u)) t s = (Inr (), s') \<and>
    counts now s' (tpm_slot k t) (c - n + u) \<and>
    (\<forall>k'. k' \<noteq> tpm_slot k t \<longrightarrow> view now s' k' = view now s k') \<and>
    (expiry_at now s (tpm_slot k t) \<noteq> None \<longrightarrow> expiry_at now s' (tpm_slot k t) = expiry_at now s (tpm_slot k t))"
  using reconcileTpm_run [OF assms(1-4), of TwoWay] settled_exact [OF assms(5, 2)] by simp

theorem reconcile_settles_usage_witness:
  "\<exists>s'. reconcileTpm TwoWay 5 ''k'' 0 (Some 7) 5 [] = (Inr (), s') \<and> counts 5 s' (tpm_slot ''k'' 5) 7"
  using reconcile_settles_usage [of 5 "[]" "''k''" 5 0 7 0]
  by (auto simp: counts_absent view_def MAX_USAGE_TOKENS_def)

text \<open>
  A broken usage report (not a number, negative, or beyond ten million) changes nothing, and a
  credible one never drives the counter of a window below zero, in either mode.
\<close>

theorem reconcile_never_below_zero:
  assumes "counts now s (tpm_slot k t) c" and "0 \<le> c" and "0 \<le> n"
    and "used = None \<or> (\<exists>u. used = Some (of_int u))"
  shows "\<exists>s' c'. reconcileTpm mode now k (of_int n) used t s = (Inr (), s') \<and>
    counts now s' (tpm_slot k t) c' \<and> 0 \<le> c' \<and>
    (used = None \<or> (\<exists>u. used = Some u \<and> (u < 0 \<or> of_int MAX_USAGE_TOKENS < u)) \<longrightarrow> s' = s)"
proof (cases "used = None \<or> (\<exists>u. used = Some u \<and> (u < 0 \<or> of_int MAX_USAGE_TOKENS < u))")
  case True
  from reconcileTpm_garbage [OF this] assms(1, 2) show ?thesis by blast
next
  case False
  with assms(4) obtain u where u: "used = Some (of_int u)" "0 \<le> u" "u \<le> MAX_USAGE_TOKENS" by auto
  from reconcileTpm_run [OF assms(1) u(2, 3) assms(3), of mode] settled_nonneg [OF assms(2), of mode n u] False
  show ?thesis unfolding u(1) by blast
qed

theorem reconcile_never_below_zero_witness:
  "\<exists>s' c'. reconcileTpm Refund 5 ''k'' 9 (Some 2) 5 [] = (Inr (), s') \<and>
     counts 5 s' (tpm_slot ''k'' 5) c' \<and> 0 \<le> c'"
proof -
  have "counts 5 [] (tpm_slot ''k'' 5) 0" by (simp add: counts_absent view_def)
  moreover have "Some (2 :: rat) = None \<or> (\<exists>u. Some 2 = Some (of_int u :: rat))" by (intro disjI2 exI [of _ 2]) simp
  ultimately show ?thesis
    using reconcile_never_below_zero [of 5 "[]" "''k''" 5 0 9 "Some 2" Refund] by auto
qed

text \<open>
  The Max Users cap holds over time: whatever end users ask in whatever order, the set of users a key
  serves never outgrows the cap, expiry of the set included.
\<close>

theorem max_users_holds:
  assumes "sorted (map fst us)" and "us \<noteq> []" and "0 < secs" and "\<forall>(t, u) \<in> set us. u \<noteq> []"
  shows "int (length (set_at (last (map fst us)) (snd (admitUser_run k m secs us [])) (usersKey k))) \<le> user_cap m"
proof -
  obtain r us' where us: "us = r # us'" using assms(2) by (cases us) simp_all
  have "holds_set (fst r) [] (usersKey k)" by (simp add: holds_set_def view_def)
  moreover have "int (length (set_at (fst r) [] (usersKey k))) \<le> user_cap m"
    by (simp add: set_at_def view_def user_cap_def)
  ultimately show ?thesis
    using admitUser_run_cap [of "fst r" us "[]" k m secs] assms by (simp add: us Let_def)
qed

theorem max_users_holds_witness:
  "int (length (set_at 9 (snd (admitUser_run ''k'' 1 60 [(1, ''a''), (5, ''b''), (9, ''a'')] [])) (usersKey ''k''))) \<le> 1"
  using max_users_holds [of "[(1, ''a''), (5, ''b''), (9, ''a'')]" 60 "''k''" 1] by (simp add: user_cap_def)

end
