(* ===== verification/Kv_Views.thy ===== *)
theory Kv_Views
  imports Reconcile
begin

text \<open>
  How a script moves what a client sees: \<open>runs now m V x V'\<close> says that \<open>m\<close>, on every store that
  shows \<open>V\<close> at \<open>now\<close>, returns \<open>x\<close> and leaves \<open>V'\<close>. The rules below step through a script command
  by command; the components' lemmas about longer scripts are chains of them.
\<close>

type_synonym shown = "string \<Rightarrow> kv_entry option"

definition runs :: "int \<Rightarrow> 'a kv \<Rightarrow> shown \<Rightarrow> 'a \<Rightarrow> shown \<Rightarrow> bool" where
  "runs now m V x V' \<longleftrightarrow> (\<forall>s. view now s = V \<longrightarrow> (\<exists>s'. m s = (Inr x, s') \<and> view now s' = V'))"

lemma runsI: "(\<And>s. view now s = V \<Longrightarrow> \<exists>s'. m s = (Inr x, s') \<and> view now s' = V') \<Longrightarrow> runs now m V x V'"
  by (simp add: runs_def)

lemma runsE: "runs now m (view now s) x V' \<Longrightarrow> \<exists>s'. m s = (Inr x, s') \<and> view now s' = V'"
  by (simp add: runs_def)

lemma runs_return: "runs now (return_m x) V x V"
  by (simp add: runs_def return_run)

lemma runs_bind: "runs now m V x V1 \<Longrightarrow> runs now (f x) V1 y V2 \<Longrightarrow> runs now (bind_m m f) V y V2"
  unfolding runs_def by (metis bind_run)

lemma runs_then: "runs now m V x V1 \<Longrightarrow> runs now k V1 y V2 \<Longrightarrow> runs now (then_m m k) V y V2"
  unfolding then_m_def by (rule runs_bind)

lemma runs_if: "(b \<Longrightarrow> runs now m V x V') \<Longrightarrow> (\<not> b \<Longrightarrow> runs now m' V y V') \<Longrightarrow>
    runs now (if b then m else m') V (if b then x else y) V'"
  by simp

subsection \<open>Typed readings of a view\<close>

definition v_str :: "shown \<Rightarrow> string \<Rightarrow> string option" where
  "v_str V k = (case V k of Some e \<Rightarrow> (case val_of e of VStr v \<Rightarrow> Some v | VSet _ \<Rightarrow> None) | None \<Rightarrow> None)"

definition v_text :: "shown \<Rightarrow> string \<Rightarrow> bool" where
  "v_text V k = (case V k of Some e \<Rightarrow> (case val_of e of VStr _ \<Rightarrow> True | VSet _ \<Rightarrow> False) | None \<Rightarrow> True)"

definition v_mem :: "shown \<Rightarrow> string \<Rightarrow> string list" where
  "v_mem V k = (case V k of Some e \<Rightarrow> (case val_of e of VSet xs \<Rightarrow> xs | VStr _ \<Rightarrow> []) | None \<Rightarrow> [])"

definition v_group :: "shown \<Rightarrow> string \<Rightarrow> bool" where
  "v_group V k = (case V k of Some e \<Rightarrow> (case val_of e of VSet _ \<Rightarrow> True | VStr _ \<Rightarrow> False) | None \<Rightarrow> True)"

definition v_expiry :: "shown \<Rightarrow> string \<Rightarrow> int option" where
  "v_expiry V k = Option.bind (V k) expires_at"

text \<open>\<open>k\<close> is a counter that reads \<open>n\<close>; an absent key reads 0.\<close>

definition v_counts :: "shown \<Rightarrow> string \<Rightarrow> int \<Rightarrow> bool" where
  "v_counts V k n \<longleftrightarrow> v_text V k \<and> counted (v_str V k) = Some (of_int n)"

lemma view_typed:
  "str_at now s k = v_str (view now s) k" "holds_str now s k = v_text (view now s) k"
  "set_at now s k = v_mem (view now s) k" "holds_set now s k = v_group (view now s) k"
  "expiry_at now s k = v_expiry (view now s) k"
  by (simp_all add: str_at_def v_str_def holds_str_def v_text_def set_at_def v_mem_def
      holds_set_def v_group_def expiry_at_def v_expiry_def)

lemma counts_v: "counts now s k n = v_counts (view now s) k n"
  by (cases "str_at now s k")
    (simp_all add: counts_def v_counts_def view_typed counter_at_def counted_def)

lemma v_upd [simp]:
  "v_str (V(k := e)) k' = (if k' = k then v_str (\<lambda>_. e) k else v_str V k')"
  "v_text (V(k := e)) k' = (if k' = k then v_text (\<lambda>_. e) k else v_text V k')"
  "v_mem (V(k := e)) k' = (if k' = k then v_mem (\<lambda>_. e) k else v_mem V k')"
  "v_group (V(k := e)) k' = (if k' = k then v_group (\<lambda>_. e) k else v_group V k')"
  "v_expiry (V(k := e)) k' = (if k' = k then v_expiry (\<lambda>_. e) k else v_expiry V k')"
  "v_counts (V(k := e)) k' n = (if k' = k then v_counts (\<lambda>_. e) k n else v_counts V k' n)"
  by (simp_all add: v_str_def v_text_def v_mem_def v_group_def v_expiry_def v_counts_def)

lemma v_const [simp]:
  "v_str (\<lambda>_. None) k = None" "v_text (\<lambda>_. None) k" "v_mem (\<lambda>_. None) k = []" "v_group (\<lambda>_. None) k"
  "v_expiry (\<lambda>_. None) k = None"
  "v_counts (\<lambda>_. None) k n \<longleftrightarrow> n = 0"
  "v_str (\<lambda>_. Some \<lparr>val_of = VStr t, expires_at = x\<rparr>) k = Some t"
  "v_text (\<lambda>_. Some \<lparr>val_of = VStr t, expires_at = x\<rparr>) k"
  "v_mem (\<lambda>_. Some \<lparr>val_of = VSet xs, expires_at = x\<rparr>) k = xs"
  "v_group (\<lambda>_. Some \<lparr>val_of = VSet xs, expires_at = x\<rparr>) k"
  "v_expiry (\<lambda>_. Some e) k = expires_at e"
  "v_counts (\<lambda>_. Some (written m x)) k n \<longleftrightarrow> n = m"
  "v_text (\<lambda>_. Some (written m x)) k" "v_str (\<lambda>_. Some (written m x)) k = Some (int_string m)"
  by (auto simp: v_str_def v_text_def v_mem_def v_group_def v_expiry_def v_counts_def counted_def written_def)

lemma written_sel [simp]: "expires_at (written n x) = x" "val_of (written n x) = VStr (int_string n)"
  "(written n x)\<lparr>expires_at := y\<rparr> = written n y"
  by (simp_all add: written_def)

lemma v_counts_det: "v_counts V k n \<Longrightarrow> v_counts V k m \<Longrightarrow> n = m"
  by (simp add: v_counts_def)

lemma v_counts_text: "v_counts V k n \<Longrightarrow> v_text V k"
  by (simp add: v_counts_def)

subsection \<open>The commands\<close>

lemma runs_get: "v_text V k \<Longrightarrow> runs now (kv_get now k) V (v_str V k) V"
  by (auto intro!: runsI simp: kv_get_run view_typed)

lemma runs_sismember: "v_group V k \<Longrightarrow> runs now (kv_sismember now k u) V (u \<in> set (v_mem V k)) V"
  by (auto intro!: runsI simp: kv_sismember_run view_typed)

lemma runs_scard: "v_group V k \<Longrightarrow> runs now (kv_scard now k) V (length (v_mem V k)) V"
  by (auto intro!: runsI simp: kv_scard_run view_typed)

lemma runs_incrby: "v_counts V k c \<Longrightarrow> runs now (kv_incrby now k (of_int n)) V (of_int (c + n))
    (V(k \<mapsto> written (c + n) (v_expiry V k)))"
  using kv_incrby_counts by (auto intro!: runsI simp: counts_v view_typed)

lemma runs_incr: "v_counts V k c \<Longrightarrow> runs now (kv_incr now k) V (of_int (c + 1))
    (V(k \<mapsto> written (c + 1) (v_expiry V k)))"
  using runs_incrby [of V k c now 1] by (simp add: kv_incr_def)

lemma runs_expire: "V k = Some e \<Longrightarrow> 0 < secs \<Longrightarrow> runs now (kv_expire now k secs) V True
    (V(k \<mapsto> e\<lparr>expires_at := Some (now + secs * 1000)\<rparr>))"
  by (auto intro!: runsI simp: kv_expire_run view_store_set expired_def)

lemma runs_set_ex: "0 < secs \<Longrightarrow> runs now (kv_set now k v [OptEX secs]) V True
    (V(k \<mapsto> \<lparr>val_of = VStr v, expires_at = Some (now + secs * 1000)\<rparr>))"
  by (auto intro!: runsI simp: kv_set_ex_run view_store_set expired_def)

lemma runs_set_nx_lost: "V k \<noteq> None \<Longrightarrow> runs now (kv_set now k v [OptNX, OptEX secs]) V False V"
  by (auto intro!: runsI simp: kv_set_nx_run)

lemma runs_set_nx_won: "V k = None \<Longrightarrow> 0 < secs \<Longrightarrow> runs now (kv_set now k v [OptNX, OptEX secs]) V True
    (V(k \<mapsto> \<lparr>val_of = VStr v, expires_at = Some (now + secs * 1000)\<rparr>))"
  by (auto intro!: runsI simp: kv_set_nx_run view_store_set expired_def)

lemma runs_del: "distinct ks \<Longrightarrow> runs now (kv_del now ks) V (length (filter (\<lambda>k. V k \<noteq> None) ks))
    (\<lambda>k. if k \<in> set ks then None else V k)"
proof (rule runsI)
  fix s assume "distinct ks" and "view now s = V"
  with kv_del_view [of now ks s] show "\<exists>s'. kv_del now ks s = (Inr (length (filter (\<lambda>k. V k \<noteq> None) ks)), s') \<and>
      view now s' = (\<lambda>k. if k \<in> set ks then None else V k)" by auto
qed

lemma runs_del1: "runs now (kv_del now [k]) V (if V k = None then 0 else 1) (V(k := None))"
  using runs_del [of "[k]" now V] by (auto simp: fun_upd_def cong: if_cong)

lemma runs_sadd: "v_group V k \<Longrightarrow> u \<notin> set (v_mem V k) \<Longrightarrow> runs now (kv_sadd now k [u]) V 1
    (V(k \<mapsto> \<lparr>val_of = VSet (v_mem V k @ [u]), expires_at = v_expiry V k\<rparr>))"
  by (rule runsI) (auto simp: kv_sadd_run view_typed [symmetric] kvm.lookup_put)

lemma runs_rateCount:
  "v_counts V (w_current w) c \<Longrightarrow> v_counts V (w_previous w) p \<Longrightarrow>
   runs now (rateCount now w) V (Some (of_int c + of_int p * w_weight w)) V"
  by (rule runsI) (auto simp: rateCount_run counts_v)

lemma runs_bump: "v_counts V k c \<Longrightarrow> 0 < ttl \<Longrightarrow>
    runs now (then_m (kv_incrby now k (of_int n)) (kv_expire now k ttl)) V True
      (V(k \<mapsto> written (c + n) (Some (now + ttl * 1000))))"
  using runs_then [OF runs_incrby [of V k c now n]
      runs_expire [of "V(k \<mapsto> written (c + n) (v_expiry V k))" k "written (c + n) (v_expiry V k)" ttl now]]
  by simp

end
