(* ===== verification/Budget.thy ===== *)
theory Budget
  imports Js_Date Kv_Views
begin

text \<open>
  \<open>src/services/budget.service.ts\<close>: a team's spend in the current window, held in a counter whose name
  is the window's, and the verdict on the admission path. \<open>now\<close> is the store's clock, \<open>t\<close> the date
  argument in milliseconds; the sum of recorded usage is a parameter. The lookup and the seeding of
  a counter are separate steps, as the code awaits the database between them.
\<close>

datatype budget_period = Daily | Weekly | Monthly

definition PERIOD_TTL_SECONDS :: "budget_period \<Rightarrow> int" where
  "PERIOD_TTL_SECONDS period = (case period of Daily \<Rightarrow> 2 * 86400 | Weekly \<Rightarrow> 9 * 86400 | Monthly \<Rightarrow> 33 * 86400)"

text \<open>\<open>d.getUTCDay() || 7\<close>: Monday = 1 to Sunday = 7.\<close>

definition iso_day :: "int \<Rightarrow> int" where
  "iso_day t = (if UTCDay t = 0 then 7 else UTCDay t)"

definition isoWeek :: "int \<Rightarrow> int \<times> int" where
  "isoWeek t =
     (let date = Date_UTC (UTCFullYear t) (UTCMonth t) (UTCDate t);
          day = iso_day date;
          date = setUTCDate date (UTCDate date + 4 - day);
          yearStart = Date_UTC (UTCFullYear date) 0 1;
          week = ceil_div (date - yearStart + MS_PER_DAY) (7 * MS_PER_DAY)
      in (UTCFullYear date, week))"

definition two_digits :: "int \<Rightarrow> string" where
  "two_digits n = pad_start 2 (CHR ''0'') (int_string n)"

definition periodKey :: "budget_period \<Rightarrow> int \<Rightarrow> string" where
  "periodKey period t =
     (let y = int_string (UTCFullYear t); m = two_digits (UTCMonth t + 1) in
      case period of
        Monthly \<Rightarrow> y @ ''-'' @ m
      | Daily \<Rightarrow> y @ ''-'' @ m @ ''-'' @ two_digits (UTCDate t)
      | Weekly \<Rightarrow> (case isoWeek t of (wy, w) \<Rightarrow> int_string wy @ ''-W'' @ two_digits w))"

definition periodStart :: "budget_period \<Rightarrow> int \<Rightarrow> int" where
  "periodStart period t = (case period of
      Monthly \<Rightarrow> Date_UTC (UTCFullYear t) (UTCMonth t) 1
    | Daily \<Rightarrow> Date_UTC (UTCFullYear t) (UTCMonth t) (UTCDate t)
    | Weekly \<Rightarrow> (let start = Date_UTC (UTCFullYear t) (UTCMonth t) (UTCDate t)
                 in setUTCDate start (UTCDate start - (iso_day t - 1))))"

definition periodEnd :: "budget_period \<Rightarrow> int \<Rightarrow> int" where
  "periodEnd period t = (case period of
      Monthly \<Rightarrow> Date_UTC (UTCFullYear t) (UTCMonth t + 1) 1
    | Daily \<Rightarrow> Date_UTC (UTCFullYear t) (UTCMonth t) (UTCDate t + 1)
    | Weekly \<Rightarrow> periodStart Weekly t + 7 * 86400000)"

definition periodEndSeconds :: "budget_period \<Rightarrow> int \<Rightarrow> int" where
  "periodEndSeconds period t = max 1 (ceil_div (periodEnd period t - t) 1000)"

definition budgetRedisKey :: "string \<Rightarrow> string \<Rightarrow> string" where
  "budgetRedisKey teamId pk = ''nexus:budget:'' @ teamId @ '':'' @ pk"

definition add_spend_script :: "int \<Rightarrow> string \<Rightarrow> rat \<Rightarrow> string option kv" where
  "add_spend_script now budgetKey usd = bind_m (kv_exists now [budgetKey]) (\<lambda>n.
     if n = 1 then bind_m (kv_incrbyfloat now budgetKey usd) (\<lambda>r. return_m (Some r)) else return_m None)"

text \<open>\<open>parseFloat(cached) || 0\<close>.\<close>

definition spend_cached :: "int \<Rightarrow> string \<Rightarrow> budget_period \<Rightarrow> int \<Rightarrow> rat option kv" where
  "spend_cached now teamId period t = bind_m (kv_get now (budgetRedisKey teamId (periodKey period t)))
     (\<lambda>cached. return_m (map_option (\<lambda>c. option_or (js_parseFloat c) 0) cached))"

definition spend_seed :: "int \<Rightarrow> string \<Rightarrow> budget_period \<Rightarrow> int \<Rightarrow> rat \<Rightarrow> rat kv" where
  "spend_seed now teamId period t spend =
     then_m (kv_set now (budgetRedisKey teamId (periodKey period t)) (js_String spend)
       [OptEX (PERIOD_TTL_SECONDS period), OptNX]) (return_m spend)"

definition getCurrentSpend :: "int \<Rightarrow> string \<Rightarrow> budget_period \<Rightarrow> int \<Rightarrow> (string \<Rightarrow> int \<Rightarrow> rat) \<Rightarrow> rat kv" where
  "getCurrentSpend now teamId period t teamSpendSince = bind_m (spend_cached now teamId period t) (\<lambda>c. case c of
      Some spend \<Rightarrow> return_m spend
    | None \<Rightarrow> spend_seed now teamId period t (teamSpendSince teamId (periodStart period t)))"

definition addSpend :: "int \<Rightarrow> string \<Rightarrow> budget_period \<Rightarrow> rat \<Rightarrow> int \<Rightarrow> rat option kv" where
  "addSpend now teamId period usd t =
     (if \<not> 0 < usd then return_m None
      else bind_m (add_spend_script now (budgetRedisKey teamId (periodKey period t)) usd)
        (\<lambda>res. return_m (case res of None \<Rightarrow> None | Some r \<Rightarrow> js_parseFloat r)))"

datatype over_budget_action = Block | Notify | Downgrade

record budget_verdict =
  allowed :: bool
  downgrade :: bool
  spendUsd :: rat
  budgetUsd :: "rat option"
  retryAfterSeconds :: int

definition checkTeamBudget ::
  "int \<Rightarrow> string \<Rightarrow> rat option \<Rightarrow> budget_period \<Rightarrow> over_budget_action \<Rightarrow> int \<Rightarrow> (string \<Rightarrow> int \<Rightarrow> rat)
    \<Rightarrow> budget_verdict kv" where
  "checkTeamBudget now teamId cap period overBudgetAction t teamSpendSince = (case cap of
      None \<Rightarrow> return_m \<lparr>allowed = True, downgrade = False, spendUsd = 0, budgetUsd = None, retryAfterSeconds = 0\<rparr>
    | Some b \<Rightarrow> bind_m (getCurrentSpend now teamId period t teamSpendSince) (\<lambda>spend.
        let overBudget = (b \<le> spend) in return_m
          \<lparr>allowed = (\<not> overBudget \<or> overBudgetAction \<noteq> Block),
           downgrade = (overBudget \<and> overBudgetAction = Downgrade),
           spendUsd = spend, budgetUsd = Some b, retryAfterSeconds = periodEndSeconds period t\<rparr>))"

subsection \<open>The windows\<close>

lemma weekday_bounds: "0 \<le> weekday d \<and> weekday d < 7"
  by (simp add: weekday_def)

lemma iso_day_bounds: "1 \<le> iso_day t \<and> iso_day t \<le> 7"
  using weekday_bounds [of "day_of t"] by (auto simp: iso_day_def UTCDay_def)

lemma today [simp]: "Date_UTC (UTCFullYear t) (UTCMonth t) (UTCDate t) = day_of t * MS_PER_DAY"
  by (rule Date_UTC_today)

lemma iso_day_today [simp]: "iso_day (day_of t * MS_PER_DAY) = iso_day t"
  by (simp add: iso_day_def UTCDay_def)

definition monday :: "int \<Rightarrow> int" where
  "monday t = day_of t - (iso_day t - 1)"

lemma setUTCDate_back: "setUTCDate t (UTCDate t - k) = t - k * MS_PER_DAY"
  using setUTCDate_shift [of t "- k"] by simp

lemma starts:
  "periodStart Daily t = day_of t * MS_PER_DAY"
  "periodStart Weekly t = monday t * MS_PER_DAY"
  "periodStart Monthly t = make_day (year_of_day (day_of t)) (int (month_of_day (day_of t))) 1 * MS_PER_DAY"
    apply (simp add: periodStart_def)
   apply (simp add: periodStart_def Let_def setUTCDate_back monday_def left_diff_distrib)
  apply (simp add: periodStart_def Date_UTC_def UTCFullYear_def UTCMonth_def)
  done

lemma ends:
  "periodEnd Daily t = (day_of t + 1) * MS_PER_DAY"
  "periodEnd Weekly t = (monday t + 7) * MS_PER_DAY"
  "periodEnd Monthly t = make_day (year_of_day (day_of t)) (int (month_of_day (day_of t)) + 1) 1 * MS_PER_DAY"
proof -
  have "make_day (UTCFullYear t) (UTCMonth t) (UTCDate t + 1) = day_of t + 1"
    by (simp add: make_day_shift UTCFullYear_def UTCMonth_def UTCDate_def make_day_id)
  then show "periodEnd Daily t = (day_of t + 1) * MS_PER_DAY" by (simp add: periodEnd_def Date_UTC_def)
qed (simp_all add: periodEnd_def starts(2) Date_UTC_def UTCFullYear_def UTCMonth_def distrib_right MS_PER_DAY_def)

definition max_window_days :: "budget_period \<Rightarrow> int" where
  "max_window_days period = (case period of Daily \<Rightarrow> 1 | Weekly \<Rightarrow> 7 | Monthly \<Rightarrow> 31)"

text \<open>In days: the window of an instant's day.\<close>

definition first_day :: "budget_period \<Rightarrow> int \<Rightarrow> int" where
  "first_day period t = (case period of Daily \<Rightarrow> day_of t | Weekly \<Rightarrow> monday t
     | Monthly \<Rightarrow> make_day (year_of_day (day_of t)) (int (month_of_day (day_of t))) 1)"

definition after_day :: "budget_period \<Rightarrow> int \<Rightarrow> int" where
  "after_day period t = (case period of Daily \<Rightarrow> day_of t + 1 | Weekly \<Rightarrow> monday t + 7
     | Monthly \<Rightarrow> make_day (year_of_day (day_of t)) (int (month_of_day (day_of t)) + 1) 1)"

lemma window_days: "periodStart period t = first_day period t * MS_PER_DAY" "periodEnd period t = after_day period t * MS_PER_DAY"
  by (cases period; simp add: starts ends first_day_def after_day_def)+

lemma day_in_window: "first_day period t \<le> day_of t" "day_of t < after_day period t"
  "after_day period t \<le> first_day period t + max_window_days period"
  using month_window [of "day_of t"] iso_day_bounds [of t]
  by (cases period; simp add: first_day_def after_day_def max_window_days_def monday_def)+

lemma window_contains: "periodStart period t \<le> t" "t < periodEnd period t"
  "periodEnd period t \<le> periodStart period t + max_window_days period * MS_PER_DAY"
proof -
  have m: "0 < MS_PER_DAY" by (simp add: MS_PER_DAY_def)
  note d = day_in_window [where period = period and t = t] day_of_bounds [of t]
  have "first_day period t * MS_PER_DAY \<le> day_of t * MS_PER_DAY" using d m by simp
  then show "periodStart period t \<le> t" using d(4) unfolding window_days by linarith
  have "(day_of t + 1) * MS_PER_DAY \<le> after_day period t * MS_PER_DAY" using d m by (intro mult_right_mono) simp_all
  then show "t < periodEnd period t" using d(4) unfolding window_days distrib_right by linarith
  have "after_day period t * MS_PER_DAY \<le> (first_day period t + max_window_days period) * MS_PER_DAY"
    using d m by (intro mult_right_mono) simp_all
  then show "periodEnd period t \<le> periodStart period t + max_window_days period * MS_PER_DAY"
    by (simp add: window_days distrib_right)
qed

lemma periodEndSeconds_reaches:
  "periodEnd period t \<le> t + periodEndSeconds period t * 1000"
  "t + (periodEndSeconds period t - 1) * 1000 < periodEnd period t"
proof -
  have p: "0 < periodEnd period t - t" using window_contains [where period = period and t = t] by simp
  note c = ceil_div_bounds [of 1000 "periodEnd period t - t"]
  have "0 < ceil_div (periodEnd period t - t) 1000" using c p by linarith
  then have "periodEndSeconds period t = ceil_div (periodEnd period t - t) 1000"
    by (simp add: periodEndSeconds_def)
  with c show "periodEnd period t \<le> t + periodEndSeconds period t * 1000"
    "t + (periodEndSeconds period t - 1) * 1000 < periodEnd period t" by simp_all
qed

lemma counter_outlives_window: "periodEnd period t < t + PERIOD_TTL_SECONDS period * 1000"
  using window_contains [where period = period and t = t]
  by (cases period) (simp_all add: max_window_days_def PERIOD_TTL_SECONDS_def MS_PER_DAY_def)

subsection \<open>Names of windows\<close>

text \<open>The Thursday that decides the week's year and number.\<close>

definition thursday :: "int \<Rightarrow> int" where
  "thursday t = monday t + 3"

lemma isoWeek_thursday: "isoWeek t = (year_of_day (thursday t),
    ceil_div (thursday t - day_from_year (year_of_day (thursday t)) + 1) 7)"
proof -
  let ?d = "day_of t * MS_PER_DAY"
  have d: "setUTCDate ?d (UTCDate ?d + 4 - iso_day t) = thursday t * MS_PER_DAY"
    using setUTCDate_shift [of ?d "4 - iso_day t"] by (simp add: thursday_def monday_def algebra_simps)
  let ?y = "year_of_day (thursday t)"
  have y: "Date_UTC ?y 0 1 = day_from_year ?y * MS_PER_DAY"
    by (cases "leap ?y") (simp_all add: Date_UTC_def make_day_def month_starts_def)
  have "ceil_div (thursday t * MS_PER_DAY - day_from_year ?y * MS_PER_DAY + MS_PER_DAY) (7 * MS_PER_DAY)
      = ceil_div ((thursday t - day_from_year ?y + 1) * MS_PER_DAY) (7 * MS_PER_DAY)"
    by (simp add: algebra_simps)
  moreover have "\<dots> = ceil_div (thursday t - day_from_year ?y + 1) 7"
    by (simp add: ceil_div_def MS_PER_DAY_def flip: minus_mult_left)
  moreover have "UTCFullYear (thursday t * MS_PER_DAY) = ?y" by (simp add: UTCFullYear_def)
  ultimately show ?thesis by (simp add: isoWeek_def Let_def d y)
qed

lemma monday_mod: "monday t mod 7 = 4"
proof -
  have "UTCDay t = (day_of t + 4) mod 7" by (simp add: UTCDay_def weekday_def)
  then have "monday t = (if (day_of t + 4) mod 7 = 0 then day_of t - 6 else day_of t - ((day_of t + 4) mod 7 - 1))"
    by (simp add: monday_def iso_day_def)
  then show ?thesis by (simp split: if_splits) presburger+
qed

lemma ceil7_unique:
  assumes "ceil_div (a - y + 1) 7 = ceil_div (b - y + 1) 7" and "a mod 7 = b mod (7::int)"
  shows "a = b"
proof -
  let ?w = "ceil_div (a - y + 1) 7"
  have "a - y + 1 \<le> ?w * 7" "?w * 7 < a - y + 1 + 7" "b - y + 1 \<le> ?w * 7" "?w * 7 < b - y + 1 + 7"
    using ceil_div_bounds [of 7 "a - y + 1"] ceil_div_bounds [of 7 "b - y + 1"] assms(1) by simp_all
  then have "\<bar>a - b\<bar> < 7" by linarith
  with assms(2) show ?thesis by presburger
qed

lemma isoWeek_window: "isoWeek t = isoWeek t' \<longleftrightarrow> monday t = monday t'"
proof
  assume eq: "isoWeek t = isoWeek t'"
  then have "ceil_div (thursday t - day_from_year (year_of_day (thursday t)) + 1) 7
      = ceil_div (thursday t' - day_from_year (year_of_day (thursday t)) + 1) 7"
    by (simp add: isoWeek_thursday) metis
  moreover have "thursday t mod 7 = thursday t' mod 7"
    using monday_mod [of t] monday_mod [of t'] unfolding thursday_def by (metis mod_add_left_eq)
  ultimately have "thursday t = thursday t'" by (rule ceil7_unique)
  then show "monday t = monday t'" by (simp add: thursday_def)
next
  assume "monday t = monday t'"
  then show "isoWeek t = isoWeek t'" by (simp add: isoWeek_thursday thursday_def)
qed

lemma zeros_val: "digits_val (replicate n (CHR ''0'') @ ds) = digits_val ds"
proof (induction n)
  case (Suc n)
  have "digits_val (CHR ''0'' # xs) = digits_val xs" for xs by (simp add: digits_val_def digit_val_def)
  with Suc show ?case by simp
qed simp

lemma two_digits_val: "0 \<le> m \<Longrightarrow> digits_val (two_digits m) = nat m"
  by (simp add: two_digits_def pad_start_def zeros_val int_string_def digits_val_nat_string)

lemma two_digits_inj: "0 \<le> m \<Longrightarrow> 0 \<le> n \<Longrightarrow> two_digits m = two_digits n \<longleftrightarrow> m = n"
  by (metis two_digits_val eq_nat_nat_iff)

lemma two_digits_no_minus: "0 \<le> m \<Longrightarrow> CHR ''-'' \<notin> set (two_digits m)"
  using nat_string_digits [of "nat m"] by (auto simp: two_digits_def pad_start_def int_string_def)

lemma minus_split:
  assumes "CHR ''-'' \<notin> set a" and "CHR ''-'' \<notin> set b"
  shows "a @ CHR ''-'' # u = b @ CHR ''-'' # v \<longleftrightarrow> a = b \<and> u = v"
proof
  assume eq: "a @ CHR ''-'' # u = b @ CHR ''-'' # v"
  have "takeWhile (\<lambda>c. c \<noteq> CHR ''-'') (w @ CHR ''-'' # z) = w" if "CHR ''-'' \<notin> set w" for w z
    using that by (subst takeWhile_append2) auto
  with assms eq have "a = b" by metis
  with eq show "a = b \<and> u = v" by simp
qed simp

lemma year_no_minus: "0 \<le> y \<Longrightarrow> CHR ''-'' \<notin> set (int_string y)"
  using nat_string_digits [of "nat y"] by (auto simp: int_string_def)

lemma day_of_nonneg: "0 \<le> t \<Longrightarrow> 0 \<le> day_of t"
  by (simp add: day_of_def MS_PER_DAY_def pos_imp_zdiv_nonneg_iff)

lemma year_text: "0 \<le> t \<Longrightarrow> CHR ''-'' \<notin> set (int_string (UTCFullYear t))"
  using year_nonneg [OF day_of_nonneg, of t] by (intro year_no_minus) (simp add: UTCFullYear_def)

lemma first_day_month: "year_of_day (first_day Monthly t) = UTCFullYear t \<and> int (month_of_day (first_day Monthly t)) = UTCMonth t"
  using first_of_month [of "month_of_day (day_of t)" "year_of_day (day_of t)"] month_bounds [of "day_of t"]
  by (simp add: first_day_def UTCFullYear_def UTCMonth_def)

lemma periodKey_window:
  assumes "0 \<le> t" and "0 \<le> t'"
  shows "periodKey period t = periodKey period t' \<longleftrightarrow> periodStart period t = periodStart period t'"
proof -
  have M: "0 < MS_PER_DAY" by (simp add: MS_PER_DAY_def)
  note y = year_text [OF assms(1)] year_text [OF assms(2)]
  let ?m = "\<lambda>t. UTCMonth t + 1"
  have m: "0 \<le> ?m t" "0 \<le> ?m t'" by (simp_all add: UTCMonth_def)
  have dd: "0 \<le> UTCDate t" "0 \<le> UTCDate t'" 
    using date_bounds [of "day_of t"] date_bounds [of "day_of t'"] by (simp_all add: UTCDate_def)
  show ?thesis
  proof (cases period)
    case Monthly
    have "periodKey period t = periodKey period t' \<longleftrightarrow> UTCFullYear t = UTCFullYear t' \<and> UTCMonth t = UTCMonth t'"
      using Monthly y m by (simp add: periodKey_def Let_def minus_split two_digits_inj)
    also have "\<dots> \<longleftrightarrow> first_day Monthly t = first_day Monthly t'"
    proof
      assume "first_day Monthly t = first_day Monthly t'"
      then show "UTCFullYear t = UTCFullYear t' \<and> UTCMonth t = UTCMonth t'"
        using first_day_month [of t] first_day_month [of t'] by metis
    qed (simp add: first_day_def UTCFullYear_def UTCMonth_def)
    finally show ?thesis using Monthly M by (simp add: window_days)
  next
    case Daily
    have "periodKey period t = periodKey period t' \<longleftrightarrow>
        UTCFullYear t = UTCFullYear t' \<and> UTCMonth t = UTCMonth t' \<and> UTCDate t = UTCDate t'"
      using Daily y m dd by (simp add: periodKey_def Let_def minus_split two_digits_inj two_digits_no_minus)
    also have "\<dots> \<longleftrightarrow> day_of t = day_of t'"
      unfolding UTCFullYear_def UTCMonth_def UTCDate_def by (metis make_day_id of_nat_eq_iff)
    finally show ?thesis using Daily M by (simp add: window_days first_day_def)
  next
    case Weekly
    have th: "0 \<le> thursday s" if "0 \<le> s" for s
      using monday_mod [of s] iso_day_bounds [of s] day_of_nonneg [OF that] unfolding thursday_def monday_def by presburger
    have wy: "CHR ''-'' \<notin> set (int_string (fst (isoWeek s)))" if "0 \<le> s" for s
      using year_nonneg [OF th [OF that]] by (intro year_no_minus) (simp add: isoWeek_thursday)
    have wn: "0 \<le> snd (isoWeek s)" for s
    proof -
      have "0 < ceil_div (thursday s - day_from_year (year_of_day (thursday s)) + 1) 7"
        using ceil_div_bounds [of 7 "thursday s - day_from_year (year_of_day (thursday s)) + 1"]
          year_of_day_bounds [of "thursday s"] by linarith
      then show ?thesis by (simp add: isoWeek_thursday)
    qed
    have "periodKey period t = periodKey period t' \<longleftrightarrow> isoWeek t = isoWeek t'"
      using Weekly wy [OF assms(1)] wy [OF assms(2)] wn
      by (auto simp: periodKey_def Let_def case_prod_unfold minus_split two_digits_inj prod_eq_iff)
    then show ?thesis using Weekly M by (simp add: isoWeek_window window_days first_day_def)
  qed
qed

subsection \<open>The counter\<close>

lemma PERIOD_TTL_pos: "0 < PERIOD_TTL_SECONDS period"
  by (cases period) (simp_all add: PERIOD_TTL_SECONDS_def)

text \<open>A counter that another request seeded first is kept.\<close>

lemma runs_spend_seed:
  "runs now (spend_seed now team period t x) V x
     (if V (budgetRedisKey team (periodKey period t)) \<noteq> None then V
      else V(budgetRedisKey team (periodKey period t) \<mapsto>
        \<lparr>val_of = VStr (js_String x), expires_at = Some (now + PERIOD_TTL_SECONDS period * 1000)\<rparr>))"
  using PERIOD_TTL_pos [of period]
  by (auto intro!: runsI simp: spend_seed_def then_m_def bind_m_def kv_set_ex_nx_run return_m_def view_store_set expired_def)

lemma runs_spend_cached:
  assumes "v_text V (budgetRedisKey team (periodKey period t))"
  shows "runs now (spend_cached now team period t) V
    (map_option (\<lambda>c. option_or (js_parseFloat c) 0) (v_str V (budgetRedisKey team (periodKey period t)))) V"
  unfolding spend_cached_def by (rule runs_bind [OF runs_get [OF assms] runs_return])

lemma runs_getCurrentSpend_cached:
  assumes "v_text V (budgetRedisKey team (periodKey period t))"
    and "v_str V (budgetRedisKey team (periodKey period t)) = Some c"
  shows "runs now (getCurrentSpend now team period t f) V (option_or (js_parseFloat c) 0) V"
  unfolding getCurrentSpend_def
  by (rule runs_bind [OF runs_spend_cached [OF assms(1)]]) (simp add: assms(2) runs_return)

lemma v_text_absent: "v_text V k \<Longrightarrow> v_str V k = None \<longleftrightarrow> V k = None"
  by (auto simp: v_text_def v_str_def split: option.splits kv_value.splits)

lemma runs_getCurrentSpend_seeds:
  assumes "V (budgetRedisKey team (periodKey period t)) = None"
  shows "runs now (getCurrentSpend now team period t f) V (f team (periodStart period t))
    (V(budgetRedisKey team (periodKey period t) \<mapsto> \<lparr>val_of = VStr (js_String (f team (periodStart period t))),
        expires_at = Some (now + PERIOD_TTL_SECONDS period * 1000)\<rparr>))"
proof -
  have tx: "v_text V (budgetRedisKey team (periodKey period t))" using assms by (simp add: v_text_def)
  with assms have "v_str V (budgetRedisKey team (periodKey period t)) = None" by (simp add: v_text_absent)
  then show ?thesis unfolding getCurrentSpend_def
    using runs_spend_seed [of now team period t "f team (periodStart period t)" V] assms
    by (intro runs_bind [OF runs_spend_cached [OF tx]]) simp
qed

lemma runs_checkTeamBudget:
  assumes "runs now (getCurrentSpend now team period t f) V spend V'"
  shows "runs now (checkTeamBudget now team (Some b) period act t f) V
    \<lparr>allowed = (spend < b \<or> act \<noteq> Block), downgrade = (b \<le> spend \<and> act = Downgrade), spendUsd = spend,
     budgetUsd = Some b, retryAfterSeconds = periodEndSeconds period t\<rparr> V'"
proof -
  have v: "\<lparr>allowed = (\<not> b \<le> spend \<or> act \<noteq> Block), downgrade = (b \<le> spend \<and> act = Downgrade), spendUsd = spend,
      budgetUsd = Some b, retryAfterSeconds = periodEndSeconds period t\<rparr> =
    \<lparr>allowed = (spend < b \<or> act \<noteq> Block), downgrade = (b \<le> spend \<and> act = Downgrade), spendUsd = spend,
      budgetUsd = Some b, retryAfterSeconds = periodEndSeconds period t\<rparr>"
    by (simp add: not_le)
  show ?thesis unfolding checkTeamBudget_def option.case Let_def
    by (rule runs_bind [OF assms]) (simp only: v runs_return)
qed

lemma kv_exists_run: "kv_exists now [k] s = (Inr (if view now s k = None then 0 else 1), purge now k s)"
  by (simp add: bind_m_def live_run return_m_def)

lemma runs_addSpend_absent:
  assumes "V (budgetRedisKey team (periodKey period t)) = None"
  shows "runs now (addSpend now team period usd t) V None V"
  using assms
  by (auto intro!: runsI simp: addSpend_def add_spend_script_def bind_m_def kv_exists_run return_m_def simp del: kv_exists.simps)

lemma runs_addSpend:
  assumes "v_text V (budgetRedisKey team (periodKey period t))"
    and "v_str V (budgetRedisKey team (periodKey period t)) = Some c" and "js_parseFloat c = Some x" and "0 < usd"
  shows "runs now (addSpend now team period usd t) V (js_parseFloat (js_String (to_precision 15 (x + usd))))
    (V(budgetRedisKey team (periodKey period t) \<mapsto> \<lparr>val_of = VStr (js_String (to_precision 15 (x + usd))),
        expires_at = v_expiry V (budgetRedisKey team (periodKey period t))\<rparr>))"
proof (rule runsI)
  fix s assume s: "view now s = V"
  let ?k = "budgetRedisKey team (periodKey period t)"
  obtain e where here: "V ?k = Some e" using assms(2) by (auto simp: v_str_def split: option.splits)
  have h: "holds_str now (purge now ?k s) ?k" using assms(1) s by (simp add: view_typed)
  have "kv_incrbyfloat now ?k usd (purge now ?k s) = (Inr (js_String (to_precision 15 (x + usd))),
      store_set ?k \<lparr>val_of = VStr (js_String (to_precision 15 (x + usd))), expires_at = expiry_at now s ?k\<rparr>
        (purge now ?k (purge now ?k s)))"
    using assms(2,3) s by (simp add: kv_incrbyfloat_def bind_m_def asString_str [OF h] view_typed Let_def
        v_expiry_def)
  moreover have "\<not> expired now \<lparr>val_of = VStr (js_String (to_precision 15 (x + usd))), expires_at = v_expiry V ?k\<rparr>"
    using not_expired_kept [of "\<lparr>val_of = VStr (js_String (to_precision 15 (x + usd))), expires_at = v_expiry V ?k\<rparr>" now s ?k] s
    by (simp add: view_typed)
  ultimately show "\<exists>s'. addSpend now team period usd t s =
      (Inr (js_parseFloat (js_String (to_precision 15 (x + usd)))), s') \<and> view now s' = V(?k \<mapsto>
        \<lparr>val_of = VStr (js_String (to_precision 15 (x + usd))), expires_at = v_expiry V ?k\<rparr>)"
    using here assms(4) s
    by (simp add: addSpend_def add_spend_script_def bind_m_def kv_exists_run return_m_def view_store_set
        view_typed del: kv_exists.simps)
qed

subsection \<open>Properties\<close>

text \<open>
  C37. Two instants since 1970 are counted under the same name exactly when they fall into the same
  window, whatever the period; every instant lies inside its own window, the window is no longer than
  its period, and the counter's lifetime set at any instant outlives the window.
\<close>

theorem budget_windows_partition_time:
  assumes "0 \<le> t" and "0 \<le> t'"
  shows "(periodKey period t = periodKey period t') = (periodStart period t = periodStart period t') \<and>
    periodStart period t \<le> t \<and> t < periodEnd period t \<and>
    periodEnd period t \<le> periodStart period t + max_window_days period * MS_PER_DAY \<and>
    periodEnd period t < t + PERIOD_TTL_SECONDS period * 1000"
  using periodKey_window [OF assms] window_contains [where period = period and t = t] counter_outlives_window [where period = period and t = t] by blast

theorem budget_windows_partition_time_witness:
  "periodStart Weekly 86400000 \<le> 86400000 \<and> 86400000 < periodEnd Weekly 86400000 \<and>
   (periodKey Weekly 86400000 = periodKey Weekly 0) = (periodStart Weekly 86400000 = periodStart Weekly 0)"
  using budget_windows_partition_time [of 86400000 0 Weekly] by simp

text \<open>
  The verdict on a team's budget when its counter holds readable text: the request is refused only
  when the counted spend has reached the limit and the team blocks, it is downgraded exactly when the
  spend has reached the limit and the team downgrades, nothing is written, and the answered
  \<open>Retry-After\<close> is the first whole second at which the window has ended.
\<close>

theorem budget_verdict:
  assumes "v_text V (budgetRedisKey team (periodKey period t))"
    and "v_str V (budgetRedisKey team (periodKey period t)) = Some c"
  shows "\<exists>v. runs now (checkTeamBudget now team (Some b) period act t f) V v V \<and>
    spendUsd v = option_or (js_parseFloat c) 0 \<and>
    allowed v = (spendUsd v < b \<or> act \<noteq> Block) \<and> downgrade v = (b \<le> spendUsd v \<and> act = Downgrade) \<and>
    periodEnd period t \<le> t + retryAfterSeconds v * 1000 \<and>
    t + (retryAfterSeconds v - 1) * 1000 < periodEnd period t"
  using runs_checkTeamBudget [OF runs_getCurrentSpend_cached [OF assms, where now = now and f = f], where b = b and act = act]
    periodEndSeconds_reaches [where period = period and t = t]
  by (intro exI [of _ "\<lparr>allowed = (option_or (js_parseFloat c) 0 < b \<or> act \<noteq> Block),
      downgrade = (b \<le> option_or (js_parseFloat c) 0 \<and> act = Downgrade), spendUsd = option_or (js_parseFloat c) 0,
      budgetUsd = Some b, retryAfterSeconds = periodEndSeconds period t\<rparr>"]) simp

theorem budget_verdict_witness:
  "\<exists>V v. runs 0 (checkTeamBudget 0 ''acme'' (Some 5) Daily Block 0 (\<lambda>_ _. 0)) V v V \<and> \<not> allowed v"
proof -
  let ?k = "budgetRedisKey ''acme'' (periodKey Daily 0)"
  let ?V = "Map.empty(?k \<mapsto> \<lparr>val_of = VStr ''7'', expires_at = None\<rparr>)"
  have c: "v_text ?V ?k" "v_str ?V ?k = Some ''7''" by (simp_all add: v_text_def v_str_def)
  have n: "option_or (js_parseFloat ''7'') 0 = 7" by code_simp
  from budget_verdict [OF c, where now = 0 and b = 5 and act = Block and f = "\<lambda>_ _. 0"] obtain v where
    "runs 0 (checkTeamBudget 0 ''acme'' (Some 5) Daily Block 0 (\<lambda>_ _. 0)) ?V v ?V"
    "spendUsd v = 7" "allowed v = (spendUsd v < 5 \<or> Block \<noteq> Block)" unfolding n by blast
  then have "\<not> allowed v" by simp
  with \<open>runs 0 _ ?V v ?V\<close> show ?thesis by blast
qed

end
