(* ===== verification/Env_Number.thy ===== *)
theory Env_Number
  imports Prelude
begin

text \<open>
  \<open>src/lib/envNumber.ts\<close>: a whole number from the environment, or the fallback. The complaint is
  kept as a flag of the result; the console text and the once-per-name memory are not modelled.
\<close>

record int_options =
  opt_min :: "int option"
  opt_max :: "int option"

definition clamp :: "int \<Rightarrow> int_options \<Rightarrow> int" where
  "clamp v opts = (case opt_min opts of
      Some lo \<Rightarrow> if v < lo then lo else (case opt_max opts of Some hi \<Rightarrow> if hi < v then hi else v | None \<Rightarrow> v)
    | None \<Rightarrow> (case opt_max opts of Some hi \<Rightarrow> if hi < v then hi else v | None \<Rightarrow> v))"

definition SAFE_INTEGER_MAX :: int where "SAFE_INTEGER_MAX = 9007199254740991"

text \<open>The value and whether it is complained about; \<open>raw\<close> is the variable as set.\<close>

definition envInt :: "string option \<Rightarrow> int \<Rightarrow> int_options \<Rightarrow> int \<times> bool" where
  "envInt raw fallback opts = (case map_option trim raw of
      None \<Rightarrow> (clamp fallback opts, False)
    | Some r \<Rightarrow> if r = [] then (clamp fallback opts, False)
        else if \<not> (\<forall>c \<in> set r. is_digit c) then (clamp fallback opts, True)
        else let parsed = int (digits_val r) in
          if SAFE_INTEGER_MAX < parsed then (clamp fallback opts, True)
          else (clamp parsed opts, clamp parsed opts \<noteq> parsed))"

definition opts_ok :: "int_options \<Rightarrow> bool" where
  "opts_ok opts \<longleftrightarrow> (case (opt_min opts, opt_max opts) of (Some lo, Some hi) \<Rightarrow> lo \<le> hi | _ \<Rightarrow> True)"

definition in_range :: "int_options \<Rightarrow> int \<Rightarrow> bool" where
  "in_range opts v \<longleftrightarrow> (\<forall>lo. opt_min opts = Some lo \<longrightarrow> lo \<le> v) \<and> (\<forall>hi. opt_max opts = Some hi \<longrightarrow> v \<le> hi)"

lemma clamp_in_range: "opts_ok opts \<Longrightarrow> in_range opts (clamp v opts)"
  by (auto simp: clamp_def opts_ok_def in_range_def split: option.splits)

lemma clamp_id: "in_range opts v \<Longrightarrow> clamp v opts = v"
  by (auto simp: clamp_def in_range_def split: option.splits)

lemma envInt_in_range: "opts_ok opts \<Longrightarrow> in_range opts (fst (envInt raw fallback opts))"
  by (simp add: envInt_def Let_def clamp_in_range split: option.split)

text \<open>What was written as digits is what is read, inside the range and below 2^53.\<close>

lemma envInt_reads:
  assumes "n \<le> 9007199254740991" and "in_range opts (int n)"
  shows "envInt (Some (nat_string n)) fallback opts = (int n, False)"
proof -
  have "trim (nat_string n) = nat_string n"
    using nat_string_digits digit_not_space by (intro trim_no_space) blast
  then show ?thesis using assms nat_string_digits [of n]
    by (simp add: envInt_def Let_def digits_val_nat_string SAFE_INTEGER_MAX_def clamp_id)
qed

text \<open>A unit, a sign or a separator is never read as a number.\<close>

lemma envInt_refuses:
  assumes "trim raw \<noteq> []" and "\<exists>c \<in> set (trim raw). \<not> is_digit c"
  shows "envInt (Some raw) fallback opts = (clamp fallback opts, True)"
  using assms by (auto simp: envInt_def)

end
