(* ===== verification/Ttl_Memo.thy ===== *)
theory Ttl_Memo
  imports Js_Map Env_Number
begin

text \<open>
  \<open>src/lib/ttlMemo.ts\<close>: a value held in the process for a window, read once for every caller that needs
  it, optionally served past its window while one background read replaces it. A promise is its
  number; a read settles in a later step, with a value or an error. The log lines are modelled by
  the instant they were last written. The loader's first synchronous step, in which nothing can
  overtake it, is part of the load step.
\<close>

record 'v memo_entry =
  me_value :: 'v
  me_readAt :: rat

record failing_state =
  fa_attempts :: nat
  fa_loggedAt :: "rat option"

record read_info =
  rd_key :: string
  rd_startedAt :: rat
  rd_background :: bool

record 'v memo =
  entries :: "(string, 'v memo_entry) jsmap"
  reading :: "(string, nat) jsmap"
  failing :: "(string, failing_state) jsmap"
  underway :: "(nat, read_info) jsmap"
  next_read :: nat

record memo_config =
  cfg_defaultTtlMs :: rat
  cfg_env :: "rat option option"
  cfg_maxStale :: "string option"

definition new_memo :: "'v memo" where
  "new_memo = \<lparr>entries = [], reading = [], failing = [], underway = [], next_read = 0\<rparr>"

definition MAX_STALE_CAP_MS :: int where "MAX_STALE_CAP_MS = 30000"
definition FAILURE_LOG_EVERY_MS :: rat where "FAILURE_LOG_EVERY_MS = 30000"

definition maxStaleMs :: "string option \<Rightarrow> int" where
  "maxStaleMs raw = fst (envInt raw 0 \<lparr>opt_min = None, opt_max = Some MAX_STALE_CAP_MS\<rparr>)"

text \<open>\<open>cfg_env\<close> is \<open>None\<close> without a variable name, otherwise the variable as a number.\<close>

definition memo_ttl :: "memo_config \<Rightarrow> rat" where
  "memo_ttl cfg = (case cfg_env cfg of None \<Rightarrow> cfg_defaultTtlMs cfg
     | Some raw \<Rightarrow> (case raw of Some r \<Rightarrow> if 0 \<le> r then r else cfg_defaultTtlMs cfg | None \<Rightarrow> cfg_defaultTtlMs cfg))"

definition stale_limit :: "memo_config \<Rightarrow> rat" where
  "stale_limit cfg = max (memo_ttl cfg) (of_int (maxStaleMs (cfg_maxStale cfg)))"

text \<open>\<open>read\<close>: the read under way, or a new one.\<close>

definition memo_read :: "string \<Rightarrow> rat \<Rightarrow> bool \<Rightarrow> 'v memo \<Rightarrow> nat \<times> 'v memo" where
  "memo_read key startedAt background M = (case map_of (reading M) key of
      Some p \<Rightarrow> (p, M)
    | None \<Rightarrow> let p = next_read M in
        (p, M\<lparr>reading := AList.update key p (reading M),
              underway := AList.update p \<lparr>rd_key = key, rd_startedAt = startedAt, rd_background = background\<rparr> (underway M),
              next_read := Suc p\<rparr>))"

datatype 'v answer = Direct | Served 'v | Awaits nat

definition memo_load :: "memo_config \<Rightarrow> string \<Rightarrow> rat \<Rightarrow> bool \<Rightarrow> 'v memo \<Rightarrow> 'v answer \<times> 'v memo" where
  "memo_load cfg key now stale M =
     (let ttl = memo_ttl cfg in
      if ttl = 0 then (Direct, M) else
      let wait = (case memo_read key now False M of (p, M') \<Rightarrow> (Awaits p, M')) in
      case map_of (entries M) key of
        None \<Rightarrow> wait
      | Some held \<Rightarrow>
          let age = now - me_readAt held in
          if 0 \<le> age \<and> age < ttl then (Served (me_value held), M)
          else if 0 \<le> age \<and> stale \<and> age < stale_limit cfg
          then (Served (me_value held), snd (memo_read key now True M))
          else wait)"

definition memo_set :: "memo_config \<Rightarrow> string \<Rightarrow> 'v \<Rightarrow> rat \<Rightarrow> 'v memo \<Rightarrow> 'v memo" where
  "memo_set cfg key v now M =
     (if memo_ttl cfg = 0 then M
      else M\<lparr>reading := AList.delete key (reading M),
             entries := AList.update key \<lparr>me_value = v, me_readAt = now\<rparr> (entries M)\<rparr>)"

definition memo_forget :: "string option \<Rightarrow> 'v memo \<Rightarrow> 'v memo" where
  "memo_forget key M = (case key of
      None \<Rightarrow> M\<lparr>entries := [], reading := [], failing := []\<rparr>
    | Some k \<Rightarrow> M\<lparr>entries := AList.delete k (entries M), reading := AList.delete k (reading M),
                  failing := AList.delete k (failing M)\<rparr>)"

definition recovered :: "string \<Rightarrow> 'v memo \<Rightarrow> 'v memo" where
  "recovered key M = M\<lparr>failing := AList.delete key (failing M)\<rparr>"

definition reportFailure :: "string \<Rightarrow> rat \<Rightarrow> 'v memo \<Rightarrow> 'v memo" where
  "reportFailure key now M = (case map_of (entries M) key of
      None \<Rightarrow> M
    | Some _ \<Rightarrow>
        let st = option_or (map_of (failing M) key) \<lparr>fa_attempts = 0, fa_loggedAt = None\<rparr>;
            quiet = (case fa_loggedAt st of Some t \<Rightarrow> now - t < FAILURE_LOG_EVERY_MS | None \<Rightarrow> False)
        in M\<lparr>failing := AList.update key \<lparr>fa_attempts = Suc (fa_attempts st),
               fa_loggedAt = (if quiet then fa_loggedAt st else Some now)\<rparr> (failing M)\<rparr>)"

text \<open>A read settles: \<open>Inr\<close> a value, \<open>Inl\<close> the error.\<close>

definition memo_settle :: "nat \<Rightarrow> 'e + 'v \<Rightarrow> 'v memo \<Rightarrow> 'v memo" where
  "memo_settle p outcome M0 = (case map_of (underway M0) p of
      None \<Rightarrow> M0
    | Some r \<Rightarrow>
        let key = rd_key r; current = (map_of (reading M0) key = Some p);
            M = M0\<lparr>underway := AList.delete p (underway M0)\<rparr> in
        if \<not> current then M
        else let M1 = M\<lparr>reading := AList.delete key (reading M)\<rparr> in
          (case outcome of
             Inr v \<Rightarrow> recovered key (M1\<lparr>entries := AList.update key
                        \<lparr>me_value = v, me_readAt = rd_startedAt r\<rparr> (entries M1)\<rparr>)
           | Inl _ \<Rightarrow> if rd_background r then reportFailure key (rd_startedAt r) M1 else M1))"

subsection \<open>Steps\<close>

datatype ('e, 'v) memo_event =
    MLoad string rat bool
  | MSet string 'v rat
  | MForget "string option"
  | MSettle nat "'e + 'v"

definition memo_event :: "memo_config \<Rightarrow> ('e, 'v) memo_event \<Rightarrow> 'v memo \<Rightarrow> 'v memo" where
  "memo_event cfg e M = (case e of
      MLoad k now stale \<Rightarrow> snd (memo_load cfg k now stale M)
    | MSet k v now \<Rightarrow> memo_set cfg k v now M
    | MForget k \<Rightarrow> memo_forget k M
    | MSettle p out \<Rightarrow> memo_settle p out M)"

text \<open>Reads are numbered in the order they start; a listed read is a started one, for its own key.\<close>

definition memo_inv :: "'v memo \<Rightarrow> bool" where
  "memo_inv M \<longleftrightarrow> jsmap_ok (reading M) \<and> jsmap_ok (entries M) \<and>
     (\<forall>p r. map_of (underway M) p = Some r \<longrightarrow> p < next_read M) \<and>
     (\<forall>k p. map_of (reading M) k = Some p \<longrightarrow> p < next_read M)"

lemma memo_inv_new: "memo_inv new_memo"
  by (simp add: memo_inv_def new_memo_def)

lemma memo_read_inv: "memo_inv M \<Longrightarrow> memo_inv (snd (memo_read k t b M))"
  by (auto simp: memo_read_def memo_inv_def Let_def update_conv' jsmap_ok_update less_Suc_eq split: option.splits if_splits)

lemma memo_load_state: "snd (memo_load cfg k t st M) = M \<or> (\<exists>b. snd (memo_load cfg k t st M) = snd (memo_read k t b M))"
  by (auto simp: memo_load_def Let_def case_prod_unfold split: option.splits)

lemma reportFailure_fields [simp]:
  "entries (reportFailure k t M) = entries M" "reading (reportFailure k t M) = reading M"
  "underway (reportFailure k t M) = underway M" "next_read (reportFailure k t M) = next_read M"
  by (simp_all add: reportFailure_def Let_def split: option.split)

lemma recovered_fields [simp]:
  "entries (recovered k M) = entries M" "reading (recovered k M) = reading M"
  "underway (recovered k M) = underway M" "next_read (recovered k M) = next_read M"
  by (simp_all add: recovered_def)

lemma settle_fields:
  "next_read (memo_settle p out M) = next_read M"
  "underway (memo_settle p out M) = (if map_of (underway M) p = None then underway M else AList.delete p (underway M))"
  by (auto simp: memo_settle_def Let_def split: option.split sum.split)

lemma settle_reading: "map_of (reading (memo_settle p out M)) k = Some q \<Longrightarrow> map_of (reading M) k = Some q"
  by (auto simp: memo_settle_def Let_def delete_conv' split: option.splits sum.splits if_splits)

lemma settle_maps: "jsmap_ok (reading M) \<Longrightarrow> jsmap_ok (reading (memo_settle p out M))"
  "jsmap_ok (entries M) \<Longrightarrow> jsmap_ok (entries (memo_settle p out M))"
  by (auto simp: memo_settle_def Let_def jsmap_ok_delete jsmap_ok_update split: option.split sum.split)

lemma memo_inv_event: "memo_inv M \<Longrightarrow> memo_inv (memo_event cfg e M)"
proof (cases e)
  case (MLoad k t st)
  assume "memo_inv M"
  with memo_load_state [of cfg k t st M] memo_read_inv [of M k t] MLoad show ?thesis
    by (auto simp: memo_event_def)
next
  case (MSet k v t)
  assume "memo_inv M"
  with MSet show ?thesis
    by (auto simp: memo_event_def memo_set_def memo_inv_def delete_conv' jsmap_ok_delete jsmap_ok_update)
next
  case (MForget k)
  assume "memo_inv M"
  with MForget show ?thesis
    by (auto simp: memo_event_def memo_forget_def memo_inv_def delete_conv' jsmap_ok_delete split: option.split)
next
  case (MSettle p out)
  assume inv: "memo_inv M"
  then show ?thesis
    by (auto simp: MSettle memo_event_def memo_inv_def settle_maps settle_fields delete_conv' dest!: settle_reading split: if_splits)
qed

definition memo_run :: "memo_config \<Rightarrow> ('e, 'v) memo_event list \<Rightarrow> 'v memo \<Rightarrow> 'v memo" where
  "memo_run cfg es M = fold (memo_event cfg) es M"

lemma memo_run_inv: "memo_inv M \<Longrightarrow> memo_inv (memo_run cfg es M)"
  unfolding memo_run_def by (induction es arbitrary: M) (simp_all add: memo_inv_event)

subsection \<open>A local write overtakes every read that was under way\<close>

text \<open>No read numbered below \<open>n\<close> is listed for \<open>k\<close>.\<close>

definition overtaken :: "string \<Rightarrow> nat \<Rightarrow> 'v memo \<Rightarrow> bool" where
  "overtaken k n M \<longleftrightarrow> n \<le> next_read M \<and> (\<forall>p. map_of (reading M) k = Some p \<longrightarrow> n \<le> p)"

lemma overtaken_read: "overtaken k n M \<Longrightarrow> overtaken k n (snd (memo_read k' t b M))"
  by (auto simp: overtaken_def memo_read_def Let_def update_conv' split: option.splits if_splits)

lemma overtaken_event: "overtaken k n M \<Longrightarrow> overtaken k n (memo_event cfg e M)"
proof (cases e)
  case (MLoad k' t st)
  assume "overtaken k n M"
  with memo_load_state [of cfg k' t st M] overtaken_read [of k n M k' t] MLoad show ?thesis
    by (auto simp: memo_event_def)
next
  case (MSettle p out)
  assume "overtaken k n M"
  with MSettle show ?thesis by (auto simp: memo_event_def overtaken_def settle_fields dest: settle_reading)
qed (auto simp: memo_event_def overtaken_def memo_set_def memo_forget_def delete_conv' split: option.splits if_splits)

lemma overtaken_run: "overtaken k n M \<Longrightarrow> overtaken k n (memo_run cfg es M)"
  unfolding memo_run_def by (induction es arbitrary: M) (simp_all add: overtaken_event)

lemma overtaken_set: "memo_ttl cfg \<noteq> 0 \<Longrightarrow> overtaken k (next_read M) (memo_set cfg k v t M)"
  by (simp add: overtaken_def memo_set_def delete_conv')

lemma overtaken_forget: "overtaken k (next_read M) (memo_forget (Some k) M)"
  by (simp add: overtaken_def memo_forget_def delete_conv')

text \<open>An overtaken read settles without a trace in the entries.\<close>

lemma settle_overtaken:
  assumes "overtaken k n M" and "p < n" and "map_of (underway M) p = Some r" and "rd_key r = k"
  shows "entries (memo_settle p out M) = entries M"
  using assms by (auto simp: memo_settle_def overtaken_def Let_def)

subsection \<open>How old a served value can be\<close>

lemma memo_load_served:
  assumes "fst (memo_load cfg k now stale M) = Served v"
  shows "\<exists>t. map_of (entries M) k = Some \<lparr>me_value = v, me_readAt = t\<rparr> \<and> 0 \<le> now - t \<and>
    now - t < (if stale then stale_limit cfg else memo_ttl cfg)"
proof -
  from assms obtain e where e: "map_of (entries M) k = Some e" "me_value e = v" "0 \<le> now - me_readAt e"
    "now - me_readAt e < memo_ttl cfg \<or> (stale \<and> now - me_readAt e < stale_limit cfg)"
    by (auto simp: memo_load_def Let_def case_prod_unfold split: option.splits if_splits)
  moreover have "memo_ttl cfg \<le> stale_limit cfg" by (simp add: stale_limit_def)
  ultimately show ?thesis by (cases e) auto
qed

lemma stale_limit_cap: "stale_limit cfg \<le> max (memo_ttl cfg) (of_int MAX_STALE_CAP_MS)"
proof -
  have "in_range \<lparr>opt_min = None, opt_max = Some MAX_STALE_CAP_MS\<rparr> (maxStaleMs (cfg_maxStale cfg))"
    unfolding maxStaleMs_def by (rule envInt_in_range) (simp add: opts_ok_def)
  then have "maxStaleMs (cfg_maxStale cfg) \<le> MAX_STALE_CAP_MS" by (simp add: in_range_def)
  then have "(of_int (maxStaleMs (cfg_maxStale cfg)) :: rat) \<le> of_int MAX_STALE_CAP_MS" by simp
  then show ?thesis unfolding stale_limit_def by linarith
qed

text \<open>Callers that must wait share one read.\<close>

lemma memo_load_shares:
  assumes "fst (memo_load cfg k t st M) = Awaits p"
  shows "map_of (reading (snd (memo_load cfg k t st M))) k = Some p"
  using assms
  by (auto simp: memo_load_def memo_read_def Let_def update_conv' split: option.splits if_splits)

lemma memo_load_joins:
  assumes "map_of (reading M) k = Some p" and "fst (memo_load cfg k t st M) = Awaits q"
  shows "q = p \<and> snd (memo_load cfg k t st M) = M"
  using assms by (auto simp: memo_load_def memo_read_def Let_def split: option.splits if_splits)

subsection \<open>Properties\<close>

text \<open>
  A read that was under way for a key when the process itself wrote or forgot that key leaves no
  trace in the stored values when it settles, whatever happened to the memo before or in between and
  whatever it answers: the entries just before and just after it settles are the same. So the older
  answer of a slow read never replaces the value written meanwhile.
\<close>

theorem overtaken_reads_leave_no_trace:
  assumes "map_of (underway M') p = Some r" and "rd_key r = k" and "p < next_read M"
    and "M' = memo_run cfg es (memo_event cfg w M)"
    and "(\<exists>v t. w = MSet k v t \<and> memo_ttl cfg \<noteq> 0) \<or> w = MForget (Some k)"
  shows "entries (memo_settle p out M') = entries M'"
proof (rule settle_overtaken [OF _ assms(3,1,2)])
  have "overtaken k (next_read M) (memo_event cfg w M)"
    using assms(5) overtaken_set overtaken_forget by (auto simp: memo_event_def)
  then show "overtaken k (next_read M) M'" unfolding assms(4) by (rule overtaken_run)
qed

theorem overtaken_reads_leave_no_trace_witness:
  "\<exists>M. map_of (underway M) 0 = Some \<lparr>rd_key = ''k'', rd_startedAt = 1, rd_background = False\<rparr> \<and>
     map_of (entries M) ''k'' = Some \<lparr>me_value = 7, me_readAt = 2\<rparr> \<and>
     entries (memo_settle 0 (Inr 5 :: string + int) M) = entries M"
proof -
  let ?cfg = "\<lparr>cfg_defaultTtlMs = 100, cfg_env = None, cfg_maxStale = None\<rparr>"
  let ?M = "snd (memo_load ?cfg ''k'' 1 False new_memo) :: int memo"
  let ?W = "memo_event ?cfg (MSet ''k'' 7 2 :: (string, int) memo_event) ?M"
  have M: "next_read ?M = 1" "map_of (underway ?W) 0 = Some \<lparr>rd_key = ''k'', rd_startedAt = 1, rd_background = False\<rparr>"
    "map_of (entries ?W) ''k'' = Some \<lparr>me_value = 7, me_readAt = 2\<rparr>" "memo_ttl ?cfg \<noteq> 0"
    by (simp_all add: memo_load_def memo_read_def memo_event_def memo_set_def new_memo_def memo_ttl_def Let_def)
  have r: "?W = memo_run ?cfg ([] :: (string, int) memo_event list) ?W" by (simp add: memo_run_def)
  have "entries (memo_settle 0 (Inr 5 :: string + int) ?W) = entries ?W"
    by (rule overtaken_reads_leave_no_trace [where M = ?M and w = "MSet ''k'' 7 2" and es = "[]", OF M(2) _ _ r])
      (use M in auto)
  with M show ?thesis by blast
qed

text \<open>
  What a load serves without waiting is the stored value, never older than the memo's lifetime, or,
  where the caller accepts stale values, than the larger of that lifetime and thirty seconds, whatever
  the environment says. Loads that must wait for the same key share one read: a load that waits leaves
  its read listed, and while a read is listed every further load waits for it and changes nothing.
\<close>

theorem memo_serves_fresh:
  "(fst (memo_load cfg k now stale M) = Served v \<longrightarrow>
      (\<exists>t. map_of (entries M) k = Some \<lparr>me_value = v, me_readAt = t\<rparr> \<and> 0 \<le> now - t \<and>
        now - t < (if stale then max (memo_ttl cfg) 30000 else memo_ttl cfg))) \<and>
   (fst (memo_load cfg k now stale M) = Awaits p \<longrightarrow>
      map_of (reading (snd (memo_load cfg k now stale M))) k = Some p \<and>
      (\<forall>q. map_of (reading M) k = Some q \<longrightarrow> p = q \<and> snd (memo_load cfg k now stale M) = M))"
proof -
  have s: "stale_limit cfg \<le> max (memo_ttl cfg) 30000" using stale_limit_cap [of cfg] by (simp add: MAX_STALE_CAP_MS_def)
  show ?thesis
  proof (intro conjI impI)
    assume "fst (memo_load cfg k now stale M) = Served v"
    from memo_load_served [OF this] s
    show "\<exists>t. map_of (entries M) k = Some \<lparr>me_value = v, me_readAt = t\<rparr> \<and> 0 \<le> now - t \<and>
        now - t < (if stale then max (memo_ttl cfg) 30000 else memo_ttl cfg)"
      by (cases stale) force+
  qed (use memo_load_shares memo_load_joins in \<open>metis+\<close>)
qed

theorem memo_serves_fresh_witness:
  "\<exists>M cfg t. fst (memo_load cfg ''k'' 50 False M) = Served (7 :: int) \<and>
     map_of (entries M) ''k'' = Some \<lparr>me_value = 7, me_readAt = t\<rparr> \<and> 50 - t < 100"
proof -
  let ?cfg = "\<lparr>cfg_defaultTtlMs = 100, cfg_env = None, cfg_maxStale = None\<rparr>"
  let ?M = "memo_set ?cfg ''k'' 7 2 new_memo :: int memo"
  have l: "fst (memo_load ?cfg ''k'' 50 False ?M) = Served 7" "memo_ttl ?cfg = 100"
    by (simp_all add: memo_load_def memo_set_def new_memo_def memo_ttl_def Let_def)
  with memo_serves_fresh [of ?cfg "''k''" 50 False ?M 7 0] show ?thesis by auto
qed

end
