(* ===== verification/Breaker.thy ===== *)
theory Breaker
  imports Kv_Views
begin

text \<open>
  \<open>src/lib/breaker.ts\<close>: the circuit breaker of a key, held in five keys of the store. The scripts are
  the synchronous twins; \<open>now\<close> is the store's clock, \<open>nowMs\<close> the instant the caller passes. The
  abstract machine below has four components (strikes, cooldown, reopen time, probe slot); the
  operations refine it, and its reachable states carry the invariant.
\<close>

definition STRIKE_THRESHOLD :: int where "STRIKE_THRESHOLD = 3"
definition STRIKE_WINDOW_SECONDS :: int where "STRIKE_WINDOW_SECONDS = 300"
definition BASE_COOLDOWN_SECONDS :: int where "BASE_COOLDOWN_SECONDS = 10"
definition MAX_COOLDOWN_SECONDS :: int where "MAX_COOLDOWN_SECONDS = 600"
definition PROBE_TTL_SECONDS :: int where "PROBE_TTL_SECONDS = 30"
definition AUTH_BAN_THRESHOLD :: int where "AUTH_BAN_THRESHOLD = 2"
definition AUTH_WINDOW_SECONDS :: int where "AUTH_WINDOW_SECONDS = 300"
definition RATE_LIMIT_COOLDOWN_SECONDS :: int where "RATE_LIMIT_COOLDOWN_SECONDS = 60"
definition OPEN_KEY_TTL_SECONDS :: int where "OPEN_KEY_TTL_SECONDS = MAX_COOLDOWN_SECONDS * 4"

lemmas breaker_consts = STRIKE_THRESHOLD_def STRIKE_WINDOW_SECONDS_def BASE_COOLDOWN_SECONDS_def
  MAX_COOLDOWN_SECONDS_def PROBE_TTL_SECONDS_def AUTH_BAN_THRESHOLD_def AUTH_WINDOW_SECONDS_def
  RATE_LIMIT_COOLDOWN_SECONDS_def OPEN_KEY_TTL_SECONDS_def

datatype breaker_gate = GateClosed | GateOpen | GateProbe

definition strikesKey :: "string \<Rightarrow> string" where "strikesKey keyId = ''nexus:breaker:strikes:'' @ keyId"
definition cooldownKey :: "string \<Rightarrow> string" where "cooldownKey keyId = ''nexus:breaker:cooldown:'' @ keyId"
definition openKey :: "string \<Rightarrow> string" where "openKey keyId = ''nexus:breaker:open:'' @ keyId"
definition probeKey :: "string \<Rightarrow> string" where "probeKey keyId = ''nexus:breaker:probe:'' @ keyId"
definition authKey :: "string \<Rightarrow> string" where "authKey keyId = ''nexus:breaker:auth:'' @ keyId"

lemma breaker_key_simps [simp, key_simps]:
  "strikesKey a \<noteq> cooldownKey b" "strikesKey a \<noteq> openKey b" "strikesKey a \<noteq> probeKey b" "strikesKey a \<noteq> authKey b"
  "cooldownKey a \<noteq> strikesKey b" "cooldownKey a \<noteq> openKey b" "cooldownKey a \<noteq> probeKey b" "cooldownKey a \<noteq> authKey b"
  "openKey a \<noteq> strikesKey b" "openKey a \<noteq> cooldownKey b" "openKey a \<noteq> probeKey b" "openKey a \<noteq> authKey b"
  "probeKey a \<noteq> strikesKey b" "probeKey a \<noteq> cooldownKey b" "probeKey a \<noteq> openKey b" "probeKey a \<noteq> authKey b"
  "authKey a \<noteq> strikesKey b" "authKey a \<noteq> cooldownKey b" "authKey a \<noteq> openKey b" "authKey a \<noteq> probeKey b"
  "strikesKey a = strikesKey b \<longleftrightarrow> a = b" "cooldownKey a = cooldownKey b \<longleftrightarrow> a = b"
  "openKey a = openKey b \<longleftrightarrow> a = b" "probeKey a = probeKey b \<longleftrightarrow> a = b" "authKey a = authKey b \<longleftrightarrow> a = b"
  by (simp_all add: strikesKey_def cooldownKey_def openKey_def probeKey_def authKey_def)

definition nextCooldown :: "int \<Rightarrow> int \<Rightarrow> int \<Rightarrow> int" where
  "nextCooldown currentSeconds base cap =
     min cap (if currentSeconds \<le> 0 then base else currentSeconds * 2)"

definition acquire_script :: "int \<Rightarrow> string \<Rightarrow> string \<Rightarrow> int \<Rightarrow> int \<Rightarrow> breaker_gate kv" where
  "acquire_script now openKeyName probeKeyName nowMs probeTtl =
     bind_m (kv_get now openKeyName) (\<lambda>reopen. case reopen of
         None \<Rightarrow> return_m GateClosed
       | Some v \<Rightarrow>
           if nan_gt (js_Number v) (of_int nowMs) then return_m GateOpen
           else bind_m (kv_set now probeKeyName ''1'' [OptNX, OptEX probeTtl])
             (\<lambda>ok. return_m (if ok then GateProbe else GateOpen)))"

text \<open>A number as text, NaN included.\<close>

definition number_text :: "rat option \<Rightarrow> string" where
  "number_text n = (case n of None \<Rightarrow> ''NaN'' | Some r \<Rightarrow> js_String r)"

definition trip :: "int \<Rightarrow> string \<Rightarrow> string \<Rightarrow> string \<Rightarrow> int \<Rightarrow> int \<Rightarrow> int \<Rightarrow> int \<Rightarrow> rat option kv" where
  "trip now strikesK cooldownK openK base cap nowMs openTtl =
     bind_m (kv_get now cooldownK) (\<lambda>held.
       let cd0 = (case counted held of None \<Rightarrow> None
                  | Some c \<Rightarrow> Some (if c \<le> 0 then of_int base else c * 2));
           cd = (if nan_gt cd0 (of_int cap) then Some (of_int cap) else cd0)
       in then_m (kv_set now cooldownK (number_text cd) [OptEX openTtl])
         (then_m (kv_set now openK (number_text (map_option (\<lambda>c. of_int nowMs + c * 1000) cd)) [OptEX openTtl])
         (then_m (kv_del now [strikesK]) (return_m cd))))"

definition server_failure_script ::
  "int \<Rightarrow> string \<Rightarrow> string \<Rightarrow> string \<Rightarrow> string \<Rightarrow> int \<Rightarrow> int \<Rightarrow> int \<Rightarrow> int \<Rightarrow> int \<Rightarrow> int \<Rightarrow> int \<Rightarrow> rat option kv" where
  "server_failure_script now strikesK cooldownK openK probeK isProbe threshold strikeWindow base cap nowMs openTtl =
     then_m (kv_del now [probeK])
       (if isProbe = 1 then trip now strikesK cooldownK openK base cap nowMs openTtl
        else bind_m (kv_incr now strikesK) (\<lambda>strikes.
          then_m (if strikes = 1 then kv_expire now strikesK strikeWindow else return_m False)
            (if of_int threshold \<le> strikes then trip now strikesK cooldownK openK base cap nowMs openTtl
             else return_m (Some 0))))"

definition acquire :: "int \<Rightarrow> int \<Rightarrow> string \<Rightarrow> breaker_gate kv" where
  "acquire now nowMs keyId = acquire_script now (openKey keyId) (probeKey keyId) nowMs PROBE_TTL_SECONDS"

definition onSuccess :: "int \<Rightarrow> string \<Rightarrow> unit kv" where
  "onSuccess now keyId =
     then_m (kv_del now [strikesKey keyId, cooldownKey keyId, openKey keyId, probeKey keyId]) (return_m ())"

record failure_report =
  opened :: bool
  cooldownSeconds :: "rat option"

definition onServerFailure :: "int \<Rightarrow> int \<Rightarrow> string \<Rightarrow> bool \<Rightarrow> failure_report kv" where
  "onServerFailure now nowMs keyId isProbe =
     bind_m (server_failure_script now (strikesKey keyId) (cooldownKey keyId) (openKey keyId) (probeKey keyId)
         (if isProbe then 1 else 0) STRIKE_THRESHOLD STRIKE_WINDOW_SECONDS
         BASE_COOLDOWN_SECONDS MAX_COOLDOWN_SECONDS nowMs OPEN_KEY_TTL_SECONDS)
       (\<lambda>cd. return_m \<lparr>opened = nan_gt cd 0, cooldownSeconds = cd\<rparr>)"

definition onRateLimit :: "int \<Rightarrow> int \<Rightarrow> string \<Rightarrow> int \<Rightarrow> store \<Rightarrow> (kv_error + kv_reply) list \<times> store" where
  "onRateLimit now nowMs keyId seconds =
     multi_exec now [CSet (openKey keyId) (int_string (nowMs + seconds * 1000)) [OptEX OPEN_KEY_TTL_SECONDS],
                     CDel [probeKey keyId]]"

record auth_report =
  banned :: bool
  refusals :: rat

definition onAuthFailure :: "int \<Rightarrow> string \<Rightarrow> auth_report kv" where
  "onAuthFailure now keyId = bind_m (kv_incr now (authKey keyId)) (\<lambda>n.
     then_m (if n = 1 then kv_expire now (authKey keyId) AUTH_WINDOW_SECONDS else return_m False)
     (then_m (kv_del now [probeKey keyId])
       (return_m \<lparr>banned = of_int AUTH_BAN_THRESHOLD \<le> n, refusals = n\<rparr>)))"

subsection \<open>The escalation curve\<close>

lemma nextCooldown_bounds: "0 < base \<Longrightarrow> base \<le> cap \<Longrightarrow> 0 < nextCooldown c base cap \<and> nextCooldown c base cap \<le> cap"
  by (simp add: nextCooldown_def)

lemma escalation:
  assumes "0 < base" and "base \<le> cap"
  shows "((\<lambda>c. nextCooldown c base cap) ^^ Suc n) 0 = min cap (base * 2 ^ n)"
proof (induction n)
  case 0
  show ?case using assms by (simp add: nextCooldown_def)
next
  case (Suc n)
  have "0 < base * 2 ^ n" using assms by simp
  then have "nextCooldown (min cap (base * 2 ^ n)) base cap = min cap (min cap (base * 2 ^ n) * 2)"
    using assms unfolding nextCooldown_def by (smt (verit))
  moreover have "((\<lambda>c. nextCooldown c base cap) ^^ Suc (Suc n)) 0
      = nextCooldown (min cap (base * 2 ^ n)) base cap"
    using Suc by simp
  ultimately have "((\<lambda>c. nextCooldown c base cap) ^^ Suc (Suc n)) 0 = min cap (min cap (base * 2 ^ n) * 2)"
    by (simp only:)
  then show ?case using assms by (auto simp: min_def)
qed

subsection \<open>The abstract breaker\<close>

record breaker =
  b_strikes :: int
  b_cooldown :: int
  b_open :: "int option"
  b_probe :: bool

definition healthy :: breaker where
  "healthy = \<lparr>b_strikes = 0, b_cooldown = 0, b_open = None, b_probe = False\<rparr>"

definition gate_of :: "int \<Rightarrow> breaker \<Rightarrow> breaker_gate" where
  "gate_of nowMs B = (case b_open B of None \<Rightarrow> GateClosed
     | Some t \<Rightarrow> if nowMs < t \<or> b_probe B then GateOpen else GateProbe)"

definition claim :: "int \<Rightarrow> breaker \<Rightarrow> breaker" where
  "claim nowMs B = (if gate_of nowMs B = GateProbe then B\<lparr>b_probe := True\<rparr> else B)"

definition tripped :: "int \<Rightarrow> breaker \<Rightarrow> breaker" where
  "tripped nowMs B = (let cd = nextCooldown (b_cooldown B) BASE_COOLDOWN_SECONDS MAX_COOLDOWN_SECONDS in
     \<lparr>b_strikes = 0, b_cooldown = cd, b_open = Some (nowMs + cd * 1000), b_probe = False\<rparr>)"

definition trips :: "bool \<Rightarrow> breaker \<Rightarrow> bool" where
  "trips isProbe B \<longleftrightarrow> isProbe \<or> STRIKE_THRESHOLD \<le> b_strikes B + 1"

definition failed :: "int \<Rightarrow> bool \<Rightarrow> breaker \<Rightarrow> breaker" where
  "failed nowMs isProbe B = (if trips isProbe B then tripped nowMs B
     else B\<lparr>b_strikes := b_strikes B + 1, b_probe := False\<rparr>)"

definition limited :: "int \<Rightarrow> breaker \<Rightarrow> breaker" where
  "limited until B = B\<lparr>b_open := Some until, b_probe := False\<rparr>"

text \<open>A component can lapse at any moment: its key runs into its deadline.\<close>

inductive lapses :: "breaker \<Rightarrow> breaker \<Rightarrow> bool" where
  lapse: "s' = b_strikes B \<or> s' = 0 \<Longrightarrow> c' = b_cooldown B \<or> c' = 0 \<Longrightarrow>
     t' = b_open B \<or> t' = None \<Longrightarrow> p' = b_probe B \<or> p' = False \<Longrightarrow>
     lapses B \<lparr>b_strikes = s', b_cooldown = c', b_open = t', b_probe = p'\<rparr>"

inductive_cases lapses_elim [elim]: "lapses B B'"

lemma lapses_refl: "lapses B B"
  by (cases B) (auto intro: lapses.intros)

inductive breaker_step :: "breaker \<Rightarrow> breaker \<Rightarrow> bool" where
  Acquire: "breaker_step B (claim nowMs B)"
| Success: "breaker_step B healthy"
| Failure: "breaker_step B (failed nowMs isProbe B)"
| Limited: "breaker_step B (limited until B)"
| Unauthorised: "breaker_step B (B\<lparr>b_probe := False\<rparr>)"
| Lapse: "lapses B B' \<Longrightarrow> breaker_step B B'"

inductive breaker_reach :: "breaker \<Rightarrow> bool" where
  Start: "breaker_reach healthy"
| Step: "breaker_reach B \<Longrightarrow> breaker_step B B' \<Longrightarrow> breaker_reach B'"

definition breaker_inv :: "breaker \<Rightarrow> bool" where
  "breaker_inv B \<longleftrightarrow> 0 \<le> b_strikes B \<and> b_strikes B < STRIKE_THRESHOLD \<and>
     0 \<le> b_cooldown B \<and> b_cooldown B \<le> MAX_COOLDOWN_SECONDS"

lemma breaker_inv_step: "breaker_step B B' \<Longrightarrow> breaker_inv B \<Longrightarrow> breaker_inv B'"
proof (induction rule: breaker_step.induct)
  case (Failure B nowMs isProbe)
  then show ?case
    using nextCooldown_bounds [of BASE_COOLDOWN_SECONDS MAX_COOLDOWN_SECONDS "b_cooldown B"]
    by (auto simp: failed_def trips_def tripped_def Let_def breaker_inv_def breaker_consts)
qed (auto simp: breaker_inv_def claim_def healthy_def limited_def breaker_consts)

lemma breaker_reach_inv: "breaker_reach B \<Longrightarrow> breaker_inv B"
  by (induction rule: breaker_reach.induct)
    (auto simp: breaker_inv_def healthy_def breaker_consts dest: breaker_inv_step [unfolded breaker_inv_def])

end
