(* ===== verification/Breaker_Refine.thy ===== *)
theory Breaker_Refine
  imports Breaker
begin

text \<open>
  The stored breaker refines the abstract one: \<open>breaker_at V k B\<close> reads the four keys of \<open>k\<close> as the
  machine state \<open>B\<close>, every operation of \<open>src/lib/breaker.ts\<close> moves it by the machine's step, time
  passing is a lapse, and so the invariant holds of every store that a history of operations
  reaches.
\<close>

definition breaker_at :: "shown \<Rightarrow> string \<Rightarrow> breaker \<Rightarrow> bool" where
  "breaker_at V k B \<longleftrightarrow> v_counts V (strikesKey k) (b_strikes B) \<and> v_counts V (cooldownKey k) (b_cooldown B) \<and>
     v_text V (openKey k) \<and> v_str V (openKey k) = map_option int_string (b_open B) \<and>
     b_probe B = (V (probeKey k) \<noteq> None)"

lemma breaker_at_empty: "breaker_at (\<lambda>_. None) k healthy"
  by (simp add: breaker_at_def healthy_def v_counts_def counted_def v_text_def v_str_def)

lemma breaker_at_frame:
  assumes "\<And>k'. k' \<in> {strikesKey k, cooldownKey k, openKey k, probeKey k} \<Longrightarrow> V' k' = V k'"
  shows "breaker_at V' k B = breaker_at V k B"
  using assms by (simp add: breaker_at_def v_counts_def v_text_def v_str_def)

subsection \<open>Acquire\<close>

lemma runs_acquire:
  assumes "breaker_at V k B"
  shows "\<exists>V'. runs now (acquire now nowMs k) V (gate_of nowMs B) V' \<and>
    breaker_at V' k (claim nowMs B) \<and> (\<forall>k'. k' \<noteq> probeKey k \<longrightarrow> V' k' = V k') \<and>
    (gate_of nowMs B \<noteq> GateProbe \<longrightarrow> V' = V) \<and>
    (gate_of nowMs B = GateProbe \<longrightarrow> v_expiry V' (probeKey k) = Some (now + PROBE_TTL_SECONDS * 1000))"
proof -
  have tx: "v_text V (openKey k)" and op: "v_str V (openKey k) = map_option int_string (b_open B)"
    and p: "b_probe B = (V (probeKey k) \<noteq> None)" using assms by (simp_all add: breaker_at_def)
  note get = runs_get [OF tx, of now]
  have pos: "0 < PROBE_TTL_SECONDS" by (simp add: breaker_consts)
  consider (closed) "b_open B = None" | (cooling) t where "b_open B = Some t" "nowMs < t"
    | (lost) t where "b_open B = Some t" "\<not> nowMs < t" "b_probe B"
    | (won) t where "b_open B = Some t" "\<not> nowMs < t" "\<not> b_probe B"
    by (cases "b_open B") auto
  then show ?thesis
  proof cases
    case closed
    have "runs now (acquire now nowMs k) V GateClosed V" unfolding acquire_def acquire_script_def
      by (rule runs_bind [OF get]) (simp add: op closed runs_return)
    with closed assms show ?thesis by (auto simp: gate_of_def claim_def)
  next
    case cooling
    have "runs now (acquire now nowMs k) V GateOpen V" unfolding acquire_def acquire_script_def
      by (rule runs_bind [OF get]) (simp add: op cooling nan_gt_def runs_return)
    with cooling assms show ?thesis by (auto simp: gate_of_def claim_def)
  next
    case lost
    have "runs now (acquire now nowMs k) V GateOpen V" unfolding acquire_def acquire_script_def
      by (rule runs_bind [OF get])
        (use lost p runs_return in \<open>auto simp: op nan_gt_def intro!: runs_bind [OF runs_set_nx_lost]\<close>)
    with lost assms show ?thesis by (auto simp: gate_of_def claim_def)
  next
    case won
    let ?e = "\<lparr>val_of = VStr ''1'', expires_at = Some (now + PROBE_TTL_SECONDS * 1000)\<rparr>"
    have "runs now (acquire now nowMs k) V GateProbe (V(probeKey k \<mapsto> ?e))"
      unfolding acquire_def acquire_script_def
      by (rule runs_bind [OF get])
        (use won p runs_return in \<open>auto simp: op nan_gt_def intro!: runs_bind [OF runs_set_nx_won [OF _ pos]]\<close>)
    moreover have "breaker_at (V(probeKey k \<mapsto> ?e)) k (claim nowMs B)"
      using assms won by (simp add: breaker_at_def claim_def gate_of_def)
    ultimately show ?thesis using won by (intro exI [of _ "V(probeKey k \<mapsto> ?e)"]) (auto simp: gate_of_def)
  qed
qed

subsection \<open>Reports\<close>

lemma runs_onSuccess:
  "\<exists>V'. runs now (onSuccess now k) V () V' \<and> breaker_at V' k healthy \<and> V' (authKey k) = V (authKey k)"
proof -
  let ?ks = "[strikesKey k, cooldownKey k, openKey k, probeKey k]"
  have "runs now (onSuccess now k) V () (\<lambda>k'. if k' \<in> set ?ks then None else V k')"
    unfolding onSuccess_def by (rule runs_then [OF runs_del runs_return]) simp
  moreover have "breaker_at (\<lambda>k'. if k' \<in> set ?ks then None else V k') k healthy"
    by (simp add: breaker_at_def healthy_def v_counts_def counted_def v_text_def v_str_def)
  moreover have "authKey k \<notin> set ?ks" by simp
  ultimately show ?thesis by (smt (verit))
qed

lemma counted_counts: "v_counts V k n \<Longrightarrow> counted (v_str V k) = Some (of_int n)"
  by (simp add: v_counts_def)

lemma runs_trip:
  assumes "v_counts V cooldownK c" and "0 < openTtl" and "cooldownK \<noteq> openK"
  shows "runs now (trip now strikesK cooldownK openK base cap nowMs openTtl) V
    (Some (of_int (nextCooldown c base cap)))
    (V(cooldownK \<mapsto> written (nextCooldown c base cap) (Some (now + openTtl * 1000)),
       openK \<mapsto> written (nowMs + nextCooldown c base cap * 1000) (Some (now + openTtl * 1000)),
       strikesK := None))"
proof -
  let ?n = "nextCooldown c base cap"
  have cd: "(if nan_gt (Some (if (of_int c :: rat) \<le> 0 then of_int base else of_int c * 2)) (of_int cap)
      then Some (of_int cap) else Some (if (of_int c :: rat) \<le> 0 then of_int base else of_int c * 2)) = Some (of_int ?n)"
  proof (cases "c \<le> 0")
    case True
    then show ?thesis by (simp add: nan_gt_def nextCooldown_def min_def)
  next
    case False
    have "(of_int cap :: rat) < of_int c * 2 \<longleftrightarrow> cap < c * 2"
      by (metis of_int_less_iff of_int_mult of_int_numeral)
    with False show ?thesis by (simp add: nan_gt_def nextCooldown_def min_def)
  qed
  have t: "number_text (Some (of_int ?n)) = int_string ?n"
    "number_text (Some (of_int nowMs + of_int ?n * 1000)) = int_string (nowMs + ?n * 1000)"
    by (simp add: number_text_def, simp add: number_text_def)
       (metis js_String_int of_int_add of_int_mult of_int_numeral)
  show ?thesis unfolding trip_def
    apply (rule runs_bind [OF runs_get])
     apply (rule v_counts_text [OF assms(1)])
    apply (simp only: counted_counts [OF assms(1)] option.case Let_def cd t option.map)
    apply (rule runs_then [OF runs_set_ex [OF assms(2)]])
    apply (rule runs_then [OF runs_set_ex [OF assms(2)]])
    apply (simp only: written_def [symmetric])
    apply (rule runs_then [OF runs_del1 runs_return])
    done
qed

lemma runs_onServerFailure:
  assumes at: "breaker_at V k B" and inv: "0 \<le> b_strikes B"
  shows "\<exists>V'. runs now (onServerFailure now nowMs k isProbe) V
      \<lparr>opened = trips isProbe B, cooldownSeconds = Some (if trips isProbe B then of_int (b_cooldown (failed nowMs isProbe B)) else 0)\<rparr> V' \<and>
    breaker_at V' k (failed nowMs isProbe B) \<and> V' (authKey k) = V (authKey k) \<and>
    (trips isProbe B \<longrightarrow> v_expiry V' (cooldownKey k) = Some (now + OPEN_KEY_TTL_SECONDS * 1000))"
proof -
  let ?V1 = "V(probeKey k := None)"
  let ?n = "b_strikes B + 1"
  have s: "v_counts ?V1 (strikesKey k) (b_strikes B)" and c: "v_counts ?V1 (cooldownKey k) (b_cooldown B)"
    using at by (simp_all add: breaker_at_def)
  have ttl: "0 < OPEN_KEY_TTL_SECONDS" "0 < STRIKE_WINDOW_SECONDS" by (simp_all add: breaker_consts)
  let ?cd = "nextCooldown (b_cooldown B) BASE_COOLDOWN_SECONDS MAX_COOLDOWN_SECONDS"
  have cd: "0 < ?cd" using nextCooldown_bounds by (simp add: breaker_consts)
  let ?x = "if ?n = 1 then Some (now + STRIKE_WINDOW_SECONDS * 1000) else v_expiry ?V1 (strikesKey k)"
  let ?V2 = "?V1(strikesKey k \<mapsto> written ?n ?x)"
  have count: "runs now (bind_m (kv_incr now (strikesKey k)) (\<lambda>strikes.
      then_m (if strikes = 1 then kv_expire now (strikesKey k) STRIKE_WINDOW_SECONDS else return_m False)
        (f strikes))) ?V1 y V'" if f: "runs now (f (of_int ?n)) ?V2 y V'" for f y V'
  proof (rule runs_bind [OF runs_incr [OF s]])
    let ?W = "?V1(strikesKey k \<mapsto> written ?n (v_expiry ?V1 (strikesKey k)))"
    have one: "(of_int ?n :: rat) = 1 \<longleftrightarrow> ?n = 1" by (metis of_int_1 of_int_eq_iff)
    show "runs now (then_m (if (of_int ?n :: rat) = 1 then kv_expire now (strikesKey k) STRIKE_WINDOW_SECONDS
        else return_m False) (f (of_int ?n))) ?W y V'"
    proof (cases "?n = 1")
      case True
      have "runs now (kv_expire now (strikesKey k) STRIKE_WINDOW_SECONDS) ?W True ?V2"
        using runs_expire [of ?W "strikesKey k" "written ?n (v_expiry ?V1 (strikesKey k))" STRIKE_WINDOW_SECONDS now] ttl True
        by simp
      from runs_then [OF this f] True one show ?thesis by simp
    next
      case False
      then have "?V2 = ?W" by simp
      with runs_then [OF runs_return f] False one show ?thesis by simp
    qed
  qed
  let ?T = "\<lambda>W. W(cooldownKey k \<mapsto> written ?cd (Some (now + OPEN_KEY_TTL_SECONDS * 1000)),
       openKey k \<mapsto> written (nowMs + ?cd * 1000) (Some (now + OPEN_KEY_TTL_SECONDS * 1000)), strikesKey k := None)"
  have trip: "runs now (trip now (strikesKey k) (cooldownKey k) (openKey k) BASE_COOLDOWN_SECONDS
      MAX_COOLDOWN_SECONDS nowMs OPEN_KEY_TTL_SECONDS) W (Some (of_int ?cd)) (?T W)"
    if "v_counts W (cooldownKey k) (b_cooldown B)" for W
    using runs_trip [OF that ttl(1)] by simp
  have at': "breaker_at (?T W) k (tripped nowMs B)" if "W (probeKey k) = None" for W
    using that by (simp add: breaker_at_def tripped_def Let_def)
  have report: "runs now (onServerFailure now nowMs k isProbe) V \<lparr>opened = nan_gt cd 0, cooldownSeconds = cd\<rparr> V'"
    if "runs now (server_failure_script now (strikesKey k) (cooldownKey k) (openKey k) (probeKey k)
        (if isProbe then 1 else 0) STRIKE_THRESHOLD STRIKE_WINDOW_SECONDS BASE_COOLDOWN_SECONDS
        MAX_COOLDOWN_SECONDS nowMs OPEN_KEY_TTL_SECONDS) V cd V'" for cd V'
    unfolding onServerFailure_def by (rule runs_bind [OF that runs_return])
  consider (probe) isProbe | (threshold) "\<not> isProbe" "STRIKE_THRESHOLD \<le> ?n" | (strike) "\<not> isProbe" "\<not> STRIKE_THRESHOLD \<le> ?n"
    by auto
  then show ?thesis
  proof cases
    case probe
    have "runs now (server_failure_script now (strikesKey k) (cooldownKey k) (openKey k) (probeKey k) 1
        STRIKE_THRESHOLD STRIKE_WINDOW_SECONDS BASE_COOLDOWN_SECONDS MAX_COOLDOWN_SECONDS nowMs OPEN_KEY_TTL_SECONDS)
        V (Some (of_int ?cd)) (?T ?V1)"
      unfolding server_failure_script_def by (rule runs_then [OF runs_del1]) (use trip [OF c] in simp)
    with report [of "Some (of_int ?cd)"] probe cd have "runs now (onServerFailure now nowMs k isProbe) V
        \<lparr>opened = True, cooldownSeconds = Some (of_int ?cd)\<rparr> (?T ?V1)" by (simp add: nan_gt_def)
    with probe at' [of ?V1] show ?thesis
      by (intro exI [of _ "?T ?V1"]) (simp add: trips_def failed_def tripped_def Let_def)
  next
    case threshold
    have th: "(of_int STRIKE_THRESHOLD :: rat) \<le> of_int ?n" using threshold by (simp only: of_int_le_iff)
    have c2: "v_counts ?V2 (cooldownKey k) (b_cooldown B)" using c by simp
    have "runs now (server_failure_script now (strikesKey k) (cooldownKey k) (openKey k) (probeKey k) 0
        STRIKE_THRESHOLD STRIKE_WINDOW_SECONDS BASE_COOLDOWN_SECONDS MAX_COOLDOWN_SECONDS nowMs OPEN_KEY_TTL_SECONDS)
        V (Some (of_int ?cd)) (?T ?V2)"
      unfolding server_failure_script_def 
      by (rule runs_then [OF runs_del1], simp only: zero_neq_one if_False, rule count)
        (simp only: th if_True trip [OF c2])
    with report [of "Some (of_int ?cd)"] threshold cd have "runs now (onServerFailure now nowMs k isProbe) V
        \<lparr>opened = True, cooldownSeconds = Some (of_int ?cd)\<rparr> (?T ?V2)" by (simp add: nan_gt_def)
    with threshold at' [of ?V2] show ?thesis
      by (intro exI [of _ "?T ?V2"]) (simp add: trips_def failed_def tripped_def Let_def)
  next
    case strike
    have th: "\<not> (of_int STRIKE_THRESHOLD :: rat) \<le> of_int ?n" using strike(2) unfolding of_int_le_iff .
    have "runs now (server_failure_script now (strikesKey k) (cooldownKey k) (openKey k) (probeKey k) 0
        STRIKE_THRESHOLD STRIKE_WINDOW_SECONDS BASE_COOLDOWN_SECONDS MAX_COOLDOWN_SECONDS nowMs OPEN_KEY_TTL_SECONDS)
        V (Some 0) ?V2"
      unfolding server_failure_script_def 
      by (rule runs_then [OF runs_del1], simp only: zero_neq_one if_False, rule count)
        (simp only: th if_False runs_return)
    with report [of "Some 0"] strike have "runs now (onServerFailure now nowMs k isProbe) V
        \<lparr>opened = False, cooldownSeconds = Some 0\<rparr> ?V2"
      by (auto simp: nan_gt_def)
    moreover have "breaker_at ?V2 k (failed nowMs isProbe B)"
      using at strike by (simp add: breaker_at_def failed_def trips_def)
    ultimately show ?thesis using strike by (auto simp: trips_def)
  qed
qed

subsection \<open>Rate limits and refused credentials\<close>

lemma onRateLimit_run:
  assumes at: "breaker_at (view now s) k B"
  shows "breaker_at (view now (snd (onRateLimit now nowMs k secs s))) k (limited (nowMs + secs * 1000) B) \<and>
    (\<forall>k'. k' \<noteq> openKey k \<longrightarrow> k' \<noteq> probeKey k \<longrightarrow> view now (snd (onRateLimit now nowMs k secs s)) k' = view now s k')"
proof -
  let ?e = "written (nowMs + secs * 1000) (Some (now + OPEN_KEY_TTL_SECONDS * 1000))"
  have ttl: "0 < OPEN_KEY_TTL_SECONDS" by (simp add: breaker_consts)
  from runs_set_ex [OF ttl, of now "openKey k" "int_string (nowMs + secs * 1000)" "view now s"] obtain s1 where
    r1: "kv_set now (openKey k) (int_string (nowMs + secs * 1000)) [OptEX OPEN_KEY_TTL_SECONDS] s = (Inr True, s1)"
    and v1: "view now s1 = (view now s)(openKey k \<mapsto> ?e)"
    by (auto dest!: runsE simp: written_def)
  from runs_del1 [of now "probeKey k" "view now s1"] obtain n s2 where
    r2: "kv_del now [probeKey k] s1 = (Inr n, s2)" and v2: "view now s2 = (view now s1)(probeKey k := None)"
    by (auto dest!: runsE)
  have "snd (onRateLimit now nowMs k secs s) = s2"
    using r1 r2 by (simp add: onRateLimit_def kv_command_def bind_run return_run del: kv_del.simps)
  then show ?thesis using at by (simp add: v1 v2 breaker_at_def limited_def)
qed

lemma runs_onAuthFailure:
  assumes at: "breaker_at V k B" and n: "v_counts V (authKey k) n"
  shows "\<exists>V'. runs now (onAuthFailure now k) V \<lparr>banned = AUTH_BAN_THRESHOLD \<le> n + 1, refusals = of_int (n + 1)\<rparr> V' \<and>
    breaker_at V' k (B\<lparr>b_probe := False\<rparr>) \<and> v_counts V' (authKey k) (n + 1) \<and>
    v_expiry V' (authKey k) = (if n = 0 then Some (now + AUTH_WINDOW_SECONDS * 1000) else v_expiry V (authKey k))"
proof -
  let ?x = "if n = 0 then Some (now + AUTH_WINDOW_SECONDS * 1000) else v_expiry V (authKey k)"
  let ?V1 = "V(authKey k \<mapsto> written (n + 1) (v_expiry V (authKey k)))"
  let ?V2 = "V(authKey k \<mapsto> written (n + 1) ?x)"
  have one: "(of_int (n + 1) :: rat) = 1 \<longleftrightarrow> n = 0" by (metis add_cancel_left_left of_int_1 of_int_eq_iff)
  have th: "(of_int AUTH_BAN_THRESHOLD :: rat) \<le> of_int (n + 1) \<longleftrightarrow> AUTH_BAN_THRESHOLD \<le> n + 1"
    by (simp only: of_int_le_iff)
  have "\<exists>b. runs now (if n = 0 then kv_expire now (authKey k) AUTH_WINDOW_SECONDS else return_m False) ?V1 b ?V2"
  proof (cases "n = 0")
    case True
    then show ?thesis
      using runs_expire [of ?V1 "authKey k" "written (n + 1) (v_expiry V (authKey k))" AUTH_WINDOW_SECONDS now]
      by (auto simp: breaker_consts)
  next
    case False
    then show ?thesis using runs_return [of now False ?V1] by auto
  qed
  then obtain b where e: "runs now (if n = 0 then kv_expire now (authKey k) AUTH_WINDOW_SECONDS else return_m False) ?V1 b ?V2" ..
  have "runs now (onAuthFailure now k) V \<lparr>banned = AUTH_BAN_THRESHOLD \<le> n + 1, refusals = of_int (n + 1)\<rparr>
      (?V2(probeKey k := None))"
    unfolding onAuthFailure_def
    by (rule runs_bind [OF runs_incr [OF n]], unfold one th, rule runs_then [OF e], rule runs_then [OF runs_del1 runs_return])
  moreover have "breaker_at (?V2(probeKey k := None)) k (B\<lparr>b_probe := False\<rparr>)"
    using at by (simp add: breaker_at_def)
  ultimately show ?thesis by (intro exI [of _ "?V2(probeKey k := None)"]) simp
qed

subsection \<open>Histories\<close>

datatype breaker_event = EvAcquire | EvSuccess | EvFailure bool | EvLimited int | EvUnauthorised

definition breaker_event :: "string \<Rightarrow> int \<Rightarrow> breaker_event \<Rightarrow> store \<Rightarrow> store" where
  "breaker_event k t e s = (case e of
       EvAcquire \<Rightarrow> snd (acquire t t k s)
     | EvSuccess \<Rightarrow> snd (onSuccess t k s)
     | EvFailure isProbe \<Rightarrow> snd (onServerFailure t t k isProbe s)
     | EvLimited secs \<Rightarrow> snd (onRateLimit t t k secs s)
     | EvUnauthorised \<Rightarrow> snd (onAuthFailure t k s))"

fun breaker_history :: "string \<Rightarrow> (int \<times> breaker_event) list \<Rightarrow> store \<Rightarrow> store" where
  "breaker_history k [] s = s"
| "breaker_history k ((t, e) # es) s = breaker_history k es (breaker_event k t e s)"

lemma view_lapse: "t0 \<le> t \<Longrightarrow> view t s k = view t0 s k \<or> view t s k = None"
  by (auto simp: view_later split: option.splits)

lemma breaker_at_later:
  assumes at: "breaker_at (view t0 s) k B" and le: "t0 \<le> t"
  shows "\<exists>B'. breaker_at (view t s) k B' \<and> lapses B B'"
proof -
  have c: "\<exists>m. v_counts (view t s) q m \<and> (m = n \<or> m = 0)" if "v_counts (view t0 s) q n" for q n
  proof (cases "view t s q = None")
    case True
    then have "v_counts (view t s) q 0" by (simp add: v_counts_def counted_def v_text_def v_str_def)
    then show ?thesis by blast
  next
    case False
    with view_lapse [OF le, of s q] have "view t s q = view t0 s q" by blast
    with that have "v_counts (view t s) q n" by (simp add: v_counts_def v_text_def v_str_def)
    then show ?thesis by blast
  qed
  from at obtain a b where a: "v_counts (view t s) (strikesKey k) a" "a = b_strikes B \<or> a = 0"
    and b: "v_counts (view t s) (cooldownKey k) b" "b = b_cooldown B \<or> b = 0"
    using c unfolding breaker_at_def by meson
  let ?o = "if view t s (openKey k) = None then None else b_open B"
  let ?p = "view t s (probeKey k) \<noteq> None"
  have o: "v_text (view t s) (openKey k) \<and> v_str (view t s) (openKey k) = map_option int_string ?o"
    using at view_lapse [OF le, of s "openKey k"] by (auto simp: breaker_at_def v_text_def v_str_def)
  have p: "?p = b_probe B \<or> ?p = False"
    using at view_lapse [OF le, of s "probeKey k"] by (auto simp: breaker_at_def)
  let ?B = "\<lparr>b_strikes = a, b_cooldown = b, b_open = ?o, b_probe = ?p\<rparr>"
  have "lapses B ?B" using a b p by (intro lapse) auto
  moreover have "breaker_at (view t s) k ?B" using a b o by (simp add: breaker_at_def)
  ultimately show ?thesis by blast
qed

lemma breaker_event_step:
  assumes at: "breaker_at (view t s) k B" and n: "v_counts (view t s) (authKey k) n" and st: "0 \<le> b_strikes B"
  shows "\<exists>B' m. breaker_at (view t (breaker_event k t e s)) k B' \<and> breaker_step B B' \<and>
    v_counts (view t (breaker_event k t e s)) (authKey k) m"
proof (cases e)
  case EvAcquire
  from runs_acquire [OF at, of t t] obtain V' where
    r: "runs t (acquire t t k) (view t s) (gate_of t B) V'" and a: "breaker_at V' k (claim t B)"
    and f: "\<forall>k'. k' \<noteq> probeKey k \<longrightarrow> V' k' = view t s k'" by blast
  from runsE [OF r] EvAcquire have "view t (breaker_event k t e s) = V'" by (auto simp: breaker_event_def)
  with a f n show ?thesis by (auto simp: v_counts_def v_text_def v_str_def intro: breaker_step.Acquire)
next
  case EvSuccess
  from runs_onSuccess [of t k "view t s"] obtain V' where
    r: "runs t (onSuccess t k) (view t s) () V'" and a: "breaker_at V' k healthy"
    and f: "V' (authKey k) = view t s (authKey k)" by auto
  from runsE [OF r] EvSuccess have "view t (breaker_event k t e s) = V'" by (auto simp: breaker_event_def)
  with a f n show ?thesis by (auto simp: v_counts_def v_text_def v_str_def intro: breaker_step.Success)
next
  case (EvFailure isProbe)
  from runs_onServerFailure [OF at st, of t t isProbe] obtain V' y where
    r: "runs t (onServerFailure t t k isProbe) (view t s) y V'" and a: "breaker_at V' k (failed t isProbe B)"
    and f: "V' (authKey k) = view t s (authKey k)" by auto
  from runsE [OF r] EvFailure have "view t (breaker_event k t e s) = V'" by (auto simp: breaker_event_def)
  with a f n show ?thesis by (auto simp: v_counts_def v_text_def v_str_def intro: breaker_step.Failure)
next
  case (EvLimited secs)
  from onRateLimit_run [OF at, of t secs] n EvLimited show ?thesis
    by (auto simp: breaker_event_def v_counts_def v_text_def v_str_def intro: breaker_step.Limited)
next
  case EvUnauthorised
  from runs_onAuthFailure [OF at n, of t] obtain V' y where
    r: "runs t (onAuthFailure t k) (view t s) y V'" and a: "breaker_at V' k (B\<lparr>b_probe := False\<rparr>)"
    and f: "v_counts V' (authKey k) (n + 1)" by blast
  from runsE [OF r] EvUnauthorised have "view t (breaker_event k t e s) = V'" by (auto simp: breaker_event_def)
  with a f show ?thesis by (auto intro: breaker_step.Unauthorised)
qed

lemma v_counts_later:
  "t0 \<le> t \<Longrightarrow> v_counts (view t0 s) q n \<Longrightarrow> \<exists>m. v_counts (view t s) q m"
  using view_lapse [of t0 t s q]
  by (cases "view t s q = None") (auto simp: v_counts_def v_text_def v_str_def counted_def)

lemma breaker_history_reach:
  assumes "sorted (t0 # map fst es)" and "breaker_at (view t0 s) k B" and "breaker_reach B"
    and "v_counts (view t0 s) (authKey k) n"
  shows "\<exists>B'. breaker_at (view (last (t0 # map fst es)) (breaker_history k es s)) k B' \<and> breaker_reach B'"
  using assms
proof (induction es arbitrary: t0 s B n)
  case Nil
  then show ?case by auto
next
  case (Cons x es)
  obtain t e where x: "x = (t, e)" by (cases x)
  with Cons.prems have le: "t0 \<le> t" and so: "sorted (t # map fst es)" by auto
  from breaker_at_later [OF Cons.prems(2) le] obtain B1 where
    B1: "breaker_at (view t s) k B1" and l: "lapses B B1" by blast
  have R1: "breaker_reach B1" using Cons.prems(3) l by (blast intro: breaker_reach.Step breaker_step.Lapse)
  from v_counts_later [OF le Cons.prems(4)] obtain m where m: "v_counts (view t s) (authKey k) m" by blast
  have st: "0 \<le> b_strikes B1" using breaker_reach_inv [OF R1] by (simp add: breaker_inv_def)
  from breaker_event_step [OF B1 m st, of e] obtain B2 m2 where
    "breaker_at (view t (breaker_event k t e s)) k B2" "breaker_step B1 B2"
    "v_counts (view t (breaker_event k t e s)) (authKey k) m2" by blast
  from Cons.IH [OF so this(1) breaker_reach.Step [OF R1 this(2)] this(3)] x show ?case by auto
qed

subsection \<open>One probe at a time\<close>

text \<open>Requests asking for the gate of one key, each at its own instant.\<close>

fun acquire_run :: "string \<Rightarrow> int list \<Rightarrow> store \<Rightarrow> (kv_error + breaker_gate) list" where
  "acquire_run k [] s = []"
| "acquire_run k (t # ts) s = (case acquire t t k s of (r, s') \<Rightarrow> r # acquire_run k ts s')"

definition probes :: "(kv_error + breaker_gate) list \<Rightarrow> nat" where
  "probes rs = length (filter (\<lambda>r. r = Inr GateProbe) rs)"

lemma v_expiry_later: "t0 \<le> t \<Longrightarrow> v_expiry (view t0 s) q = Some x \<Longrightarrow> t < x \<Longrightarrow>
    view t s q \<noteq> None \<and> v_expiry (view t s) q = Some x"
  by (cases "view t0 s q") (auto simp: v_expiry_def view_later expired_def split: option.splits)

lemma claimed_no_probe:
  assumes "breaker_at (view t0 s) k B" and "v_expiry (view t0 s) (probeKey k) = Some x"
    and "sorted (t0 # ts)" and "\<forall>t \<in> set ts. t < x"
  shows "probes (acquire_run k ts s) = 0"
  using assms
proof (induction ts arbitrary: t0 s B)
  case Nil
  then show ?case by (simp add: probes_def)
next
  case (Cons t ts)
  then have le: "t0 \<le> t" and lt: "t < x" and so: "sorted (t # ts)" by auto
  from breaker_at_later [OF Cons.prems(1) le] obtain B' where B': "breaker_at (view t s) k B'" by blast
  from v_expiry_later [OF le Cons.prems(2) lt]
  have live: "view t s (probeKey k) \<noteq> None" and x: "v_expiry (view t s) (probeKey k) = Some x" by blast+
  with B' have np: "gate_of t B' \<noteq> GateProbe" by (auto simp: breaker_at_def gate_of_def split: option.split)
  from runs_acquire [OF B', of t t] np have "runs t (acquire t t k) (view t s) (gate_of t B') (view t s)" by blast
  from runsE [OF this] obtain s' where run: "acquire t t k s = (Inr (gate_of t B'), s')" and v: "view t s' = view t s"
    by blast
  have "probes (acquire_run k ts s') = 0"
    by (rule Cons.IH [of t s' B']) (use B' x v so Cons.prems(4) in simp_all)
  with run np show ?case by (simp add: probes_def)
qed

lemma at_most_one_probe:
  assumes "breaker_at (view t0 s) k B" and "sorted (t0 # ts)" and "\<forall>t \<in> set ts. t < t0 + PROBE_TTL_SECONDS * 1000"
  shows "probes (acquire_run k ts s) \<le> 1"
  using assms
proof (induction ts arbitrary: t0 s B)
  case Nil
  then show ?case by (simp add: probes_def)
next
  case (Cons t ts)
  then have le: "t0 \<le> t" and so: "sorted (t # ts)" by auto
  with Cons.prems(3) have lt: "\<forall>u \<in> set ts. u < t + PROBE_TTL_SECONDS * 1000" by fastforce
  from breaker_at_later [OF Cons.prems(1) le] obtain B' where B': "breaker_at (view t s) k B'" by blast
  from runs_acquire [OF B', of t t] obtain V' where
    r: "runs t (acquire t t k) (view t s) (gate_of t B') V'" and at: "breaker_at V' k (claim t B')"
    and x: "gate_of t B' = GateProbe \<longrightarrow> v_expiry V' (probeKey k) = Some (t + PROBE_TTL_SECONDS * 1000)" by blast
  from runsE [OF r] obtain s' where run: "acquire t t k s = (Inr (gate_of t B'), s')" and v: "view t s' = V'" by blast
  show ?case
  proof (cases "gate_of t B' = GateProbe")
    case True
    have "probes (acquire_run k ts s') = 0"
      by (rule claimed_no_probe [of t s' k "claim t B'"]) (use at x v so lt True in simp_all)
    with run show ?thesis by (simp add: probes_def)
  next
    case False
    have "probes (acquire_run k ts s') \<le> 1" by (rule Cons.IH [of t s' "claim t B'"]) (use at v so lt in simp_all)
    with run False show ?thesis by (simp add: probes_def)
  qed
qed

subsection \<open>A key that keeps failing\<close>

text \<open>Failed probes of one key, and the cooldowns they report.\<close>

fun failure_run :: "string \<Rightarrow> int list \<Rightarrow> store \<Rightarrow> (kv_error + failure_report) list" where
  "failure_run k [] s = []"
| "failure_run k (t # ts) s = (case onServerFailure t t k True s of (r, s') \<Rightarrow> r # failure_run k ts s')"

fun close_together :: "int list \<Rightarrow> bool" where
  "close_together (t # u # ts) \<longleftrightarrow> t \<le> u \<and> u < t + OPEN_KEY_TTL_SECONDS * 1000 \<and> close_together (u # ts)"
| "close_together _ \<longleftrightarrow> True"

definition cooldowns :: "int \<Rightarrow> nat \<Rightarrow> int list" where
  "cooldowns c n = map (\<lambda>i. ((\<lambda>x. nextCooldown x BASE_COOLDOWN_SECONDS MAX_COOLDOWN_SECONDS) ^^ Suc i) c) [0..<n]"

lemma cooldowns_Suc: "cooldowns c (Suc n) = nextCooldown c BASE_COOLDOWN_SECONDS MAX_COOLDOWN_SECONDS #
    cooldowns (nextCooldown c BASE_COOLDOWN_SECONDS MAX_COOLDOWN_SECONDS) n"
proof -
  have "[0..<Suc n] = 0 # map Suc [0..<n]" by (simp add: upt_conv_Cons map_Suc_upt)
  then show ?thesis unfolding cooldowns_def by (simp add: comp_def funpow_Suc_right del: funpow.simps upt_Suc)
qed

definition opened_for :: "int \<Rightarrow> failure_report" where
  "opened_for c = \<lparr>opened = True, cooldownSeconds = Some (of_int c)\<rparr>"

lemma failures_escalate:
  assumes "breaker_at (view t s) k B" and "0 \<le> b_strikes B" and "close_together (t # ts)"
  shows "failure_run k (t # ts) s = map (\<lambda>c. Inr (opened_for c)) (cooldowns (b_cooldown B) (Suc (length ts)))"
  using assms
proof (induction ts arbitrary: t s B)
  case (Nil t s B)
  from runs_onServerFailure [OF Nil(1, 2), of t t True] obtain V' where
    "runs t (onServerFailure t t k True) (view t s)
      \<lparr>opened = trips True B, cooldownSeconds = Some (if trips True B then of_int (b_cooldown (failed t True B)) else 0)\<rparr> V'"
    by blast
  from runsE [OF this] show ?case
    by (auto simp: trips_def failed_def tripped_def Let_def opened_for_def cooldowns_def)
next
  case (Cons u ts t s B)
  from runs_onServerFailure [OF Cons.prems(1, 2), of t t True] obtain V' where
    r: "runs t (onServerFailure t t k True) (view t s)
      \<lparr>opened = trips True B, cooldownSeconds = Some (if trips True B then of_int (b_cooldown (failed t True B)) else 0)\<rparr> V'"
    and at: "breaker_at V' k (failed t True B)"
    and x: "v_expiry V' (cooldownKey k) = Some (t + OPEN_KEY_TTL_SECONDS * 1000)" by (auto simp: trips_def)
  from runsE [OF r] obtain s' where run: "onServerFailure t t k True s = (Inr (opened_for (b_cooldown (failed t True B))), s')"
    and v: "view t s' = V'" by (auto simp: trips_def opened_for_def)
  from Cons.prems(3) have ct: "t \<le> u" "u < t + OPEN_KEY_TTL_SECONDS * 1000" "close_together (u # ts)" by simp_all
  have cd: "b_cooldown (failed t True B) = nextCooldown (b_cooldown B) BASE_COOLDOWN_SECONDS MAX_COOLDOWN_SECONDS"
    "b_strikes (failed t True B) = 0" by (simp_all add: failed_def trips_def tripped_def Let_def)
  from breaker_at_later [of t s' k "failed t True B" u] at v ct(1) obtain B' where
    B': "breaker_at (view u s') k B'" and l: "lapses (failed t True B) B'" by blast
  from view_lapse [OF ct(1), of s' "cooldownKey k"] v_expiry_later [OF ct(1), of s' "cooldownKey k"] x v ct(2)
  have "view u s' (cooldownKey k) = view t s' (cooldownKey k)" by blast
  then have "v_counts (view u s') (cooldownKey k) (b_cooldown (failed t True B))"
    using at v by (simp add: breaker_at_def v_counts_def v_str_def v_text_def)
  with B' have c': "b_cooldown B' = b_cooldown (failed t True B)" by (auto simp: breaker_at_def dest: v_counts_det)
  have s': "0 \<le> b_strikes B'" using l cd(2) by auto
  from Cons.IH [OF B' s' ct(3)] run c' cd(1) show ?case
    by (simp add: cooldowns_Suc [of _ "Suc (length ts)"])
qed

subsection \<open>Properties\<close>


lemma half_open_store: "breaker_at (view 20 [(openKey k, written 10 (Some 9999))]) k
    \<lparr>b_strikes = 0, b_cooldown = 0, b_open = Some 10, b_probe = False\<rparr>"
  by (simp add: breaker_at_def view_def expired_def v_counts_def v_text_def v_str_def counted_def written_def)


text \<open>
  C12. A key whose probes keep failing is opened for ten seconds, then twenty, forty and so on, never
  longer than ten minutes: the \<open>i\<close>-th failure reports \<open>min 600 (10 * 2 ^ i)\<close> seconds, the escalation
  surviving in the store between the failures.
\<close>

theorem breaker_escalates:
  assumes "close_together ts"
  shows "failure_run k ts [] = map (\<lambda>i. Inr (opened_for (min 600 (10 * 2 ^ i)))) [0..<length ts]"
proof (cases ts)
  case (Cons t us)
  have at: "breaker_at (view t []) k healthy" using breaker_at_empty by (simp add: view_def [abs_def])
  have "failure_run k ts [] = map (\<lambda>c. Inr (opened_for c)) (cooldowns 0 (length ts))"
    using failures_escalate [OF at] assms by (simp add: Cons healthy_def)
  also have "cooldowns 0 (length ts) = map (\<lambda>i. min 600 (10 * 2 ^ i)) [0..<length ts]"
    using escalation [of BASE_COOLDOWN_SECONDS MAX_COOLDOWN_SECONDS] by (simp add: cooldowns_def breaker_consts)
  finally show ?thesis by (simp add: comp_def)
qed simp

theorem breaker_escalates_witness:
  "failure_run ''k'' [0, 10000, 40000] [] = map (\<lambda>c. Inr (opened_for c)) [10, 20, 40]"
  using breaker_escalates [of "[0, 10000, 40000]" "''k''"] by (simp add: breaker_consts numeral_2_eq_2)

text \<open>
  C33. Every sequence of breaker operations on a key, in time order from an empty store, leaves its four
  entries readable as a breaker with fewer than three strikes and a cooldown of at most ten minutes.
\<close>

theorem breaker_history_bounded:
  assumes "sorted (t0 # map fst es)"
  shows "\<exists>B. breaker_at (view (last (t0 # map fst es)) (breaker_history k es [])) k B \<and>
    0 \<le> b_strikes B \<and> b_strikes B < 3 \<and> 0 \<le> b_cooldown B \<and> b_cooldown B \<le> 600"
proof -
  have at: "breaker_at (view t0 []) k healthy" using breaker_at_empty by (simp add: view_def [abs_def])
  have "v_counts (view t0 []) (authKey k) 0" by (simp add: view_def [abs_def])
  from breaker_history_reach [OF assms at breaker_reach.Start this] obtain B where
    "breaker_at (view (last (t0 # map fst es)) (breaker_history k es [])) k B" "breaker_reach B" by blast
  with breaker_reach_inv [of B] show ?thesis by (auto simp: breaker_inv_def breaker_consts)
qed

theorem breaker_history_bounded_witness:
  "\<exists>B. breaker_at (view 9 (breaker_history ''k'' [(1, EvFailure False), (5, EvAcquire), (9, EvFailure False)] [])) ''k'' B
     \<and> b_strikes B < 3"
  using breaker_history_bounded [of 0 "[(1, EvFailure False), (5, EvAcquire), (9, EvFailure False)]" "''k''"] by auto

text \<open>
  A refused credential is put up for a ban at the second refusal within five minutes of the first:
  the report counts the refusals, the window is the first refusal's, and the breaker's strikes, cooldown
  and opening are untouched.
\<close>

theorem auth_failure_bans_at_second:
  assumes "breaker_at (view now s) k B" and "v_counts (view now s) (authKey k) n"
  shows "\<exists>s'. onAuthFailure now k s = (Inr \<lparr>banned = (2 \<le> n + 1), refusals = of_int (n + 1)\<rparr>, s') \<and>
    breaker_at (view now s') k (B\<lparr>b_probe := False\<rparr>) \<and> v_counts (view now s') (authKey k) (n + 1) \<and>
    v_expiry (view now s') (authKey k) = (if n = 0 then Some (now + 300000) else v_expiry (view now s) (authKey k))"
proof -
  from runs_onAuthFailure [OF assms, of now] obtain V' where
    r: "runs now (onAuthFailure now k) (view now s) \<lparr>banned = AUTH_BAN_THRESHOLD \<le> n + 1, refusals = of_int (n + 1)\<rparr> V'"
    and V': "breaker_at V' k (B\<lparr>b_probe := False\<rparr>)" "v_counts V' (authKey k) (n + 1)"
      "v_expiry V' (authKey k) = (if n = 0 then Some (now + AUTH_WINDOW_SECONDS * 1000) else v_expiry (view now s) (authKey k))"
    by blast
  from runsE [OF r] V' show ?thesis by (auto simp: breaker_consts)
qed

theorem auth_failure_bans_at_second_witness:
  "\<exists>s'. onAuthFailure 5 ''k'' [] = (Inr \<lparr>banned = False, refusals = 1\<rparr>, s')"
  using auth_failure_bans_at_second [of 5 "[]" "''k''" healthy 0] breaker_at_empty
  by (simp add: view_def [abs_def]) blast

end
