(* ===== verification/Select_Key.thy ===== *)
theory Select_Key
  imports Breaker_Refine
begin

text \<open>
  \<open>src/lib/selectKey.ts\<close>: picking the first usable key of a pool and reserving on it in one script.
  The flat key and limit arrays and their offsets are kept; the shared arguments are the numbers
  their texts were written from. \<open>TokenReserve\<close> is \<open>src/lib/tokenizer.ts\<close>'s reservation plan as a
  record, the tokenizer's counts being its fields.
\<close>

record candidate =
  c_id :: string
  c_rpmLimit :: int
  c_tpmLimit :: int
  c_maxUsers :: rat

record selection =
  s_index :: nat
  s_gate :: breaker_gate

definition KEYS_PER_CANDIDATE :: nat where "KEYS_PER_CANDIDATE = 5"
definition ARGV_PER_CANDIDATE :: nat where "ARGV_PER_CANDIDATE = 3"

record shared_args =
  a_nowMs :: int
  a_probeTtl :: int
  a_window :: int
  a_reserve :: int
  a_userId :: string
  a_userWindow :: int

text \<open>The writes of a key that passed every test; the probe claim is the only one that can fail.\<close>

definition reserve_writes ::
  "int \<Rightarrow> shared_args \<Rightarrow> breaker_gate \<Rightarrow> bool \<Rightarrow> string \<Rightarrow> string \<Rightarrow> rate_window \<Rightarrow> rate_window
    \<Rightarrow> breaker_gate option kv" where
  "reserve_writes now A gate userIsNew probeK usersK rpmW tpmW =
     bind_m (if gate = GateProbe then kv_set now probeK ''1'' [OptNX, OptEX (a_probeTtl A)] else return_m True)
       (\<lambda>claimed. if \<not> claimed then return_m None else
         then_m (if userIsNew then then_m (kv_sadd now usersK [a_userId A]) (kv_expire now usersK (a_userWindow A))
                 else return_m False)
         (then_m (kv_incr now (w_current rpmW))
         (then_m (kv_expire now (w_current rpmW) (windowTtl (a_window A)))
         (then_m (kv_incrby now (w_current tpmW) (of_int (a_reserve A)))
         (then_m (kv_expire now (w_current tpmW) (windowTtl (a_window A)))
         (return_m (Some gate)))))))"

text \<open>The Max Users test: \<open>None\<close> refuses, \<open>Some b\<close> passes and says whether the user is new.\<close>

definition user_test :: "int \<Rightarrow> string \<Rightarrow> string \<Rightarrow> int \<Rightarrow> bool option kv" where
  "user_test now usersK userId maxUsers =
     (if userId = [] then return_m (Some False)
      else bind_m (kv_sismember now usersK userId) (\<lambda>known.
        if known then return_m (Some False)
        else bind_m (kv_scard now usersK) (\<lambda>n.
          if maxUsers \<le> int n then return_m None else return_m (Some True))))"

text \<open>The RPM and TPM tests and, once both pass, the writes.\<close>

definition rate_test ::
  "int \<Rightarrow> shared_args \<Rightarrow> breaker_gate \<Rightarrow> bool \<Rightarrow> string \<Rightarrow> string \<Rightarrow> string \<Rightarrow> string \<Rightarrow> int \<Rightarrow> int
    \<Rightarrow> breaker_gate option kv" where
  "rate_test now A gate userIsNew probeK usersK rpmK tpmK rpmLimit tpmLimit =
     (let rpmW = rateWindow rpmK (a_nowMs A) (a_window A); tpmW = rateWindow tpmK (a_nowMs A) (a_window A) in
      bind_m (rateCount now rpmW) (\<lambda>r.
        if nan_gt (nan_add r (Some 1)) (of_int rpmLimit) then return_m None else
      bind_m (rateCount now tpmW) (\<lambda>t.
        if nan_gt (nan_add t (Some (of_int (a_reserve A)))) (of_int tpmLimit) then return_m None else
        reserve_writes now A gate userIsNew probeK usersK rpmW tpmW)))"

definition tryOne :: "int \<Rightarrow> shared_args \<Rightarrow> string list \<Rightarrow> int list \<Rightarrow> nat \<Rightarrow> breaker_gate option kv" where
  "tryOne now A keys limits i =
     (let base = (i - 1) * KEYS_PER_CANDIDATE;
          openK = keys ! (base + 0); probeK = keys ! (base + 1); usersK = keys ! (base + 2);
          rpmK = keys ! (base + 3); tpmK = keys ! (base + 4);
          abase = (i - 1) * ARGV_PER_CANDIDATE;
          rpmLimit = limits ! (abase + 0); tpmLimit = limits ! (abase + 1); maxUsers = limits ! (abase + 2) in
      bind_m (kv_get now openK) (\<lambda>reopen.
        if (case reopen of None \<Rightarrow> False | Some v \<Rightarrow> nan_gt (js_Number v) (of_int (a_nowMs A))) then return_m None
        else bind_m (user_test now usersK (a_userId A) maxUsers) (\<lambda>u. case u of
            None \<Rightarrow> return_m None
          | Some userIsNew \<Rightarrow> rate_test now A (if reopen = None then GateClosed else GateProbe) userIsNew
              probeK usersK rpmK tpmK rpmLimit tpmLimit)))"

text \<open>\<open>for (let i = 1; i <= n; i++)\<close>: the 1-based index and the gate of the first key that passes.\<close>

fun select_loop :: "int \<Rightarrow> shared_args \<Rightarrow> string list \<Rightarrow> int list \<Rightarrow> nat \<Rightarrow> nat \<Rightarrow> (nat \<times> breaker_gate) option kv" where
  "select_loop now A keys limits i 0 = return_m None"
| "select_loop now A keys limits i (Suc left) =
     bind_m (tryOne now A keys limits i) (\<lambda>g. case g of
         Some gate \<Rightarrow> return_m (Some (i, gate))
       | None \<Rightarrow> select_loop now A keys limits (Suc i) left)"

definition select_key_script :: "int \<Rightarrow> shared_args \<Rightarrow> string list \<Rightarrow> int list \<Rightarrow> (nat \<times> breaker_gate) option kv" where
  "select_key_script now A keys limits =
     select_loop now A keys limits 1 (length keys div KEYS_PER_CANDIDATE)"

definition candidate_keys :: "candidate \<Rightarrow> string list" where
  "candidate_keys c = [openKey (c_id c), probeKey (c_id c), usersKey (c_id c), rpmKey (c_id c), tpmKey (c_id c)]"

definition candidate_limits :: "candidate \<Rightarrow> int list" where
  "candidate_limits c = [c_rpmLimit c, c_tpmLimit c, max 1 \<lfloor>c_maxUsers c\<rfloor>]"

definition reserveOn :: "int \<Rightarrow> int \<Rightarrow> candidate list \<Rightarrow> rat \<Rightarrow> string option \<Rightarrow> selection option kv" where
  "reserveOn now nowMs cs reserveTokens userId =
     bind_m (select_key_script now
         \<lparr>a_nowMs = nowMs, a_probeTtl = PROBE_TTL_SECONDS, a_window = RPM_TPM_WINDOW_SECONDS,
          a_reserve = max 1 \<lceil>reserveTokens\<rceil>, a_userId = option_or userId [], a_userWindow = MAXUSERS_WINDOW_SECONDS\<rparr>
         (concat (map candidate_keys cs)) (concat (map candidate_limits cs)))
       (\<lambda>r. return_m (case r of None \<Rightarrow> None
         | Some (i, gate) \<Rightarrow> Some \<lparr>s_index = i - 1, s_gate = (if gate = GateProbe then GateProbe else GateClosed)\<rparr>))"

text \<open>A reservation: \<open>makeExact\<close> counts once; later calls answer the count it found.\<close>

record token_reserve =
  t_tokens :: rat
  t_exact :: bool
  t_counted :: rat

definition makeExact :: "token_reserve \<Rightarrow> rat \<times> token_reserve" where
  "makeExact r = (if t_exact r then (t_tokens r, r)
     else (t_counted r, r\<lparr>t_tokens := t_counted r, t_exact := True\<rparr>))"

definition planReserve :: "tpm_estimate \<Rightarrow> rat \<Rightarrow> rat \<Rightarrow> rat option \<Rightarrow> rat \<Rightarrow> token_reserve" where
  "planReserve mode countedInput estimatedInput maxTokens defaultMaxTokens =
     (let output = (case maxTokens of Some n \<Rightarrow> if 0 < n then n else defaultMaxTokens | None \<Rightarrow> defaultMaxTokens) in
      if mode \<noteq> EstimateFast
      then \<lparr>t_tokens = countedInput + output, t_exact = True, t_counted = countedInput + output\<rparr>
      else \<lparr>t_tokens = estimatedInput + output, t_exact = False, t_counted = countedInput + output\<rparr>)"

datatype reservation = Fixed rat | Planned token_reserve

definition tokensFor :: "reservation \<Rightarrow> candidate list \<Rightarrow> rat \<times> reservation" where
  "tokensFor r cs = (case r of Fixed n \<Rightarrow> (n, r)
     | Planned p \<Rightarrow> if \<not> t_exact p \<and> (\<exists>c \<in> set cs. of_int (c_tpmLimit c) < t_tokens p)
         then map_prod id Planned (makeExact p) else (t_tokens p, r))"

definition selectAndReserve ::
  "int \<Rightarrow> int \<Rightarrow> candidate list \<Rightarrow> reservation \<Rightarrow> string option \<Rightarrow> (selection option \<times> reservation) kv" where
  "selectAndReserve now nowMs cs reserve userId =
     (if cs = [] then return_m (None, reserve)
      else let (n, reserve1) = tokensFor reserve cs in
        bind_m (reserveOn now nowMs cs n userId) (\<lambda>found. case reserve1 of
            Fixed _ \<Rightarrow> return_m (found, reserve1)
          | Planned p \<Rightarrow>
              if found \<noteq> None \<or> t_exact p then return_m (found, reserve1)
              else let (exact, p') = makeExact p in
                if t_tokens p \<le> exact then return_m (None, Planned p')
                else bind_m (reserveOn now nowMs cs (t_tokens p') userId)
                  (\<lambda>again. return_m (again, Planned p'))))"

end
