(* ===== verification/Select_Spec.thy ===== *)
theory Select_Spec
  imports Select_Key
begin

text \<open>
  What key selection promises: a pure test \<open>key_usable\<close> over what the store shows, the first usable
  candidate wins, only its keys are written, and a refused candidate leaves no mark. A refusal of a
  planned reservation is a refusal of its exact token count.
\<close>

lemma select_key_simps [simp, key_simps]:
  "usersKey a \<noteq> openKey b" "usersKey a \<noteq> probeKey b" "openKey a \<noteq> usersKey b" "probeKey a \<noteq> usersKey b"
  "slot (rpmKey a) i \<noteq> openKey b" "slot (rpmKey a) i \<noteq> probeKey b" "slot (rpmKey a) i \<noteq> usersKey b"
  "slot (tpmKey a) i \<noteq> openKey b" "slot (tpmKey a) i \<noteq> probeKey b" "slot (tpmKey a) i \<noteq> usersKey b"
  "openKey b \<noteq> slot (rpmKey a) i" "probeKey b \<noteq> slot (rpmKey a) i" "usersKey b \<noteq> slot (rpmKey a) i"
  "openKey b \<noteq> slot (tpmKey a) i" "probeKey b \<noteq> slot (tpmKey a) i" "usersKey b \<noteq> slot (tpmKey a) i"
  by (simp_all add: slot_def usersKey_def openKey_def probeKey_def rpmKey_def tpmKey_def)

subsection \<open>The pure test\<close>

definition vnum :: "shown \<Rightarrow> string \<Rightarrow> int" where
  "vnum V k = (case counted (v_str V k) of Some r \<Rightarrow> \<lfloor>r\<rfloor> | None \<Rightarrow> 0)"

lemma vnum_counts: "v_counts V k n \<Longrightarrow> vnum V k = n"
  by (simp add: vnum_def v_counts_def)

definition cooling :: "int \<Rightarrow> shown \<Rightarrow> string \<Rightarrow> bool" where
  "cooling nowMs V keyId = (case v_str V (openKey keyId) of
      None \<Rightarrow> False | Some v \<Rightarrow> nan_gt (js_Number v) (of_int nowMs))"

definition probing :: "shown \<Rightarrow> string \<Rightarrow> bool" where
  "probing V keyId \<longleftrightarrow> v_str V (openKey keyId) \<noteq> None"

definition user_fits :: "string \<Rightarrow> shown \<Rightarrow> candidate \<Rightarrow> bool" where
  "user_fits u V c \<longleftrightarrow> u = [] \<or> u \<in> set (v_mem V (usersKey (c_id c))) \<or>
     int (length (v_mem V (usersKey (c_id c)))) < max 1 \<lfloor>c_maxUsers c\<rfloor>"

definition user_new :: "string \<Rightarrow> shown \<Rightarrow> candidate \<Rightarrow> bool" where
  "user_new u V c \<longleftrightarrow> u \<noteq> [] \<and> u \<notin> set (v_mem V (usersKey (c_id c)))"

definition window_fits :: "shared_args \<Rightarrow> shown \<Rightarrow> string \<Rightarrow> int \<Rightarrow> int \<Rightarrow> bool" where
  "window_fits A V p n limit \<longleftrightarrow> has_room (a_window A) (a_nowMs A)
     (vnum V (slot p (win (a_window A) (a_nowMs A)))) (vnum V (slot p (win (a_window A) (a_nowMs A) - 1))) n limit"

definition key_usable :: "shared_args \<Rightarrow> shown \<Rightarrow> candidate \<Rightarrow> bool" where
  "key_usable A V c \<longleftrightarrow>
     \<not> cooling (a_nowMs A) V (c_id c) \<and> (probing V (c_id c) \<longrightarrow> V (probeKey (c_id c)) = None) \<and>
     user_fits (a_userId A) V c \<and>
     window_fits A V (rpmKey (c_id c)) 1 (c_rpmLimit c) \<and>
     window_fits A V (tpmKey (c_id c)) (a_reserve A) (c_tpmLimit c)"

text \<open>The keys of a candidate hold what the gateway writes there: text, a set, and counters.\<close>

definition readable :: "shared_args \<Rightarrow> shown \<Rightarrow> candidate \<Rightarrow> bool" where
  "readable A V c \<longleftrightarrow> v_text V (openKey (c_id c)) \<and> v_group V (usersKey (c_id c)) \<and>
     (\<forall>p \<in> {rpmKey (c_id c), tpmKey (c_id c)}. \<forall>i \<in> {win (a_window A) (a_nowMs A), win (a_window A) (a_nowMs A) - 1}.
        v_counts V (slot p i) (vnum V (slot p i)))"

definition args_ok :: "shared_args \<Rightarrow> bool" where
  "args_ok A \<longleftrightarrow> 0 < a_probeTtl A \<and> 0 < a_window A \<and> 0 < a_userWindow A"

subsection \<open>What a reservation writes\<close>

definition joined :: "int \<Rightarrow> shared_args \<Rightarrow> candidate \<Rightarrow> shown \<Rightarrow> shown" where
  "joined now A c V = (if user_new (a_userId A) V c
     then V(usersKey (c_id c) \<mapsto> \<lparr>val_of = VSet (v_mem V (usersKey (c_id c)) @ [a_userId A]),
            expires_at = Some (now + a_userWindow A * 1000)\<rparr>) else V)"

definition probed :: "int \<Rightarrow> shared_args \<Rightarrow> candidate \<Rightarrow> shown \<Rightarrow> shown" where
  "probed now A c V = (if probing V (c_id c)
     then V(probeKey (c_id c) \<mapsto> \<lparr>val_of = VStr ''1'', expires_at = Some (now + a_probeTtl A * 1000)\<rparr>) else V)"

definition charged :: "int \<Rightarrow> shared_args \<Rightarrow> string \<Rightarrow> int \<Rightarrow> shown \<Rightarrow> shown" where
  "charged now A p n V = (let k = slot p (win (a_window A) (a_nowMs A)) in
     V(k \<mapsto> bumped now (vnum V k + n) (windowTtl (a_window A))))"

definition reserved :: "int \<Rightarrow> shared_args \<Rightarrow> candidate \<Rightarrow> shown \<Rightarrow> shown" where
  "reserved now A c V = charged now A (tpmKey (c_id c)) (a_reserve A)
     (charged now A (rpmKey (c_id c)) 1 (joined now A c (probed now A c V)))"

lemma bumped_written: "bumped now n ttl = written n (Some (now + ttl * 1000))"
  by (simp add: bumped_def written_def)

lemma runs_then_assoc: "runs now (then_m (then_m a b) m) V y V' \<Longrightarrow> runs now (then_m a (then_m b m)) V y V'"
  by (simp add: then_m_def bind_assoc)

lemma runs_writes:
  assumes R: "readable A V c" and A: "args_ok A" and free: "probing V (c_id c) \<longrightarrow> V (probeKey (c_id c)) = None"
  defines "W \<equiv> win (a_window A) (a_nowMs A)"
  shows "runs now (reserve_writes now A (if probing V (c_id c) then GateProbe else GateClosed) (user_new (a_userId A) V c)
      (probeKey (c_id c)) (usersKey (c_id c))
      (rateWindow (rpmKey (c_id c)) (a_nowMs A) (a_window A)) (rateWindow (tpmKey (c_id c)) (a_nowMs A) (a_window A)))
    V (Some (if probing V (c_id c) then GateProbe else GateClosed)) (reserved now A c V)"
proof -
  let ?k = "c_id c" and ?V1 = "probed now A c V" and ?V2 = "joined now A c (probed now A c V)"
  let ?r = "slot (rpmKey ?k) W" and ?t = "slot (tpmKey ?k) W"
  let ?V3 = "charged now A (rpmKey ?k) 1 ?V2"
  have ttl: "0 < windowTtl (a_window A)" using A by (simp add: args_ok_def windowTtl_def)
  have 1: "runs now (if (if probing V ?k then GateProbe else GateClosed) = GateProbe
      then kv_set now (probeKey ?k) ''1'' [OptNX, OptEX (a_probeTtl A)] else return_m True) V True ?V1"
    using free A by (auto simp: probed_def args_ok_def intro: runs_return runs_set_nx_won)
  have new1: "user_new (a_userId A) ?V1 c = user_new (a_userId A) V c"
    by (simp add: user_new_def probed_def)
  have "\<exists>b. runs now (if user_new (a_userId A) V c then then_m (kv_sadd now (usersKey ?k) [a_userId A])
      (kv_expire now (usersKey ?k) (a_userWindow A)) else return_m False) ?V1 b ?V2"
  proof (cases "user_new (a_userId A) V c")
    case True
    let ?e = "\<lparr>val_of = VSet (v_mem ?V1 (usersKey ?k) @ [a_userId A]), expires_at = v_expiry ?V1 (usersKey ?k)\<rparr>"
    have "v_group ?V1 (usersKey ?k)" using R by (simp add: readable_def probed_def)
    moreover have "a_userId A \<notin> set (v_mem ?V1 (usersKey ?k))" using True new1 by (simp add: user_new_def)
    ultimately have "runs now (kv_sadd now (usersKey ?k) [a_userId A]) ?V1 1 (?V1(usersKey ?k \<mapsto> ?e))"
      by (rule runs_sadd)
    from runs_then [OF this runs_expire [of "?V1(usersKey ?k \<mapsto> ?e)" "usersKey ?k" ?e "a_userWindow A" now]]
    show ?thesis using True A new1 by (auto simp: joined_def args_ok_def)
  next
    case False
    then show ?thesis using new1 runs_return [of now False ?V1] by (auto simp: joined_def)
  qed
  then obtain b where 2: "runs now (if user_new (a_userId A) V c then then_m (kv_sadd now (usersKey ?k) [a_userId A])
      (kv_expire now (usersKey ?k) (a_userWindow A)) else return_m False) ?V1 b ?V2" ..
  have v2: "?V2 (slot p i) = V (slot p i)" if "p = rpmKey ?k \<or> p = tpmKey ?k" for p i
    using that by (auto simp: joined_def probed_def)
  have cn: "v_counts ?V2 (slot p W) (vnum ?V2 (slot p W))" if "p = rpmKey ?k \<or> p = tpmKey ?k" for p
    using R that v2 [OF that, of W] by (auto simp: readable_def W_def v_counts_def v_text_def v_str_def vnum_def)
  have 3: "runs now (then_m (kv_incr now ?r) (kv_expire now ?r (windowTtl (a_window A)))) ?V2 True ?V3"
    using runs_bump [OF cn [of "rpmKey ?k"] ttl, of now 1]
    by (simp add: charged_def Let_def W_def bumped_written kv_incr_def)
  have "v_counts ?V3 ?t (vnum ?V3 ?t)" "vnum ?V3 ?t = vnum ?V2 ?t"
    using cn [of "tpmKey ?k"] by (simp_all add: charged_def Let_def vnum_def)
  then have 4: "runs now (then_m (kv_incrby now ?t (of_int (a_reserve A))) (kv_expire now ?t (windowTtl (a_window A))))
      ?V3 True (reserved now A c V)"
    using runs_bump [of ?V3 ?t "vnum ?V3 ?t" "windowTtl (a_window A)" now "a_reserve A"] ttl
    by (simp add: reserved_def charged_def [of _ _ "tpmKey ?k"] Let_def W_def bumped_written)
  show ?thesis unfolding reserve_writes_def window_slots W_def [symmetric]
    by (rule runs_bind [OF 1], simp only: not_True_eq_False if_False,
        rule runs_then [OF 2], rule runs_then_assoc, rule runs_then [OF 3],
        rule runs_then_assoc, rule runs_then [OF 4], rule runs_return)
qed

subsection \<open>One candidate\<close>

lemma runs_user_test:
  assumes "v_group V (usersKey (c_id c))"
  shows "runs now (user_test now (usersKey (c_id c)) u (max 1 \<lfloor>c_maxUsers c\<rfloor>)) V
    (if user_fits u V c then Some (user_new u V c) else None) V"
proof -
  let ?k = "usersKey (c_id c)"
  let ?cap = "max 1 \<lfloor>c_maxUsers c\<rfloor>"
  note m = runs_sismember [OF assms, of now u] and n = runs_scard [OF assms, of now]
  consider (anonymous) "u = []" | (known) "u \<noteq> []" "u \<in> set (v_mem V ?k)" | (new) "u \<noteq> []" "u \<notin> set (v_mem V ?k)"
    by blast
  then show ?thesis
  proof cases
    case anonymous
    then show ?thesis by (simp add: user_test_def user_fits_def user_new_def runs_return)
  next
    case known
    then have "runs now (user_test now ?k u ?cap) V (Some False) V"
      unfolding user_test_def by (simp, intro runs_bind [OF m]) (simp add: runs_return)
    then show ?thesis using known by (simp add: user_fits_def user_new_def)
  next
    case new
    have "runs now (if ?cap \<le> int (length (v_mem V ?k)) then return_m None else return_m (Some True)) V
        (if ?cap \<le> int (length (v_mem V ?k)) then None else Some True) V"
      by (rule runs_if) (rule runs_return)+
    note last = runs_bind [where f = "\<lambda>n. if ?cap \<le> int n then return_m None else return_m (Some True)", OF n this]
    have "runs now (user_test now ?k u ?cap) V
        (if ?cap \<le> int (length (v_mem V ?k)) then None else Some True) V"
      unfolding user_test_def if_not_P [OF new(1)]
      by (rule runs_bind [OF m]) (simp only: new(2) if_False last)
    moreover have "user_fits u V c \<longleftrightarrow> \<not> ?cap \<le> int (length (v_mem V ?k))"
      using new unfolding user_fits_def not_le by blast
    moreover have "user_new u V c" using new by (simp add: user_new_def)
    ultimately show ?thesis by (cases "?cap \<le> int (length (v_mem V ?k))") (simp_all only: not_True_eq_False not_False_eq_True if_True if_False)
  qed
qed

lemma window_reads:
  assumes "readable A V c" and "p = rpmKey (c_id c) \<or> p = tpmKey (c_id c)"
  shows "runs now (rateCount now (rateWindow p (a_nowMs A) (a_window A))) V
     (Some (of_int (vnum V (slot p (win (a_window A) (a_nowMs A)))) +
        of_int (vnum V (slot p (win (a_window A) (a_nowMs A) - 1))) * weight (a_window A) (a_nowMs A))) V"
  using runs_rateCount [of V "rateWindow p (a_nowMs A) (a_window A)"] assms
  by (auto simp: readable_def window_slots window_weight)

lemma window_test: "nan_gt (nan_add (Some (of_int (vnum V (slot p (win (a_window A) (a_nowMs A)))) +
        of_int (vnum V (slot p (win (a_window A) (a_nowMs A) - 1))) * weight (a_window A) (a_nowMs A))) (Some (of_int n)))
      (of_int limit) \<longleftrightarrow> \<not> window_fits A V p n limit"
  by (auto simp: nan_gt_def nan_add_def window_fits_def has_room_def)

definition at_index :: "candidate \<Rightarrow> string list \<Rightarrow> int list \<Rightarrow> nat \<Rightarrow> bool" where
  "at_index c keys limits i \<longleftrightarrow>
     (\<forall>j < 5. keys ! ((i - 1) * 5 + j) = candidate_keys c ! j) \<and>
     (\<forall>j < 3. limits ! ((i - 1) * 3 + j) = candidate_limits c ! j)"

lemma at_index_simps:
  assumes "at_index c keys limits i"
  shows "keys ! ((i - 1) * KEYS_PER_CANDIDATE + 0) = openKey (c_id c)"
    "keys ! ((i - 1) * KEYS_PER_CANDIDATE + 1) = probeKey (c_id c)"
    "keys ! ((i - 1) * KEYS_PER_CANDIDATE + 2) = usersKey (c_id c)"
    "keys ! ((i - 1) * KEYS_PER_CANDIDATE + 3) = rpmKey (c_id c)"
    "keys ! ((i - 1) * KEYS_PER_CANDIDATE + 4) = tpmKey (c_id c)"
    "limits ! ((i - 1) * ARGV_PER_CANDIDATE + 0) = c_rpmLimit c"
    "limits ! ((i - 1) * ARGV_PER_CANDIDATE + 1) = c_tpmLimit c"
    "limits ! ((i - 1) * ARGV_PER_CANDIDATE + 2) = max 1 \<lfloor>c_maxUsers c\<rfloor>"
proof -
  have k: "keys ! ((i - 1) * 5 + j) = candidate_keys c ! j" if "j < 5" for j
    using assms that by (simp add: at_index_def)
  have l: "limits ! ((i - 1) * 3 + j) = candidate_limits c ! j" if "j < 3" for j
    using assms that by (simp add: at_index_def)
  show "keys ! ((i - 1) * KEYS_PER_CANDIDATE + 0) = openKey (c_id c)"
    "keys ! ((i - 1) * KEYS_PER_CANDIDATE + 1) = probeKey (c_id c)"
    "keys ! ((i - 1) * KEYS_PER_CANDIDATE + 2) = usersKey (c_id c)"
    "keys ! ((i - 1) * KEYS_PER_CANDIDATE + 3) = rpmKey (c_id c)"
    "keys ! ((i - 1) * KEYS_PER_CANDIDATE + 4) = tpmKey (c_id c)"
    using k [of 0] k [of 1] k [of 2] k [of 3] k [of 4]
    by (simp_all add: KEYS_PER_CANDIDATE_def candidate_keys_def numeral_eq_Suc)
  show "limits ! ((i - 1) * ARGV_PER_CANDIDATE + 0) = c_rpmLimit c"
    "limits ! ((i - 1) * ARGV_PER_CANDIDATE + 1) = c_tpmLimit c"
    "limits ! ((i - 1) * ARGV_PER_CANDIDATE + 2) = max 1 \<lfloor>c_maxUsers c\<rfloor>"
    using l [of 0] l [of 1] l [of 2]
    by (simp_all add: ARGV_PER_CANDIDATE_def candidate_limits_def numeral_eq_Suc)
qed

definition gate_won :: "shown \<Rightarrow> candidate \<Rightarrow> breaker_gate" where
  "gate_won V c = (if probing V (c_id c) then GateProbe else GateClosed)"

lemma runs_rate_test:
  assumes R: "readable A V c" and A: "args_ok A"
  defines "rate \<equiv> window_fits A V (rpmKey (c_id c)) 1 (c_rpmLimit c) \<and>
      window_fits A V (tpmKey (c_id c)) (a_reserve A) (c_tpmLimit c) \<and>
      (probing V (c_id c) \<longrightarrow> V (probeKey (c_id c)) = None)"
  shows "runs now (rate_test now A (gate_won V c) (user_new (a_userId A) V c) (probeKey (c_id c)) (usersKey (c_id c))
      (rpmKey (c_id c)) (tpmKey (c_id c)) (c_rpmLimit c) (c_tpmLimit c)) V
    (if rate then Some (gate_won V c) else None) (if rate then reserved now A c V else V)"
proof -
  let ?k = "c_id c"
  note r = window_reads [OF R, of "rpmKey (c_id c)" now] and t = window_reads [OF R, of "tpmKey (c_id c)" now]
  note r1 = window_test [of V "rpmKey (c_id c)" A 1 "c_rpmLimit c", simplified of_int_1]
  note t1 = window_test [of V "tpmKey (c_id c)" A "a_reserve A" "c_tpmLimit c"]
  consider (rpm) "\<not> window_fits A V (rpmKey ?k) 1 (c_rpmLimit c)"
    | (tpm) "window_fits A V (rpmKey ?k) 1 (c_rpmLimit c)" "\<not> window_fits A V (tpmKey ?k) (a_reserve A) (c_tpmLimit c)"
    | (lost) "window_fits A V (rpmKey ?k) 1 (c_rpmLimit c)" "window_fits A V (tpmKey ?k) (a_reserve A) (c_tpmLimit c)"
        "probing V ?k" "V (probeKey ?k) \<noteq> None"
    | (pass) rate
    unfolding rate_def by metis
  then show ?thesis
  proof cases
    case rpm
    then have "\<not> rate" by (simp add: rate_def)
    with rpm show ?thesis unfolding rate_test_def Let_def
      by (intro runs_bind [OF r]) (simp_all add: r1 runs_return)
  next
    case tpm
    then have "\<not> rate" by (simp add: rate_def)
    with tpm show ?thesis unfolding rate_test_def Let_def
      by (intro runs_bind [OF r]) (simp_all add: r1, intro runs_bind [OF t], simp_all add: t1 runs_return)
  next
    case lost
    then have "\<not> rate" by (simp add: rate_def)
    have g: "gate_won V c = GateProbe" using lost(3) by (simp add: gate_won_def)
    have "runs now (reserve_writes now A (gate_won V c) (user_new (a_userId A) V c) (probeKey ?k) (usersKey ?k)
        (rateWindow (rpmKey ?k) (a_nowMs A) (a_window A)) (rateWindow (tpmKey ?k) (a_nowMs A) (a_window A))) V None V"
      unfolding reserve_writes_def
      by (simp only: g simp_thms if_True, rule runs_bind [OF runs_set_nx_lost [of V, OF lost(4)]],
          simp only: not_False_eq_True if_True, rule runs_return)
    with lost \<open>\<not> rate\<close> show ?thesis unfolding rate_test_def Let_def
      by (intro runs_bind [OF r]) (simp_all add: r1, intro runs_bind [OF t], simp_all add: t1)
  next
    case pass
    then have "probing V (c_id c) \<longrightarrow> V (probeKey (c_id c)) = None" by (simp add: rate_def)
    note w = runs_writes [OF R A this, of now, folded gate_won_def]
    from pass show ?thesis unfolding rate_test_def Let_def
      by (intro runs_bind [OF r]) (simp_all add: r1 rate_def, intro runs_bind [OF t], simp_all add: t1 w)
  qed
qed

lemma runs_tryOne:
  assumes at: "at_index c keys limits i" and R: "readable A V c" and A: "args_ok A"
  shows "runs now (tryOne now A keys limits i) V
    (if key_usable A V c then Some (gate_won V c) else None)
    (if key_usable A V c then reserved now A c V else V)"
proof -
  let ?k = "c_id c"
  note d = tryOne_def Let_def at_index_simps [OF at]
  have tx: "v_text V (openKey ?k)" and gr: "v_group V (usersKey ?k)" using R by (simp_all add: readable_def)
  note opn = runs_get [OF tx, of now] and users = runs_user_test [OF gr, of now "a_userId A"]
  have g: "(if v_str V (openKey ?k) = None then GateClosed else GateProbe) = gate_won V c"
    by (simp add: gate_won_def probing_def)
  consider (cool) "cooling (a_nowMs A) V ?k" | (full) "\<not> cooling (a_nowMs A) V ?k" "\<not> user_fits (a_userId A) V c"
    | (rate) "\<not> cooling (a_nowMs A) V ?k" "user_fits (a_userId A) V c" by blast
  then show ?thesis
  proof cases
    case cool
    then show ?thesis unfolding d
      by (intro runs_bind [OF opn]) (simp add: cooling_def [symmetric] key_usable_def runs_return)
  next
    case full
    then have u: "\<not> key_usable A V c" by (simp add: key_usable_def)
    from full show ?thesis unfolding d if_not_P [OF u]
      by (intro runs_bind [OF opn]) (simp only: cooling_def [symmetric] g if_False, intro runs_bind [OF users],
          simp only: if_False option.case runs_return)
  next
    case rate
    then have u: "key_usable A V c \<longleftrightarrow> window_fits A V (rpmKey ?k) 1 (c_rpmLimit c) \<and>
        window_fits A V (tpmKey ?k) (a_reserve A) (c_tpmLimit c) \<and> (probing V ?k \<longrightarrow> V (probeKey ?k) = None)"
      by (auto simp: key_usable_def)
    from rate show ?thesis unfolding d u
      by (intro runs_bind [OF opn]) (simp only: cooling_def [symmetric] g if_False, intro runs_bind [OF users],
          simp only: if_True option.case, rule runs_rate_test [OF R A])
  qed
qed

subsection \<open>The pool\<close>

definition pool_at :: "candidate list \<Rightarrow> string list \<Rightarrow> int list \<Rightarrow> nat \<Rightarrow> bool" where
  "pool_at cs keys limits i \<longleftrightarrow> (\<forall>n < length cs. at_index (cs ! n) keys limits (i + n))"

lemma pool_at_Cons: "pool_at (c # cs) keys limits i \<Longrightarrow> at_index c keys limits i \<and> pool_at cs keys limits (Suc i)"
  unfolding pool_at_def by (metis Suc_less_eq add_Suc_right add_Suc add_0_right length_Cons nth_Cons_0 nth_Cons_Suc zero_less_Suc)

fun first_usable :: "shared_args \<Rightarrow> shown \<Rightarrow> nat \<Rightarrow> candidate list \<Rightarrow> (nat \<times> candidate) option" where
  "first_usable A V i [] = None"
| "first_usable A V i (c # cs) = (if key_usable A V c then Some (i, c) else first_usable A V (Suc i) cs)"

lemma runs_select_loop:
  assumes "pool_at cs keys limits i" and "\<forall>c \<in> set cs. readable A V c" and "args_ok A"
  shows "runs now (select_loop now A keys limits i (length cs)) V
    (map_option (\<lambda>(j, c). (j, gate_won V c)) (first_usable A V i cs))
    (case first_usable A V i cs of None \<Rightarrow> V | Some (j, c) \<Rightarrow> reserved now A c V)"
  using assms
proof (induction cs arbitrary: i)
  case Nil
  show ?case by (simp add: runs_return)
next
  case (Cons c cs)
  from pool_at_Cons [OF Cons.prems(1)] have at: "at_index c keys limits i" and rest: "pool_at cs keys limits (Suc i)"
    by simp_all
  have R: "readable A V c" using Cons.prems(2) by simp
  note one = runs_tryOne [OF at R Cons.prems(3), of now]
  show ?case
  proof (cases "key_usable A V c")
    case True
    then show ?thesis using one by (auto intro!: runs_bind intro: runs_return)
  next
    case False
    with one have "runs now (tryOne now A keys limits i) V None V" by simp
    note skip = runs_bind [OF this]
    have "runs now (select_loop now A keys limits (Suc i) (length cs)) V
        (map_option (\<lambda>(j, c). (j, gate_won V c)) (first_usable A V (Suc i) cs))
        (case first_usable A V (Suc i) cs of None \<Rightarrow> V | Some (j, c) \<Rightarrow> reserved now A c V)"
      using Cons.IH [OF rest] Cons.prems(2,3) by simp
    then have "runs now (select_loop now A keys limits i (length (c # cs))) V
        (map_option (\<lambda>(j, c). (j, gate_won V c)) (first_usable A V (Suc i) cs))
        (case first_usable A V (Suc i) cs of None \<Rightarrow> V | Some (j, c) \<Rightarrow> reserved now A c V)"
      unfolding length_Cons select_loop.simps by (intro skip) (simp only: option.case)
    with False show ?thesis by simp
  qed
qed

lemma concat_uniform_nth:
  "(\<And>x. length (f x) = m) \<Longrightarrow> n < length xs \<Longrightarrow> j < m \<Longrightarrow> concat (map f xs) ! (n * m + j) = f (xs ! n) ! j"
proof (induction xs arbitrary: n)
  case (Cons x xs)
  then show ?case by (cases n) (simp_all add: nth_append)
qed simp

lemma length_concat_uniform: "(\<And>x. length (f x) = m) \<Longrightarrow> length (concat (map f xs)) = length xs * m"
  by (induction xs) simp_all

lemma pool_flat: "pool_at cs (concat (map candidate_keys cs)) (concat (map candidate_limits cs)) 1"
proof -
  have "length (candidate_keys c) = 5" "length (candidate_limits c) = 3" for c
    by (simp_all add: candidate_keys_def candidate_limits_def)
  then show ?thesis unfolding pool_at_def at_index_def by (simp add: concat_uniform_nth)
qed

definition shared :: "int \<Rightarrow> rat \<Rightarrow> string option \<Rightarrow> shared_args" where
  "shared nowMs tokens userId = \<lparr>a_nowMs = nowMs, a_probeTtl = PROBE_TTL_SECONDS, a_window = RPM_TPM_WINDOW_SECONDS,
     a_reserve = max 1 \<lceil>tokens\<rceil>, a_userId = option_or userId [], a_userWindow = MAXUSERS_WINDOW_SECONDS\<rparr>"

lemma shared_ok [simp]: "args_ok (shared nowMs n u)"
  by (simp add: args_ok_def shared_def PROBE_TTL_SECONDS_def RPM_TPM_WINDOW_SECONDS_def MAXUSERS_WINDOW_SECONDS_def)

lemma first_usable_index: "first_usable A V i cs = Some (j, c) \<Longrightarrow> i \<le> j \<and> j < i + length cs \<and> cs ! (j - i) = c \<and>
    key_usable A V c \<and> (\<forall>n < j - i. \<not> key_usable A V (cs ! n))"
proof (induction cs arbitrary: i)
  case (Cons d cs)
  show ?case
  proof (cases "key_usable A V d")
    case True
    with Cons.prems show ?thesis by simp
  next
    case False
    with Cons.prems have s: "first_usable A V (Suc i) cs = Some (j, c)" by simp
    from Cons.IH [OF this] have ih: "Suc i \<le> j" "j < Suc i + length cs" "cs ! (j - Suc i) = c" "key_usable A V c"
      "\<forall>n < j - Suc i. \<not> key_usable A V (cs ! n)" by simp_all
    then obtain m where m: "j = Suc i + m" using le_Suc_ex by blast
    have "\<not> key_usable A V ((d # cs) ! n)" if "n < Suc m" for n
      using that ih(5) m False by (cases n) auto
    with ih m show ?thesis by auto
  qed
qed simp

lemma first_usable_none: "first_usable A V i cs = None \<longleftrightarrow> (\<forall>c \<in> set cs. \<not> key_usable A V c)"
  by (induction cs arbitrary: i) auto

lemma runs_reserveOn:
  assumes "\<forall>c \<in> set cs. readable (shared nowMs n u) V c"
  shows "runs now (reserveOn now nowMs cs n u) V
    (map_option (\<lambda>(j, c). \<lparr>s_index = j - 1, s_gate = gate_won V c\<rparr>) (first_usable (shared nowMs n u) V 1 cs))
    (case first_usable (shared nowMs n u) V 1 cs of None \<Rightarrow> V | Some (j, c) \<Rightarrow> reserved now (shared nowMs n u) c V)"
proof -
  have len: "length (concat (map candidate_keys cs)) div KEYS_PER_CANDIDATE = length cs"
    by (subst length_concat_uniform [where m = 5]) (simp_all add: candidate_keys_def KEYS_PER_CANDIDATE_def)
  note loop = runs_select_loop [OF pool_flat assms shared_ok, of now, folded len]
  have g: "(if gate_won V c = GateProbe then GateProbe else GateClosed) = gate_won V c" for c
    by (simp add: gate_won_def)
  show ?thesis unfolding reserveOn_def select_key_script_def shared_def [symmetric]
    using runs_bind [OF loop runs_return, of "\<lambda>r. case r of None \<Rightarrow> None
         | Some (i, gate) \<Rightarrow> Some \<lparr>s_index = i - 1, s_gate = (if gate = GateProbe then GateProbe else GateClosed)\<rparr>"]
    by (cases "first_usable (shared nowMs n u) V 1 cs") (auto simp: g)
qed

subsection \<open>A refusal is decided on the exact count\<close>

lemma window_fits_antitone: "m \<le> n \<Longrightarrow> window_fits A V p n limit \<Longrightarrow> window_fits A V p m limit"
proof -
  assume "m \<le> n" and w: "window_fits A V p n limit"
  then have "(of_int m :: rat) \<le> of_int n" by simp
  with w show ?thesis unfolding window_fits_def has_room_def by linarith
qed

lemma key_usable_antitone:
  assumes "a \<le> b" and "key_usable (shared t b u) V c"
  shows "key_usable (shared t a u) V c"
proof -
  have "\<lceil>a\<rceil> \<le> \<lceil>b\<rceil>" using assms(1) by (rule ceiling_mono)
  then have "max 1 \<lceil>a\<rceil> \<le> max 1 \<lceil>b\<rceil>" by simp
  moreover have "window_fits (shared t b u) V p n l = window_fits (shared t a u) V p n l" for p n l
    by (simp add: window_fits_def shared_def)
  ultimately show ?thesis using assms(2) window_fits_antitone
    by (simp add: key_usable_def shared_def del: max.bounded_iff)
qed

lemma readable_shared: "readable (shared t a u) V c \<Longrightarrow> readable (shared t b u) V c"
  by (simp add: readable_def shared_def)

definition exact_count :: "reservation \<Rightarrow> rat" where
  "exact_count r = (case r of Fixed n \<Rightarrow> n | Planned p \<Rightarrow> if t_exact p then t_tokens p else t_counted p)"

lemma selectAndReserve_refusal:
  assumes R: "\<forall>c \<in> set cs. readable (shared nowMs 0 u) (view now s) c"
    and run: "selectAndReserve now nowMs cs r u s = (Inr (None, r'), s')"
    and c: "c \<in> set cs"
  shows "\<not> key_usable (shared nowMs (exact_count r) u) (view now s) c"
proof -
  let ?V = "view now s"
  have ok: "\<forall>c \<in> set cs. readable (shared nowMs n u) ?V c" for n using R readable_shared by blast
  have refused: "(\<forall>c \<in> set cs. \<not> key_usable (shared nowMs n u) ?V c) \<and> view now s1 = ?V"
    if "reserveOn now nowMs cs n u s = (Inr None, s1)" for n s1
    using runsE [OF runs_reserveOn [OF ok, of now n]] that
    by (auto simp: first_usable_none [of _ _ 1, symmetric] split: option.splits)
  have again: "\<forall>c \<in> set cs. \<not> key_usable (shared nowMs m u) ?V c"
    if "reserveOn now nowMs cs m u s1 = (Inr None, s2)" "view now s1 = ?V" for m s1 s2
    using runsE [of now "reserveOn now nowMs cs m u" s1] runs_reserveOn [of cs nowMs m u "view now s1" now] ok that
    by (auto simp: first_usable_none [of _ _ 1, symmetric] split: option.splits)
  have ne: "cs \<noteq> []" using c by auto
  note run' = run [unfolded selectAndReserve_def if_not_P [OF ne]]
  show ?thesis
  proof (cases r)
    case (Fixed n)
    with run' obtain s1 where "reserveOn now nowMs cs n u s = (Inr None, s1)"
      by (auto simp: tokensFor_def bind_m_def return_m_def split: prod.splits sum.splits)
    with refused c Fixed show ?thesis by (simp add: exact_count_def)
  next
    case (Planned p)
    define big where "big \<longleftrightarrow> \<not> t_exact p \<and> (\<exists>c \<in> set cs. of_int (c_tpmLimit c) < t_tokens p)"
    show ?thesis
    proof (cases "big \<or> t_exact p")
      case True
      have "reserveOn now nowMs cs (exact_count r) u s = (Inr None, s')"
        using run' True Planned
        by (auto simp: tokensFor_def big_def makeExact_def exact_count_def bind_m_def return_m_def
            split: prod.splits sum.splits if_splits)
      with refused c show ?thesis by blast
    next
      case False
      then have p: "\<not> t_exact p" "tokensFor r cs = (t_tokens p, r)" using Planned
        by (auto simp: tokensFor_def big_def)
      then obtain s1 where r1: "reserveOn now nowMs cs (t_tokens p) u s = (Inr None, s1)"
        using run' Planned by (auto simp: bind_m_def return_m_def makeExact_def split: prod.splits sum.splits if_splits)
      from refused [OF r1] have no: "\<not> key_usable (shared nowMs (t_tokens p) u) ?V c" and v: "view now s1 = ?V"
        using c by auto
      show ?thesis
      proof (cases "t_tokens p \<le> t_counted p")
        case True
        with no p Planned show ?thesis using key_usable_antitone by (auto simp: exact_count_def)
      next
        case less: False
        with run' p Planned r1 obtain s2 where "reserveOn now nowMs cs (t_counted p) u s1 = (Inr None, s2)"
          by (auto simp: bind_m_def return_m_def makeExact_def split: prod.splits sum.splits if_splits)
        from again [OF this v] c p Planned show ?thesis by (simp add: exact_count_def)
      qed
    qed
  qed
qed

subsection \<open>Properties\<close>

lemma empty_view [simp]: "view now [] = (\<lambda>_. None)"
  by (simp add: view_def [abs_def])

lemma vnum_empty [simp]: "vnum (\<lambda>_. None) k = 0"
  by (simp add: vnum_def counted_def v_str_def)

lemma readable_empty [simp]: "readable A (\<lambda>_. None) c"
  by (simp add: readable_def)

text \<open>
  C8. One atomic selection takes the first candidate, in the caller's order, that the breaker, the Max
  Users cap and both windows accept: every earlier candidate is refused by one of them, only the winner's
  keys are written, and when none is accepted nothing is written at all.
\<close>

theorem selection_takes_first_usable:
  assumes "\<forall>c \<in> set cs. readable (shared nowMs n u) (view now s) c"
  shows "\<exists>r s'. reserveOn now nowMs cs n u s = (Inr r, s') \<and> (case r of
      None \<Rightarrow> (\<forall>c \<in> set cs. \<not> key_usable (shared nowMs n u) (view now s) c) \<and> view now s' = view now s
    | Some sel \<Rightarrow> s_index sel < length cs \<and> key_usable (shared nowMs n u) (view now s) (cs ! s_index sel) \<and>
        (\<forall>i < s_index sel. \<not> key_usable (shared nowMs n u) (view now s) (cs ! i)) \<and>
        s_gate sel = gate_won (view now s) (cs ! s_index sel) \<and>
        view now s' = reserved now (shared nowMs n u) (cs ! s_index sel) (view now s))"
proof -
  let ?A = "shared nowMs n u" and ?V = "view now s"
  from runsE [OF runs_reserveOn [OF assms, of now]] obtain s' where
    run: "reserveOn now nowMs cs n u s = (Inr (map_option (\<lambda>(j, c). \<lparr>s_index = j - 1, s_gate = gate_won ?V c\<rparr>)
        (first_usable ?A ?V 1 cs)), s')"
    and v: "view now s' = (case first_usable ?A ?V 1 cs of None \<Rightarrow> ?V | Some (j, c) \<Rightarrow> reserved now ?A c ?V)" by blast
  show ?thesis
  proof (cases "first_usable ?A ?V 1 cs")
    case None
    with run v first_usable_none [of ?A ?V 1 cs] show ?thesis by auto
  next
    case (Some jc)
    then obtain j c where jc: "first_usable ?A ?V 1 cs = Some (j, c)" by (cases jc) simp
    from first_usable_index [OF this] have "j - 1 < length cs" "cs ! (j - 1) = c" "key_usable ?A ?V c"
      "\<forall>i < j - 1. \<not> key_usable ?A ?V (cs ! i)" by auto
    with run v jc show ?thesis by simp
  qed
qed

theorem selection_takes_first_usable_witness:
  "\<exists>s'. reserveOn 5 5 [\<lparr>c_id = ''a'', c_rpmLimit = 0, c_tpmLimit = 50, c_maxUsers = 1\<rparr>,
       \<lparr>c_id = ''b'', c_rpmLimit = 3, c_tpmLimit = 50, c_maxUsers = 1\<rparr>] 10 None []
     = (Inr (Some \<lparr>s_index = 1, s_gate = GateClosed\<rparr>), s')"
proof -
  let ?a = "\<lparr>c_id = ''a'', c_rpmLimit = 0, c_tpmLimit = 50, c_maxUsers = 1\<rparr>"
  let ?b = "\<lparr>c_id = ''b'', c_rpmLimit = 3, c_tpmLimit = 50, c_maxUsers = 1\<rparr>"
  have a: "\<not> key_usable (shared 5 10 None) (\<lambda>_. None) ?a"
    by (simp add: key_usable_def window_fits_def has_room_def shared_def)
  have b: "key_usable (shared 5 10 None) (\<lambda>_. None) ?b"
    by (simp add: key_usable_def window_fits_def has_room_def shared_def cooling_def probing_def v_str_def
        user_fits_def option_or_def)
  have "\<forall>c \<in> set [?a, ?b]. readable (shared 5 10 None) (view 5 []) c" by simp
  from selection_takes_first_usable [OF this] obtain r s' where
    run: "reserveOn 5 5 [?a, ?b] 10 None [] = (Inr r, s')"
    and r: "case r of None \<Rightarrow> (\<forall>c \<in> set [?a, ?b]. \<not> key_usable (shared 5 10 None) (view 5 []) c) \<and> view 5 s' = view 5 []
    | Some sel \<Rightarrow> s_index sel < length [?a, ?b] \<and> key_usable (shared 5 10 None) (view 5 []) ([?a, ?b] ! s_index sel) \<and>
        (\<forall>i < s_index sel. \<not> key_usable (shared 5 10 None) (view 5 []) ([?a, ?b] ! i)) \<and>
        s_gate sel = gate_won (view 5 []) ([?a, ?b] ! s_index sel) \<and>
        view 5 s' = reserved 5 (shared 5 10 None) ([?a, ?b] ! s_index sel) (view 5 [])" by blast
  from r b obtain sel where "r = Some sel" by (cases r) auto
  with r have sel: "r = Some sel" "s_index sel < 2" "key_usable (shared 5 10 None) (\<lambda>_. None) ([?a, ?b] ! s_index sel)"
    "s_gate sel = gate_won (\<lambda>_. None) ([?a, ?b] ! s_index sel)" by simp_all
  with a have i: "s_index sel = 1" by (cases "s_index sel") auto
  then have "s_gate sel = GateClosed" using sel(4) by (simp add: gate_won_def probing_def v_str_def)
  with i sel(1) have "r = Some \<lparr>s_index = 1, s_gate = GateClosed\<rparr>" by simp
  with run show ?thesis by blast
qed

text \<open>
  A refusal is never the estimate's fault: when the selection refuses a request whose token count is
  only estimated, every candidate also refuses its exact count.
\<close>

theorem refusal_is_of_the_exact_count:
  assumes "\<forall>c \<in> set cs. readable (shared nowMs 0 u) (view now s) c"
    and "selectAndReserve now nowMs cs r u s = (Inr (None, r'), s')" and "c \<in> set cs"
  shows "\<not> key_usable (shared nowMs (exact_count r) u) (view now s) c"
  by (rule selectAndReserve_refusal [OF assms])

theorem refusal_is_of_the_exact_count_witness:
  "\<not> key_usable (shared 5 40 None) (\<lambda>_. None) \<lparr>c_id = ''a'', c_rpmLimit = 3, c_tpmLimit = 30, c_maxUsers = 1\<rparr>"
proof -
  let ?a = "\<lparr>c_id = ''a'', c_rpmLimit = 3, c_tpmLimit = 30, c_maxUsers = 1\<rparr>"
  let ?r = "Planned \<lparr>t_tokens = 60, t_exact = False, t_counted = 40\<rparr>"
  have no: "\<forall>c \<in> set [?a]. \<not> key_usable (shared 5 40 None) (\<lambda>_. None) c"
    by (simp add: key_usable_def window_fits_def has_room_def shared_def)
  from runsE [OF runs_reserveOn [of "[?a]" 5 40 None "view 5 []" 5]] no obtain s' where
    "reserveOn 5 5 [?a] 40 None [] = (Inr None, s')" by auto
  then have "selectAndReserve 5 5 [?a] ?r None [] =
      (Inr (None, Planned \<lparr>t_tokens = 40, t_exact = True, t_counted = 40\<rparr>), s')"
    by (simp add: selectAndReserve_def tokensFor_def makeExact_def bind_run return_run)
  from refusal_is_of_the_exact_count [OF _ this, of ?a] show ?thesis by (simp add: exact_count_def)
qed

end
