(* ===== verification/Cost_Routing.thy ===== *)
theory Cost_Routing
  imports Js_Sort
begin

text \<open>
  The order in which models are attempted: \<open>src/lib/routing.ts\<close> (the price of a model, the blend of
  operator order and price order) and \<open>src/lib/modelSelect.ts\<close> (eligibility, tiers, priorities).
  Prices are exact; an absent field is \<open>None\<close>, as is an unpriced model.
\<close>

record pricing =
  pricingSource :: "string option"
  inputPricePer1k :: "rat option"
  outputPricePer1k :: "rat option"
  inputCostPer1M :: "rat option"
  outputCostPer1M :: "rat option"

definition per1k :: "rat option \<Rightarrow> rat option \<Rightarrow> rat" where
  "per1k k m = (case k of Some x \<Rightarrow> x | None \<Rightarrow> (case m of Some y \<Rightarrow> y / 1000 | None \<Rightarrow> 0))"

definition effectivePrice :: "pricing option \<Rightarrow> rat option" where
  "effectivePrice model = (case model of None \<Rightarrow> None
     | Some p \<Rightarrow> if pricingSource p = Some ''unset'' then None
        else if inputPricePer1k p = None \<and> outputPricePer1k p = None \<and>
                inputCostPer1M p = None \<and> outputCostPer1M p = None then None
        else Some (per1k (inputPricePer1k p) (inputCostPer1M p) + per1k (outputPricePer1k p) (outputCostPer1M p)))"

text \<open>The argument is the weight as a number, \<open>None\<close> when it is not finite.\<close>

definition clampCostWeight :: "rat option \<Rightarrow> rat" where
  "clampCostWeight w = (case w of None \<Rightarrow> 0 | Some n \<Rightarrow> min 1 (max 0 n))"

record 'a enriched =
  e_item :: 'a
  e_origRank :: nat
  e_price :: "rat option"

text \<open>\<open>(a ?? Infinity) - (b ?? Infinity)\<close>, as far as its sign: two infinities give NaN.\<close>

definition price_diff :: "rat option \<Rightarrow> rat option \<Rightarrow> rat" where
  "price_diff a b = (case (a, b) of (Some p, Some q) \<Rightarrow> p - q | (Some _, None) \<Rightarrow> -1
     | (None, Some _) \<Rightarrow> 1 | (None, None) \<Rightarrow> 0)"

definition rank_diff :: "'a enriched \<Rightarrow> 'a enriched \<Rightarrow> rat" where
  "rank_diff a b = of_nat (e_origRank a) - of_nat (e_origRank b)"

definition enrich :: "('a \<Rightarrow> rat option) \<Rightarrow> 'a list \<Rightarrow> 'a enriched list" where
  "enrich priceOf items = map (\<lambda>(i, x). \<lparr>e_item = x, e_origRank = i, e_price = priceOf x\<rparr>)
     (List.enumerate 0 items)"

definition blend :: "rat \<Rightarrow> (nat \<Rightarrow> nat option) \<Rightarrow> 'a enriched \<Rightarrow> rat" where
  "blend w costRank e = (1 - w) * of_nat (e_origRank e) + w * of_nat (option_or (costRank (e_origRank e)) 0)"

definition costOrder :: "'a list \<Rightarrow> ('a \<Rightarrow> rat option) \<Rightarrow> rat option \<Rightarrow> 'a list" where
  "costOrder items priceOf costWeight =
     (let w = clampCostWeight costWeight in
      if w = 0 \<or> length items < 2 then items
      else let es = enrich priceOf items;
               byPrice = sort_by (\<lambda>a b. or_else (price_diff (e_price a) (e_price b)) (rank_diff a b)) es;
               costRank = map_of (zip (map e_origRank byPrice) [0..<length byPrice])
           in map e_item (sort_by (\<lambda>a b. or_else (blend w costRank a - blend w costRank b) (rank_diff a b)) es))"

definition TIER_ORDER :: "string list" where
  "TIER_ORDER = [''premium'', ''standard'', ''fast'']"

fun index_of :: "'a \<Rightarrow> 'a list \<Rightarrow> nat option" where
  "index_of x [] = None"
| "index_of x (y # ys) = (if x = y then Some 0 else map_option Suc (index_of x ys))"

definition tierRank :: "string \<Rightarrow> int" where
  "tierRank tier = (case index_of tier TIER_ORDER of None \<Rightarrow> int (length TIER_ORDER) | Some i \<Rightarrow> int i)"

record selectable_model =
  m_id :: string
  m_modelString :: string
  m_provider :: string
  m_tier :: string
  m_priority :: int
  m_status :: string
  m_capabilities :: "string list"

record select_options =
  o_capability :: string
  o_activeProviderSlugs :: "string set"
  o_priceOf :: "selectable_model \<Rightarrow> rat option"
  o_costWeight :: rat
  o_preferredTier :: "string option"

definition eligible :: "select_options \<Rightarrow> selectable_model \<Rightarrow> bool" where
  "eligible opts m \<longleftrightarrow> m_status m = ''active'' \<and> o_capability opts \<in> set (m_capabilities m) \<and>
     m_provider m \<in> o_activeProviderSlugs opts"

definition rankOf :: "string option \<Rightarrow> string \<Rightarrow> int" where
  "rankOf preferred tier = (case preferred of
      Some p \<Rightarrow> if p \<noteq> [] \<and> tier = p then -1 else tierRank tier | None \<Rightarrow> tierRank tier)"

text \<open>The \<open>while\<close> loop over runs of one tier.\<close>

function by_tier_runs :: "(selectable_model list \<Rightarrow> selectable_model list) \<Rightarrow> selectable_model list \<Rightarrow> selectable_model list" where
  "by_tier_runs f [] = []"
| "by_tier_runs f (m # ms) =
     f (m # takeWhile (\<lambda>x. m_tier x = m_tier m) ms) @ by_tier_runs f (dropWhile (\<lambda>x. m_tier x = m_tier m) ms)"
  by pat_completeness auto
termination by (relation "measure (\<lambda>(f, ms). length ms)") (auto simp: length_dropWhile_le le_imp_less_Suc)

definition selectModels :: "selectable_model list \<Rightarrow> select_options \<Rightarrow> selectable_model list" where
  "selectModels models opts =
     (let es = sort_by (\<lambda>a b. or_else
            (of_int (rankOf (o_preferredTier opts) (m_tier a)) - of_int (rankOf (o_preferredTier opts) (m_tier b)))
            (of_int (m_priority a) - of_int (m_priority b)))
          (filter (eligible opts) models)
      in if o_costWeight opts \<le> 0 then es
         else by_tier_runs (\<lambda>run. costOrder run (o_priceOf opts) (Some (o_costWeight opts))) es)"

subsection \<open>The blend keeps every item\<close>

lemma clampCostWeight_bounds: "0 \<le> clampCostWeight w \<and> clampCostWeight w \<le> 1"
  by (simp add: clampCostWeight_def split: option.split)

lemma enrich_items [simp]: "map e_item (enrich p xs) = xs"
  by (simp add: enrich_def comp_def case_prod_unfold)

lemma mset_costOrder: "mset (costOrder items priceOf w) = mset items"
proof -
  have "mset (map e_item (sort_by c (enrich priceOf items))) = mset items" for c
    by (metis enrich_items mset_map mset_sort_by)
  then show ?thesis by (simp add: costOrder_def Let_def)
qed

lemma costOrder_off: "clampCostWeight w = 0 \<Longrightarrow> costOrder items priceOf w = items"
  by (simp add: costOrder_def)

lemma enrich_nth: "n < length xs \<Longrightarrow> enrich p xs ! n = \<lparr>e_item = xs ! n, e_origRank = n, e_price = p (xs ! n)\<rparr>"
  by (simp add: enrich_def nth_enumerate_eq)

lemma length_enrich [simp]: "length (enrich p xs) = length xs"
  by (simp add: enrich_def)

lemma enrich_ranks [simp]: "map e_origRank (enrich p xs) = [0..<length xs]"
  by (rule nth_equalityI) (simp_all add: enrich_nth)

lemma enrich_price: "e \<in> set (enrich p xs) \<Longrightarrow> e_price e = p (e_item e)"
  by (auto simp: enrich_def)

subsection \<open>Full weight is cheapest first\<close>

text \<open>A price with the unpriced after every priced one.\<close>

definition price_key :: "rat option \<Rightarrow> bool \<times> rat" where
  "price_key p = (case p of Some x \<Rightarrow> (False, x) | None \<Rightarrow> (True, 0))"

lemma price_cmp: "(or_else (price_diff p q) (of_nat i - of_nat j) \<le> 0) = ((price_key p, i) \<le> (price_key q, j))"
  by (cases p; cases q) (auto simp: price_diff_def or_else_def price_key_def less_eq_prod_def less_prod_def)

definition by_price :: "'a enriched list \<Rightarrow> 'a enriched list" where
  "by_price es = sort_key (\<lambda>e. (price_key (e_price e), e_origRank e)) es"

lemma by_price_sort: "sort_by (\<lambda>a b. or_else (price_diff (e_price a) (e_price b)) (rank_diff a b)) es = by_price es"
  unfolding by_price_def rank_diff_def by (rule sort_by_key) (rule price_cmp)

lemma cost_rank_nth:
  assumes "distinct (map e_origRank ys)" and "i < length ys"
  shows "map_of (zip (map e_origRank ys) [0..<length ys]) (e_origRank (ys ! i)) = Some i"
proof -
  have "map_of (zip (map e_origRank ys) [0..<length ys]) (map e_origRank ys ! i) = Some ([0..<length ys] ! i)"
    using assms by (intro map_of_zip_nth) simp_all
  then show ?thesis using assms(2) by simp
qed

lemma sort_by_ranked:
  fixes r :: "'a enriched \<Rightarrow> nat"
  assumes perm: "mset ys = mset es" and r: "\<And>i. i < length ys \<Longrightarrow> r (ys ! i) = i"
  shows "sort_by (\<lambda>a b. or_else (of_nat (r a) - of_nat (r b)) (rank_diff a b)) es = ys"
proof -
  have inj: "inj_on r (set es)"
  proof (rule inj_onI)
    fix a b assume "a \<in> set es" "b \<in> set es" and eq: "r a = r b"
    then have "a \<in> set ys" "b \<in> set ys" using perm by (metis set_mset_mset)+
    then obtain i j where "i < length ys" "a = ys ! i" "j < length ys" "b = ys ! j" by (metis in_set_conv_nth)
    with r eq show "a = b" by auto
  qed
  have "sort_by (\<lambda>a b. or_else (of_nat (r a) - of_nat (r b)) (rank_diff a b)) es = sort_key r es"
  proof (rule sort_by_key)
    fix x y assume "x \<in> set es" "y \<in> set es"
    with inj show "(or_else (of_nat (r x) - of_nat (r y)) (rank_diff x y) \<le> 0) = (r x \<le> r y)"
      by (cases "r x = r y") (auto simp: or_else_def rank_diff_def dest: inj_onD)
  qed
  moreover have "sorted (map r ys)" using r by (simp add: sorted_iff_nth_mono)
  ultimately show ?thesis using perm inj by (simp add: sort_key_inj_key_eq)
qed

lemma costOrder_full: 
  assumes "2 \<le> length items"
  shows "costOrder items priceOf (Some 1) = map e_item (by_price (enrich priceOf items))"
proof -
  let ?es = "enrich priceOf items" and ?ys = "by_price (enrich priceOf items)"
  let ?r = "\<lambda>e. option_or (map_of (zip (map e_origRank ?ys) [0..<length ?ys]) (e_origRank e)) 0"
  have perm: "mset ?ys = mset ?es" by (simp add: by_price_def)
  then have "mset (map e_origRank ?ys) = mset [0..<length items]" by (metis enrich_ranks mset_map)
  then have d: "distinct (map e_origRank ?ys)" by (metis distinct_upt mset_eq_imp_distinct_iff)
  have "sort_by (\<lambda>a b. or_else (of_nat (?r a) - of_nat (?r b)) (rank_diff a b)) ?es = ?ys"
    by (rule sort_by_ranked [OF perm]) (simp add: cost_rank_nth [OF d])
  moreover have "clampCostWeight (Some 1) = 1" by (simp add: clampCostWeight_def)
  ultimately show ?thesis using assms
    by (simp add: costOrder_def Let_def by_price_sort blend_def not_less)
qed

lemma costOrder_cheapest: "sorted (map (\<lambda>x. price_key (priceOf x)) (costOrder items priceOf (Some 1)))"
proof (cases "2 \<le> length items")
  case True
  let ?ys = "by_price (enrich priceOf items)"
  have "sorted (map (\<lambda>e. (price_key (e_price e), e_origRank e)) ?ys)" by (simp add: by_price_def)
  then have "sorted (map (\<lambda>e. price_key (e_price e)) ?ys)" by (rule sorted_map_fst)
  moreover have "map (\<lambda>e. price_key (e_price e)) ?ys = map (\<lambda>x. price_key (priceOf x)) (map e_item ?ys)"
    by (auto simp: by_price_def dest: enrich_price)
  ultimately show ?thesis by (simp add: costOrder_full [OF True])
next
  case False
  then have "length items < 2" by simp
  then have "costOrder items priceOf (Some 1) = items" by (simp add: costOrder_def Let_def)
  with False show ?thesis by (cases items; cases "tl items") auto
qed

subsection \<open>Tiers\<close>

lemma mset_by_tier_runs: "(\<And>xs. mset (f xs) = mset xs) \<Longrightarrow> mset (by_tier_runs f ms) = mset ms"
proof (induction f ms rule: by_tier_runs.induct)
  case (2 f m ms)
  have "mset ms = mset (takeWhile (\<lambda>x. m_tier x = m_tier m) ms) + mset (dropWhile (\<lambda>x. m_tier x = m_tier m) ms)"
    by (metis mset_append takeWhile_dropWhile_id)
  with 2 show ?case by simp
qed simp

lemma tiers_by_tier_runs:
  "(\<And>xs. mset (f xs) = mset xs) \<Longrightarrow> map m_tier (by_tier_runs f ms) = map m_tier ms"
proof (induction f ms rule: by_tier_runs.induct)
  case (2 f m ms)
  let ?run = "m # takeWhile (\<lambda>x. m_tier x = m_tier m) ms"
  have "map m_tier (f ?run) = map m_tier ?run"
    using 2(2) by (intro map_constant_perm [where c = "m_tier m"]) (auto dest: set_takeWhileD)
  moreover have "map m_tier ms = map m_tier (takeWhile (\<lambda>x. m_tier x = m_tier m) ms)
      @ map m_tier (dropWhile (\<lambda>x. m_tier x = m_tier m) ms)"
    by (metis map_append takeWhile_dropWhile_id)
  ultimately show ?case using 2 by simp
qed simp

definition tier_sorted :: "select_options \<Rightarrow> selectable_model list \<Rightarrow> selectable_model list" where
  "tier_sorted opts ms = sort_key (\<lambda>m. (rankOf (o_preferredTier opts) (m_tier m), m_priority m)) ms"

lemma selectModels_sort: "sort_by (\<lambda>a b. or_else
      (of_int (rankOf (o_preferredTier opts) (m_tier a)) - of_int (rankOf (o_preferredTier opts) (m_tier b)))
      (of_int (m_priority a) - of_int (m_priority b))) ms = tier_sorted opts ms"
  unfolding tier_sorted_def
  by (rule sort_by_key) (auto simp: or_else_def less_eq_prod_def less_prod_def)

lemma mset_selectModels: "mset (selectModels models opts) = mset (filter (eligible opts) models)"
  by (simp add: selectModels_def Let_def selectModels_sort mset_by_tier_runs mset_costOrder tier_sorted_def)

lemma tiers_selectModels: "map m_tier (selectModels models opts) = map m_tier (tier_sorted opts (filter (eligible opts) models))"
  by (simp add: selectModels_def Let_def selectModels_sort tiers_by_tier_runs mset_costOrder)

subsection \<open>Properties\<close>

text \<open>
  The models offered for a request are exactly the eligible ones, each as often as it is listed, and
  cost never crosses tiers: along the answer the tier ranks are in ascending order (the preferred tier
  first, when one is named), whatever the prices and the cost weight.
\<close>

theorem selection_keeps_tiers:
  "mset (selectModels models opts) = mset (filter (eligible opts) models) \<and>
   sorted (map (\<lambda>m. rankOf (o_preferredTier opts) (m_tier m)) (selectModels models opts))"
proof -
  let ?r = "rankOf (o_preferredTier opts)" and ?ms = "filter (eligible opts) models"
  have "sorted (map (\<lambda>m. (?r (m_tier m), m_priority m)) (tier_sorted opts ?ms))"
    by (simp add: tier_sorted_def)
  then have "sorted (map (\<lambda>m. ?r (m_tier m)) (tier_sorted opts ?ms))" by (rule sorted_map_fst)
  then have "sorted (map ?r (map m_tier (tier_sorted opts ?ms)))" by (simp add: comp_def)
  then have "sorted (map ?r (map m_tier (selectModels models opts)))" unfolding tiers_selectModels .
  then show ?thesis by (simp add: mset_selectModels comp_def)
qed

text \<open>
  Cost ordering never drops or repeats a candidate; with the weight at its full value the answer is
  cheapest first with the unpriced last, and at zero (or an unreadable weight) it is the given order.
\<close>

theorem cost_order_correct:
  "mset (costOrder items priceOf w) = mset items \<and>
   (clampCostWeight w = 0 \<longrightarrow> costOrder items priceOf w = items) \<and>
   (w = Some 1 \<longrightarrow> sorted (map (\<lambda>x. price_key (priceOf x)) (costOrder items priceOf w)))"
  using mset_costOrder costOrder_off costOrder_cheapest by blast

theorem cost_order_correct_witness:
  "mset (costOrder [3, 1, 2] (\<lambda>x. Some (of_nat x)) (Some 1)) = mset [3, 1, 2 :: nat] \<and>
   sorted (map (\<lambda>x. price_key (Some (of_nat x :: rat))) (costOrder [3, 1, 2 :: nat] (\<lambda>x. Some (of_nat x)) (Some 1)))"
  using cost_order_correct [of "[3, 1, 2 :: nat]" "\<lambda>x. Some (of_nat x)" "Some 1"] by simp

end
