(* ===== verification/Scope.thy ===== *)
theory Scope
  imports Prelude
begin

text \<open>
  \<open>src/lib/scope.ts\<close>: which keys may serve a request and which cached responses may, resolved as one
  value.
\<close>

record scope_team =
  st_id :: string
  st_byokFallback :: "bool option"
  st_byokOnly :: bool

record routing_scope =
  rs_ownerTeamId :: "string option"
  rs_fallbackToShared :: bool
  rs_namespace :: string
  rs_byokOnly :: bool

definition SHARED_NAMESPACE :: string where "SHARED_NAMESPACE = ''shared''"

definition resolveScope :: "scope_team option \<Rightarrow> int \<Rightarrow> routing_scope" where
  "resolveScope team ownedKeyCount =
     (let shared = \<lparr>rs_ownerTeamId = None, rs_fallbackToShared = True, rs_namespace = SHARED_NAMESPACE,
                    rs_byokOnly = False\<rparr> in
      case team of
        None \<Rightarrow> shared
      | Some t \<Rightarrow>
          if st_byokOnly t
          then \<lparr>rs_ownerTeamId = Some (st_id t), rs_fallbackToShared = False,
                rs_namespace = ''team:'' @ st_id t, rs_byokOnly = True\<rparr>
          else if ownedKeyCount \<le> 0 then shared
          else \<lparr>rs_ownerTeamId = Some (st_id t), rs_fallbackToShared = st_byokFallback t \<noteq> Some False,
                rs_namespace = ''team:'' @ st_id t, rs_byokOnly = False\<rparr>)"

definition isIsolated :: "routing_scope \<Rightarrow> bool" where
  "isIsolated scope \<longleftrightarrow> rs_ownerTeamId scope \<noteq> None \<and> \<not> rs_fallbackToShared scope"

definition isByokOnly :: "routing_scope \<Rightarrow> bool" where
  "isByokOnly scope \<longleftrightarrow> rs_byokOnly scope"

definition isByok :: "routing_scope \<Rightarrow> bool" where
  "isByok scope \<longleftrightarrow> rs_ownerTeamId scope \<noteq> None"

lemmas scope_simps = resolveScope_def isIsolated_def isByokOnly_def isByok_def SHARED_NAMESPACE_def Let_def

text \<open>The owner decides the cache namespace and the namespace the owner.\<close>

lemma namespace_owner:
  "rs_namespace (resolveScope t n) = rs_namespace (resolveScope t' n') \<longleftrightarrow>
   rs_ownerTeamId (resolveScope t n) = rs_ownerTeamId (resolveScope t' n')"
  by (auto simp: scope_simps split: option.splits)

lemma owner_is_the_team: "rs_ownerTeamId (resolveScope t n) = Some i \<Longrightarrow> \<exists>team. t = Some team \<and> st_id team = i"
  by (auto simp: scope_simps split: option.splits if_splits)

lemma byok_only_isolated: "isByokOnly (resolveScope t n) \<Longrightarrow> isIsolated (resolveScope t n)"
  by (auto simp: scope_simps split: option.splits if_splits)

lemma shared_never_isolated: "\<not> isByok (resolveScope t n) \<Longrightarrow> rs_fallbackToShared (resolveScope t n)"
  by (auto simp: scope_simps split: option.splits if_splits)

end
