(* ===== verification/Key_Caches.thy ===== *)
theory Key_Caches
  imports Js_Map Scope
begin

text \<open>
  The caches in front of the key rows: \<open>src/lib/keyRowCache.ts\<close> (one key's row, and the candidate list
  of a pool and owner) and \<open>src/lib/lastUsed.ts\<close> (the write window of the last-used time). A row is
  whatever the key store returns. \<open>timed_cache\<close> is what a cache with a window promises: an answer is
  a value stored less than a window ago and not forgotten since.
\<close>

subsection \<open>The contract\<close>

datatype ('d, 'k, 'v) cache_op = Put 'k 'v | Forget 'd

locale timed_cache =
  fixes look :: "rat \<Rightarrow> 'k \<Rightarrow> 's \<Rightarrow> 'v option"
    and put :: "rat \<Rightarrow> 'k \<Rightarrow> 'v \<Rightarrow> 's \<Rightarrow> 's"
    and forget :: "'d \<Rightarrow> 's \<Rightarrow> 's"
    and hits :: "'d \<Rightarrow> 'k \<Rightarrow> bool"
    and fresh :: 's
    and window :: rat
  assumes look_fresh: "look t k fresh = None"
    and look_put: "0 < window \<Longrightarrow> look t k (put t0 k' v s) =
      (if k = k' then (if t < t0 + window then Some v else None) else look t k s)"
    and look_off: "window = 0 \<Longrightarrow> look t k s = None"
    and look_forget: "look t k (forget d s) = (if hits d k then None else look t k s)"
    and window_nonneg: "0 \<le> window"
begin

definition apply_op :: "rat \<times> ('d, 'k, 'v) cache_op \<Rightarrow> 's \<Rightarrow> 's" where
  "apply_op x s = (case x of (t, Put k v) \<Rightarrow> put t k v s | (t, Forget d) \<Rightarrow> forget d s)"

text \<open>The last operation that touches \<open>k\<close>, the newest operation first.\<close>

fun last_touch :: "'k \<Rightarrow> (rat \<times> ('d, 'k, 'v) cache_op) list \<Rightarrow> (rat \<times> 'v) option" where
  "last_touch k [] = None"
| "last_touch k ((t, Put k' v) # ops) = (if k = k' then Some (t, v) else last_touch k ops)"
| "last_touch k ((t, Forget d) # ops) = (if hits d k then None else last_touch k ops)"

lemma look_history:
  "look t k (foldr apply_op ops fresh) = (case last_touch k ops of
      None \<Rightarrow> None | Some (t0, v) \<Rightarrow> if t < t0 + window \<and> 0 < window then Some v else None)"
proof (cases "window = 0")
  case True
  then show ?thesis by (simp add: look_off split: option.split)
next
  case False
  with window_nonneg have w: "0 < window" by simp
  show ?thesis
  proof (induction k ops rule: last_touch.induct)
    case (1 k)
    then show ?case by (simp add: look_fresh)
  qed (simp_all add: apply_op_def look_put [OF w] look_forget w)
qed

lemma never_stale:
  "look t k (foldr apply_op ops fresh) = Some v \<Longrightarrow> \<exists>t0. last_touch k ops = Some (t0, v) \<and> t < t0 + window"
  by (auto simp: look_history split: option.splits if_splits)

lemma forgotten: "hits d k \<Longrightarrow> look t k (forget d s) = None"
  by (simp add: look_forget)

end

subsection \<open>The row cache and the list cache\<close>

definition DEFAULT_TTL_MS :: rat where "DEFAULT_TTL_MS = 1000"

text \<open>\<open>raw\<close> is the environment's value as a number, \<open>None\<close> when it is not finite.\<close>

definition ttlMs :: "rat option \<Rightarrow> rat" where
  "ttlMs raw = (case raw of Some r \<Rightarrow> if 0 \<le> r then r else DEFAULT_TTL_MS | None \<Rightarrow> DEFAULT_TTL_MS)"

record 'v timed =
  t_val :: 'v
  t_expiresAt :: rat

record 'r key_cache =
  row_cache :: "(string, 'r option timed) jsmap"
  list_cache :: "(string, 'r list timed) jsmap"

definition empty_key_cache :: "'r key_cache" where
  "empty_key_cache = \<lparr>row_cache = [], list_cache = []\<rparr>"

definition listKey :: "string \<Rightarrow> string option \<Rightarrow> string" where
  "listKey providerId ownerTeamId = providerId @ ''|'' @ option_or ownerTeamId ''(shared)''"

text \<open>The common reading: \<open>None\<close> is undefined; an expired entry is dropped.\<close>

definition cache_get :: "rat \<Rightarrow> rat \<Rightarrow> string \<Rightarrow> (string, 'v timed) jsmap \<Rightarrow> 'v option \<times> (string, 'v timed) jsmap" where
  "cache_get ttl nowMs k m =
     (if ttl = 0 then (None, m) else case map_of m k of
        None \<Rightarrow> (None, m)
      | Some hit \<Rightarrow> if t_expiresAt hit \<le> nowMs then (None, AList.delete k m) else (Some (t_val hit), m))"

definition cache_put :: "rat \<Rightarrow> rat \<Rightarrow> string \<Rightarrow> 'v \<Rightarrow> (string, 'v timed) jsmap \<Rightarrow> (string, 'v timed) jsmap" where
  "cache_put ttl nowMs k v m =
     (if ttl = 0 then m else AList.update k \<lparr>t_val = v, t_expiresAt = nowMs + ttl\<rparr> m)"

definition getKeyRow :: "rat option \<Rightarrow> string \<Rightarrow> rat \<Rightarrow> 'r key_cache \<Rightarrow> 'r option option \<times> 'r key_cache" where
  "getKeyRow env keyId nowMs c = (case cache_get (ttlMs env) nowMs keyId (row_cache c) of
      (r, m) \<Rightarrow> (r, c\<lparr>row_cache := m\<rparr>))"

definition setKeyRow :: "rat option \<Rightarrow> string \<Rightarrow> 'r option \<Rightarrow> rat \<Rightarrow> 'r key_cache \<Rightarrow> 'r key_cache" where
  "setKeyRow env keyId row nowMs c = c\<lparr>row_cache := cache_put (ttlMs env) nowMs keyId row (row_cache c)\<rparr>"

definition getKeyList :: "rat option \<Rightarrow> string \<Rightarrow> string option \<Rightarrow> rat \<Rightarrow> 'r key_cache \<Rightarrow> 'r list option \<times> 'r key_cache" where
  "getKeyList env providerId ownerTeamId nowMs c =
     (case cache_get (ttlMs env) nowMs (listKey providerId ownerTeamId) (list_cache c) of
      (r, m) \<Rightarrow> (r, c\<lparr>list_cache := m\<rparr>))"

definition setKeyList :: "rat option \<Rightarrow> string \<Rightarrow> string option \<Rightarrow> 'r list \<Rightarrow> rat \<Rightarrow> 'r key_cache \<Rightarrow> 'r key_cache" where
  "setKeyList env providerId ownerTeamId rows nowMs c =
     c\<lparr>list_cache := cache_put (ttlMs env) nowMs (listKey providerId ownerTeamId) rows (list_cache c)\<rparr>"

definition forgetKeyRow :: "string option \<Rightarrow> 'r key_cache \<Rightarrow> 'r key_cache" where
  "forgetKeyRow keyId c = (case keyId of
      None \<Rightarrow> \<lparr>row_cache = [], list_cache = []\<rparr>
    | Some k \<Rightarrow> \<lparr>row_cache = AList.delete k (row_cache c), list_cache = []\<rparr>)"

subsection \<open>The last-used write window\<close>

definition DEFAULT_WINDOW_MS :: rat where "DEFAULT_WINDOW_MS = 5000"

definition windowMs :: "rat option \<Rightarrow> rat" where
  "windowMs raw = (case raw of Some r \<Rightarrow> if 0 \<le> r then r else DEFAULT_WINDOW_MS | None \<Rightarrow> DEFAULT_WINDOW_MS)"

definition shouldWriteLastUsed :: "rat option \<Rightarrow> string \<Rightarrow> rat \<Rightarrow> (string, rat) jsmap \<Rightarrow> bool \<times> (string, rat) jsmap" where
  "shouldWriteLastUsed env keyId nowMs written =
     (let window = windowMs env in
      if window = 0 then (True, written)
      else if (case map_of written keyId of Some previous \<Rightarrow> nowMs - previous < window | None \<Rightarrow> False)
           then (False, written)
           else (True, AList.update keyId nowMs written))"

definition forgetLastUsed :: "string option \<Rightarrow> (string, rat) jsmap \<Rightarrow> (string, rat) jsmap" where
  "forgetLastUsed keyId written = (case keyId of None \<Rightarrow> [] | Some k \<Rightarrow> AList.delete k written)"

subsection \<open>The caches keep the contract\<close>

lemma ttlMs_nonneg: "0 \<le> ttlMs raw"
  by (simp add: ttlMs_def DEFAULT_TTL_MS_def split: option.split)

lemma windowMs_nonneg: "0 \<le> windowMs raw"
  by (simp add: windowMs_def DEFAULT_WINDOW_MS_def split: option.split)

definition row_seen :: "rat option \<Rightarrow> rat \<Rightarrow> string \<Rightarrow> 'r key_cache \<Rightarrow> 'r option option" where
  "row_seen env t k c = fst (getKeyRow env k t c)"

text \<open>A pool and its owner, with ids as the gateway makes them: no separator, not the shared marker.\<close>

definition pool_ok :: "string \<times> string option \<Rightarrow> bool" where
  "pool_ok p \<longleftrightarrow> CHR ''|'' \<notin> set (fst p) \<and> (\<forall>i. snd p = Some i \<longrightarrow> CHR ''|'' \<notin> set i \<and> i \<noteq> ''(shared)'')"

lemma listKey_inj: "pool_ok p \<Longrightarrow> pool_ok q \<Longrightarrow> listKey (fst p) (snd p) = listKey (fst q) (snd q) \<Longrightarrow> p = q"
proof -
  assume p: "pool_ok p" and q: "pool_ok q" and eq: "listKey (fst p) (snd p) = listKey (fst q) (snd q)"
  have cut: "takeWhile (\<lambda>c. c \<noteq> CHR ''|'') (a @ CHR ''|'' # b) = a" if "CHR ''|'' \<notin> set a" for a b
    using that by (subst takeWhile_append2) auto
  have f: "takeWhile (\<lambda>c. c \<noteq> CHR ''|'') (listKey (fst r) (snd r)) = fst r" if "pool_ok r" for r
    using that cut by (simp add: listKey_def pool_ok_def)
  from f [OF p] f [OF q] eq have 1: "fst p = fst q" by simp
  with eq have "option_or (snd p) ''(shared)'' = option_or (snd q) ''(shared)''" by (simp add: listKey_def)
  with p q have "snd p = snd q" by (cases "snd p"; cases "snd q") (auto simp: pool_ok_def)
  with 1 show "p = q" by (rule prod_eqI)
qed

text \<open>A list is looked up by its flat name.\<close>

definition list_seen :: "rat option \<Rightarrow> rat \<Rightarrow> string \<Rightarrow> 'r key_cache \<Rightarrow> 'r list option" where
  "list_seen env t name c = fst (cache_get (ttlMs env) t name (list_cache c))"

definition list_put :: "rat option \<Rightarrow> rat \<Rightarrow> string \<Rightarrow> 'r list \<Rightarrow> 'r key_cache \<Rightarrow> 'r key_cache" where
  "list_put env t name rows c = c\<lparr>list_cache := cache_put (ttlMs env) t name rows (list_cache c)\<rparr>"

lemma cache_get_put: "0 < ttl \<Longrightarrow> fst (cache_get ttl t k (cache_put ttl t0 k' v m)) =
    (if k = k' then (if t < t0 + ttl then Some v else None) else fst (cache_get ttl t k m))"
  by (auto simp: cache_get_def cache_put_def update_conv' split: option.splits)

lemma cache_get_delete: "fst (cache_get ttl t k (AList.delete k' m)) =
    (if k = k' then None else fst (cache_get ttl t k m))"
  by (auto simp: cache_get_def delete_conv' split: option.splits)

lemma cache_get_Nil [simp]: "fst (cache_get ttl t k []) = None"
  by (simp add: cache_get_def)

lemma fst_getKeyRow: "fst (getKeyRow env k t c) = fst (cache_get (ttlMs env) t k (row_cache c))"
  by (simp add: getKeyRow_def split: prod.split)

lemma fst_getKeyList: "fst (getKeyList env p ow t c) = fst (cache_get (ttlMs env) t (listKey p ow) (list_cache c))"
  by (simp add: getKeyList_def split: prod.split)

lemma getKeyList_seen: "fst (getKeyList env p ow t c) = list_seen env t (listKey p ow) c"
  by (simp add: list_seen_def fst_getKeyList)

lemma setKeyList_put: "setKeyList env p ow rows t c = list_put env t (listKey p ow) rows c"
  by (simp add: list_put_def setKeyList_def)

lemma cache_off [simp]: "fst (cache_get 0 t k m) = None"
  by (simp add: cache_get_def)

interpretation rows: timed_cache "row_seen env" "\<lambda>t k v. setKeyRow env k v t" forgetKeyRow
    "\<lambda>d k. d = None \<or> d = Some k" empty_key_cache "ttlMs env" for env
  by unfold_locales
    (auto simp: row_seen_def fst_getKeyRow setKeyRow_def forgetKeyRow_def empty_key_cache_def ttlMs_nonneg
      cache_get_put cache_get_delete split: option.split)

interpretation lists: timed_cache "list_seen env" "list_put env" forgetKeyRow
    "\<lambda>d k. True" empty_key_cache "ttlMs env" for env
  by unfold_locales
    (auto simp: list_seen_def list_put_def forgetKeyRow_def empty_key_cache_def ttlMs_nonneg cache_get_put
      split: option.split)

subsection \<open>One write per window\<close>

fun last_used_run :: "rat option \<Rightarrow> string \<Rightarrow> rat list \<Rightarrow> (string, rat) jsmap \<Rightarrow> bool list" where
  "last_used_run env k [] m = []"
| "last_used_run env k (t # ts) m = (case shouldWriteLastUsed env k t m of
     (b, m') \<Rightarrow> b # last_used_run env k ts m')"

text \<open>The instants at which a use was written through.\<close>

definition writes_at :: "rat option \<Rightarrow> string \<Rightarrow> rat list \<Rightarrow> (string, rat) jsmap \<Rightarrow> rat list" where
  "writes_at env k ts m = map fst (filter snd (zip ts (last_used_run env k ts m)))"

lemma writes_at_step: "writes_at env k (t # ts) m = (case shouldWriteLastUsed env k t m of
    (b, m') \<Rightarrow> (if b then [t] else []) @ writes_at env k ts m')"
  by (simp add: writes_at_def split: prod.split)

fun spaced :: "rat \<Rightarrow> rat list \<Rightarrow> bool" where
  "spaced w (a # b # ts) = (w \<le> b - a \<and> spaced w (b # ts))"
| "spaced w ts = True"

lemma spaced_Cons: "spaced w (a # ts) \<longleftrightarrow> (ts = [] \<or> w \<le> hd ts - a) \<and> spaced w ts"
  by (cases ts) auto

lemma writes_spaced_aux:
  assumes "windowMs env \<noteq> 0"
  shows "spaced (windowMs env) (writes_at env k ts m) \<and>
    (\<forall>p. map_of m k = Some p \<longrightarrow> writes_at env k ts m \<noteq> [] \<longrightarrow> windowMs env \<le> hd (writes_at env k ts m) - p)"
proof (induction ts arbitrary: m)
  case Nil
  then show ?case by (simp add: writes_at_def)
next
  case (Cons t ts)
  show ?case
  proof (cases "case map_of m k of Some p \<Rightarrow> t - p < windowMs env | None \<Rightarrow> False")
    case True
    then have "shouldWriteLastUsed env k t m = (False, m)"
      using assms by (simp add: shouldWriteLastUsed_def Let_def)
    with Cons show ?thesis by (simp add: writes_at_step)
  next
    case False
    then have s: "shouldWriteLastUsed env k t m = (True, AList.update k t m)"
      using assms by (simp add: shouldWriteLastUsed_def Let_def)
    have "map_of (AList.update k t m) k = Some t" by (simp add: update_conv')
    with Cons [of "AList.update k t m"] s False show ?thesis
      by (auto simp: writes_at_step spaced_Cons split: option.splits)
  qed
qed

subsection \<open>Property\<close>

text \<open>
  Whatever the order and number of uses, the instants at which a key's last use is written to the
  table are at least the write window apart, so a busy key costs one write per window.
\<close>

theorem last_used_writes_spaced:
  assumes "windowMs env \<noteq> 0"
  shows "spaced (windowMs env) (writes_at env k ts [])"
  using writes_spaced_aux [OF assms] by blast

theorem last_used_writes_spaced_witness:
  "spaced (windowMs None) (writes_at None ''k'' [0, 10, 6000] []) \<and> writes_at None ''k'' [0, 10, 6000] [] = [0, 6000]"
  by (rule conjI [OF last_used_writes_spaced]) code_simp+

end
