(* ===== verification/Key_Rows.thy ===== *)
theory Key_Rows
  imports Key_Caches "HOL-Library.List_Lexorder" "HOL-Library.Option_ord" "HOL-Library.Product_Lexorder"
begin

text \<open>
  The key table as the router sees it: the KeyStore port (\<open>src/core/ports/keyStore.ts\<close>), its answer over
  the database (\<open>src/adapters/prisma/keyStore.ts\<close>, \<open>keyOrder.ts\<close>) as functions on the list of rows, and
  the contract the router relies on as the locale \<open>key_store\<close>. Inside it, once: the caches of
  \<open>keyRowCache.ts\<close> keep mirroring the table through every read and every write the router makes.
\<close>

subsection \<open>Rows\<close>

record key_row =
  kr_id :: string
  kr_providerId :: string
  kr_status :: string
  kr_ownerTeamId :: "string option"
  kr_maxUsers :: int
  kr_rpmLimit :: int
  kr_tpmLimit :: int
  kr_encryptedKey :: string

record db_key = key_row +
  dk_lastUsedAt :: "int option"
  dk_coolingUntil :: "int option"

definition usable :: "'a key_row_scheme \<Rightarrow> bool" where
  "usable r \<longleftrightarrow> kr_status r \<in> {''active'', ''cooling''}"

definition project :: "db_key \<Rightarrow> key_row" where
  "project r = key_row.truncate r"

subsection \<open>The adapter\<close>

text \<open>\<open>KEY_ROUTING_ORDER\<close>: never used first, then least recently used, ties by id.\<close>

definition routing_order :: "db_key \<Rightarrow> int option \<times> string" where
  "routing_order r = (dk_lastUsedAt r, kr_id r)"

definition listRoutable :: "db_key list \<Rightarrow> string \<Rightarrow> string option \<Rightarrow> key_row list" where
  "listRoutable rows providerId ownerTeamId = map project (sort_key routing_order
     (filter (\<lambda>r. kr_providerId r = providerId \<and> usable r \<and> kr_ownerTeamId r = ownerTeamId) rows))"

definition findRoutable :: "db_key list \<Rightarrow> string \<Rightarrow> key_row option" where
  "findRoutable rows keyId = map_option project (find (\<lambda>r. kr_id r = keyId) rows)"

definition updateMany :: "(db_key \<Rightarrow> bool) \<Rightarrow> (db_key \<Rightarrow> db_key) \<Rightarrow> db_key list \<Rightarrow> db_key list" where
  "updateMany sel f rows = map (\<lambda>r. if sel r then f r else r) rows"

text \<open>\<open>update\<close> on a unique key: it throws when there is no such row.\<close>

definition update_row :: "string \<Rightarrow> (db_key \<Rightarrow> db_key) \<Rightarrow> db_key list \<Rightarrow> db_key list option" where
  "update_row keyId f rows =
     (if list_ex (\<lambda>r. kr_id r = keyId) rows then Some (updateMany (\<lambda>r. kr_id r = keyId) f rows) else None)"

definition touchLastUsed :: "string \<Rightarrow> int \<Rightarrow> db_key list \<Rightarrow> db_key list" where
  "touchLastUsed keyId at_time = updateMany (\<lambda>r. kr_id r = keyId) (\<lambda>r. r\<lparr>dk_lastUsedAt := Some at_time\<rparr>)"

definition markBanned :: "string \<Rightarrow> db_key list \<Rightarrow> db_key list option" where
  "markBanned keyId = update_row keyId (\<lambda>r. r\<lparr>kr_status := ''banned''\<rparr>)"

definition markCooling :: "string \<Rightarrow> int \<Rightarrow> db_key list \<Rightarrow> db_key list option" where
  "markCooling keyId until_time =
     update_row keyId (\<lambda>r. r\<lparr>kr_status := ''cooling'', dk_coolingUntil := Some until_time\<rparr>)"

definition markRecovered :: "string \<Rightarrow> db_key list \<Rightarrow> db_key list" where
  "markRecovered keyId = updateMany (\<lambda>r. kr_id r = keyId \<and> kr_status r = ''cooling'')
     (\<lambda>r. r\<lparr>kr_status := ''active'', dk_coolingUntil := None\<rparr>)"

fun opt_min :: "int option list \<Rightarrow> int option" where
  "opt_min [] = None"
| "opt_min (None # ts) = opt_min ts"
| "opt_min (Some t # ts) = (case opt_min ts of None \<Rightarrow> Some t | Some u \<Rightarrow> Some (min t u))"

definition nextCoolingUntil :: "db_key list \<Rightarrow> int option" where
  "nextCoolingUntil rows = opt_min (map dk_coolingUntil (filter (\<lambda>r. kr_status r = ''cooling'') rows))"

definition countOwnedUsable :: "string \<Rightarrow> db_key list \<Rightarrow> nat" where
  "countOwnedUsable teamId rows = length (filter (\<lambda>r. kr_ownerTeamId r = Some teamId \<and> usable r) rows)"

subsection \<open>The contract\<close>

text \<open>What a cached entry may say, given what the table answers for each key.\<close>

definition mirrors :: "(string \<Rightarrow> key_row option) \<Rightarrow> key_row key_cache \<Rightarrow> bool" where
  "mirrors find_row c \<longleftrightarrow>
     (\<forall>k e. map_of (row_cache c) k = Some e \<longrightarrow> t_val e = find_row k) \<and>
     (\<forall>p e. pool_ok p \<longrightarrow> map_of (list_cache c) (listKey (fst p) (snd p)) = Some e \<longrightarrow>
        (\<forall>r \<in> set (t_val e). find_row (kr_id r) = Some r \<and> kr_providerId r = fst p \<and>
           kr_ownerTeamId r = snd p \<and> usable r))"

lemma mirrors_row: "mirrors f c \<Longrightarrow> map_of (row_cache c) k = Some e \<Longrightarrow> t_val e = f k"
  by (simp add: mirrors_def)

lemma mirrors_list:
  "mirrors f c \<Longrightarrow> pool_ok (p, ow) \<Longrightarrow> map_of (list_cache c) (listKey p ow) = Some e \<Longrightarrow> r \<in> set (t_val e) \<Longrightarrow>
   f (kr_id r) = Some r \<and> kr_providerId r = p \<and> kr_ownerTeamId r = ow \<and> usable r"
  unfolding mirrors_def by (drule conjunct2) (metis fst_conv snd_conv)

lemma mirrorsI:
  assumes "\<And>k e. map_of (row_cache c) k = Some e \<Longrightarrow> t_val e = f k"
    and "\<And>p ow e r. pool_ok (p, ow) \<Longrightarrow> map_of (list_cache c) (listKey p ow) = Some e \<Longrightarrow> r \<in> set (t_val e) \<Longrightarrow>
      f (kr_id r) = Some r \<and> kr_providerId r = p \<and> kr_ownerTeamId r = ow \<and> usable r"
  shows "mirrors f c"
  unfolding mirrors_def
proof (intro conjI allI impI ballI)
  fix p :: "string \<times> string option" and e r
  assume ok: "pool_ok p" and e: "map_of (list_cache c) (listKey (fst p) (snd p)) = Some e" "r \<in> set (t_val e)"
  from ok have "pool_ok (fst p, snd p)" by simp
  from assms(2) [OF this e]
  show "f (kr_id r) = Some r" "kr_providerId r = fst p" "kr_ownerTeamId r = snd p" "usable r" by simp_all
qed (rule assms(1))

lemma mirrors_empty: "mirrors f \<lparr>row_cache = [], list_cache = []\<rparr>"
  by (rule mirrorsI) simp_all

locale key_store =
  fixes list_routable :: "'s \<Rightarrow> string \<Rightarrow> string option \<Rightarrow> key_row list"
    and find_routable :: "'s \<Rightarrow> string \<Rightarrow> key_row option"
    and touch :: "string \<Rightarrow> int \<Rightarrow> 's \<Rightarrow> 's"
    and ban :: "string \<Rightarrow> 's \<Rightarrow> 's option"
    and cool :: "string \<Rightarrow> int \<Rightarrow> 's \<Rightarrow> 's option"
    and recover :: "string \<Rightarrow> 's \<Rightarrow> 's"
    and table_ok :: "'s \<Rightarrow> bool"
  assumes listed: "table_ok s \<Longrightarrow> r \<in> set (list_routable s p ow) \<longleftrightarrow>
      find_routable s (kr_id r) = Some r \<and> kr_providerId r = p \<and> kr_ownerTeamId r = ow \<and> usable r"
    and found_id: "find_routable s k = Some r \<Longrightarrow> kr_id r = k"
    and find_touch: "find_routable (touch k t s) k' = find_routable s k'"
    and find_ban: "ban k s = Some s' \<Longrightarrow> find_routable s' k' =
      (if k = k' then map_option (\<lambda>r. r\<lparr>kr_status := ''banned''\<rparr>) (find_routable s k') else find_routable s k')"
    and find_cool: "cool k t s = Some s' \<Longrightarrow> find_routable s' k' =
      (if k = k' then map_option (\<lambda>r. r\<lparr>kr_status := ''cooling''\<rparr>) (find_routable s k') else find_routable s k')"
    and find_recover: "find_routable (recover k s) k' =
      (if k = k' then map_option (\<lambda>r. if kr_status r = ''cooling'' then r\<lparr>kr_status := ''active''\<rparr> else r) (find_routable s k')
       else find_routable s k')"
    and ok_touch: "table_ok s \<Longrightarrow> table_ok (touch k t s)"
    and ok_ban: "table_ok s \<Longrightarrow> ban k s = Some s' \<Longrightarrow> table_ok s'"
    and ok_cool: "table_ok s \<Longrightarrow> cool k t s = Some s' \<Longrightarrow> table_ok s'"
    and ok_recover: "table_ok s \<Longrightarrow> table_ok (recover k s)"
begin

lemma touch_same: "find_routable (touch k t s) = find_routable s"
  by (rule ext) (rule find_touch)

text \<open>A refill stores what the table says now, under the name of the pool it was read for.\<close>

lemma refill_list:
  assumes "mirrors (find_routable s) c" "table_ok s" "pool_ok (p, ow)"
  shows "mirrors (find_routable s) (setKeyList env p ow (list_routable s p ow) t c)"
proof (rule mirrorsI)
  fix k e assume "map_of (row_cache (setKeyList env p ow (list_routable s p ow) t c)) k = Some e"
  with assms(1) show "t_val e = find_routable s k" by (simp add: setKeyList_def mirrors_row)
next
  fix p' ow' e r
  assume ok: "pool_ok (p', ow')" and e: "map_of (list_cache (setKeyList env p ow (list_routable s p ow) t c)) (listKey p' ow') = Some e"
    and r: "r \<in> set (t_val e)"
  show "find_routable s (kr_id r) = Some r \<and> kr_providerId r = p' \<and> kr_ownerTeamId r = ow' \<and> usable r"
  proof (cases "ttlMs env \<noteq> 0 \<and> listKey p' ow' = listKey p ow")
    case True
    with ok assms(3) listKey_inj [of "(p', ow')" "(p, ow)"] have "p' = p" "ow' = ow" by simp_all
    with True e r listed [OF assms(2)] show ?thesis by (auto simp: setKeyList_def cache_put_def update_conv')
  next
    case False
    with e have "map_of (list_cache c) (listKey p' ow') = Some e"
      by (auto simp: setKeyList_def cache_put_def update_conv' split: if_splits)
    with assms(1) ok r show ?thesis by (auto dest: mirrors_list)
  qed
qed

lemma refill_row:
  assumes "mirrors (find_routable s) c"
  shows "mirrors (find_routable s) (setKeyRow env k (find_routable s k) t c)"
proof (rule mirrorsI)
  fix k' e assume "map_of (row_cache (setKeyRow env k (find_routable s k) t c)) k' = Some e"
  with assms show "t_val e = find_routable s k'"
    by (auto simp: setKeyRow_def cache_put_def update_conv' dest: mirrors_row split: if_splits)
next
  fix p ow e r
  assume "pool_ok (p, ow)" "map_of (list_cache (setKeyRow env k (find_routable s k) t c)) (listKey p ow) = Some e"
    "r \<in> set (t_val e)"
  with assms show "find_routable s (kr_id r) = Some r \<and> kr_providerId r = p \<and> kr_ownerTeamId r = ow \<and> usable r"
    by (simp add: setKeyRow_def mirrors_list)
qed

text \<open>A write to one key followed by \<open>forgetKeyRow\<close> of that key: nothing cached is about the old row.\<close>

lemma forget_written:
  assumes "mirrors f c" "\<And>k'. k' \<noteq> k \<Longrightarrow> g k' = f k'"
  shows "mirrors g (forgetKeyRow (Some k) c)"
proof (rule mirrorsI)
  fix k' e assume "map_of (row_cache (forgetKeyRow (Some k) c)) k' = Some e"
  with assms show "t_val e = g k'"
    by (auto simp: forgetKeyRow_def delete_conv' dest: mirrors_row split: if_splits)
qed (simp add: forgetKeyRow_def)

lemma ban_forget:
  "mirrors (find_routable s) c \<Longrightarrow> ban k s = Some s' \<Longrightarrow> mirrors (find_routable s') (forgetKeyRow (Some k) c)"
  by (erule forget_written) (simp add: find_ban)

lemma cool_forget:
  "mirrors (find_routable s) c \<Longrightarrow> cool k t s = Some s' \<Longrightarrow> mirrors (find_routable s') (forgetKeyRow (Some k) c)"
  by (erule forget_written) (simp add: find_cool)

lemma recover_forget:
  "mirrors (find_routable s) c \<Longrightarrow> mirrors (find_routable (recover k s)) (forgetKeyRow (Some k) c)"
  by (erule forget_written) (simp add: find_recover)

lemma banned_unlisted:
  assumes "table_ok s" "ban k s = Some s'" "r \<in> set (list_routable s' p ow)"
  shows "kr_id r \<noteq> k"
proof
  assume k: "kr_id r = k"
  from listed [OF ok_ban [OF assms(1, 2)]] assms(3) have f: "find_routable s' (kr_id r) = Some r" and u: "usable r"
    by blast+
  from f k find_ban [OF assms(2), of k] have "kr_status r = ''banned''" by auto
  with u show False by (simp add: usable_def)
qed

end

subsection \<open>The adapter keeps the contract\<close>

lemma project_simps [simp]:
  "kr_id (project r) = kr_id r" "kr_providerId (project r) = kr_providerId r" "kr_status (project r) = kr_status r"
  "kr_ownerTeamId (project r) = kr_ownerTeamId r" "usable (project r) = usable r"
  by (simp_all add: project_def key_row.defs usable_def)

lemma find_updateMany:
  assumes "\<And>r. kr_id (f r) = kr_id r"
  shows "find (\<lambda>r. kr_id r = k) (updateMany sel f rows) =
    map_option (\<lambda>r. if sel r then f r else r) (find (\<lambda>r. kr_id r = k) rows)"
  by (induction rows) (simp_all add: updateMany_def assms)

lemma ids_updateMany: "(\<And>r. kr_id (f r) = kr_id r) \<Longrightarrow> map kr_id (updateMany sel f rows) = map kr_id rows"
  by (simp add: updateMany_def)

lemma find_unique: "distinct (map kr_id rows) \<Longrightarrow> find (\<lambda>r. kr_id r = k) rows = Some x \<longleftrightarrow> x \<in> set rows \<and> kr_id x = k"
  by (induction rows) (auto simp: image_iff)

lemma found_has_id: "find (\<lambda>r. kr_id r = k) rows = Some x \<Longrightarrow> kr_id x = k"
  by (induction rows) (auto split: if_splits)

lemma find_project:
  assumes "\<And>r. kr_id (f r) = kr_id r" "\<And>r. kr_id r = k' \<Longrightarrow> sel r \<Longrightarrow> project (f r) = g (project r)"
    "\<And>r. kr_id r = k' \<Longrightarrow> \<not> sel r \<Longrightarrow> project r = g (project r)"
  shows "findRoutable (updateMany sel f rows) k' = map_option g (findRoutable rows k')"
  using assms(2, 3) by (cases "find (\<lambda>r. kr_id r = k') rows")
    (auto simp: findRoutable_def find_updateMany [OF assms(1)] dest: found_has_id)

lemma project_update:
  "project (r\<lparr>dk_lastUsedAt := t\<rparr>) = project r"
  "project (r\<lparr>kr_status := st\<rparr>) = (project r)\<lparr>kr_status := st\<rparr>"
  "project (r\<lparr>kr_status := st, dk_coolingUntil := u\<rparr>) = (project r)\<lparr>kr_status := st\<rparr>"
  by (simp_all add: project_def key_row.defs)

lemma update_row_find:
  assumes "update_row k f rows = Some rows'" "\<And>r. kr_id (f r) = kr_id r" "\<And>r. project (f r) = g (project r)"
  shows "findRoutable rows' k' = (if k = k' then map_option g (findRoutable rows k') else findRoutable rows k')"
proof -
  from assms(1) have rows': "rows' = updateMany (\<lambda>r. kr_id r = k) f rows"
    by (simp add: update_row_def split: if_splits)
  show ?thesis
  proof (cases "k = k'")
    case True
    then have "findRoutable (updateMany (\<lambda>r. kr_id r = k) f rows) k' = map_option g (findRoutable rows k')"
      using assms(2, 3) by (intro find_project) simp_all
    with True show ?thesis by (simp add: rows')
  next
    case False
    then have "findRoutable (updateMany (\<lambda>r. kr_id r = k) f rows) k' = map_option (\<lambda>r. r) (findRoutable rows k')"
      using assms(2) by (intro find_project) simp_all
    with False show ?thesis by (simp add: rows' option.map_ident)
  qed
qed

lemma listRoutable_iff:
  assumes "distinct (map kr_id rows)"
  shows "r \<in> set (listRoutable rows p ow) \<longleftrightarrow>
    findRoutable rows (kr_id r) = Some r \<and> kr_providerId r = p \<and> kr_ownerTeamId r = ow \<and> usable r"
proof
  assume "r \<in> set (listRoutable rows p ow)"
  then obtain x where "x \<in> set rows" "r = project x" "kr_providerId x = p" "usable x" "kr_ownerTeamId x = ow"
    by (auto simp: listRoutable_def)
  moreover from this have "find (\<lambda>y. kr_id y = kr_id x) rows = Some x" by (simp add: find_unique [OF assms])
  ultimately show "findRoutable rows (kr_id r) = Some r \<and> kr_providerId r = p \<and> kr_ownerTeamId r = ow \<and> usable r"
    by (simp add: findRoutable_def)
next
  assume R: "findRoutable rows (kr_id r) = Some r \<and> kr_providerId r = p \<and> kr_ownerTeamId r = ow \<and> usable r"
  then obtain x where x: "find (\<lambda>y. kr_id y = kr_id r) rows = Some x" "r = project x" by (auto simp: findRoutable_def)
  from x(1) have "x \<in> set rows" by (simp add: find_unique [OF assms])
  with R x(2) show "r \<in> set (listRoutable rows p ow)" by (auto simp: listRoutable_def)
qed

lemma update_row_ids: "update_row k f rows = Some rows' \<Longrightarrow> (\<And>r. kr_id (f r) = kr_id r) \<Longrightarrow>
    map kr_id rows' = map kr_id rows"
  by (auto simp: update_row_def ids_updateMany split: if_splits)

interpretation keys: key_store listRoutable findRoutable touchLastUsed markBanned markCooling markRecovered
    "\<lambda>rows. distinct (map kr_id rows)"
proof unfold_locales
  fix s k k' t s'
  show "findRoutable (touchLastUsed k t s) k' = findRoutable s k'"
    unfolding touchLastUsed_def
    by (subst find_project [where g = "\<lambda>r. r"]) (simp_all add: project_update option.map_ident)
  show "markBanned k s = Some s' \<Longrightarrow> findRoutable s' k' =
      (if k = k' then map_option (\<lambda>r. r\<lparr>kr_status := ''banned''\<rparr>) (findRoutable s k') else findRoutable s k')"
    unfolding markBanned_def by (erule update_row_find) (simp_all add: project_update)
  show "markCooling k t s = Some s' \<Longrightarrow> findRoutable s' k' =
      (if k = k' then map_option (\<lambda>r. r\<lparr>kr_status := ''cooling''\<rparr>) (findRoutable s k') else findRoutable s k')"
    unfolding markCooling_def by (erule update_row_find) (simp_all add: project_update)
  show "findRoutable (markRecovered k s) k' =
      (if k = k' then map_option (\<lambda>r. if kr_status r = ''cooling'' then r\<lparr>kr_status := ''active''\<rparr> else r) (findRoutable s k')
       else findRoutable s k')"
    unfolding markRecovered_def
    by (subst find_project [where g = "\<lambda>r. if k = k' \<and> kr_status r = ''cooling'' then r\<lparr>kr_status := ''active''\<rparr> else r"])
      (auto simp: project_update option.map_ident)
  show "distinct (map kr_id s) \<Longrightarrow> distinct (map kr_id (touchLastUsed k t s))"
    by (simp add: touchLastUsed_def ids_updateMany)
  show "distinct (map kr_id s) \<Longrightarrow> distinct (map kr_id (markRecovered k s))"
    by (simp add: markRecovered_def ids_updateMany)
  show "distinct (map kr_id s) \<Longrightarrow> markBanned k s = Some s' \<Longrightarrow> distinct (map kr_id s')"
    by (simp add: markBanned_def update_row_ids)
  show "distinct (map kr_id s) \<Longrightarrow> markCooling k t s = Some s' \<Longrightarrow> distinct (map kr_id s')"
    by (simp add: markCooling_def update_row_ids)
  show "findRoutable s k = Some r \<Longrightarrow> kr_id r = k" for r
    by (auto simp: findRoutable_def dest: found_has_id)
qed (rule listRoutable_iff)

text \<open>The cooldown shown to a client is the earliest one: no cooling key comes back before it.\<close>

lemma opt_min_least: "Some t \<in> set ts \<Longrightarrow> \<exists>u. opt_min ts = Some u \<and> u \<le> t"
  by (induction ts rule: opt_min.induct) (auto split: option.splits intro: min.coboundedI2)

lemma opt_min_in: "opt_min ts = Some u \<Longrightarrow> Some u \<in> set ts"
  by (induction ts rule: opt_min.induct) (auto split: option.splits simp: min_def split: if_splits)

text \<open>Routing order: a key never used comes before one that was, and a later use later.\<close>

lemma routing_order_sorted: "sorted (map routing_order (sort_key routing_order rows))"
  by simp

end
