(* ===== verification/Providers.thy ===== *)
theory Providers
  imports Js_Map
begin

text \<open>
  \<open>src/data/providers.ts\<close>, the preset table and its lookups, and \<open>src/lib/keyPrefix.ts\<close>, the
  paste-the-wrong-key check that reads it. The columns that are prose for an operator
  (\<open>billingNote\<close>, \<open>verifyNote\<close>, \<open>accountPlaceholder\<close>, \<open>note\<close>) decide nothing and are left out;
  the dash of the message is written in ASCII.
\<close>

subsection \<open>The table\<close>

datatype verified = VerifiedChat | VerifiedModels | Unverified

record provider_preset =
  pp_slug :: string
  pp_label :: string
  pp_baseUrl :: string
  pp_authHeader :: string
  pp_authPrefix :: string
  pp_modelFetchUrl :: "string option"
  pp_modelIdPath :: string
  pp_extraHeaders :: "(string \<times> string) list"
  pp_keyPrefixes :: "string list"
  pp_publishesPricing :: bool
  pp_streamUsageOption :: bool
  pp_verified :: verified

text \<open>The shape most rows share: a bearer token, ids under \<open>data[].id\<close>, no extra header.\<close>

definition bearer_preset :: "string \<Rightarrow> string \<Rightarrow> string \<Rightarrow> string list \<Rightarrow> bool \<Rightarrow> bool \<Rightarrow> verified \<Rightarrow> provider_preset" where
  "bearer_preset slug label baseUrl prefixes pricing stream_usage ver =
     \<lparr>pp_slug = slug, pp_label = label, pp_baseUrl = baseUrl, pp_authHeader = ''Authorization'',
      pp_authPrefix = ''Bearer'', pp_modelFetchUrl = None, pp_modelIdPath = ''data[].id'', pp_extraHeaders = [],
      pp_keyPrefixes = prefixes, pp_publishesPricing = pricing, pp_streamUsageOption = stream_usage,
      pp_verified = ver\<rparr>"

definition PROVIDER_PRESETS :: "provider_preset list" where
  "PROVIDER_PRESETS =
    [bearer_preset ''openai'' ''OpenAI'' ''https://api.openai.com/v1'' [] False False Unverified,
     (bearer_preset ''anthropic'' ''Anthropic'' ''https://api.anthropic.com/v1'' [''sk-ant-''] False False Unverified)
       \<lparr>pp_authHeader := ''x-api-key'', pp_authPrefix := [],
        pp_extraHeaders := [(''anthropic-version'', ''2023-06-01'')]\<rparr>,
     bearer_preset ''google'' ''Google'' ''https://generativelanguage.googleapis.com/v1beta/openai'' [''AIza'']
       False True VerifiedChat,
     bearer_preset ''groq'' ''Groq'' ''https://api.groq.com/openai/v1'' [''gsk_''] True True VerifiedChat,
     bearer_preset ''openrouter'' ''OpenRouter'' ''https://openrouter.ai/api/v1'' [''sk-or-''] True True VerifiedChat,
     bearer_preset ''mistral'' ''Mistral'' ''https://api.mistral.ai/v1'' [] False True VerifiedChat,
     bearer_preset ''huggingface'' ''HuggingFace'' ''https://router.huggingface.co/v1'' [''hf_''] False True VerifiedChat,
     (bearer_preset ''cloudflare'' ''Cloudflare Workers AI''
         ''https://api.cloudflare.com/client/v4/accounts/{account_id}/ai/v1'' [] False True VerifiedChat)
       \<lparr>pp_modelFetchUrl := Some ''https://api.cloudflare.com/client/v4/accounts/{account_id}/ai/models/search'',
        pp_modelIdPath := ''result[].name''\<rparr>,
     bearer_preset ''cerebras'' ''Cerebras'' ''https://api.cerebras.ai/v1'' [] False False VerifiedModels,
     bearer_preset ''custom'' ''Custom'' [] [] False False Unverified]"

text \<open>\<open>new Map(list.map(p => [p.slug, p]))\<close>: a later row would replace an earlier one.\<close>

definition BY_SLUG :: "(string, provider_preset) jsmap" where
  "BY_SLUG = fold (\<lambda>p m. AList.update (pp_slug p) p m) PROVIDER_PRESETS []"

definition presetFor :: "string \<Rightarrow> provider_preset option" where
  "presetFor slug = map_of BY_SLUG slug"

definition providerDefaultUrl :: "string \<Rightarrow> string" where
  "providerDefaultUrl slug = (case presetFor slug of Some p \<Rightarrow> pp_baseUrl p | None \<Rightarrow> [])"

definition providerLabel :: "string \<Rightarrow> string" where
  "providerLabel slug = (case presetFor slug of Some p \<Rightarrow> pp_label p | None \<Rightarrow> slug)"

definition publishesPricing :: "string \<Rightarrow> bool" where
  "publishesPricing slug = (case presetFor slug of Some p \<Rightarrow> pp_publishesPricing p | None \<Rightarrow> False)"

definition supportsStreamUsageOption :: "string \<Rightarrow> bool" where
  "supportsStreamUsageOption slug = (case presetFor slug of Some p \<Rightarrow> pp_streamUsageOption p | None \<Rightarrow> False)"

subsection \<open>The issuer of a key\<close>

definition DISTINCTIVE :: "(string \<times> string) list" where
  "DISTINCTIVE = concat (map (\<lambda>p. map (\<lambda>prefix. (pp_slug p, prefix)) (pp_keyPrefixes p)) PROVIDER_PRESETS)"

definition withArticle :: "string \<Rightarrow> string" where
  "withArticle label =
     (if label \<noteq> [] \<and> hd (to_lower label) \<in> set ''aeiou'' then ''an '' else ''a '') @ label"

text \<open>The loop keeps the longest stamp seen, the first of equal ones.\<close>

definition better_stamp :: "string \<Rightarrow> string \<times> string \<Rightarrow> (string \<times> nat) option \<Rightarrow> (string \<times> nat) option" where
  "better_stamp key sp best = (case sp of (slug, prefix) \<Rightarrow>
     if take (length prefix) key = prefix
        \<and> (case best of None \<Rightarrow> True | Some (_, n) \<Rightarrow> n < length prefix)
     then Some (slug, length prefix) else best)"

definition issuerOf :: "string \<Rightarrow> string option" where
  "issuerOf apiKey = map_option fst (fold (better_stamp (trim apiKey)) DISTINCTIVE None)"

definition keyProviderMismatch :: "string \<Rightarrow> string \<Rightarrow> string option" where
  "keyProviderMismatch providerSlug apiKey =
     (if trim apiKey = [] then None
      else if providerSlug = ''custom'' \<or> presetFor providerSlug = None then None
      else case issuerOf apiKey of
          None \<Rightarrow> None
        | Some issuer \<Rightarrow> if issuer = providerSlug then None
            else Some (''This looks like '' @ withArticle (providerLabel issuer) @ '' key, but this pool is ''
              @ providerLabel providerSlug @ ''. A pool serves one provider -- add ''
              @ withArticle (providerLabel issuer) @ '' pool for this key, or paste ''
              @ withArticle (providerLabel providerSlug) @ '' key here.''))"

subsection \<open>What the check convicts\<close>

lemma distinctive_stamps:
  "DISTINCTIVE = [(''anthropic'', ''sk-ant-''), (''google'', ''AIza''), (''groq'', ''gsk_''),
    (''openrouter'', ''sk-or-''), (''huggingface'', ''hf_'')]"
  by (simp add: DISTINCTIVE_def PROVIDER_PRESETS_def bearer_preset_def)

lemma distinct_slugs: "distinct (map pp_slug PROVIDER_PRESETS)"
  by (simp add: PROVIDER_PRESETS_def bearer_preset_def)

text \<open>No stamp starts another, so at most one row matches a key and the order of the rows is irrelevant.\<close>

definition carries :: "string \<Rightarrow> string \<Rightarrow> bool" where
  "carries key stamp \<longleftrightarrow> take (length stamp) (trim key) = stamp"

definition unshadowed :: "(string \<times> string) list \<Rightarrow> bool" where
  "unshadowed sps \<longleftrightarrow> list_all (\<lambda>(s, p). list_all (\<lambda>(s', p').
     s = s' \<or> take (min (length p) (length p')) p \<noteq> take (min (length p) (length p')) p') sps) sps"

lemma unshadowed_table: "unshadowed DISTINCTIVE"
  by (simp add: unshadowed_def distinctive_stamps)

lemma both_carried:
  assumes "take (length p) k = p" "take (length q) k = q"
  shows "take (min (length p) (length q)) p = take (min (length p) (length q)) q"
proof -
  have "take (min (length p) (length q)) p = take (min (length p) (length q)) k"
    by (metis assms(1) min.cobounded1 min.commute min_def take_take)
  moreover have "take (min (length p) (length q)) q = take (min (length p) (length q)) k"
    by (metis assms(2) min.cobounded2 min_def take_take)
  ultimately show ?thesis by simp
qed

lemma one_issuer:
  assumes "(s, p) \<in> set DISTINCTIVE" "(s', p') \<in> set DISTINCTIVE" "carries k p" "carries k p'"
  shows "s = s'"
proof (rule ccontr)
  assume "s \<noteq> s'"
  with unshadowed_table assms(1, 2)
  have "take (min (length p) (length p')) p \<noteq> take (min (length p) (length p')) p'"
    by (auto simp: unshadowed_def list_all_iff)
  with both_carried [of p "trim k" p'] assms(3, 4) show False by (simp add: carries_def)
qed

lemma fold_stamp_from:
  "fold (better_stamp key) sps best = Some (s, n) \<Longrightarrow>
   best = Some (s, n) \<or> (\<exists>p. (s, p) \<in> set sps \<and> take (length p) key = p)"
  by (induction sps arbitrary: best) (fastforce simp: better_stamp_def split: if_splits)+

lemma fold_stamp_some:
  "best \<noteq> None \<or> (\<exists>(s, p) \<in> set sps. take (length p) key = p) \<Longrightarrow> fold (better_stamp key) sps best \<noteq> None"
proof (induction sps arbitrary: best)
  case (Cons sp sps)
  obtain s p where sp: "sp = (s, p)" by (cases sp) simp
  have "better_stamp key sp best \<noteq> None \<or> (\<exists>(s, p) \<in> set sps. take (length p) key = p)"
    using Cons.prems by (cases best) (auto simp: better_stamp_def sp)
  from Cons.IH [OF this] show ?case by simp
qed simp

lemma issuerOf_iff: "issuerOf k = Some s \<longleftrightarrow> (\<exists>p. (s, p) \<in> set DISTINCTIVE \<and> carries k p)"
proof
  assume "issuerOf k = Some s"
  then obtain n where "fold (better_stamp (trim k)) DISTINCTIVE None = Some (s, n)"
    by (auto simp: issuerOf_def)
  from fold_stamp_from [OF this] show "\<exists>p. (s, p) \<in> set DISTINCTIVE \<and> carries k p"
    by (auto simp: carries_def)
next
  assume "\<exists>p. (s, p) \<in> set DISTINCTIVE \<and> carries k p"
  then obtain p where p: "(s, p) \<in> set DISTINCTIVE" "carries k p" by blast
  then have "fold (better_stamp (trim k)) DISTINCTIVE None \<noteq> None"
    by (intro fold_stamp_some) (auto simp: carries_def)
  then obtain s' n where f: "fold (better_stamp (trim k)) DISTINCTIVE None = Some (s', n)" by auto
  from fold_stamp_from [OF f] obtain p' where "(s', p') \<in> set DISTINCTIVE" "carries k p'"
    by (auto simp: carries_def)
  with p one_issuer have "s' = s" by blast
  with f show "issuerOf k = Some s" by (simp add: issuerOf_def)
qed

subsection \<open>Property\<close>

text \<open>
  A pasted credential is called wrong for a pool only when the pool's provider is a listed one and
  the credential carries the stamp of exactly one provider, another than the pool's; a credential that
  carries the pool's own stamp, or no stamp, is never questioned.
\<close>

theorem mismatch_accuses_by_stamp:
  "keyProviderMismatch slug k \<noteq> None \<longleftrightarrow>
     trim k \<noteq> [] \<and> slug \<noteq> ''custom'' \<and> presetFor slug \<noteq> None \<and>
     (\<exists>!s. \<exists>p. (s, p) \<in> set DISTINCTIVE \<and> carries k p) \<and>
     (\<forall>p. carries k p \<longrightarrow> (slug, p) \<notin> set DISTINCTIVE)"
proof (cases "issuerOf k")
  case None
  then have "\<nexists>s. \<exists>p. (s, p) \<in> set DISTINCTIVE \<and> carries k p" using issuerOf_iff [of k] by simp
  with None show ?thesis by (auto simp: keyProviderMismatch_def)
next
  case (Some s)
  then have s: "(\<exists>p. (t, p) \<in> set DISTINCTIVE \<and> carries k p) \<longleftrightarrow> t = s" for t
    using issuerOf_iff [of k t] by auto
  then have "\<exists>!t. \<exists>p. (t, p) \<in> set DISTINCTIVE \<and> carries k p" by simp
  moreover have "(\<forall>p. carries k p \<longrightarrow> (slug, p) \<notin> set DISTINCTIVE) \<longleftrightarrow> slug \<noteq> s"
    using s [of slug] by blast
  ultimately show ?thesis using Some by (simp add: keyProviderMismatch_def)
qed

end
