(* ===== verification/Discovery.thy ===== *)
theory Discovery
  imports Select_Spec Cost_Routing Key_Rows Providers
begin

text \<open>
  Which model, which pool, which key: \<open>src/services/routing/route.ts\<close>, \<open>pickKey.ts\<close> and
  \<open>discovery.ts\<close>, with the session pins of \<open>src/lib/sticky.ts\<close> they read. The gateway's state is its
  key-value store, the row caches, the last-used windows and the key table. What other services answer
  (the cost weight, the model registry, the active pools) are arguments, read once per request; the
  cipher is a parameter, \<open>None\<close> being a decryption that throws. A request runs at one instant.
\<close>

subsection \<open>Data\<close>

record provider_row =
  pr_id :: string
  pr_baseUrl :: "string option"
  pr_provider :: string
  pr_authHeader :: string
  pr_authPrefix :: "string option"
  pr_tier :: string
  pr_preferredModel :: "string option"
  pr_extraHeaders :: "string option"
  pr_nativeMessages :: "string option"

text \<open>A masked key: how many bullets, then the characters shown.\<close>

datatype key_mask = Mask nat string

definition maskKey :: "string \<Rightarrow> key_mask" where
  "maskKey key = (if length key < 4 then Mask 4 []
     else Mask (length key - 4) (drop (length key - 4) key))"

record route_model =
  rm_modelString :: string
  rm_modelId :: "string option"
  rm_tier :: string

record nexus_route =
  nr_keyId :: string
  nr_decryptedKey :: string
  nr_keyMask :: key_mask
  nr_baseUrl :: string
  nr_modelString :: string
  nr_modelId :: "string option"
  nr_providerSlug :: string
  nr_tier :: string
  nr_authHeader :: string
  nr_authPrefix :: "string option"
  nr_extraHeaders :: "string option"
  nr_nativeMessages :: "string option"
  nr_wasDowngrade :: bool
  nr_isProbe :: bool
  nr_sticky :: bool
  nr_byok :: bool
  nr_keyStatus :: string
  nr_rpmLimit :: int
  nr_tpmLimit :: int

record registry_entry =
  rg_model :: selectable_model
  rg_pricing :: pricing

datatype gw_error = KvFailed kv_error | CipherFailed | NoSuchKey

record gateway =
  g_kv :: store
  g_cache :: "key_row key_cache"
  g_written :: "(string, rat) jsmap"
  g_rows :: "db_key list"

type_synonym 'a gw = "(gateway, gw_error, 'a) run"

record gateway_env =
  ev_listTtl :: "rat option"
  ev_lastUsedWindow :: "rat option"
  ev_decrypt :: "string \<Rightarrow> string \<Rightarrow> string option \<Rightarrow> string option"

definition on_kv :: "'a kv \<Rightarrow> 'a gw" where
  "on_kv m g = (case m (g_kv g) of (r, s) \<Rightarrow> (map_sum KvFailed id r, g\<lparr>g_kv := s\<rparr>))"

text \<open>\<open>if (x)\<close> on an optional string: the empty string is not there.\<close>

definition truthy :: "string option \<Rightarrow> bool" where
  "truthy x \<longleftrightarrow> x \<noteq> None \<and> x \<noteq> Some []"

definition SHARED_SCOPE :: routing_scope where
  "SHARED_SCOPE = \<lparr>rs_ownerTeamId = None, rs_fallbackToShared = True, rs_namespace = SHARED_NAMESPACE,
     rs_byokOnly = False\<rparr>"

subsection \<open>Building a route\<close>

text \<open>\<open>wasDowngrade\<close> and \<open>sticky\<close> are set by the caller; they are false here.\<close>

definition buildRoute :: "gateway_env \<Rightarrow> key_row \<Rightarrow> provider_row \<Rightarrow> breaker_gate \<Rightarrow> route_model \<Rightarrow> nexus_route gw" where
  "buildRoute E key provider gate model =
     (case ev_decrypt E (kr_encryptedKey key) (kr_id key) (kr_ownerTeamId key) of
        None \<Rightarrow> throw_m CipherFailed
      | Some plain \<Rightarrow> return_m
         \<lparr>nr_keyId = kr_id key, nr_decryptedKey = plain, nr_keyMask = maskKey plain,
          nr_baseUrl = option_or (pr_baseUrl provider) (providerDefaultUrl (pr_provider provider)),
          nr_modelString = rm_modelString model, nr_modelId = rm_modelId model,
          nr_providerSlug = pr_provider provider, nr_tier = rm_tier model,
          nr_authHeader = pr_authHeader provider, nr_authPrefix = pr_authPrefix provider,
          nr_extraHeaders = pr_extraHeaders provider, nr_nativeMessages = pr_nativeMessages provider,
          nr_wasDowngrade = False, nr_isProbe = (gate = GateProbe), nr_sticky = False,
          nr_byok = (kr_ownerTeamId key \<noteq> None), nr_keyStatus = kr_status key,
          nr_rpmLimit = kr_rpmLimit key, nr_tpmLimit = kr_tpmLimit key\<rparr>)"

subsection \<open>Picking one key\<close>

definition as_candidate :: "key_row \<Rightarrow> candidate" where
  "as_candidate r = \<lparr>c_id = kr_id r, c_rpmLimit = kr_rpmLimit r, c_tpmLimit = kr_tpmLimit r,
     c_maxUsers = of_int (kr_maxUsers r)\<rparr>"

definition pool_keys :: "gateway_env \<Rightarrow> int \<Rightarrow> string \<Rightarrow> string option \<Rightarrow> key_row list gw" where
  "pool_keys E now providerId ownerTeamId g =
     (case getKeyList (ev_listTtl E) providerId ownerTeamId (of_int now) (g_cache g) of
        (Some keys, c) \<Rightarrow> (Inr keys, g\<lparr>g_cache := c\<rparr>)
      | (None, c) \<Rightarrow>
          let keys = listRoutable (g_rows g) providerId ownerTeamId in
          (Inr keys, g\<lparr>g_cache := setKeyList (ev_listTtl E) providerId ownerTeamId keys (of_int now) c\<rparr>))"

definition pinned_key :: "gateway_env \<Rightarrow> int \<Rightarrow> string \<Rightarrow> key_row option gw" where
  "pinned_key E now keyId g =
     (case getKeyRow (ev_listTtl E) keyId (of_int now) (g_cache g) of
        (Some row, c) \<Rightarrow> (Inr row, g\<lparr>g_cache := c\<rparr>)
      | (None, c) \<Rightarrow>
          let row = findRoutable (g_rows g) keyId in
          (Inr row, g\<lparr>g_cache := setKeyRow (ev_listTtl E) keyId row (of_int now) c\<rparr>))"

definition write_last_used :: "gateway_env \<Rightarrow> int \<Rightarrow> string \<Rightarrow> unit gw" where
  "write_last_used E now keyId g =
     (case shouldWriteLastUsed (ev_lastUsedWindow E) keyId (of_int now) (g_written g) of
        (write, stamps) \<Rightarrow> (Inr (), g\<lparr>g_written := stamps,
           g_rows := (if write then touchLastUsed keyId now (g_rows g) else g_rows g)\<rparr>))"

definition tryPickKey :: "gateway_env \<Rightarrow> int \<Rightarrow> provider_row \<Rightarrow> reservation \<Rightarrow> string option \<Rightarrow> route_model
    \<Rightarrow> string option \<Rightarrow> (nexus_route option \<times> reservation) gw" where
  "tryPickKey E now provider reserve ownerTeamId model userId =
     (if rm_modelString model = [] then return_m (None, reserve)
      else bind_m (pool_keys E now (pr_id provider) ownerTeamId) (\<lambda>keys.
        bind_m (on_kv (selectAndReserve now now (map as_candidate keys) reserve userId)) (\<lambda>(chosen, reserve').
          case chosen of
            None \<Rightarrow> return_m (None, reserve')
          | Some c \<Rightarrow>
              if length keys \<le> s_index c then return_m (None, reserve')
              else let key = keys ! s_index c in
                then_m (write_last_used E now (kr_id key))
                (bind_m (buildRoute E key provider (s_gate c) model) (\<lambda>rt. return_m (Some rt, reserve'))))))"

definition tryStickyKey :: "gateway_env \<Rightarrow> int \<Rightarrow> provider_row list \<Rightarrow> string \<Rightarrow> reservation \<Rightarrow> routing_scope
    \<Rightarrow> (provider_row \<Rightarrow> route_model option) \<Rightarrow> string option \<Rightarrow> (nexus_route option \<times> reservation) gw" where
  "tryStickyKey E now active keyId reserve scope pickModel userId =
     bind_m (pinned_key E now keyId) (\<lambda>row. case row of
         None \<Rightarrow> return_m (None, reserve)
       | Some key \<Rightarrow>
           if kr_status key = ''banned'' then return_m (None, reserve)
           else case find (\<lambda>p. pr_id p = kr_providerId key) active of
               None \<Rightarrow> return_m (None, reserve)
             | Some provider \<Rightarrow>
             case pickModel provider of
               None \<Rightarrow> return_m (None, reserve)
             | Some model \<Rightarrow>
                 if \<not> (kr_ownerTeamId key = rs_ownerTeamId scope
                       \<or> kr_ownerTeamId key = None \<and> rs_fallbackToShared scope)
                 then return_m (None, reserve)
                 else bind_m (on_kv (selectAndReserve now now [as_candidate key] reserve userId))
                   (\<lambda>(chosen, reserve'). case chosen of
                       None \<Rightarrow> return_m (None, reserve')
                     | Some c \<Rightarrow>
                         then_m (write_last_used E now (kr_id key))
                         (bind_m (buildRoute E key provider (s_gate c) model)
                           (\<lambda>rt. return_m (Some (rt\<lparr>nr_sticky := True\<rparr>), reserve')))))"

subsection \<open>The sweeps\<close>

text \<open>The inner loop of both sweeps: the first pool that yields a route.\<close>

fun try_pools :: "gateway_env \<Rightarrow> int \<Rightarrow> (provider_row \<Rightarrow> route_model) \<Rightarrow> string option \<Rightarrow> string option
    \<Rightarrow> provider_row list \<Rightarrow> reservation \<Rightarrow> (nexus_route option \<times> reservation) gw" where
  "try_pools E now modelOf ownerTeamId userId [] reserve = return_m (None, reserve)"
| "try_pools E now modelOf ownerTeamId userId (pool # pools) reserve =
     bind_m (tryPickKey E now pool reserve ownerTeamId (modelOf pool) userId) (\<lambda>(route, reserve').
       if route \<noteq> None then return_m (route, reserve')
       else try_pools E now modelOf ownerTeamId userId pools reserve')"

definition model_route :: "selectable_model \<Rightarrow> route_model" where
  "model_route m = \<lparr>rm_modelString = m_modelString m, rm_modelId = Some (m_id m), rm_tier = m_tier m\<rparr>"

text \<open>\<open>poolsByProvider.get(slug)\<close> is the active pools of that provider, in their order.\<close>

definition pools_of :: "provider_row list \<Rightarrow> string \<Rightarrow> provider_row list" where
  "pools_of active slug = filter (\<lambda>p. pr_provider p = slug) active"

fun sweep_from :: "gateway_env \<Rightarrow> int \<Rightarrow> provider_row list \<Rightarrow> string option \<Rightarrow> string option
    \<Rightarrow> selectable_model list \<Rightarrow> string \<Rightarrow> bool \<Rightarrow> reservation \<Rightarrow> (nexus_route option \<times> reservation) gw" where
  "sweep_from E now active ownerTeamId userId [] currentTier exhausted reserve = return_m (None, reserve)"
| "sweep_from E now active ownerTeamId userId (m # ms) currentTier exhausted reserve =
     (let exhausted' = exhausted \<or> m_tier m \<noteq> currentTier in
      bind_m (try_pools E now (\<lambda>_. model_route m) ownerTeamId userId (pools_of active (m_provider m)) reserve)
       (\<lambda>(route, reserve'). case route of
           Some rt \<Rightarrow> return_m (Some (rt\<lparr>nr_wasDowngrade := exhausted'\<rparr>), reserve')
         | None \<Rightarrow> sweep_from E now active ownerTeamId userId ms (m_tier m) exhausted' reserve'))"

definition sweepModels :: "gateway_env \<Rightarrow> int \<Rightarrow> provider_row list \<Rightarrow> selectable_model list \<Rightarrow> reservation
    \<Rightarrow> string option \<Rightarrow> string option \<Rightarrow> (nexus_route option \<times> reservation) gw" where
  "sweepModels E now active candidates reserve ownerTeamId userId =
     (case candidates of [] \<Rightarrow> return_m (None, reserve)
      | c # _ \<Rightarrow> sweep_from E now active ownerTeamId userId candidates (m_tier c) False reserve)"

definition legacy_model :: "string \<Rightarrow> provider_row \<Rightarrow> route_model" where
  "legacy_model tier p = \<lparr>rm_modelString = option_or (pr_preferredModel p) [], rm_modelId = None, rm_tier = tier\<rparr>"

fun legacy_from :: "gateway_env \<Rightarrow> int \<Rightarrow> provider_row list \<Rightarrow> string option \<Rightarrow> string option \<Rightarrow> rat
    \<Rightarrow> (provider_row \<Rightarrow> rat option) \<Rightarrow> string list \<Rightarrow> bool \<Rightarrow> reservation \<Rightarrow> (nexus_route option \<times> reservation) gw" where
  "legacy_from E now active ownerTeamId userId costWeight priceOf [] exhausted reserve = return_m (None, reserve)"
| "legacy_from E now active ownerTeamId userId costWeight priceOf (tier # tiers) exhausted reserve =
     (let providers = filter (\<lambda>p. pr_tier p = tier) active;
          ordered = (if 0 < costWeight then costOrder providers priceOf (Some costWeight) else providers) in
      bind_m (try_pools E now (legacy_model tier) ownerTeamId userId ordered reserve)
       (\<lambda>(route, reserve'). case route of
           Some rt \<Rightarrow> return_m (Some (rt\<lparr>nr_wasDowngrade := exhausted\<rparr>), reserve')
         | None \<Rightarrow> legacy_from E now active ownerTeamId userId costWeight priceOf tiers
                     (exhausted \<or> providers \<noteq> []) reserve'))"

definition legacySweepTiers :: "gateway_env \<Rightarrow> int \<Rightarrow> provider_row list \<Rightarrow> reservation \<Rightarrow> string option \<Rightarrow> rat
    \<Rightarrow> (provider_row \<Rightarrow> rat option) \<Rightarrow> string option \<Rightarrow> (nexus_route option \<times> reservation) gw" where
  "legacySweepTiers E now active reserve ownerTeamId costWeight priceOf userId =
     legacy_from E now active ownerTeamId userId costWeight priceOf TIER_ORDER False reserve"

subsection \<open>Prices\<close>

definition registryPrices :: "registry_entry list \<Rightarrow> (string, rat option) jsmap" where
  "registryPrices registry =
     fold (\<lambda>m prices. AList.update (m_id (rg_model m)) (effectivePrice (Some (rg_pricing m))) prices) registry []"

definition price_in :: "(string, rat option) jsmap \<Rightarrow> string \<Rightarrow> rat option" where
  "price_in prices k = option_or (map_of prices k) None"

definition legacyPrices :: "registry_entry list \<Rightarrow> (string, rat option) jsmap" where
  "legacyPrices registry = fold (\<lambda>m prices.
     let price = effectivePrice (Some (rg_pricing m)) in
     AList.update (m_id (rg_model m)) price (AList.update (m_modelString (rg_model m)) price prices)) registry []"

subsection \<open>Sticky pins\<close>

definition STICKY_TTL_SECONDS :: int where "STICKY_TTL_SECONDS = 300"

definition stickyRedisKey :: "string \<Rightarrow> string" where
  "stickyRedisKey hash = ''nexus:sticky:'' @ hash"

definition getStickyKeyId :: "int \<Rightarrow> string \<Rightarrow> string option kv" where
  "getStickyKeyId now hash = kv_get now (stickyRedisKey hash)"

definition setStickyKeyId :: "int \<Rightarrow> string \<Rightarrow> string \<Rightarrow> bool kv" where
  "setStickyKeyId now hash keyId = kv_set now (stickyRedisKey hash) keyId [OptEX STICKY_TTL_SECONDS]"

subsection \<open>Discovery\<close>

record discovery_request =
  q_reserve :: reservation
  q_sessionKey :: "string option"
  q_scope :: routing_scope
  q_capability :: string
  q_userId :: "string option"
  q_preferredTier :: "string option"
  q_pinnedModelId :: "string option"

text \<open>What the other services answer for the request.\<close>

record routing_facts =
  f_costWeight :: rat
  f_registry :: "registry_entry list"
  f_active :: "provider_row list"

definition activeProviderSlugs :: "provider_row list \<Rightarrow> string set" where
  "activeProviderSlugs active = pr_provider ` set active"

definition candidate_models :: "routing_facts \<Rightarrow> discovery_request \<Rightarrow> selectable_model list" where
  "candidate_models F q =
     (let prices = registryPrices (f_registry F);
          ordered = selectModels (map rg_model (f_registry F))
            \<lparr>o_capability = q_capability q, o_activeProviderSlugs = activeProviderSlugs (f_active F),
             o_priceOf = (\<lambda>m. price_in prices (m_id m)), o_costWeight = f_costWeight F,
             o_preferredTier = q_preferredTier q\<rparr>
      in if truthy (q_pinnedModelId q) then filter (\<lambda>m. Some (m_id m) = q_pinnedModelId q) ordered else ordered)"

definition pick_model :: "selectable_model list \<Rightarrow> bool \<Rightarrow> provider_row \<Rightarrow> route_model option" where
  "pick_model candidates allowLegacyChat p =
     (case find (\<lambda>c. m_provider c = pr_provider p) candidates of
        Some m \<Rightarrow> Some (model_route m)
      | None \<Rightarrow> if allowLegacyChat \<and> truthy (pr_preferredModel p)
          then Some \<lparr>rm_modelString = option_or (pr_preferredModel p) [], rm_modelId = None, rm_tier = pr_tier p\<rparr>
          else None)"

text \<open>The sticky attempt: the pin is read only for a session, and used only when there is one.\<close>

definition sticky_route :: "gateway_env \<Rightarrow> int \<Rightarrow> routing_facts \<Rightarrow> discovery_request \<Rightarrow> selectable_model list \<Rightarrow> bool
    \<Rightarrow> (nexus_route option \<times> reservation) gw" where
  "sticky_route E now F q candidates allowLegacyChat =
     (case q_sessionKey q of
        None \<Rightarrow> return_m (None, q_reserve q)
      | Some session \<Rightarrow> if session = [] then return_m (None, q_reserve q) else
          bind_m (on_kv (getStickyKeyId now session)) (\<lambda>pin. case pin of
              None \<Rightarrow> return_m (None, q_reserve q)
            | Some keyId \<Rightarrow> if keyId = [] then return_m (None, q_reserve q) else
                tryStickyKey E now (f_active F) keyId (q_reserve q) (q_scope q)
                  (pick_model candidates allowLegacyChat) (q_userId q)))"

text \<open>Own keys first; the shared pool only when the scope permits it.\<close>

definition two_passes :: "routing_scope \<Rightarrow> (string option \<Rightarrow> reservation \<Rightarrow> (nexus_route option \<times> reservation) gw)
    \<Rightarrow> reservation \<Rightarrow> (nexus_route option \<times> reservation) gw" where
  "two_passes scope pass reserve =
     bind_m (if truthy (rs_ownerTeamId scope) then pass (rs_ownerTeamId scope) reserve else return_m (None, reserve))
       (\<lambda>(owned, reserve').
          if owned \<noteq> None then return_m (owned, reserve')
          else if \<not> rs_fallbackToShared scope then return_m (None, reserve')
          else pass None reserve')"

definition discoverBestPool :: "gateway_env \<Rightarrow> int \<Rightarrow> routing_facts \<Rightarrow> discovery_request
    \<Rightarrow> (nexus_route option \<times> reservation) gw" where
  "discoverBestPool E now F q =
     (let candidates = candidate_models F q;
          allowLegacyChat = (q_capability q = ''chat'' \<and> candidates = [] \<and> \<not> truthy (q_pinnedModelId q)) in
      bind_m (sticky_route E now F q candidates allowLegacyChat) (\<lambda>(pinned, reserve).
        if pinned \<noteq> None then return_m (pinned, reserve)
        else if candidates \<noteq> [] then
          two_passes (q_scope q) (\<lambda>ow r. sweepModels E now (f_active F) candidates r ow (q_userId q)) reserve
        else if q_capability q \<noteq> ''chat'' then return_m (None, reserve)
        else if truthy (q_pinnedModelId q) then return_m (None, reserve)
        else
          let prices = legacyPrices (f_registry F);
              priceOf = (if 0 < f_costWeight F
                then (\<lambda>p. if truthy (pr_preferredModel p) then price_in prices (option_or (pr_preferredModel p) []) else None)
                else (\<lambda>_. None))
          in two_passes (q_scope q)
               (\<lambda>ow r. legacySweepTiers E now (f_active F) r ow (f_costWeight F) priceOf (q_userId q)) reserve))"

end
