(* ===== verification/Discovery_Spec.thy ===== *)
theory Discovery_Spec
  imports Discovery
begin

text \<open>
  What discovery promises. \<open>routes f m P\<close> is the triple every step is proved in: run on a gateway whose
  caches mirror the key table \<open>f\<close>, the step leaves both so, and its answer, if it gives one, satisfies
  \<open>P\<close>. From it: a route is always for a row of the table that the caller's scope may use.
\<close>

definition gw_ok :: "gateway \<Rightarrow> bool" where
  "gw_ok g \<longleftrightarrow> distinct (map kr_id (g_rows g)) \<and> mirrors (findRoutable (g_rows g)) (g_cache g)"

definition routes :: "(string \<Rightarrow> key_row option) \<Rightarrow> 'a gw \<Rightarrow> ('a \<Rightarrow> bool) \<Rightarrow> bool" where
  "routes f m P \<longleftrightarrow> (\<forall>g. gw_ok g \<longrightarrow> findRoutable (g_rows g) = f \<longrightarrow>
     gw_ok (snd (m g)) \<and> findRoutable (g_rows (snd (m g))) = f \<and> (\<forall>x. fst (m g) = Inr x \<longrightarrow> P x))"

lemma routesI:
  "(\<And>g. gw_ok g \<Longrightarrow> findRoutable (g_rows g) = f \<Longrightarrow>
     gw_ok (snd (m g)) \<and> findRoutable (g_rows (snd (m g))) = f \<and> (\<forall>x. fst (m g) = Inr x \<longrightarrow> P x)) \<Longrightarrow> routes f m P"
  by (simp add: routes_def)

lemma routesD:
  "routes f m P \<Longrightarrow> gw_ok g \<Longrightarrow> findRoutable (g_rows g) = f \<Longrightarrow> m g = (r, g') \<Longrightarrow>
   gw_ok g' \<and> findRoutable (g_rows g') = f \<and> (\<forall>x. r = Inr x \<longrightarrow> P x)"
  unfolding routes_def by (drule spec [of _ g]) simp

named_theorems route_rules \<open>triples of the discovery steps\<close>

lemma routes_return [route_rules]: "P x \<Longrightarrow> routes f (return_m x) P"
  by (simp add: routes_def return_m_def)

lemma routes_throw [route_rules]: "routes f (throw_m e) P"
  by (simp add: routes_def throw_m_def)

lemma routes_bind:
  assumes m: "routes f m Q" and k: "\<And>x. Q x \<Longrightarrow> routes f (k x) P"
  shows "routes f (bind_m m k) P"
proof (rule routesI)
  fix g assume ok: "gw_ok g" "findRoutable (g_rows g) = f"
  obtain r g1 where m1: "m g = (r, g1)" by (cases "m g")
  note 1 = routesD [OF m ok m1]
  show "gw_ok (snd (bind_m m k g)) \<and> findRoutable (g_rows (snd (bind_m m k g))) = f \<and>
      (\<forall>x. fst (bind_m m k g) = Inr x \<longrightarrow> P x)"
  proof (cases r)
    case (Inl e)
    with 1 m1 show ?thesis by (simp add: bind_raise)
  next
    case (Inr x)
    with 1 have Q: "Q x" and ok1: "gw_ok g1" "findRoutable (g_rows g1) = f" by simp_all
    obtain r2 g2 where m2: "k x g1 = (r2, g2)" by (cases "k x g1")
    from routesD [OF k [OF Q] ok1 m2] m1 m2 Inr show ?thesis by (simp add: bind_run)
  qed
qed

lemma routes_then: "routes f m Q \<Longrightarrow> routes f k P \<Longrightarrow> routes f (then_m m k) P"
  unfolding then_m_def by (rule routes_bind)

lemma routes_weaken: "routes f m Q \<Longrightarrow> (\<And>x. Q x \<Longrightarrow> P x) \<Longrightarrow> routes f m P"
  by (simp add: routes_def)

subsection \<open>The steps that touch the gateway\<close>

lemma routes_on_kv [route_rules]: "routes f (on_kv m) (\<lambda>_. True)"
  by (rule routesI) (simp add: on_kv_def gw_ok_def split: prod.split)

lemma routes_write_last_used [route_rules]: "routes f (write_last_used E now k) (\<lambda>_. True)"
proof (rule routesI)
  fix g assume "gw_ok g" "findRoutable (g_rows g) = f"
  then show "gw_ok (snd (write_last_used E now k g)) \<and>
      findRoutable (g_rows (snd (write_last_used E now k g))) = f \<and>
      (\<forall>x. fst (write_last_used E now k g) = Inr x \<longrightarrow> True)"
    by (simp add: write_last_used_def gw_ok_def keys.touch_same keys.ok_touch split: prod.split)
qed

lemma mirrors_drop:
  "mirrors f c \<Longrightarrow> mirrors f (snd (getKeyList env p ow t c))"
  "mirrors f c \<Longrightarrow> mirrors f (snd (getKeyRow env k t c))"
  by (rule mirrorsI; force simp: getKeyList_def getKeyRow_def cache_get_def delete_conv'
      dest: mirrors_row mirrors_list split: option.splits if_splits)+

lemma cached_list:
  assumes "mirrors f c" "pool_ok (p, ow)" "getKeyList env p ow t c = (Some ks, c')" "r \<in> set ks"
  shows "f (kr_id r) = Some r \<and> kr_providerId r = p \<and> kr_ownerTeamId r = ow \<and> usable r"
  using assms by (auto simp: getKeyList_def cache_get_def dest: mirrors_list split: option.splits if_splits)

lemma cached_row: "mirrors f c \<Longrightarrow> getKeyRow env k t c = (Some row, c') \<Longrightarrow> row = f k"
  by (auto simp: getKeyRow_def cache_get_def dest: mirrors_row split: option.splits if_splits)

lemma routes_pool_keys:
  assumes "pool_ok (p, ow)"
  shows "routes f (pool_keys E now p ow) (\<lambda>ks. \<forall>r \<in> set ks.
    f (kr_id r) = Some r \<and> kr_providerId r = p \<and> kr_ownerTeamId r = ow \<and> usable r)"
proof (rule routesI)
  fix g assume g: "gw_ok g" and f: "findRoutable (g_rows g) = f"
  obtain hit c where h: "getKeyList (ev_listTtl E) p ow (of_int now) (g_cache g) = (hit, c)" by fastforce
  from g f have m: "mirrors f (g_cache g)" and d: "distinct (map kr_id (g_rows g))" by (simp_all add: gw_ok_def)
  from mirrors_drop(1) [OF m, of "ev_listTtl E" p ow "of_int now"] h have mc: "mirrors f c" by simp
  show "gw_ok (snd (pool_keys E now p ow g)) \<and> findRoutable (g_rows (snd (pool_keys E now p ow g))) = f \<and>
      (\<forall>ks. fst (pool_keys E now p ow g) = Inr ks \<longrightarrow> (\<forall>r \<in> set ks.
         f (kr_id r) = Some r \<and> kr_providerId r = p \<and> kr_ownerTeamId r = ow \<and> usable r))"
  proof (cases hit)
    case None
    with h have run: "pool_keys E now p ow g = (Inr (listRoutable (g_rows g) p ow),
        g\<lparr>g_cache := setKeyList (ev_listTtl E) p ow (listRoutable (g_rows g) p ow) (of_int now) c\<rparr>)"
      by (simp add: pool_keys_def Let_def)
    from keys.refill_list [OF _ d assms, of c] mc f
    have "mirrors f (setKeyList (ev_listTtl E) p ow (listRoutable (g_rows g) p ow) (of_int now) c)" by simp
    with keys.listed [OF d, of _ p ow] d f show ?thesis by (simp add: run gw_ok_def)
  next
    case (Some ks)
    with h mc d f cached_list [OF m assms h [unfolded Some]] show ?thesis
      by (simp add: pool_keys_def gw_ok_def)
  qed
qed

lemma routes_pinned_key: "routes f (pinned_key E now k) (\<lambda>row. row = f k)"
proof (rule routesI)
  fix g assume g: "gw_ok g" and f: "findRoutable (g_rows g) = f"
  obtain hit c where h: "getKeyRow (ev_listTtl E) k (of_int now) (g_cache g) = (hit, c)" by fastforce
  from g f have m: "mirrors f (g_cache g)" and d: "distinct (map kr_id (g_rows g))" by (simp_all add: gw_ok_def)
  from mirrors_drop(2) [OF m, of "ev_listTtl E" k "of_int now"] h have mc: "mirrors f c" by simp
  show "gw_ok (snd (pinned_key E now k g)) \<and> findRoutable (g_rows (snd (pinned_key E now k g))) = f \<and>
      (\<forall>x. fst (pinned_key E now k g) = Inr x \<longrightarrow> x = f k)"
  proof (cases hit)
    case None
    with h mc d f keys.refill_row [of "g_rows g" c] show ?thesis by (simp add: pinned_key_def gw_ok_def Let_def)
  next
    case (Some row)
    with h mc d f cached_row [OF m h [unfolded Some]] show ?thesis by (simp add: pinned_key_def gw_ok_def)
  qed
qed

subsection \<open>A route is for a row of the table\<close>

definition served :: "gateway_env \<Rightarrow> (string \<Rightarrow> key_row option) \<Rightarrow> (string option \<Rightarrow> bool) \<Rightarrow> provider_row set
    \<Rightarrow> (provider_row \<Rightarrow> route_model \<Rightarrow> bool) \<Rightarrow> nexus_route \<Rightarrow> bool" where
  "served E f owner pools models rt \<longleftrightarrow> (\<exists>row p m. f (nr_keyId rt) = Some row \<and> kr_id row = nr_keyId rt \<and>
     owner (kr_ownerTeamId row) \<and> kr_status row \<noteq> ''banned'' \<and> nr_byok rt = (kr_ownerTeamId row \<noteq> None) \<and>
     ev_decrypt E (kr_encryptedKey row) (kr_id row) (kr_ownerTeamId row) = Some (nr_decryptedKey rt) \<and>
     p \<in> pools \<and> kr_providerId row = pr_id p \<and> nr_providerSlug rt = pr_provider p \<and>
     models p m \<and> nr_modelString rt = rm_modelString m \<and> nr_modelId rt = rm_modelId m \<and> nr_tier rt = rm_tier m)"

lemma served_flags [simp]:
  "served E f ow ps ms (rt\<lparr>nr_wasDowngrade := b\<rparr>) = served E f ow ps ms rt"
  "served E f ow ps ms (rt\<lparr>nr_sticky := b\<rparr>) = served E f ow ps ms rt"
  by (simp_all add: served_def)

lemma served_mono:
  "served E f ow ps ms rt \<Longrightarrow> (\<And>x. ow x \<Longrightarrow> ow' x) \<Longrightarrow> ps \<subseteq> ps' \<Longrightarrow> (\<And>p m. p \<in> ps \<Longrightarrow> ms p m \<Longrightarrow> ms' p m) \<Longrightarrow>
   served E f ow' ps' ms' rt"
  unfolding served_def by blast

definition answered :: "gateway_env \<Rightarrow> (string \<Rightarrow> key_row option) \<Rightarrow> (string option \<Rightarrow> bool) \<Rightarrow> provider_row set
    \<Rightarrow> (provider_row \<Rightarrow> route_model \<Rightarrow> bool) \<Rightarrow> nexus_route option \<times> reservation \<Rightarrow> bool" where
  "answered E f ow ps ms a \<longleftrightarrow> (\<forall>rt. fst a = Some rt \<longrightarrow> served E f ow ps ms rt)"

lemma answered_simps [simp]:
  "answered E f ow ps ms (None, r)" "answered E f ow ps ms (Some rt, r) = served E f ow ps ms rt"
  by (simp_all add: answered_def)

lemma answered_mono:
  "answered E f ow ps ms a \<Longrightarrow> (\<And>x. ow x \<Longrightarrow> ow' x) \<Longrightarrow> ps \<subseteq> ps' \<Longrightarrow> (\<And>p m. p \<in> ps \<Longrightarrow> ms p m \<Longrightarrow> ms' p m) \<Longrightarrow>
   answered E f ow' ps' ms' a"
  unfolding answered_def using served_mono by metis

lemma routes_buildRoute:
  assumes "f (kr_id key) = Some key" "ow (kr_ownerTeamId key)" "kr_status key \<noteq> ''banned''"
    "p \<in> ps" "kr_providerId key = pr_id p" "ms p m"
  shows "routes f (buildRoute E key p gate m) (served E f ow ps ms)"
proof (cases "ev_decrypt E (kr_encryptedKey key) (kr_id key) (kr_ownerTeamId key)")
  case None
  then show ?thesis by (simp add: buildRoute_def routes_throw)
next
  case (Some plain)
  then show ?thesis unfolding buildRoute_def
    by (simp only: option.case) (rule routes_return, use assms Some in \<open>auto simp: served_def\<close>)
qed

lemma usable_not_banned: "usable r \<Longrightarrow> kr_status r \<noteq> ''banned''"
  by (auto simp: usable_def)

lemma routes_tryPickKey:
  assumes "pool_ok (pr_id p, ow)"
  shows "routes f (tryPickKey E now p reserve ow m u) (answered E f (\<lambda>x. x = ow) {p} (\<lambda>_ x. x = m \<and> rm_modelString m \<noteq> []))"
proof (cases "rm_modelString m = []")
  case True
  then show ?thesis by (simp add: tryPickKey_def routes_return)
next
  case False
  show ?thesis unfolding tryPickKey_def if_not_P [OF False]
  proof (rule routes_bind [OF routes_pool_keys [OF assms]], rule routes_bind [OF routes_on_kv], goal_cases)
    case (1 ks a)
    obtain chosen r where a: "a = (chosen, r)" by (cases a)
    show ?case
    proof (cases chosen)
      case None
      then show ?thesis by (simp add: a routes_return)
    next
      case (Some c)
      show ?thesis
      proof (cases "length ks \<le> s_index c")
        case True
        then show ?thesis by (simp add: a Some routes_return)
      next
        case False
        then have key: "ks ! s_index c \<in> set ks" by simp
        with 1(1) have k: "f (kr_id (ks ! s_index c)) = Some (ks ! s_index c)"
          "kr_providerId (ks ! s_index c) = pr_id p" "kr_ownerTeamId (ks ! s_index c) = ow"
          "kr_status (ks ! s_index c) \<noteq> ''banned''" by (simp_all add: usable_not_banned)
        from False show ?thesis unfolding a Some Let_def
          by (simp only: prod.case option.case if_False)
            (rule routes_then [OF routes_write_last_used], rule routes_bind [OF routes_buildRoute
              [where ow = "\<lambda>x. x = ow" and ps = "{p}" and ms = "\<lambda>_ x. x = m \<and> rm_modelString m \<noteq> []"]],
             (use k \<open>rm_modelString m \<noteq> []\<close> in \<open>simp_all add: routes_return\<close>))
      qed
    qed
  qed
qed

lemma routes_try_pools:
  assumes "\<forall>p \<in> set pools. pool_ok (pr_id p, ow)"
  shows "routes f (try_pools E now modelOf ow u pools r)
    (answered E f (\<lambda>x. x = ow) (set pools) (\<lambda>p m. m = modelOf p \<and> rm_modelString m \<noteq> []))"
  using assms
proof (induction pools arbitrary: r)
  case Nil
  then show ?case by (simp add: routes_return)
next
  case (Cons p ps)
  from Cons.prems have p: "pool_ok (pr_id p, ow)" and ps: "\<forall>p \<in> set ps. pool_ok (pr_id p, ow)" by simp_all
  show ?case unfolding try_pools.simps
  proof (rule routes_bind [OF routes_tryPickKey [OF p]], goal_cases)
    case (1 a)
    obtain rt r' where a: "a = (rt, r')" by (cases a)
    show ?case
    proof (cases rt)
      case None
      have "routes f (try_pools E now modelOf ow u ps r')
          (answered E f (\<lambda>x. x = ow) (set (p # ps)) (\<lambda>p m. m = modelOf p \<and> rm_modelString m \<noteq> []))"
        by (rule routes_weaken [OF Cons.IH [OF ps]]) (erule answered_mono, auto)
      with None show ?thesis by (simp add: a)
    next
      case (Some x)
      with 1 have "served E f (\<lambda>x. x = ow) (set (p # ps)) (\<lambda>p m. m = modelOf p \<and> rm_modelString m \<noteq> []) x"
        unfolding a by (simp only: answered_simps) (erule served_mono, auto)
      with Some show ?thesis by (simp add: a routes_return)
    qed
  qed
qed

lemma routes_sweep_from:
  assumes "\<forall>p \<in> set active. pool_ok (pr_id p, ow)"
  shows "routes f (sweep_from E now active ow u ms tier ex r)
    (answered E f (\<lambda>x. x = ow) (set active) (\<lambda>p x. \<exists>m \<in> set ms. m_provider m = pr_provider p \<and> x = model_route m))"
proof (induction ms arbitrary: tier ex r)
  case Nil
  then show ?case by (simp add: routes_return)
next
  case (Cons m ms)
  have ok: "\<forall>p \<in> set (pools_of active (m_provider m)). pool_ok (pr_id p, ow)" using assms by (simp add: pools_of_def)
  show ?case unfolding sweep_from.simps Let_def
  proof (rule routes_bind [OF routes_try_pools [OF ok]], goal_cases)
    case (1 a)
    obtain rt r' where a: "a = (rt, r')" by (cases a)
    show ?case
    proof (cases rt)
      case None
      have "routes f (sweep_from E now active ow u ms (m_tier m) (ex \<or> m_tier m \<noteq> tier) r')
          (answered E f (\<lambda>x. x = ow) (set active)
             (\<lambda>p x. \<exists>m \<in> set (m # ms). m_provider m = pr_provider p \<and> x = model_route m))"
        by (rule routes_weaken [OF Cons.IH]) (erule answered_mono, auto)
      with None show ?thesis by (simp add: a)
    next
      case (Some x)
      with 1 have "served E f (\<lambda>x. x = ow) (set active)
          (\<lambda>p x. \<exists>m \<in> set (m # ms). m_provider m = pr_provider p \<and> x = model_route m) x"
        unfolding a by (simp only: answered_simps) (erule served_mono, auto simp: pools_of_def)
      with Some show ?thesis by (simp add: a routes_return)
    qed
  qed
qed

lemma routes_sweepModels:
  assumes "\<forall>p \<in> set active. pool_ok (pr_id p, ow)"
  shows "routes f (sweepModels E now active ms r ow u)
    (answered E f (\<lambda>x. x = ow) (set active) (\<lambda>p x. \<exists>m \<in> set ms. m_provider m = pr_provider p \<and> x = model_route m))"
proof (cases ms)
  case Nil
  then show ?thesis by (simp add: sweepModels_def routes_return)
next
  case (Cons m ms')
  then have "sweepModels E now active ms r ow u = sweep_from E now active ow u ms (m_tier m) False r"
    by (simp add: sweepModels_def)
  then show ?thesis by (simp only: routes_sweep_from [OF assms])
qed

lemma set_costOrder: "set (costOrder xs p w) = set xs"
  by (metis mset_costOrder set_mset_mset)

lemma routes_legacy_from:
  assumes "\<forall>p \<in> set active. pool_ok (pr_id p, ow)"
  shows "routes f (legacy_from E now active ow u w priceOf tiers ex r)
    (answered E f (\<lambda>x. x = ow) (set active) (\<lambda>p x. x = legacy_model (pr_tier p) p \<and> rm_modelString x \<noteq> []))"
proof (induction tiers arbitrary: ex r)
  case Nil
  then show ?case by (simp add: routes_return)
next
  case (Cons tier tiers)
  let ?ps = "filter (\<lambda>p. pr_tier p = tier) active"
  let ?ord = "if 0 < w then costOrder ?ps priceOf (Some w) else ?ps"
  have mem: "set ?ord = set ?ps" by (simp add: set_costOrder)
  with assms have ok: "\<forall>p \<in> set ?ord. pool_ok (pr_id p, ow)" by auto
  show ?case unfolding legacy_from.simps Let_def
  proof (rule routes_bind [OF routes_try_pools [OF ok]], goal_cases)
    case (1 a)
    obtain rt r' where a: "a = (rt, r')" by (cases a)
    show ?case
    proof (cases rt)
      case None
      with Cons.IH show ?thesis by (simp add: a)
    next
      case (Some x)
      with 1 have "served E f (\<lambda>x. x = ow) (set active) (\<lambda>p x. x = legacy_model (pr_tier p) p \<and> rm_modelString x \<noteq> []) x"
        unfolding a mem by (simp only: answered_simps) (erule served_mono, auto)
      with Some show ?thesis by (simp add: a routes_return)
    qed
  qed
qed

subsection \<open>Pins and passes\<close>

definition in_scope :: "routing_scope \<Rightarrow> string option \<Rightarrow> bool" where
  "in_scope scope owner \<longleftrightarrow> owner = rs_ownerTeamId scope \<or> owner = None \<and> rs_fallbackToShared scope"

lemma find_in: "find P xs = Some x \<Longrightarrow> x \<in> set xs \<and> P x"
  by (induction xs) (auto split: if_splits)

lemma routes_tryStickyKey:
  assumes ids: "\<And>k row. f k = Some row \<Longrightarrow> kr_id row = k"
  shows "routes f (tryStickyKey E now active k r scope pick u)
    (answered E f (in_scope scope) (set active) (\<lambda>p m. pick p = Some m))"
  unfolding tryStickyKey_def
proof (rule routes_bind [OF routes_pinned_key], goal_cases)
  case (1 row)
  show ?case
  proof (cases row)
    case None
    then show ?thesis by (simp add: routes_return)
  next
    case (Some key)
    with 1 ids have k: "f (kr_id key) = Some key" by metis
    show ?thesis
    proof (cases "kr_status key \<noteq> ''banned'' \<and> in_scope scope (kr_ownerTeamId key)
        \<and> (\<exists>p m. find (\<lambda>p. pr_id p = kr_providerId key) active = Some p \<and> pick p = Some m)")
      case True
      then obtain p m where p: "find (\<lambda>p. pr_id p = kr_providerId key) active = Some p" "pick p = Some m"
        and nb: "kr_status key \<noteq> ''banned''" and sc: "in_scope scope (kr_ownerTeamId key)" by blast
      from find_in [OF p(1)] have pin: "p \<in> set active" "kr_providerId key = pr_id p" by simp_all
      have go: "routes f (case chosen of None \<Rightarrow> return_m (None, r') | Some c \<Rightarrow>
            then_m (write_last_used E now (kr_id key)) (bind_m (buildRoute E key p (s_gate c) m)
              (\<lambda>rt. return_m (Some (rt\<lparr>nr_sticky := True\<rparr>), r'))))
          (answered E f (in_scope scope) (set active) (\<lambda>p m. pick p = Some m))" for chosen r'
      proof (cases chosen)
        case None
        then show ?thesis by (simp add: routes_return)
      next
        case (Some c)
        show ?thesis unfolding Some option.case
          by (rule routes_then [OF routes_write_last_used], rule routes_bind [OF routes_buildRoute
              [where ow = "in_scope scope" and ps = "set active" and ms = "\<lambda>p m. pick p = Some m"]])
            (use k sc nb pin p in \<open>simp_all add: routes_return\<close>)
      qed
      have "routes f (bind_m (on_kv (selectAndReserve now now [as_candidate key] r u)) (\<lambda>(chosen, r').
            case chosen of None \<Rightarrow> return_m (None, r') | Some c \<Rightarrow>
              then_m (write_last_used E now (kr_id key)) (bind_m (buildRoute E key p (s_gate c) m)
                (\<lambda>rt. return_m (Some (rt\<lparr>nr_sticky := True\<rparr>), r')))))
          (answered E f (in_scope scope) (set active) (\<lambda>p m. pick p = Some m))"
        by (rule routes_bind [OF routes_on_kv]) (simp only: split_paired_all prod.case, rule go)
      with nb sc [unfolded in_scope_def] p show ?thesis by (simp add: Some)
    next
      case False
      then show ?thesis
        by (auto simp: Some in_scope_def routes_return split: option.splits)
    qed
  qed
qed

lemma routes_two_passes:
  assumes "\<And>ow r. ow = None \<or> ow = rs_ownerTeamId scope \<Longrightarrow> routes f (pass ow r) (answered E f (\<lambda>x. x = ow) ps ms)"
  shows "routes f (two_passes scope pass r) (answered E f (in_scope scope) ps ms)"
  unfolding two_passes_def
proof (rule routes_bind [where Q = "answered E f (\<lambda>x. x = rs_ownerTeamId scope) ps ms"], goal_cases)
  case 1
  show ?case using assms [of "rs_ownerTeamId scope"] by (simp add: routes_return)
next
  case (2 a)
  obtain rt r' where a: "a = (rt, r')" by (cases a)
  show ?case
  proof (cases rt)
    case (Some x)
    with 2 have "served E f (in_scope scope) ps ms x"
      unfolding a by (simp only: answered_simps) (erule served_mono, auto simp: in_scope_def)
    with Some show ?thesis by (simp add: a routes_return)
  next
    case None
    have "routes f (pass None r') (answered E f (in_scope scope) ps ms)" if "rs_fallbackToShared scope"
      by (rule routes_weaken [OF assms]) (simp, erule answered_mono, auto simp: in_scope_def that)
    with None show ?thesis by (simp add: a routes_return)
  qed
qed

text \<open>The models a route may be for: a candidate of the pool's provider or, for chat with no candidate and
  no pin, the pool's own preferred model.\<close>

definition model_for :: "routing_facts \<Rightarrow> discovery_request \<Rightarrow> provider_row \<Rightarrow> route_model \<Rightarrow> bool" where
  "model_for F q p x \<longleftrightarrow>
     (\<exists>m \<in> set (candidate_models F q). m_provider m = pr_provider p \<and> x = model_route m) \<or>
     q_capability q = ''chat'' \<and> candidate_models F q = [] \<and> \<not> truthy (q_pinnedModelId q) \<and>
       x = legacy_model (pr_tier p) p \<and> rm_modelString x \<noteq> []"

lemma pick_model_for:
  "pick_model (candidate_models F q)
     (q_capability q = ''chat'' \<and> candidate_models F q = [] \<and> \<not> truthy (q_pinnedModelId q)) p = Some x \<Longrightarrow>
   model_for F q p x"
  by (cases "pr_preferredModel p")
    (auto simp: pick_model_def model_for_def legacy_model_def truthy_def dest: find_in split: option.splits if_splits)

lemma routes_discoverBestPool:
  assumes ids: "\<And>k row. f k = Some row \<Longrightarrow> kr_id row = k"
    and shared: "\<forall>p \<in> set (f_active F). pool_ok (pr_id p, None)"
    and own: "\<forall>p \<in> set (f_active F). pool_ok (pr_id p, rs_ownerTeamId (q_scope q))"
  shows "routes f (discoverBestPool E now F q)
    (answered E f (in_scope (q_scope q)) (set (f_active F)) (model_for F q))"
proof -
  let ?cs = "candidate_models F q"
  let ?legacy = "q_capability q = ''chat'' \<and> ?cs = [] \<and> \<not> truthy (q_pinnedModelId q)"
  let ?P = "answered E f (in_scope (q_scope q)) (set (f_active F)) (model_for F q)"
  have pools: "\<forall>p \<in> set (f_active F). pool_ok (pr_id p, ow)" if "ow = None \<or> ow = rs_ownerTeamId (q_scope q)" for ow
    using that shared own by blast
  have sticky: "routes f (sticky_route E now F q ?cs ?legacy) ?P"
  proof -
    have pin: "routes f (tryStickyKey E now (f_active F) k (q_reserve q) (q_scope q) (pick_model ?cs ?legacy) (q_userId q)) ?P" for k
      by (rule routes_weaken [OF routes_tryStickyKey [OF ids]], assumption, erule answered_mono)
        (auto intro: pick_model_for)
    show ?thesis unfolding sticky_route_def
      by (cases "q_sessionKey q") (auto simp: routes_return intro!: routes_bind [OF routes_on_kv] pin split: option.split)
  qed
  have swept: "routes f (two_passes (q_scope q) (\<lambda>ow r. sweepModels E now (f_active F) ?cs r ow (q_userId q)) r) ?P" for r
    by (rule routes_weaken [OF routes_two_passes [OF routes_sweepModels [OF pools]]], assumption,
        erule answered_mono) (auto simp: model_for_def)
  have legacy: "routes f (two_passes (q_scope q) (\<lambda>ow r. legacySweepTiers E now (f_active F) r ow w po (q_userId q)) r) ?P"
    if "?legacy" for r w po unfolding legacySweepTiers_def
    by (rule routes_weaken [OF routes_two_passes [OF routes_legacy_from [OF pools]]], assumption,
        erule answered_mono) (use that in \<open>auto simp: model_for_def\<close>)
  show ?thesis unfolding discoverBestPool_def Let_def
  proof (rule routes_bind [OF sticky], goal_cases)
    case (1 a)
    obtain rt r where a: "a = (rt, r)" by (cases a)
    show ?case
    proof (cases "rt = None")
      case False
      with 1 show ?thesis by (simp add: a routes_return)
    next
      case True
      with swept legacy show ?thesis by (simp add: a routes_return)
    qed
  qed
qed

end
