(* ===== verification/Key_Health.thy ===== *)
theory Key_Health
  imports Discovery_Spec
begin

text \<open>
  \<open>src/services/routing/keyHealth.ts\<close>: bans, cooldowns and the outcome reporters, each of which moves the
  breaker in the key-value store, the row in the key table and the caches in front of it together. Then
  histories of requests and outcomes, and what they promise about a banned key. Operator alerts are
  fired and forgotten, change nothing here, and are not modelled.
\<close>

subsection \<open>The reporters\<close>

definition getNextCooldownSeconds :: "int \<Rightarrow> db_key list \<Rightarrow> int" where
  "getNextCooldownSeconds now rows = (case nextCoolingUntil rows of None \<Rightarrow> 60
     | Some coolingUntil \<Rightarrow> max 5 (ceil_div (coolingUntil - now) 1000))"

definition on_rows :: "(db_key list \<Rightarrow> db_key list option) \<Rightarrow> unit gw" where
  "on_rows f g = (case f (g_rows g) of None \<Rightarrow> (Inl NoSuchKey, g) | Some rows \<Rightarrow> (Inr (), g\<lparr>g_rows := rows\<rparr>))"

definition forget_row :: "string \<Rightarrow> unit gw" where
  "forget_row keyId g = (Inr (), g\<lparr>g_cache := forgetKeyRow (Some keyId) (g_cache g)\<rparr>)"

definition forget_stamp :: "string \<Rightarrow> unit gw" where
  "forget_stamp keyId g = (Inr (), g\<lparr>g_written := forgetLastUsed (Some keyId) (g_written g)\<rparr>)"

definition banKey :: "string \<Rightarrow> unit gw" where
  "banKey keyId = then_m (on_rows (markBanned keyId)) (then_m (forget_row keyId) (forget_stamp keyId))"

text \<open>A transaction of commands, each with its own reply; \<open>exec\<close> itself does not throw.\<close>

definition on_multi :: "(store \<Rightarrow> (kv_error + kv_reply) list \<times> store) \<Rightarrow> unit gw" where
  "on_multi f g = (Inr (), g\<lparr>g_kv := snd (f (g_kv g))\<rparr>)"

definition coolKey :: "int \<Rightarrow> string \<Rightarrow> int \<Rightarrow> unit gw" where
  "coolKey now keyId seconds =
     (let until_time = now + seconds * 1000 in
      then_m (on_multi (onRateLimit now now keyId seconds))
      (then_m (on_rows (markCooling keyId until_time)) (forget_row keyId)))"

definition reportSuccess :: "int \<Rightarrow> string \<Rightarrow> bool \<Rightarrow> unit gw" where
  "reportSuccess now keyId wasProbe =
     then_m (on_kv (onSuccess now keyId))
       (if wasProbe then then_m (on_rows (\<lambda>rows. Some (markRecovered keyId rows))) (forget_row keyId)
        else return_m ())"

definition reportRateLimit :: "int \<Rightarrow> string \<Rightarrow> int \<Rightarrow> unit gw" where
  "reportRateLimit now keyId seconds = coolKey now keyId seconds"

definition reportServerFailure :: "int \<Rightarrow> string \<Rightarrow> bool \<Rightarrow> unit gw" where
  "reportServerFailure now keyId wasProbe =
     bind_m (on_kv (onServerFailure now now keyId wasProbe)) (\<lambda>report.
       if opened report then
         let until_time = \<lfloor>of_int now + option_or (cooldownSeconds report) 0 * 1000\<rfloor> in
         then_m (on_rows (markCooling keyId until_time)) (forget_row keyId)
       else return_m ())"

definition reportAuthFailure :: "int \<Rightarrow> string \<Rightarrow> unit gw" where
  "reportAuthFailure now keyId =
     bind_m (on_kv (onAuthFailure now keyId)) (\<lambda>report. if banned report then banKey keyId else return_m ())"

subsection \<open>Histories\<close>

datatype gw_event =
    EDiscover routing_facts discovery_request
  | EBan string
  | ERateLimit string int
  | ESuccess string bool
  | EServerFailure string bool
  | EAuthFailure string

datatype gw_reply = Routed "nexus_route option" | Done | Failed gw_error

definition done_reply :: "(gw_error + unit) \<times> gateway \<Rightarrow> gw_reply \<times> gateway" where
  "done_reply x = (case x of (Inl e, g) \<Rightarrow> (Failed e, g) | (Inr _, g) \<Rightarrow> (Done, g))"

definition gw_event :: "gateway_env \<Rightarrow> int \<times> gw_event \<Rightarrow> gateway \<Rightarrow> gw_reply \<times> gateway" where
  "gw_event E e g = (case e of (now, ev) \<Rightarrow> (case ev of
      EDiscover F q \<Rightarrow> (case discoverBestPool E now F q g of
          (Inl err, g') \<Rightarrow> (Failed err, g') | (Inr (rt, _), g') \<Rightarrow> (Routed rt, g'))
    | EBan k \<Rightarrow> done_reply (banKey k g)
    | ERateLimit k secs \<Rightarrow> done_reply (reportRateLimit now k secs g)
    | ESuccess k probe \<Rightarrow> done_reply (reportSuccess now k probe g)
    | EServerFailure k probe \<Rightarrow> done_reply (reportServerFailure now k probe g)
    | EAuthFailure k \<Rightarrow> done_reply (reportAuthFailure now k g)))"

fun gw_run :: "gateway_env \<Rightarrow> (int \<times> gw_event) list \<Rightarrow> gateway \<Rightarrow> gw_reply list \<times> gateway" where
  "gw_run E [] g = ([], g)"
| "gw_run E (e # es) g = (case gw_event E e g of (r, g1) \<Rightarrow> (case gw_run E es g1 of (rs, g2) \<Rightarrow> (r # rs, g2)))"

text \<open>The pools of a discovery are named as the gateway names them.\<close>

fun event_ok :: "gw_event \<Rightarrow> bool" where
  "event_ok (EDiscover F q) = list_all (\<lambda>p. pool_ok (pr_id p, None) \<and>
     pool_ok (pr_id p, rs_ownerTeamId (q_scope q))) (f_active F)"
| "event_ok _ = True"

text \<open>The events that write a cooling status to a key.\<close>

fun cools :: "string \<Rightarrow> gw_event \<Rightarrow> bool" where
  "cools k (ERateLimit k' _) = (k = k')"
| "cools k (EServerFailure k' _) = (k = k')"
| "cools k _ = False"

subsection \<open>Every operation keeps the caches true\<close>

definition keeps_ok :: "'a gw \<Rightarrow> bool" where
  "keeps_ok m \<longleftrightarrow> (\<forall>g. gw_ok g \<longrightarrow> gw_ok (snd (m g)))"

lemma keeps_ok_bind: "keeps_ok m \<Longrightarrow> (\<And>x. keeps_ok (k x)) \<Longrightarrow> keeps_ok (bind_m m k)"
  unfolding keeps_ok_def bind_m_def by (auto split: prod.split sum.split)

lemma keeps_ok_return: "keeps_ok (return_m x)"
  by (simp add: keeps_ok_def return_m_def)

lemma keeps_ok_on_kv: "keeps_ok (on_kv m)"
  by (simp add: keeps_ok_def on_kv_def gw_ok_def split: prod.split)

lemma keeps_ok_on_multi: "keeps_ok (on_multi f)"
  by (simp add: keeps_ok_def on_multi_def gw_ok_def)

lemma keeps_ok_stamp: "keeps_ok (forget_stamp k)"
  by (simp add: keeps_ok_def forget_stamp_def gw_ok_def)

lemma keeps_ok_then: "keeps_ok m \<Longrightarrow> keeps_ok k \<Longrightarrow> keeps_ok (then_m m k)"
  unfolding then_m_def by (rule keeps_ok_bind)

text \<open>A row write alone leaves the cache stale; with the forgetting that follows it does not.\<close>

lemma keeps_ok_written:
  assumes "\<And>s s'. distinct (map kr_id s) \<Longrightarrow> f s = Some s' \<Longrightarrow> distinct (map kr_id s')"
    and "\<And>s s' c. mirrors (findRoutable s) c \<Longrightarrow> f s = Some s' \<Longrightarrow> mirrors (findRoutable s') (forgetKeyRow (Some k) c)"
  shows "keeps_ok (then_m (on_rows f) (forget_row k))"
  unfolding keeps_ok_def then_m_def bind_m_def
  using assms by (auto simp: on_rows_def forget_row_def gw_ok_def split: option.splits)

lemma keeps_ok_ban: "keeps_ok (banKey k)"
proof -
  have "banKey k = then_m (then_m (on_rows (markBanned k)) (forget_row k)) (forget_stamp k)"
    by (simp add: banKey_def then_m_def bind_assoc)
  moreover have "keeps_ok (then_m (on_rows (markBanned k)) (forget_row k))"
    by (rule keeps_ok_written) (auto intro: keys.ok_ban keys.ban_forget)
  ultimately show ?thesis by (simp add: keeps_ok_then keeps_ok_stamp)
qed

lemma keeps_ok_cooling: "keeps_ok (then_m (on_rows (markCooling k t)) (forget_row k))"
  by (rule keeps_ok_written) (auto intro: keys.ok_cool keys.cool_forget)

lemma keeps_ok_recovered: "keeps_ok (then_m (on_rows (\<lambda>rows. Some (markRecovered k rows))) (forget_row k))"
  by (rule keeps_ok_written) (auto intro: keys.ok_recover keys.recover_forget)

lemmas keeps_ok_rules = keeps_ok_bind keeps_ok_then keeps_ok_return keeps_ok_on_kv keeps_ok_on_multi
  keeps_ok_ban keeps_ok_cooling keeps_ok_recovered

lemma keeps_ok_reporters:
  "keeps_ok (reportRateLimit now k secs)" "keeps_ok (reportSuccess now k probe)"
  "keeps_ok (reportServerFailure now k probe)" "keeps_ok (reportAuthFailure now k)"
  unfolding reportRateLimit_def coolKey_def reportSuccess_def reportServerFailure_def reportAuthFailure_def Let_def
  by (auto intro!: keeps_ok_rules)

lemma discover_ok:
  assumes "gw_ok g" "event_ok (EDiscover F q)" "discoverBestPool E now F q g = (r, g')"
  shows "gw_ok g'" "findRoutable (g_rows g') = findRoutable (g_rows g)"
    "r = Inr (Some rt, res) \<Longrightarrow>
     served E (findRoutable (g_rows g)) (in_scope (q_scope q)) (set (f_active F)) (model_for F q) rt"
proof -
  have "routes (findRoutable (g_rows g)) (discoverBestPool E now F q)
      (answered E (findRoutable (g_rows g)) (in_scope (q_scope q)) (set (f_active F)) (model_for F q))"
    using assms(2) by (intro routes_discoverBestPool keys.found_id) (simp_all add: list_all_iff)
  from routesD [OF this assms(1) refl assms(3)]
  show "gw_ok g'" "findRoutable (g_rows g') = findRoutable (g_rows g)"
    "r = Inr (Some rt, res) \<Longrightarrow>
     served E (findRoutable (g_rows g)) (in_scope (q_scope q)) (set (f_active F)) (model_for F q) rt"
    by (simp_all add: answered_def)
qed

lemma done_reply_state [simp]: "snd (done_reply x) = snd x" "fst (done_reply x) \<noteq> Routed a"
  by (simp_all add: done_reply_def split: prod.split sum.split)

lemma gw_event_ok: "gw_ok g \<Longrightarrow> event_ok (snd e) \<Longrightarrow> gw_ok (snd (gw_event E e g))"
proof -
  assume ok: "gw_ok g" "event_ok (snd e)"
  obtain now ev where e: "e = (now, ev)" by (cases e)
  show ?thesis
  proof (cases ev)
    case (EDiscover F q)
    obtain r g' where run: "discoverBestPool E now F q g = (r, g')" by fastforce
    from discover_ok(1) [OF ok(1) _ run] ok(2) have "gw_ok g'" by (simp add: e EDiscover)
    then show ?thesis by (simp add: e EDiscover gw_event_def run split: sum.split prod.split)
  qed (use ok(1) keeps_ok_ban keeps_ok_reporters in \<open>simp_all add: e gw_event_def keeps_ok_def\<close>)
qed

lemma gw_run_Cons: "gw_run E (e # es) g =
    (fst (gw_event E e g) # fst (gw_run E es (snd (gw_event E e g))), snd (gw_run E es (snd (gw_event E e g))))"
  by (simp split: prod.split)

subsection \<open>A ban holds until something cools the key\<close>

definition is_banned :: "string \<Rightarrow> gateway \<Rightarrow> bool" where
  "is_banned k g \<longleftrightarrow> (\<forall>r. findRoutable (g_rows g) k = Some r \<longrightarrow> kr_status r = ''banned'')"

definition keeps_ban :: "string \<Rightarrow> 'a gw \<Rightarrow> bool" where
  "keeps_ban k m \<longleftrightarrow> (\<forall>g. is_banned k g \<longrightarrow> is_banned k (snd (m g)))"

lemma keeps_ban_bind: "keeps_ban k m \<Longrightarrow> (\<And>x. keeps_ban k (c x)) \<Longrightarrow> keeps_ban k (bind_m m c)"
  unfolding keeps_ban_def bind_m_def by (auto split: prod.split sum.split)

lemma keeps_ban_then: "keeps_ban k m \<Longrightarrow> keeps_ban k c \<Longrightarrow> keeps_ban k (then_m m c)"
  unfolding then_m_def by (rule keeps_ban_bind)

lemma keeps_ban_frame:
  "keeps_ban k (return_m x)" "keeps_ban k (on_kv m)" "keeps_ban k (on_multi f)" "keeps_ban k (forget_row i)"
  "keeps_ban k (forget_stamp i)"
  by (simp_all add: keeps_ban_def is_banned_def return_m_def on_kv_def on_multi_def forget_row_def forget_stamp_def
      split: prod.split)

lemma keeps_ban_rows:
  assumes "\<And>s s' r. f s = Some s' \<Longrightarrow> findRoutable s' k = Some r \<Longrightarrow>
    \<exists>r0. findRoutable s k = Some r0 \<and> (kr_status r0 = ''banned'' \<longrightarrow> kr_status r = ''banned'')"
  shows "keeps_ban k (on_rows f)"
  unfolding keeps_ban_def is_banned_def on_rows_def
  by (auto split: option.splits dest: assms)

lemma keeps_ban_marks:
  "keeps_ban k (on_rows (markBanned i))"
  "keeps_ban k (on_rows (\<lambda>rows. Some (markRecovered i rows)))"
  "k \<noteq> i \<Longrightarrow> keeps_ban k (on_rows (markCooling i t))"
proof -
  show "keeps_ban k (on_rows (markBanned i))"
    by (rule keeps_ban_rows) (auto simp: keys.find_ban split: if_splits)
  show "keeps_ban k (on_rows (\<lambda>rows. Some (markRecovered i rows)))"
    by (rule keeps_ban_rows) (auto simp: keys.find_recover split: if_splits)
  show "k \<noteq> i \<Longrightarrow> keeps_ban k (on_rows (markCooling i t))"
    by (rule keeps_ban_rows) (auto simp: keys.find_cool split: if_splits)
qed

lemmas keeps_ban_rules = keeps_ban_bind keeps_ban_then keeps_ban_frame keeps_ban_marks

lemma gw_event_keeps_ban:
  assumes "gw_ok g" "event_ok (snd e)" "\<not> cools k (snd e)" "is_banned k g"
  shows "is_banned k (snd (gw_event E e g))"
proof -
  obtain now ev where e: "e = (now, ev)" by (cases e)
  have R: "is_banned k (snd (m g))" if "keeps_ban k m" for m :: "unit gw" using that assms(4) by (simp add: keeps_ban_def)
  show ?thesis
  proof (cases ev)
    case (EDiscover F q)
    obtain r g' where run: "discoverBestPool E now F q g = (r, g')" by fastforce
    from discover_ok(2) [OF assms(1) _ run] assms(2, 4) have "is_banned k g'" by (simp add: e EDiscover is_banned_def)
    then show ?thesis by (simp add: e EDiscover gw_event_def run split: sum.split prod.split)
  qed (use assms(3) in \<open>auto simp: e gw_event_def banKey_def reportRateLimit_def coolKey_def reportSuccess_def
      reportServerFailure_def reportAuthFailure_def Let_def intro!: R keeps_ban_rules\<close>)
qed

lemma banned_not_routed:
  assumes "gw_ok g" "event_ok (snd e)" "is_banned k g" "fst (gw_event E e g) = Routed (Some rt)"
  shows "nr_keyId rt \<noteq> k"
proof
  assume k: "nr_keyId rt = k"
  obtain now ev where e: "e = (now, ev)" by (cases e)
  from assms(4) obtain F q where ev: "ev = EDiscover F q" by (cases ev) (simp_all add: e gw_event_def)
  obtain r g' where run: "discoverBestPool E now F q g = (r, g')" by fastforce
  with assms(4) obtain res where r: "r = Inr (Some rt, res)"
    by (auto simp: e ev gw_event_def split: sum.splits prod.splits)
  from discover_ok(3) [OF assms(1) _ run r] assms(2)
  have "served E (findRoutable (g_rows g)) (in_scope (q_scope q)) (set (f_active F)) (model_for F q) rt"
    by (simp add: e ev)
  with k assms(3) show False by (auto simp: served_def is_banned_def)
qed

lemma banned_run:
  assumes "gw_ok g" "list_all (\<lambda>e. event_ok (snd e) \<and> \<not> cools k (snd e)) es" "is_banned k g"
  shows "Routed (Some rt) \<in> set (fst (gw_run E es g)) \<Longrightarrow> nr_keyId rt \<noteq> k"
  using assms
proof (induction es arbitrary: g)
  case Nil
  then show ?case by simp
next
  case (Cons e es)
  then have e: "event_ok (snd e)" "\<not> cools k (snd e)" and es: "list_all (\<lambda>e. event_ok (snd e) \<and> \<not> cools k (snd e)) es"
    by simp_all
  let ?g = "snd (gw_event E e g)"
  have ok: "gw_ok ?g" by (rule gw_event_ok [OF Cons.prems(2) e(1)])
  have ban: "is_banned k ?g" by (rule gw_event_keeps_ban [OF Cons.prems(2) e Cons.prems(4)])
  from Cons.prems(1) consider "fst (gw_event E e g) = Routed (Some rt)" | "Routed (Some rt) \<in> set (fst (gw_run E es ?g))"
    unfolding gw_run_Cons by force
  then show ?case
  proof cases
    case 1
    then show ?thesis by (rule banned_not_routed [OF Cons.prems(2) e(1) Cons.prems(4)])
  next
    case 2
    then show ?thesis by (rule Cons.IH [OF _ ok es ban])
  qed
qed

lemma banKey_bans: "gw_ok g \<Longrightarrow> banKey k g = (Inr (), g') \<Longrightarrow> is_banned k g'"
  by (auto simp: banKey_def then_m_def bind_m_def on_rows_def forget_row_def forget_stamp_def is_banned_def
      keys.find_ban split: option.splits)

subsection \<open>A small gateway\<close>

text \<open>One pool with a shared key, a key of team \<open>t1\<close> and a banned one; one model; requests of two teams.\<close>

definition sample_key :: "string \<Rightarrow> string option \<Rightarrow> string \<Rightarrow> db_key" where
  "sample_key i owner st = \<lparr>kr_id = i, kr_providerId = ''p'', kr_status = st, kr_ownerTeamId = owner,
     kr_maxUsers = 5, kr_rpmLimit = 10, kr_tpmLimit = 1000, kr_encryptedKey = i, dk_lastUsedAt = None,
     dk_coolingUntil = None\<rparr>"

definition sample_gateway :: gateway where
  "sample_gateway = \<lparr>g_kv = [], g_cache = empty_key_cache, g_written = [],
     g_rows = [sample_key ''k1'' None ''active'', sample_key ''k2'' (Some ''t1'') ''active'',
       sample_key ''k3'' None ''banned'']\<rparr>"

definition sample_env :: gateway_env where
  "sample_env = \<lparr>ev_listTtl = None, ev_lastUsedWindow = None, ev_decrypt = (\<lambda>c k ow. Some c)\<rparr>"

definition sample_facts :: routing_facts where
  "sample_facts = \<lparr>f_costWeight = 0,
     f_registry = [\<lparr>rg_model = \<lparr>m_id = ''m'', m_modelString = ''gpt'', m_provider = ''openai'', m_tier = ''premium'',
        m_priority = 1, m_status = ''active'', m_capabilities = [''chat'']\<rparr>,
        rg_pricing = \<lparr>pricingSource = None, inputPricePer1k = None, outputPricePer1k = None, inputCostPer1M = None,
          outputCostPer1M = None\<rparr>\<rparr>],
     f_active = [\<lparr>pr_id = ''p'', pr_baseUrl = None, pr_provider = ''openai'', pr_authHeader = ''Authorization'',
        pr_authPrefix = None, pr_tier = ''premium'', pr_preferredModel = None, pr_extraHeaders = None,
        pr_nativeMessages = None\<rparr>]\<rparr>"

definition sample_request :: "routing_scope \<Rightarrow> discovery_request" where
  "sample_request scope = \<lparr>q_reserve = Fixed 10, q_sessionKey = None, q_scope = scope, q_capability = ''chat'',
     q_userId = None, q_preferredTier = None, q_pinnedModelId = None\<rparr>"

definition sample_scope :: "routing_scope" where
  "sample_scope = resolveScope (Some \<lparr>st_id = ''t1'', st_byokFallback = Some False, st_byokOnly = False\<rparr>) 1"

lemma sample_ok: "gw_ok sample_gateway"
  by (simp add: gw_ok_def sample_gateway_def sample_key_def empty_key_cache_def mirrors_empty)

lemma sample_pools: "event_ok (EDiscover sample_facts (sample_request sample_scope))"
  by (simp add: sample_facts_def sample_request_def sample_scope_def resolveScope_def pool_ok_def)

definition routed_key :: "(nexus_route option \<times> reservation) gw \<Rightarrow> gateway \<Rightarrow> gw_error + string option" where
  "routed_key m g = map_sum id (\<lambda>(r, _). map_option nr_keyId r) (fst (m g))"

lemma routed_keyD:
  assumes "routed_key m g = Inr (Some k)"
  obtains rt res g' where "m g = (Inr (Some rt, res), g')" "nr_keyId rt = k"
proof -
  obtain x g' where m: "m g = (x, g')" by fastforce
  with assms obtain y where "x = Inr y" by (cases x) (auto simp: routed_key_def)
  moreover obtain rt res where "y = (rt, res)" by fastforce
  ultimately show ?thesis using m assms that by (auto simp: routed_key_def)
qed

lemma sample_routes:
  "routed_key (discoverBestPool sample_env 5 sample_facts (sample_request sample_scope)) sample_gateway = Inr (Some ''k2'')"
  by code_simp

subsection \<open>Properties\<close>

text \<open>
  C2. A route is always for a key its caller may use: the row of the key table it was built from belongs to
  the caller's own team or, only where the scope falls back, to nobody; it is not banned, and the route's
  credential is that row's. A team's private key is never handed to another team or to the shared pool,
  whether it was found by a sweep, through the caches or through a session's pin.
\<close>

theorem route_respects_ownership:
  assumes "gw_ok g" and "event_ok (EDiscover F q)" and "discoverBestPool E now F q g = (Inr (Some rt, res), g')"
  shows "\<exists>row. findRoutable (g_rows g) (nr_keyId rt) = Some row \<and> kr_status row \<noteq> ''banned'' \<and>
    (kr_ownerTeamId row = rs_ownerTeamId (q_scope q) \<or> kr_ownerTeamId row = None \<and> rs_fallbackToShared (q_scope q)) \<and>
    nr_byok rt = (kr_ownerTeamId row \<noteq> None) \<and>
    ev_decrypt E (kr_encryptedKey row) (kr_id row) (kr_ownerTeamId row) = Some (nr_decryptedKey rt)"
proof -
  from discover_ok(3) [OF assms(1-3) refl]
  show ?thesis unfolding served_def in_scope_def by blast
qed

theorem route_respects_ownership_witness:
  "\<exists>rt res g'. discoverBestPool sample_env 5 sample_facts (sample_request sample_scope) sample_gateway
       = (Inr (Some rt, res), g') \<and> nr_keyId rt = ''k2'' \<and> nr_byok rt"
proof -
  from routed_keyD [OF sample_routes] obtain rt res g' where
    run: "discoverBestPool sample_env 5 sample_facts (sample_request sample_scope) sample_gateway = (Inr (Some rt, res), g')"
    and k: "nr_keyId rt = ''k2''" by blast
  from route_respects_ownership [OF sample_ok sample_pools run] k run show ?thesis
    by (auto simp: sample_request_def sample_scope_def resolveScope_def)
qed

text \<open>
  C30. A pinned request is served by the model it names and by nothing else, sticky session or not, and a
  route's model is always one the registry offers for the capability, except for chat when no model is.
\<close>

theorem pinned_model_honoured:
  assumes "gw_ok g" and "event_ok (EDiscover F q)" and "discoverBestPool E now F q g = (Inr (Some rt, res), g')"
    and "q_pinnedModelId q = Some i" and "i \<noteq> []"
  shows "nr_modelId rt = Some i \<and> (\<exists>m \<in> set (f_registry F). m_id (rg_model m) = i \<and>
    m_status (rg_model m) = ''active'' \<and> q_capability q \<in> set (m_capabilities (rg_model m)) \<and>
    m_provider (rg_model m) = nr_providerSlug rt \<and> m_modelString (rg_model m) = nr_modelString rt)"
proof -
  have pin: "truthy (q_pinnedModelId q)" using assms(4, 5) by (simp add: truthy_def)
  from discover_ok(3) [OF assms(1-3) refl] obtain p x where x: "model_for F q p x"
    and rx: "nr_modelString rt = rm_modelString x" "nr_modelId rt = rm_modelId x" "nr_providerSlug rt = pr_provider p"
    unfolding served_def by blast
  from x pin obtain m where m: "m \<in> set (candidate_models F q)" "m_provider m = pr_provider p" and "x = model_route m"
    unfolding model_for_def by blast
  with rx have rt: "nr_modelId rt = Some (m_id m)" "nr_modelString rt = m_modelString m" "nr_providerSlug rt = pr_provider p"
    by (simp_all add: model_route_def)
  have mem: "set (selectModels ms opts) = {m \<in> set ms. eligible opts m}" for ms opts
    using arg_cong [OF mset_selectModels [of ms opts], of set_mset] by simp
  from m(1) pin assms(4) have "m_id m = i" "m \<in> rg_model ` set (f_registry F)" "m_status m = ''active''"
    "q_capability q \<in> set (m_capabilities m)"
    by (auto simp: candidate_models_def Let_def mem eligible_def)
  with m(2) rt show ?thesis by auto
qed

definition pinned_sample :: discovery_request where
  "pinned_sample = (sample_request sample_scope)\<lparr>q_pinnedModelId := Some ''m''\<rparr>"

lemma pinned_sample_routes:
  "routed_key (discoverBestPool sample_env 5 sample_facts pinned_sample) sample_gateway = Inr (Some ''k2'')"
  by code_simp

theorem pinned_model_honoured_witness:
  "\<exists>rt res g'. discoverBestPool sample_env 5 sample_facts pinned_sample sample_gateway = (Inr (Some rt, res), g') \<and>
     nr_modelId rt = Some ''m''"
proof -
  from routed_keyD [OF pinned_sample_routes] obtain rt res g' where
    run: "discoverBestPool sample_env 5 sample_facts pinned_sample sample_gateway = (Inr (Some rt, res), g')" by blast
  have "event_ok (EDiscover sample_facts pinned_sample)" using sample_pools by (simp add: pinned_sample_def)
  from pinned_model_honoured [OF sample_ok this run, of "''m''"] run show ?thesis by (auto simp: pinned_sample_def)
qed

text \<open>
  C28. The caches never lie about the key table: after any history of requests, bans, rate limits, successes,
  failures and refusals, every cached row and every cached candidate list says what the table says now.
\<close>

theorem caches_mirror_table:
  assumes "gw_ok g" and "list_all (\<lambda>e. event_ok (snd e)) es"
  shows "gw_ok (snd (gw_run E es g))"
  using assms
proof (induction es arbitrary: g)
  case (Cons e es)
  then show ?case by (simp only: gw_run_Cons snd_conv) (simp add: gw_event_ok)
qed simp

theorem caches_mirror_table_witness:
  "gw_ok (snd (gw_run sample_env [(5, EDiscover sample_facts (sample_request sample_scope)), (6, EBan ''k2''),
     (7, EDiscover sample_facts (sample_request sample_scope))] sample_gateway))"
  by (rule caches_mirror_table [OF sample_ok]) (insert sample_pools, simp)

text \<open>
  C13. A banned key is out of service at once and for as long as nothing cools it: whatever requests,
  successes, refusals and failures of other keys follow the ban, and however warm the caches were, no
  route is ever for it.
\<close>

theorem banned_key_never_routed:
  assumes "gw_ok g" and "banKey k g = (Inr (), g1)"
    and "list_all (\<lambda>e. event_ok (snd e) \<and> \<not> cools k (snd e)) es"
    and "Routed (Some rt) \<in> set (fst (gw_run E es g1))"
  shows "nr_keyId rt \<noteq> k"
proof (rule banned_run [OF _ assms(3) banKey_bans [OF assms(1, 2)] assms(4)])
  show "gw_ok g1" using keeps_ok_ban assms(1, 2) by (simp add: keeps_ok_def) (metis snd_conv)
qed

lemma sample_ban:
  "banKey ''k2'' sample_gateway = (Inr (), snd (banKey ''k2'' sample_gateway))"
  by (simp add: banKey_def then_m_def bind_m_def on_rows_def markBanned_def update_row_def sample_gateway_def
      sample_key_def forget_row_def forget_stamp_def)

lemma shared_sample_pools: "event_ok (EDiscover sample_facts (sample_request SHARED_SCOPE))"
  by (simp add: sample_facts_def sample_request_def SHARED_SCOPE_def pool_ok_def)

lemma sample_after_ban:
  "routed_key (discoverBestPool sample_env 6 sample_facts (sample_request SHARED_SCOPE)) (snd (banKey ''k2'' sample_gateway))
   = Inr (Some ''k1'')"
  by code_simp

theorem banned_key_never_routed_witness:
  "\<exists>rt. Routed (Some rt) \<in> set (fst (gw_run sample_env [(6, EDiscover sample_facts (sample_request SHARED_SCOPE))]
      (snd (banKey ''k2'' sample_gateway)))) \<and> nr_keyId rt \<noteq> ''k2''"
proof -
  from routed_keyD [OF sample_after_ban] obtain rt res g' where
    run: "discoverBestPool sample_env 6 sample_facts (sample_request SHARED_SCOPE) (snd (banKey ''k2'' sample_gateway))
      = (Inr (Some rt, res), g')" by blast
  let ?es = "[(6, EDiscover sample_facts (sample_request SHARED_SCOPE))]"
  have es: "list_all (\<lambda>e. event_ok (snd e) \<and> \<not> cools ''k2'' (snd e)) ?es"
    using shared_sample_pools by simp
  have mem: "Routed (Some rt) \<in> set (fst (gw_run sample_env ?es (snd (banKey ''k2'' sample_gateway))))"
    unfolding gw_run_Cons gw_event_def prod.case gw_event.case run by simp
  from banned_key_never_routed [OF sample_ok sample_ban es mem] mem show ?thesis by blast
qed

text \<open>
  The exception: a rate limit reported for a key after it was banned (by a request that was already under
  way, or by the operator's cool action) rewrites its status to cooling, and the key is listed for
  routing again, although a ban is documented as being for good.
\<close>

theorem cooling_lifts_a_ban:
  assumes "gw_ok g" and "banKey k g = (Inr (), g1)" and "reportRateLimit now k secs g1 = (Inr (), g2)"
  shows "\<exists>row. findRoutable (g_rows g2) k = Some row \<and>
    row \<in> set (listRoutable (g_rows g2) (kr_providerId row) (kr_ownerTeamId row))"
proof -
  have ok: "gw_ok g2" using keeps_ok_ban [of k] keeps_ok_reporters(1) [of now k secs] assms
    unfolding keeps_ok_def by (metis snd_conv)
  from assms(3) obtain rows where m: "markCooling k (now + secs * 1000) (g_rows g1) = Some rows" and r2: "g_rows g2 = rows"
    by (auto simp: reportRateLimit_def coolKey_def then_m_def bind_m_def on_multi_def on_rows_def forget_row_def Let_def
        split: option.splits)
  from m have "list_ex (\<lambda>r. kr_id r = k) (g_rows g1)" by (simp add: markCooling_def update_row_def split: if_splits)
  then have "findRoutable (g_rows g1) k \<noteq> None"
    by (auto simp: findRoutable_def list_ex_iff find_None_iff)
  with keys.find_cool [OF m, of k] obtain row where row: "findRoutable rows k = Some row" "kr_status row = ''cooling''" by auto
  from ok r2 have "distinct (map kr_id rows)" by (simp add: gw_ok_def)
  from keys.listed [OF this, of row] row keys.found_id [OF row(1)] r2 show ?thesis by (auto simp: usable_def)
qed

lemma sample_cooling_run:
  "fst (reportRateLimit 6 ''k2'' 60 (snd (banKey ''k2'' sample_gateway))) = Inr ()"
  by (simp add: reportRateLimit_def coolKey_def banKey_def then_m_def bind_m_def on_multi_def on_rows_def markBanned_def
      markCooling_def update_row_def updateMany_def sample_gateway_def sample_key_def forget_row_def forget_stamp_def Let_def)

theorem cooling_lifts_a_ban_witness:
  "\<exists>row. findRoutable (g_rows (snd (reportRateLimit 6 ''k2'' 60 (snd (banKey ''k2'' sample_gateway))))) ''k2'' = Some row"
proof -
  let ?b = "snd (banKey ''k2'' sample_gateway)"
  have "reportRateLimit 6 ''k2'' 60 ?b = (Inr (), snd (reportRateLimit 6 ''k2'' 60 ?b))"
    using sample_cooling_run by (metis prod.collapse)
  from cooling_lifts_a_ban [OF sample_ok sample_ban this] show ?thesis by blast
qed

end
