(* ===== verification/Backup_Schedule.thy ===== *)
theory Backup_Schedule
  imports Js_Date Json "HOL-Library.List_Lexorder"
begin

text \<open>
  \<open>src/lib/backupSchedule.ts\<close> and the file names of \<open>src/services/backup.service.ts\<close>: when an unattended
  backup is due, and which old ones may be deleted. A schedule is first what was typed or stored
  (\<open>rat option\<close>, \<open>None\<close> for a number that is not finite) and, once read, whole numbers. The kind of a
  destination has one value and is left out. Default \<open>sort()\<close> on names is the order on texts.
\<close>

record backup_destination =
  bd_path :: string

record 'n backup_schedule =
  bs_enabled :: bool
  bs_everyDays :: 'n
  bs_hourUtc :: 'n
  bs_minuteUtc :: 'n
  bs_keep :: 'n
  bs_copyOffMachine :: bool
  bs_destination :: backup_destination

definition DEFAULT_SCHEDULE :: "int backup_schedule" where
  "DEFAULT_SCHEDULE = \<lparr>bs_enabled = False, bs_everyDays = 1, bs_hourUtc = 4, bs_minuteUtc = 0, bs_keep = 7,
     bs_copyOffMachine = False, bs_destination = \<lparr>bd_path = []\<rparr>\<rparr>"

definition MAX_EVERY_DAYS :: int where "MAX_EVERY_DAYS = 30"
definition MAX_KEEP :: int where "MAX_KEEP = 365"

subsection \<open>Reading a stored schedule\<close>

text \<open>\<open>int\<close> of \<open>parseSchedule\<close>.\<close>

definition stored_int :: "json option \<Rightarrow> int \<Rightarrow> int \<Rightarrow> int \<Rightarrow> int" where
  "stored_int v fallback lo hi = (case jnumber v of Some n \<Rightarrow> min hi (max lo \<lfloor>n\<rfloor>) | None \<Rightarrow> fallback)"

definition stored_path :: "json option \<Rightarrow> string option" where
  "stored_path d = (case jget ''path'' d of Some (JStr p) \<Rightarrow> Some p | _ \<Rightarrow> None)"

text \<open>\<open>parse\<close> is \<open>JSON.parse\<close>, \<open>None\<close> where it throws.\<close>

definition parseSchedule :: "(string \<Rightarrow> json option) \<Rightarrow> string option \<Rightarrow> int backup_schedule" where
  "parseSchedule parse raw = (case raw of None \<Rightarrow> DEFAULT_SCHEDULE | Some text \<Rightarrow>
     if text = [] then DEFAULT_SCHEDULE else
     (case parse text of
        Some (JObj kvs) \<Rightarrow> (let parsed = Some (JObj kvs); path = stored_path (jget ''destination'' parsed) in
          \<lparr>bs_enabled = (jget ''enabled'' parsed = Some (JBool True)),
           bs_everyDays = stored_int (jget ''everyDays'' parsed) (bs_everyDays DEFAULT_SCHEDULE) 1 MAX_EVERY_DAYS,
           bs_hourUtc = stored_int (jget ''hourUtc'' parsed) (bs_hourUtc DEFAULT_SCHEDULE) 0 23,
           bs_minuteUtc = stored_int (jget ''minuteUtc'' parsed) (bs_minuteUtc DEFAULT_SCHEDULE) 0 59,
           bs_keep = stored_int (jget ''keep'' parsed) (bs_keep DEFAULT_SCHEDULE) 1 MAX_KEEP,
           bs_copyOffMachine = (case jget ''copyOffMachine'' parsed of Some (JBool b) \<Rightarrow> b
              | _ \<Rightarrow> (case path of Some p \<Rightarrow> trim p \<noteq> [] | None \<Rightarrow> False)),
           bs_destination = \<lparr>bd_path = option_or path []\<rparr>\<rparr>)
      | Some (JArr xs) \<Rightarrow> DEFAULT_SCHEDULE
      | _ \<Rightarrow> DEFAULT_SCHEDULE))"

subsection \<open>Checking a typed one\<close>

datatype schedule_problem = NoFolder | RelativePath | BadDays | BadHour | BadMinute | BadKeep

definition is_letter :: "char \<Rightarrow> bool" where
  "is_letter c \<longleftrightarrow> (65 \<le> (of_char c :: nat) \<and> (of_char c :: nat) \<le> 90) \<or> (97 \<le> (of_char c :: nat) \<and> (of_char c :: nat) \<le> 122)"

definition absolute_path :: "string \<Rightarrow> bool" where
  "absolute_path path \<longleftrightarrow> starts_with ''/'' path \<or>
     (case path of d # c # s # _ \<Rightarrow> is_letter d \<and> c = CHR '':'' \<and> (s = CHR 0x5C \<or> s = CHR ''/'') | _ \<Rightarrow> False) \<or>
     starts_with [CHR 0x5C, CHR 0x5C] path"

definition destinationProblem :: "backup_destination \<Rightarrow> schedule_problem option" where
  "destinationProblem d = (let path = trim (bd_path d) in
     if path = [] then Some NoFolder
     else if \<not> absolute_path path then Some RelativePath
     else None)"

text \<open>\<open>!Number.isInteger(v) || v < lo || v > hi\<close>.\<close>

definition off_range :: "rat option \<Rightarrow> int \<Rightarrow> int \<Rightarrow> bool" where
  "off_range v lo hi = (case v of None \<Rightarrow> True | Some n \<Rightarrow> n \<noteq> of_int \<lfloor>n\<rfloor> \<or> n < of_int lo \<or> of_int hi < n)"

definition scheduleProblem :: "rat option backup_schedule \<Rightarrow> schedule_problem option" where
  "scheduleProblem s =
     (if off_range (bs_everyDays s) 1 MAX_EVERY_DAYS then Some BadDays
      else if off_range (bs_hourUtc s) 0 23 then Some BadHour
      else if off_range (bs_minuteUtc s) 0 59 then Some BadMinute
      else if off_range (bs_keep s) 1 MAX_KEEP then Some BadKeep
      else if bs_copyOffMachine s then destinationProblem (bs_destination s) else None)"

subsection \<open>When a run is due\<close>

definition onCycle :: "int \<Rightarrow> int \<Rightarrow> bool" where
  "onCycle utcDay everyDays \<longleftrightarrow> everyDays \<noteq> 0 \<and> js_rem utcDay everyDays = 0"

definition time_of_day :: "int backup_schedule \<Rightarrow> int" where
  "time_of_day s = (bs_hourUtc s * 60 + bs_minuteUtc s) * 60000"

definition lastDueAt :: "int backup_schedule \<Rightarrow> int \<Rightarrow> int option" where
  "lastDueAt s now = (let today = day_of now; inst = (\<lambda>i. (today - i) * MS_PER_DAY + time_of_day s) in
     map_option inst (find (\<lambda>i. onCycle (today - i) (bs_everyDays s) \<and> inst i \<le> now) [0..bs_everyDays s]))"

definition nextDueAt :: "int backup_schedule \<Rightarrow> int \<Rightarrow> int" where
  "nextDueAt s now = (let today = day_of now; inst = (\<lambda>i. (today + i) * MS_PER_DAY + time_of_day s) in
     case find (\<lambda>i. onCycle (today + i) (bs_everyDays s) \<and> now < inst i) [0..bs_everyDays s + 1] of
       Some i \<Rightarrow> inst i
     | None \<Rightarrow> now + bs_everyDays s * MS_PER_DAY)"

definition isDue :: "int backup_schedule \<Rightarrow> int option \<Rightarrow> int \<Rightarrow> bool" where
  "isDue s lastRunAt now = (if \<not> bs_enabled s then False
     else case lastDueAt s now of None \<Rightarrow> False
       | Some due \<Rightarrow> (case lastRunAt of None \<Rightarrow> True | Some t \<Rightarrow> t < due))"

subsection \<open>Names\<close>

definition eat_text :: "string \<Rightarrow> string \<Rightarrow> string option" where
  "eat_text p s = (if starts_with p s then Some (drop (length p) s) else None)"

definition eat_digits :: "nat \<Rightarrow> string \<Rightarrow> string option" where
  "eat_digits n s = (if n \<le> length s \<and> list_all is_digit (take n s) then Some (drop n s) else None)"

fun eat_fields :: "nat \<Rightarrow> string \<Rightarrow> string option" where
  "eat_fields 0 s = Some s"
| "eat_fields (Suc n) s = Option.bind (Option.bind (eat_text ''-'' s) (eat_digits 2)) (eat_fields n)"

definition isBackupFilename :: "string \<Rightarrow> bool" where
  "isBackupFilename name \<longleftrightarrow>
     Option.bind (Option.bind (eat_text ''alayra-nexus-backup-'' name) (eat_digits 4)) (eat_fields 5) = Some ''.nxb''"

text \<open>\<open>toISOString().slice(0, 19)\<close> with \<open>:\<close> and \<open>T\<close> made dashes.\<close>

definition iso_year :: "int \<Rightarrow> string" where
  "iso_year y = (if 0 \<le> y \<and> y \<le> 9999 then pad_start 4 (CHR ''0'') (int_string y)
     else (if y < 0 then ''-'' else ''+'') @ pad_start 6 (CHR ''0'') (int_string \<bar>y\<bar>))"

definition two :: "int \<Rightarrow> string" where
  "two n = pad_start 2 (CHR ''0'') (int_string n)"

definition clock_fields :: "int \<Rightarrow> int list" where
  "clock_fields t = [UTCMonth t + 1, UTCDate t, t mod MS_PER_DAY div 3600000,
     t mod 3600000 div 60000, t mod 60000 div 1000]"

definition iso_stamp :: "int \<Rightarrow> string" where
  "iso_stamp t = take 19 (iso_year (UTCFullYear t) @ concat (map (\<lambda>n. CHR ''-'' # two n) (clock_fields t)))"

definition backupFilename :: "int \<Rightarrow> string" where
  "backupFilename t = ''alayra-nexus-backup-'' @ iso_stamp t @ ''.nxb''"

subsection \<open>Retention\<close>

definition prunable :: "string list \<Rightarrow> rat option \<Rightarrow> string list" where
  "prunable filenames keep = (case keep of None \<Rightarrow> [] | Some k \<Rightarrow>
     if k \<noteq> of_int \<lfloor>k\<rfloor> \<or> k < 1 then []
     else let ours = sort (filter isBackupFilename filenames) in take (length ours - nat \<lfloor>k\<rfloor>) ours)"

subsection \<open>A due instant\<close>

definition schedule_ok :: "int backup_schedule \<Rightarrow> bool" where
  "schedule_ok s \<longleftrightarrow> 1 \<le> bs_everyDays s \<and> bs_everyDays s \<le> MAX_EVERY_DAYS \<and> 0 \<le> bs_hourUtc s \<and> bs_hourUtc s \<le> 23 \<and>
     0 \<le> bs_minuteUtc s \<and> bs_minuteUtc s \<le> 59 \<and> 1 \<le> bs_keep s \<and> bs_keep s \<le> MAX_KEEP"

text \<open>The instants a schedule names: its time of day on every day of its cycle.\<close>

definition due_instant :: "int backup_schedule \<Rightarrow> int \<Rightarrow> bool" where
  "due_instant s d \<longleftrightarrow> (\<exists>day. bs_everyDays s dvd day \<and> d = day * MS_PER_DAY + time_of_day s)"

lemma stored_int_range: "lo \<le> fallback \<Longrightarrow> fallback \<le> hi \<Longrightarrow> lo \<le> stored_int v fallback lo hi \<and> stored_int v fallback lo hi \<le> hi"
  by (auto simp: stored_int_def split: option.split)

lemma default_ok: "schedule_ok DEFAULT_SCHEDULE"
  by (simp add: schedule_ok_def DEFAULT_SCHEDULE_def MAX_EVERY_DAYS_def MAX_KEEP_def)

lemma parsed_ok: "schedule_ok (parseSchedule parse raw)"
  using default_ok
  by (auto simp: parseSchedule_def schedule_ok_def Let_def stored_int_range split: option.split json.split)

lemma off_range_int: "\<not> off_range v lo hi \<Longrightarrow> \<exists>n. v = Some (of_int n) \<and> lo \<le> n \<and> n \<le> hi"
  by (auto simp: off_range_def not_less split: option.splits)

lemma js_rem_dvd: "onCycle day n \<longleftrightarrow> n \<noteq> 0 \<and> n dvd day"
  by (auto simp: onCycle_def js_rem_def mod_eq_0_iff_dvd)

lemma time_of_day_bounds: "schedule_ok s \<Longrightarrow> 0 \<le> time_of_day s \<and> time_of_day s < MS_PER_DAY"
  by (simp add: schedule_ok_def time_of_day_def MS_PER_DAY_def)

lemma find_range:
  fixes a b :: int
  shows "find P [a..b] = Some i \<longleftrightarrow> a \<le> i \<and> i \<le> b \<and> P i \<and> (\<forall>j. a \<le> j \<longrightarrow> j < i \<longrightarrow> \<not> P j)"
proof (induction "nat (b + 1 - a)" arbitrary: a)
  case 0
  then have "[a..b] = []" by simp
  with 0 show ?case by simp
next
  case (Suc n)
  then have ab: "a \<le> b" by simp
  then have c: "[a..b] = a # [a + 1..b]" by (simp add: upto.simps)
  from Suc have "find P [a + 1..b] = Some i \<longleftrightarrow>
    a + 1 \<le> i \<and> i \<le> b \<and> P i \<and> (\<forall>j. a + 1 \<le> j \<longrightarrow> j < i \<longrightarrow> \<not> P j)" by auto
  then show ?case unfolding c using ab by (auto dest: order_le_imp_less_or_eq)
qed

lemma find_range_none: "find P [a..b] = None \<longleftrightarrow> (\<forall>i :: int. a \<le> i \<longrightarrow> i \<le> b \<longrightarrow> \<not> P i)"
  by (auto simp: find_None_iff)

text \<open>Two due instants are at least a cycle apart, and one cycle brings the next.\<close>

lemma due_apart:
  assumes "due_instant s d" "due_instant s e" "d < e" "schedule_ok s"
  shows "d + bs_everyDays s * MS_PER_DAY \<le> e"
proof -
  from assms(1,2) obtain x y where xy: "bs_everyDays s dvd x" "d = x * MS_PER_DAY + time_of_day s"
    "bs_everyDays s dvd y" "e = y * MS_PER_DAY + time_of_day s" by (auto simp: due_instant_def)
  with assms(3) have "0 < y - x" by (simp add: MS_PER_DAY_def)
  moreover have "bs_everyDays s dvd y - x" using xy by simp
  ultimately have "bs_everyDays s \<le> y - x" by (rule zdvd_imp_le [rotated])
  then have "bs_everyDays s * MS_PER_DAY \<le> (y - x) * MS_PER_DAY" by (simp add: MS_PER_DAY_def)
  with xy show ?thesis by (simp add: algebra_simps)
qed

lemma due_next: "due_instant s d \<Longrightarrow> due_instant s (d + bs_everyDays s * MS_PER_DAY)"
proof -
  assume "due_instant s d"
  then obtain x where "bs_everyDays s dvd x" "d = x * MS_PER_DAY + time_of_day s" by (auto simp: due_instant_def)
  then show ?thesis
    unfolding due_instant_def by (intro exI [of _ "x + bs_everyDays s"]) (simp add: algebra_simps)
qed

lemma day_span: "day_of t * MS_PER_DAY \<le> t" "t < (day_of t + 1) * MS_PER_DAY"
  using day_of_bounds [of t] by (simp_all add: algebra_simps)

lemma later_day: "a + 1 \<le> b \<Longrightarrow> 0 \<le> c \<Longrightarrow> c < MS_PER_DAY \<Longrightarrow> a * MS_PER_DAY + c < b * MS_PER_DAY"
proof -
  assume *: "a + 1 \<le> b" "0 \<le> c" "c < MS_PER_DAY"
  have "(a + 1) * MS_PER_DAY \<le> b * MS_PER_DAY" using * by (intro mult_right_mono) auto
  with * show ?thesis by (simp add: algebra_simps)
qed

lemma lastDueAt_spec:
  assumes ok: "schedule_ok s"
  shows "\<exists>d. lastDueAt s now = Some d \<and> due_instant s d \<and> d \<le> now \<and> now < d + bs_everyDays s * MS_PER_DAY"
proof -
  let ?n = "bs_everyDays s" and ?today = "day_of now"
  let ?at = "\<lambda>i. (?today - i) * MS_PER_DAY + time_of_day s"
  let ?P = "\<lambda>i. onCycle (?today - i) ?n \<and> ?at i \<le> now"
  have n: "1 \<le> ?n" using ok by (simp add: schedule_ok_def)
  note tod = time_of_day_bounds [OF ok] and day = day_span [of now]
  define r where "r = ?today mod ?n"
  have r: "0 \<le> r" "r < ?n" "?n dvd ?today - r" using n by (simp_all add: r_def minus_mod_eq_mult_div)
  have "\<exists>i. 0 \<le> i \<and> i \<le> ?n \<and> ?P i"
  proof (cases "?at r \<le> now")
    case True
    then show ?thesis using r n by (intro exI [of _ r]) (auto simp: js_rem_dvd)
  next
    case False
    have "r = 0"
    proof (rule ccontr)
      assume "r \<noteq> 0"
      then have "?today - r + 1 \<le> ?today" using r by simp
      from later_day [OF this conjunct1 [OF tod] conjunct2 [OF tod]] day False show False by simp
    qed
    then have "?P ?n" using r n later_day [of "?today - ?n" ?today "time_of_day s"] tod day
      by (auto simp: js_rem_dvd)
    then show ?thesis using n by (intro exI [of _ ?n]) auto
  qed
  then obtain i where f: "find ?P [0..?n] = Some i"
    by (cases "find ?P [0..?n]") (auto simp: find_range_none)
  then have i: "0 \<le> i" "i \<le> ?n" "?n dvd ?today - i" "?at i \<le> now"
    and m: "\<And>j. 0 \<le> j \<Longrightarrow> j < i \<Longrightarrow> \<not> ?P j" by (auto simp: find_range js_rem_dvd)
  have "now < ?at (i - ?n)"
  proof (cases "0 \<le> i - ?n")
    case True
    moreover have "?n dvd ?today - (i - ?n)"
      using dvd_add [OF i(3) dvd_refl] by (simp only: diff_diff_eq2 diff_add_eq)
    ultimately show ?thesis using m [of "i - ?n"] n by (auto simp: js_rem_dvd)
  next
    case False
    then have "(?today + 1) * MS_PER_DAY \<le> (?today - (i - ?n)) * MS_PER_DAY"
      by (intro mult_right_mono) (auto simp: MS_PER_DAY_def)
    with day tod show ?thesis by linarith
  qed
  moreover have "lastDueAt s now = Some (?at i)" using f by (simp add: lastDueAt_def Let_def)
  moreover have "due_instant s (?at i)" using i by (auto simp: due_instant_def)
  ultimately show ?thesis using i by (intro exI [of _ "?at i"]) (simp add: algebra_simps)
qed

lemma nextDueAt_spec:
  assumes ok: "schedule_ok s"
  shows "due_instant s (nextDueAt s now) \<and> now < nextDueAt s now \<and> nextDueAt s now - bs_everyDays s * MS_PER_DAY \<le> now"
proof -
  let ?n = "bs_everyDays s" and ?today = "day_of now"
  let ?at = "\<lambda>i. (?today + i) * MS_PER_DAY + time_of_day s"
  let ?P = "\<lambda>i. onCycle (?today + i) ?n \<and> now < ?at i"
  have n: "1 \<le> ?n" using ok by (simp add: schedule_ok_def)
  note tod = time_of_day_bounds [OF ok] and day = day_span [of now]
  define q where "q = (- ?today) mod ?n"
  have q: "0 \<le> q" "q < ?n" using n by (simp_all add: q_def)
  have qd: "?n dvd ?today + q"
    unfolding q_def by (simp add: mod_eq_0_iff_dvd [symmetric] mod_add_right_eq)
  have "\<exists>i. 0 \<le> i \<and> i \<le> ?n + 1 \<and> ?P i"
  proof (cases "now < ?at q")
    case True
    then show ?thesis using q qd n by (intro exI [of _ q]) (auto simp: js_rem_dvd)
  next
    case False
    have "q = 0"
    proof (rule ccontr)
      assume "q \<noteq> 0"
      then have "(?today + 1) * MS_PER_DAY \<le> (?today + q) * MS_PER_DAY"
        using q by (intro mult_right_mono) (auto simp: MS_PER_DAY_def)
      with day tod False show False by linarith
    qed
    moreover have "(?today + 1) * MS_PER_DAY \<le> (?today + ?n) * MS_PER_DAY"
      using n by (intro mult_right_mono) (auto simp: MS_PER_DAY_def)
    then have "now < ?at ?n" using day tod by linarith
    ultimately have "?P ?n" using qd n by (simp add: js_rem_dvd)
    then show ?thesis using n by (intro exI [of _ ?n]) auto
  qed
  then obtain i where f: "find ?P [0..?n + 1] = Some i"
    by (cases "find ?P [0..?n + 1]") (auto simp: find_range_none)
  then have i: "0 \<le> i" "?n dvd ?today + i" "now < ?at i"
    and m: "\<And>j. 0 \<le> j \<Longrightarrow> j < i \<Longrightarrow> \<not> ?P j" by (auto simp: find_range js_rem_dvd)
  have "?at (i - ?n) \<le> now"
  proof (cases "0 \<le> i - ?n")
    case True
    moreover have "?n dvd ?today + (i - ?n)" using i(2) by (simp add: algebra_simps)
    ultimately show ?thesis using m [of "i - ?n"] n by (auto simp: js_rem_dvd)
  next
    case False
    then have "?today + (i - ?n) + 1 \<le> ?today" by simp
    from later_day [OF this conjunct1 [OF tod] conjunct2 [OF tod]] day show ?thesis by simp
  qed
  moreover have "nextDueAt s now = ?at i" using f by (simp add: nextDueAt_def Let_def)
  moreover have "due_instant s (?at i)" using i by (auto simp: due_instant_def)
  ultimately show ?thesis using i by (simp add: algebra_simps)
qed

lemma last_due_greatest:
  assumes "schedule_ok s" "lastDueAt s now = Some d" "due_instant s e" "e \<le> now"
  shows "e \<le> d"
  using lastDueAt_spec [OF assms(1), of now] due_apart [of s d e] assms by fastforce

end
