(* ===== verification/Backup_Target.thy ===== *)
theory Backup_Target
  imports Backup_Schedule "HOL-Library.Word"
begin

text \<open>
  What the backup code relies on wherever it writes one, in the gateway's database or in a folder:
  a backup under way is not visible, a committed one holds exactly the bytes written, and one that is
  given up or whose writes failed leaves what was visible as it was. The interface is that of
  \<open>StoredBackupWriter\<close> and \<open>BackupSink\<close>; a target's own bookkeeping is behind \<open>writing\<close> (a backup of
  this name with these bytes so far) and \<open>broken\<close> (a write has failed).
\<close>

type_synonym bytes = "8 word list"

definition PARTIAL_SUFFIX :: string where "PARTIAL_SUFFIX = ''.partial''"

definition isComplete :: "string \<Rightarrow> bool" where
  "isComplete filename \<longleftrightarrow> \<not> ends_with PARTIAL_SUFFIX filename"

lemma partial_name: "\<not> isComplete (name @ PARTIAL_SUFFIX)"
  by (simp add: isComplete_def ends_with_def)

lemma partial_inj: "m @ PARTIAL_SUFFIX = n @ PARTIAL_SUFFIX \<longleftrightarrow> m = n"
  by simp

text \<open>The outcomes of the fallible operations to come; when none is listed they succeed.\<close>

definition next_outcome :: "bool list \<Rightarrow> bool \<times> bool list" where
  "next_outcome bs = (case bs of [] \<Rightarrow> (True, []) | b # bs' \<Rightarrow> (b, bs'))"

locale backup_target =
  fixes start :: "string \<Rightarrow> 's \<Rightarrow> ('w \<times> 's) option"
    and put :: "bytes \<Rightarrow> 'w \<times> 's \<Rightarrow> 'w \<times> 's"
    and finish :: "'w \<times> 's \<Rightarrow> (nat option) \<times> 's"
    and give_up :: "'w \<times> 's \<Rightarrow> 's"
    and stored :: "'s \<Rightarrow> string \<Rightarrow> bytes option"
    and healthy :: "'s \<Rightarrow> bool"
    and writing :: "string \<Rightarrow> bytes \<Rightarrow> 'w \<times> 's \<Rightarrow> bool"
    and broken :: "string \<Rightarrow> 'w \<times> 's \<Rightarrow> bool"
  assumes start_writes: "healthy s \<Longrightarrow> isComplete name \<Longrightarrow> start name s = Some ws \<Longrightarrow> writing name [] ws"
    and start_hides: "healthy s \<Longrightarrow> isComplete name \<Longrightarrow> start name s = Some ws \<Longrightarrow> isComplete n \<Longrightarrow> stored (snd ws) n = stored s n"
    and put_writes: "writing name b ws \<Longrightarrow> writing name (b @ p) (put p ws) \<or> broken name (put p ws)"
    and put_broken: "broken name ws \<Longrightarrow> broken name (put p ws)"
    and put_hides: "writing name b ws \<or> broken name ws \<Longrightarrow> isComplete n \<Longrightarrow> stored (snd (put p ws)) n = stored (snd ws) n"
    and finish_stores: "writing name b ws \<Longrightarrow> finish ws = (Some len, s') \<Longrightarrow> len = length b \<and> stored s' name = Some b \<and> healthy s'"
    and finish_others: "writing name b ws \<Longrightarrow> finish ws = (r, s') \<Longrightarrow> isComplete n \<Longrightarrow> r = None \<or> n \<noteq> name \<Longrightarrow> stored s' n = stored (snd ws) n"
    and finish_broken: "broken name ws \<Longrightarrow> finish ws = (None, snd ws)"
    and give_up_hides: "writing name b ws \<or> broken name ws \<Longrightarrow> isComplete n \<Longrightarrow> stored (give_up ws) n = stored (snd ws) n"
    and give_up_healthy: "writing name b ws \<or> broken name ws \<Longrightarrow> healthy (give_up ws)"
begin

definition puts :: "bytes list \<Rightarrow> 'w \<times> 's \<Rightarrow> 'w \<times> 's" where
  "puts ps ws = fold put ps ws"

lemma puts_result: "writing name b ws \<Longrightarrow> writing name (b @ concat ps) (puts ps ws) \<or> broken name (puts ps ws)"
proof (induction ps arbitrary: b ws)
  case (Cons p ps)
  have stay: "broken name ws \<Longrightarrow> broken name (puts qs ws)" for qs ws
    unfolding puts_def by (induction qs arbitrary: ws) (simp_all add: put_broken)
  from put_writes [OF Cons.prems, of p] show ?case
    using Cons.IH [of "b @ p" "put p ws"] stay [of "put p ws" ps] by (auto simp: puts_def)
qed (simp add: puts_def)

lemma puts_hide:
  assumes "writing name b ws \<or> broken name ws" "isComplete n"
  shows "stored (snd (puts ps ws)) n = stored (snd ws) n"
  using assms(1)
proof (induction ps arbitrary: b ws)
  case (Cons p ps)
  then have "writing name (b @ p) (put p ws) \<or> broken name (put p ws)" using put_writes put_broken by blast
  from Cons.IH [OF this] put_hides [OF Cons.prems assms(2), of p] show ?case by (simp add: puts_def)
qed (simp add: puts_def)

text \<open>A whole backup: all pieces, then the moment it becomes visible.\<close>

lemma stored_whole:
  assumes "healthy s" "isComplete name" "start name s = Some ws" "finish (puts ps ws) = (Some len, s')"
  shows "len = length (concat ps)" "stored s' name = Some (concat ps)" "healthy s'"
    and "isComplete n \<Longrightarrow> n \<noteq> name \<Longrightarrow> stored s' n = stored s n"
proof -
  note w = start_writes [OF assms(1-3)]
  have "\<not> broken name (puts ps ws)" using finish_broken assms(4) by fastforce
  then have p: "writing name (concat ps) (puts ps ws)" using puts_result [OF w, of ps] by auto
  from finish_stores [OF p assms(4)]
  show "len = length (concat ps)" "stored s' name = Some (concat ps)" "healthy s'" by simp_all
  show "stored s' n = stored s n" if "isComplete n" "n \<noteq> name"
    using finish_others [OF p assms(4)] puts_hide [OF disjI1 [OF w]] start_hides [OF assms(1-3)] that by metis
qed

text \<open>All or nothing: what was visible before is untouched unless the backup is committed.\<close>

lemma nothing_partial:
  assumes "healthy s" "isComplete name" "start name s = Some ws" "isComplete n"
  shows "stored (snd (puts ps ws)) n = stored s n" "stored (give_up (puts ps ws)) n = stored s n"
    and "finish (puts ps ws) = (None, s') \<Longrightarrow> stored s' n = stored s n"
    and "healthy (give_up (puts ps ws))"
proof -
  note w = start_writes [OF assms(1-3)]
  have h: "stored (snd (puts ps ws)) n = stored s n"
    using puts_hide [OF disjI1 [OF w] assms(4)] start_hides [OF assms] by metis
  then show "stored (snd (puts ps ws)) n = stored s n" .
  note p = puts_result [OF w, of ps]
  from give_up_hides [OF p assms(4)] h show "stored (give_up (puts ps ws)) n = stored s n" by simp
  from give_up_healthy [OF p] show "healthy (give_up (puts ps ws))" .
  show "stored s' n = stored s n" if f: "finish (puts ps ws) = (None, s')"
    using p
  proof
    assume "writing name ([] @ concat ps) (puts ps ws)"
    from finish_others [OF this f assms(4)] h show ?thesis by simp
  next
    assume "broken name (puts ps ws)"
    from finish_broken [OF this] f h show ?thesis by simp
  qed
qed

end

end
