(* ===== verification/Backup_Store.thy ===== *)
theory Backup_Store
  imports Backup_Target
begin

text \<open>
  \<open>src/lib/backup/backupStore.ts\<close>: backups in the gateway's own database, in chunk rows of bounded size,
  under a partial name until committed. The tables are lists of rows; deleting a backup row deletes its
  chunks. The database's clock and the outcomes of its next insertions are part of its state. After a
  failed insertion the stream is destroyed, so later pieces are dropped.
\<close>

datatype backup_origin = Scheduled | Manual

record stored_backup =
  sb_id :: nat
  sb_filename :: string
  sb_createdAt :: int
  sb_bytes :: nat
  sb_rows :: nat
  sb_origin :: backup_origin

record chunk_row =
  ck_backup :: nat
  ck_seq :: nat
  ck_data :: bytes

record backup_db =
  db_backups :: "stored_backup list"
  db_chunks :: "chunk_row list"
  db_next :: nat
  db_now :: int
  db_outcomes :: "bool list"

record store_writer =
  sw_filename :: string
  sw_parent :: nat
  sw_pending :: "bytes list"
  sw_pendingBytes :: nat
  sw_seq :: nat
  sw_total :: nat
  sw_rows :: nat
  sw_failed :: bool

definition CHUNK_BYTES :: nat where "CHUNK_BYTES = 1024 * 1024"
definition READ_BATCH :: nat where "READ_BATCH = 8"

subsection \<open>Rows\<close>

definition delete_backups :: "(stored_backup \<Rightarrow> bool) \<Rightarrow> backup_db \<Rightarrow> backup_db" where
  "delete_backups sel db = (let doomed = map sb_id (filter sel (db_backups db)) in
     db\<lparr>db_backups := filter (\<lambda>b. \<not> sel b) (db_backups db),
        db_chunks := filter (\<lambda>c. ck_backup c \<notin> set doomed) (db_chunks db)\<rparr>)"

definition deleteStoredBackup :: "string \<Rightarrow> backup_db \<Rightarrow> backup_db" where
  "deleteStoredBackup filename = delete_backups (\<lambda>b. sb_filename b = filename)"

definition listStoredBackups :: "backup_db \<Rightarrow> stored_backup list" where
  "listStoredBackups db = filter (\<lambda>b. isComplete (sb_filename b)) (sort_key (\<lambda>b. - sb_createdAt b) (db_backups db))"

definition findStoredBackup :: "string \<Rightarrow> backup_db \<Rightarrow> stored_backup option" where
  "findStoredBackup filename db = (if \<not> isComplete filename then None
     else find (\<lambda>b. sb_filename b = filename) (db_backups db))"

definition storedBackupBytes :: "backup_db \<Rightarrow> nat" where
  "storedBackupBytes db = sum_list (map sb_bytes (listStoredBackups db))"

subsection \<open>Writing\<close>

definition beginStoredBackup :: "backup_origin \<Rightarrow> string \<Rightarrow> backup_db \<Rightarrow> (store_writer \<times> backup_db) option" where
  "beginStoredBackup origin filename db =
     (if \<exists>b \<in> set (db_backups db). sb_filename b = filename then None
      else let db' = deleteStoredBackup (filename @ PARTIAL_SUFFIX) db; i = db_next db in
        Some (\<lparr>sw_filename = filename, sw_parent = i, sw_pending = [], sw_pendingBytes = 0, sw_seq = 0,
               sw_total = 0, sw_rows = 0, sw_failed = False\<rparr>,
              db'\<lparr>db_backups := db_backups db' @ [\<lparr>sb_id = i, sb_filename = filename @ PARTIAL_SUFFIX,
                    sb_createdAt = db_now db, sb_bytes = 0, sb_rows = 0, sb_origin = origin\<rparr>],
                  db_next := Suc i\<rparr>))"

text \<open>\<open>backupChunk.create\<close>, whose sequence number is taken whether or not it succeeds.\<close>

definition insert_chunk :: "bytes \<Rightarrow> store_writer \<Rightarrow> backup_db \<Rightarrow> bool \<times> store_writer \<times> backup_db" where
  "insert_chunk data w db = (case next_outcome (db_outcomes db) of (ok, rest) \<Rightarrow>
     let db' = db\<lparr>db_outcomes := rest\<rparr>; w' = w\<lparr>sw_seq := Suc (sw_seq w)\<rparr> in
     if ok then (True, w'\<lparr>sw_total := sw_total w + length data\<rparr>,
        db'\<lparr>db_chunks := db_chunks db @ [\<lparr>ck_backup = sw_parent w, ck_seq = sw_seq w, ck_data = data\<rparr>]\<rparr>)
     else (False, w', db'))"

definition split_head :: "store_writer \<Rightarrow> bytes \<times> store_writer" where
  "split_head w = (let joined = concat (sw_pending w); rest = drop CHUNK_BYTES joined in
     (take CHUNK_BYTES joined, w\<lparr>sw_pending := (if rest \<noteq> [] then [rest] else []), sw_pendingBytes := length rest\<rparr>))"

lemma split_head_smaller:
  assumes "split_head w = (head, w')" and "CHUNK_BYTES \<le> sw_pendingBytes w"
  shows "length (concat (sw_pending w')) < length (concat (sw_pending w)) \<or>
    length (concat (sw_pending w')) = length (concat (sw_pending w)) \<and> sw_pendingBytes w' < sw_pendingBytes w"
  using assms by (auto simp: split_head_def Let_def CHUNK_BYTES_def split: if_splits)

lemma insert_chunk_pending:
  "insert_chunk d w db = (ok, w', db') \<Longrightarrow> sw_pending w' = sw_pending w \<and> sw_pendingBytes w' = sw_pendingBytes w"
  by (auto simp: insert_chunk_def Let_def split: prod.splits if_splits)

function write_chunks :: "store_writer \<times> backup_db \<Rightarrow> store_writer \<times> backup_db" where
  "write_chunks (w, db) = (if CHUNK_BYTES \<le> sw_pendingBytes w then
       case split_head w of (head, w') \<Rightarrow>
       (case insert_chunk head w' db of
          (True, ws) \<Rightarrow> write_chunks ws
        | (False, w'', db') \<Rightarrow> (w''\<lparr>sw_failed := True\<rparr>, db'))
     else (w, db))"
  by pat_completeness auto

termination
proof (relation "measures [\<lambda>(w, db). length (concat (sw_pending w)), \<lambda>(w, db). sw_pendingBytes w]", goal_cases)
  case (2 w db head w' ok ws)
  then show ?case
    using split_head_smaller [of w head w'] insert_chunk_pending [of head w' db ok "fst ws" "snd ws"]
    by (cases ws) auto
qed simp

definition write_piece :: "bytes \<Rightarrow> store_writer \<times> backup_db \<Rightarrow> store_writer \<times> backup_db" where
  "write_piece piece ws = (case ws of (w, db) \<Rightarrow>
     if sw_failed w then (w, db)
     else write_chunks (w\<lparr>sw_pending := sw_pending w @ [piece], sw_pendingBytes := sw_pendingBytes w + length piece\<rparr>, db))"

definition describeContents :: "nat \<Rightarrow> store_writer \<times> backup_db \<Rightarrow> store_writer \<times> backup_db" where
  "describeContents n ws = (case ws of (w, db) \<Rightarrow> (w\<lparr>sw_rows := n\<rparr>, db))"

definition flush_rest :: "store_writer \<Rightarrow> backup_db \<Rightarrow> bool \<times> store_writer \<times> backup_db" where
  "flush_rest w db = (if sw_pendingBytes w = 0 then (True, w, db)
     else insert_chunk (concat (sw_pending w)) (w\<lparr>sw_pending := [], sw_pendingBytes := 0\<rparr>) db)"

text \<open>The update to the real name, refused by the unique constraint or by the database.\<close>

definition publish :: "store_writer \<Rightarrow> backup_db \<Rightarrow> nat option \<times> backup_db" where
  "publish w db = (case next_outcome (db_outcomes db) of (ok, rest) \<Rightarrow>
     let db' = db\<lparr>db_outcomes := rest\<rparr> in
     if ok \<and> (\<forall>b \<in> set (db_backups db). sb_id b \<noteq> sw_parent w \<longrightarrow> sb_filename b \<noteq> sw_filename w)
     then (Some (sw_total w), db'\<lparr>db_backups := map (\<lambda>b. if sb_id b = sw_parent w
            then b\<lparr>sb_filename := sw_filename w, sb_bytes := sw_total w, sb_rows := sw_rows w\<rparr> else b) (db_backups db)\<rparr>)
     else (None, db'))"

definition commit_backup :: "store_writer \<times> backup_db \<Rightarrow> nat option \<times> backup_db" where
  "commit_backup ws = (case ws of (w, db) \<Rightarrow>
     if sw_failed w then (None, db)
     else (case flush_rest w db of
         (False, w', db') \<Rightarrow> (None, db')
       | (True, w', db') \<Rightarrow> publish w' db'))"

definition abort_backup :: "store_writer \<times> backup_db \<Rightarrow> backup_db" where
  "abort_backup ws = (case ws of (w, db) \<Rightarrow> delete_backups (\<lambda>b. sb_id b = sw_parent w) db)"

subsection \<open>Reading\<close>

definition next_batch :: "chunk_row list \<Rightarrow> nat \<Rightarrow> int \<Rightarrow> chunk_row list" where
  "next_batch cs backup after = take READ_BATCH
     (sort_key ck_seq (filter (\<lambda>c. ck_backup c = backup \<and> after < int (ck_seq c)) cs))"

lemma next_batch_last:
  assumes "next_batch cs backup after \<noteq> []"
  shows "last (next_batch cs backup after) \<in> set cs" "after < int (ck_seq (last (next_batch cs backup after)))"
    "ck_backup (last (next_batch cs backup after)) = backup"
  using last_in_set [OF assms] by (auto simp: next_batch_def dest: in_set_takeD)

function chunk_stream :: "chunk_row list \<Rightarrow> nat \<Rightarrow> int \<Rightarrow> bytes list" where
  "chunk_stream cs backup after = (let batch = next_batch cs backup after in
     if batch = [] then [] else map ck_data batch @ chunk_stream cs backup (int (ck_seq (last batch))))"
  by pat_completeness auto

termination
proof (relation "measure (\<lambda>(cs, backup, after). length (filter (\<lambda>c. after < int (ck_seq c)) cs))", goal_cases)
  case (2 cs backup after batch)
  then have l: "last batch \<in> set cs" "after < int (ck_seq (last batch))" using next_batch_last by blast+
  let ?l = "int (ck_seq (last batch))"
  have "filter (\<lambda>c. ?l < int (ck_seq c)) cs = filter (\<lambda>c. ?l < int (ck_seq c)) (filter (\<lambda>c. after < int (ck_seq c)) cs)"
    using l by (auto simp: filter_filter intro: filter_cong)
  also have "length \<dots> < length (filter (\<lambda>c. after < int (ck_seq c)) cs)"
    using l by (intro length_filter_less [of "last batch"]) auto
  finally show ?case by simp
qed simp

declare chunk_stream.simps [simp del]

definition readStoredBackup :: "nat \<Rightarrow> backup_db \<Rightarrow> bytes" where
  "readStoredBackup backup db = concat (chunk_stream (db_chunks db) backup (- 1))"

end
