(* ===== verification/Backup_Store_Laws.thy ===== *)
theory Backup_Store_Laws
  imports Backup_Store
begin

text \<open>
  The database as a backup target: reading a backup back gives its chunks in order, every piece is either
  in a chunk or pending, and the rows of other backups are never touched; together the laws of
  \<open>Backup_Target\<close>.
\<close>

subsection \<open>Reading back\<close>

definition chunks_of :: "nat \<Rightarrow> backup_db \<Rightarrow> chunk_row list" where
  "chunks_of i db = filter (\<lambda>c. ck_backup c = i) (db_chunks db)"

lemma next_batch_of: "next_batch cs i after = take READ_BATCH (sort_key ck_seq (filter (\<lambda>c. after < int (ck_seq c)) (filter (\<lambda>c. ck_backup c = i) cs)))"
  by (simp add: next_batch_def)

lemma chunk_stream_frame:
  "filter (\<lambda>c. ck_backup c = i) cs = filter (\<lambda>c. ck_backup c = i) ds \<Longrightarrow> chunk_stream cs i after = chunk_stream ds i after"
proof (induction cs i after rule: chunk_stream.induct)
  case (1 cs i after)
  have "next_batch cs i after = next_batch ds i after" using 1(2) by (simp add: next_batch_of)
  with 1 show ?case by (simp add: chunk_stream.simps [of cs] chunk_stream.simps [of ds] Let_def)
qed

lemma read_frame: "chunks_of i db = chunks_of i db' \<Longrightarrow> readStoredBackup i db = readStoredBackup i db'"
  unfolding readStoredBackup_def chunks_of_def by (simp cong: chunk_stream_frame)

text \<open>Rows numbered from 0.\<close>

lemma numbered:
  assumes "map ck_seq fs = [0..<n]"
  shows "length fs = n" "j < n \<Longrightarrow> ck_seq (fs ! j) = j"
proof -
  show l: "length fs = n" using arg_cong [OF assms, of length] by simp
  assume j: "j < n"
  have "map ck_seq fs ! j = [0..<n] ! j" unfolding assms ..
  then show "ck_seq (fs ! j) = j" using j by (simp add: l)
qed

lemma seqs_above:
  assumes "map ck_seq fs = [0..<n]" and "k \<le> n"
  shows "filter (\<lambda>c. int k - 1 < int (ck_seq c)) fs = drop k fs"
proof -
  note l = numbered(1) [OF assms(1)] and s = numbered(2) [OF assms(1)]
  have "filter (\<lambda>c. int k - 1 < int (ck_seq c)) (take k fs) = []"
    using l s by (auto simp: filter_empty_conv in_set_conv_nth)
  moreover have "filter (\<lambda>c. int k - 1 < int (ck_seq c)) (drop k fs) = drop k fs"
    using l s by (auto simp: filter_id_conv in_set_conv_nth)
  ultimately show ?thesis by (metis append_take_drop_id filter_append self_append_conv2)
qed

lemma chunk_stream_from:
  assumes "map ck_seq (filter (\<lambda>c. ck_backup c = i) cs) = [0..<n]" and "k \<le> n"
  shows "chunk_stream cs i (int k - 1) = map ck_data (drop k (filter (\<lambda>c. ck_backup c = i) cs))"
  using assms(2)
proof (induction "n - k" arbitrary: k rule: less_induct)
  case less
  let ?fs = "filter (\<lambda>c. ck_backup c = i) cs"
  note l = numbered(1) [OF assms(1)] and s = numbered(2) [OF assms(1)]
  have sorted: "sort_key ck_seq (drop k ?fs) = drop k ?fs"
  proof (rule sort_key_id_if_sorted)
    have "map ck_seq (drop k ?fs) = [k..<n]" using assms(1) by (simp add: drop_map [symmetric])
    then show "sorted (map ck_seq (drop k ?fs))" by (metis sorted_upt)
  qed
  have b: "next_batch cs i (int k - 1) = take READ_BATCH (drop k ?fs)"
    unfolding next_batch_of seqs_above [OF assms(1) less.prems] sorted ..
  show ?case
  proof (cases "k = n")
    case True
    then show ?thesis using b l by (subst chunk_stream.simps) (simp add: Let_def)
  next
    case False
    let ?m = "min READ_BATCH (n - k)"
    have m: "0 < ?m" using False less.prems by (simp add: READ_BATCH_def)
    have ne: "take READ_BATCH (drop k ?fs) \<noteq> []" using m l by auto
    have len: "length (take READ_BATCH (drop k ?fs)) = ?m" using l by auto
    have "take READ_BATCH (drop k ?fs) ! (?m - 1) = drop k ?fs ! (?m - 1)" using m by (intro nth_take) (auto simp: min_def)
    also have "\<dots> = ?fs ! (k + (?m - 1))" using l less.prems by (intro nth_drop) simp
    finally have "last (take READ_BATCH (drop k ?fs)) = ?fs ! (k + (?m - 1))"
      unfolding last_conv_nth [OF ne] len .
    then have last: "int (ck_seq (last (take READ_BATCH (drop k ?fs)))) = int (k + ?m) - 1"
      using s [of "k + (?m - 1)"] m less.prems by auto
    have "n - (k + ?m) < n - k" "k + ?m \<le> n" using m less.prems by auto
    from less.hyps [OF this] have "chunk_stream cs i (int (k + ?m) - 1) = map ck_data (drop (k + ?m) ?fs)" .
    moreover have "take READ_BATCH (drop k ?fs) @ drop (k + ?m) ?fs = drop k ?fs"
      using l by (metis (no_types, lifting) append_take_drop_id drop_drop add.commute length_drop min.absorb2 min_def take_all drop_all linear)
    ultimately show ?thesis
      using b ne last by (subst chunk_stream.simps) (simp add: Let_def del: map_append flip: map_append)
  qed
qed

lemma read_in_order:
  "map ck_seq (chunks_of i db) = [0..<n] \<Longrightarrow> readStoredBackup i db = concat (map ck_data (chunks_of i db))"
  using chunk_stream_from [of i "db_chunks db" n 0] by (simp add: readStoredBackup_def chunks_of_def)

subsection \<open>The state while writing\<close>

definition healthy_db :: "backup_db \<Rightarrow> bool" where
  "healthy_db db \<longleftrightarrow> distinct (map sb_id (db_backups db)) \<and> distinct (map sb_filename (db_backups db)) \<and>
     (\<forall>b \<in> set (db_backups db). sb_id b < db_next db) \<and> (\<forall>c \<in> set (db_chunks db). ck_backup c < db_next db)"

definition stored_db :: "backup_db \<Rightarrow> string \<Rightarrow> bytes option" where
  "stored_db db name = map_option (\<lambda>b. readStoredBackup (sb_id b) db) (findStoredBackup name db)"

text \<open>The parent row exists under its partial name.\<close>

definition parented :: "string \<Rightarrow> store_writer \<times> backup_db \<Rightarrow> bool" where
  "parented name ws \<longleftrightarrow> healthy_db (snd ws) \<and> isComplete name \<and> sw_filename (fst ws) = name \<and>
     (\<exists>b \<in> set (db_backups (snd ws)). sb_id b = sw_parent (fst ws) \<and> sb_filename b = name @ PARTIAL_SUFFIX)"

definition holds_bytes :: "bytes \<Rightarrow> store_writer \<times> backup_db \<Rightarrow> bool" where
  "holds_bytes b ws = (case ws of (w, db) \<Rightarrow> let cs = chunks_of (sw_parent w) db in
     map ck_seq cs = [0..<sw_seq w] \<and> concat (map ck_data cs) @ concat (sw_pending w) = b \<and>
     sw_pendingBytes w = length (concat (sw_pending w)) \<and> sw_total w = length (concat (map ck_data cs)))"

definition writing_db :: "string \<Rightarrow> bytes \<Rightarrow> store_writer \<times> backup_db \<Rightarrow> bool" where
  "writing_db name b ws \<longleftrightarrow> parented name ws \<and> \<not> sw_failed (fst ws) \<and> holds_bytes b ws \<and>
     sw_pendingBytes (fst ws) < CHUNK_BYTES"

definition broken_db :: "string \<Rightarrow> store_writer \<times> backup_db \<Rightarrow> bool" where
  "broken_db name ws \<longleftrightarrow> parented name ws \<and> sw_failed (fst ws)"

text \<open>Two states that agree on the rows and on all other backups' chunks show the same.\<close>

lemma stored_frame:
  assumes "db_backups db' = db_backups db" and "parented name (w, db)"
    and "\<And>i. i \<noteq> sw_parent w \<Longrightarrow> chunks_of i db' = chunks_of i db" and "isComplete n"
  shows "stored_db db' n = stored_db db n"
proof (cases "findStoredBackup n db")
  case None
  then show ?thesis using assms(1) by (simp add: stored_db_def findStoredBackup_def split: if_splits)
next
  case (Some b)
  then have b: "b \<in> set (db_backups db)" "sb_filename b = n"
    using assms(4) by (auto simp: findStoredBackup_def find_Some_iff split: if_splits)
  from assms(2) obtain p where p: "p \<in> set (db_backups db)" "sb_id p = sw_parent w"
    "sb_filename p = name @ PARTIAL_SUFFIX" "distinct (map sb_id (db_backups db))" by (auto simp: parented_def healthy_db_def)
  have "sb_id b \<noteq> sw_parent w"
    using b p assms(4) partial_name eq_key_imp_eq_value by (metis inj_onD distinct_map)
  then show ?thesis using Some assms(1) read_frame [OF assms(3)]
    by (simp add: stored_db_def findStoredBackup_def split: if_splits)
qed

lemma insert_chunk_run:
  assumes "insert_chunk data w db = (ok, w', db')"
  shows "db_backups db' = db_backups db" "db_next db' = db_next db" "sw_parent w' = sw_parent w"
    "sw_filename w' = sw_filename w" "sw_failed w' = sw_failed w" "sw_pending w' = sw_pending w"
    "sw_pendingBytes w' = sw_pendingBytes w" "sw_seq w' = Suc (sw_seq w)" "sw_rows w' = sw_rows w"
    "\<And>i. i \<noteq> sw_parent w \<Longrightarrow> chunks_of i db' = chunks_of i db"
    "ok \<Longrightarrow> chunks_of (sw_parent w) db' = chunks_of (sw_parent w) db @ [\<lparr>ck_backup = sw_parent w, ck_seq = sw_seq w, ck_data = data\<rparr>]"
    "ok \<Longrightarrow> sw_total w' = sw_total w + length data"
    "\<not> ok \<Longrightarrow> db_chunks db' = db_chunks db"
    "set (db_chunks db') \<subseteq> insert \<lparr>ck_backup = sw_parent w, ck_seq = sw_seq w, ck_data = data\<rparr> (set (db_chunks db))"
  using assms by (auto simp: insert_chunk_def Let_def chunks_of_def split: prod.splits if_splits)

text \<open>A step that only adds to the parent's chunks.\<close>

definition only_adds :: "store_writer \<times> backup_db \<Rightarrow> store_writer \<times> backup_db \<Rightarrow> bool" where
  "only_adds ws ws' \<longleftrightarrow> db_backups (snd ws') = db_backups (snd ws) \<and> db_next (snd ws') = db_next (snd ws) \<and>
     sw_parent (fst ws') = sw_parent (fst ws) \<and> sw_filename (fst ws') = sw_filename (fst ws) \<and>
     (\<forall>i. i \<noteq> sw_parent (fst ws) \<longrightarrow> chunks_of i (snd ws') = chunks_of i (snd ws))"

lemma only_adds_refl: "only_adds ws ws"
  by (simp add: only_adds_def)

lemma only_adds_trans: "only_adds a b \<Longrightarrow> only_adds b c \<Longrightarrow> only_adds a c"
  by (simp add: only_adds_def)

lemma only_adds_chunk: "insert_chunk data w db = (ok, w', db') \<Longrightarrow> only_adds (w, db) (w', db')"
  using insert_chunk_run [of data w db ok w' db'] by (simp add: only_adds_def)

lemma only_adds_parented:
  assumes "only_adds ws ws'" "parented name ws"
  shows "parented name ws'"
proof -
  have "ck_backup c < db_next (snd ws)" if c: "c \<in> set (db_chunks (snd ws'))" for c
  proof (cases "ck_backup c = sw_parent (fst ws)")
    case True
    with assms(2) show ?thesis by (auto simp: parented_def healthy_db_def)
  next
    case False
    have "c \<in> set (chunks_of (ck_backup c) (snd ws'))" using c by (simp add: chunks_of_def)
    with False assms(1) have "c \<in> set (chunks_of (ck_backup c) (snd ws))" by (simp add: only_adds_def)
    with assms(2) show ?thesis by (auto simp: chunks_of_def parented_def healthy_db_def)
  qed
  with assms show ?thesis by (auto simp: only_adds_def parented_def healthy_db_def)
qed

lemma only_adds_hides: "only_adds ws ws' \<Longrightarrow> parented name ws \<Longrightarrow> isComplete n \<Longrightarrow> stored_db (snd ws') n = stored_db (snd ws) n"
  by (cases ws, rule stored_frame) (auto simp: only_adds_def)

lemma write_chunks_adds: "only_adds ws (write_chunks ws)"
proof (induction ws rule: write_chunks.induct)
  case (1 w db)
  show ?case
  proof (cases "CHUNK_BYTES \<le> sw_pendingBytes w")
    case True
    obtain head w' where h: "split_head w = (head, w')" by (meson surj_pair)
    obtain ok w2 db2 where c: "insert_chunk head w' db = (ok, w2, db2)" by (metis prod_cases3)
    have "only_adds (w, db) (w', db)" using h by (auto simp: only_adds_def split_head_def Let_def)
    then have a: "only_adds (w, db) (w2, db2)" using only_adds_chunk [OF c] by (rule only_adds_trans)
    show ?thesis
    proof (cases ok)
      case ok: True
      then show ?thesis using 1 [OF True h [symmetric], of ok] c True h a
        by (auto intro: only_adds_trans)
    next
      case False
      then show ?thesis using c True h a by (simp add: only_adds_def)
    qed
  qed (simp add: only_adds_refl)
qed

lemma write_chunks_holds:
  assumes "holds_bytes b ws" "\<not> sw_failed (fst ws)"
  shows "sw_failed (fst (write_chunks ws)) \<or>
    holds_bytes b (write_chunks ws) \<and> sw_pendingBytes (fst (write_chunks ws)) < CHUNK_BYTES"
  using assms
proof (induction ws rule: write_chunks.induct)
  case (1 w db)
  show ?case
  proof (cases "CHUNK_BYTES \<le> sw_pendingBytes w")
    case True
    obtain head w' where h: "split_head w = (head, w')" by (meson surj_pair)
    obtain ok w2 db2 where c: "insert_chunk head w' db = (ok, w2, db2)" by (metis prod_cases3)
    show ?thesis
    proof (cases ok)
      case ok: True
      have hw: "head = take CHUNK_BYTES (concat (sw_pending w))" "sw_parent w' = sw_parent w" "sw_seq w' = sw_seq w"
        "concat (sw_pending w') = drop CHUNK_BYTES (concat (sw_pending w))" "sw_total w' = sw_total w"
        "sw_pendingBytes w' = length (concat (sw_pending w'))" "sw_failed w' = sw_failed w"
        using h by (auto simp: split_head_def Let_def split: if_splits)
      have "holds_bytes b (w2, db2)"
        using "1.prems"(1) insert_chunk_run [OF c] ok hw by (simp add: holds_bytes_def Let_def)
      moreover have "\<not> sw_failed w2" using "1.prems"(2) insert_chunk_run [OF c] hw by simp
      ultimately show ?thesis using "1.IH" [OF True h [symmetric], of ok "(w2, db2)"] c True h ok by simp
    next
      case False
      then show ?thesis using c True h by simp
    qed
  qed (use 1 in simp)
qed

lemma write_piece_adds: "only_adds ws (write_piece p ws)"
proof (cases ws)
  case (Pair w db)
  let ?w = "w\<lparr>sw_pending := sw_pending w @ [p], sw_pendingBytes := sw_pendingBytes w + length p\<rparr>"
  have "only_adds (w, db) (?w, db)" by (simp add: only_adds_def)
  from only_adds_trans [OF this write_chunks_adds] show ?thesis
    by (simp add: Pair write_piece_def only_adds_refl)
qed

lemma write_piece_writing:
  assumes "writing_db name b ws"
  shows "writing_db name (b @ p) (write_piece p ws) \<or> broken_db name (write_piece p ws)"
proof -
  obtain w db where ws: "ws = (w, db)" by (cases ws)
  let ?w = "w\<lparr>sw_pending := sw_pending w @ [p], sw_pendingBytes := sw_pendingBytes w + length p\<rparr>"
  have "holds_bytes (b @ p) (?w, db)" using assms
    by (auto simp: writing_db_def holds_bytes_def Let_def ws)
  moreover have "\<not> sw_failed w" "write_piece p ws = write_chunks (?w, db)"
    using assms by (auto simp: ws write_piece_def writing_db_def)
  moreover have "parented name (write_piece p ws)"
    using only_adds_parented [OF write_piece_adds] assms by (auto simp: writing_db_def)
  ultimately show ?thesis using write_chunks_holds [of "b @ p" "(?w, db)"]
    by (auto simp: writing_db_def broken_db_def)
qed

subsection \<open>Deleting, starting and committing\<close>

lemma deleted_rows [simp]:
  "db_backups (delete_backups sel db) = filter (\<lambda>b. \<not> sel b) (db_backups db)"
  "db_next (delete_backups sel db) = db_next db" "db_outcomes (delete_backups sel db) = db_outcomes db"
  by (simp_all add: delete_backups_def Let_def)

lemma deleted_healthy: "healthy_db db \<Longrightarrow> healthy_db (delete_backups sel db)"
  by (auto simp: healthy_db_def distinct_map_filter) (simp_all add: delete_backups_def Let_def)

lemma deleted_chunks:
  assumes "healthy_db db" "b \<in> set (db_backups db)" "\<not> sel b"
  shows "chunks_of (sb_id b) (delete_backups sel db) = chunks_of (sb_id b) db"
proof -
  define D where "D = set (map sb_id (filter sel (db_backups db)))"
  have "sb_id b \<notin> D"
    using assms by (auto simp: D_def healthy_db_def distinct_map dest: inj_onD)
  then have "filter (\<lambda>c. ck_backup c = sb_id b) (filter (\<lambda>c. ck_backup c \<notin> D) (db_chunks db)) =
      filter (\<lambda>c. ck_backup c = sb_id b) (db_chunks db)"
    unfolding filter_filter by (intro filter_cong) auto
  moreover have "db_chunks (delete_backups sel db) = filter (\<lambda>c. ck_backup c \<notin> D) (db_chunks db)"
    by (simp add: delete_backups_def Let_def D_def)
  ultimately show ?thesis by (simp only: chunks_of_def)
qed

lemma find_filter: "(\<And>x. x \<in> set xs \<Longrightarrow> P x \<Longrightarrow> Q x) \<Longrightarrow> find P (filter Q xs) = find P xs"
  by (induction xs) auto

lemma deleted_hides:
  assumes "healthy_db db" "\<And>b. b \<in> set (db_backups db) \<Longrightarrow> sb_filename b = n \<Longrightarrow> \<not> sel b"
  shows "stored_db (delete_backups sel db) n = stored_db db n"
proof -
  have f: "findStoredBackup n (delete_backups sel db) = findStoredBackup n db"
    using assms(2) by (simp add: findStoredBackup_def find_filter)
  show ?thesis
  proof (cases "findStoredBackup n db")
    case (Some b)
    then have "b \<in> set (db_backups db)" "sb_filename b = n"
      by (auto simp: findStoredBackup_def find_Some_iff split: if_splits)
    with Some f read_frame [OF deleted_chunks [OF assms(1)]] assms(2) show ?thesis by (simp add: stored_db_def)
  qed (simp add: stored_db_def f)
qed

lemma find_snoc: "find P (xs @ [y]) = (case find P xs of None \<Rightarrow> if P y then Some y else None | Some x \<Rightarrow> Some x)"
  by (induction xs) auto

lemma begin_cases:
  assumes "beginStoredBackup origin name db = Some ws"
  obtains db' where "\<forall>b \<in> set (db_backups db). sb_filename b \<noteq> name"
    "db' = delete_backups (\<lambda>b. sb_filename b = name @ PARTIAL_SUFFIX) db"
    "ws = (\<lparr>sw_filename = name, sw_parent = db_next db, sw_pending = [], sw_pendingBytes = 0, sw_seq = 0,
        sw_total = 0, sw_rows = 0, sw_failed = False\<rparr>,
      db'\<lparr>db_backups := db_backups db' @ [\<lparr>sb_id = db_next db, sb_filename = name @ PARTIAL_SUFFIX,
          sb_createdAt = db_now db, sb_bytes = 0, sb_rows = 0, sb_origin = origin\<rparr>], db_next := Suc (db_next db)\<rparr>)"
  using assms by (auto simp: beginStoredBackup_def deleteStoredBackup_def Let_def split: if_splits)

lemma begin_writing:
  assumes "healthy_db db" "isComplete name" "beginStoredBackup origin name db = Some ws"
  shows "writing_db name [] ws"
proof -
  from begin_cases [OF assms(3)] obtain db' where
    d: "db' = delete_backups (\<lambda>b. sb_filename b = name @ PARTIAL_SUFFIX) db" and
    w: "ws = (\<lparr>sw_filename = name, sw_parent = db_next db, sw_pending = [], sw_pendingBytes = 0, sw_seq = 0,
        sw_total = 0, sw_rows = 0, sw_failed = False\<rparr>,
      db'\<lparr>db_backups := db_backups db' @ [\<lparr>sb_id = db_next db, sb_filename = name @ PARTIAL_SUFFIX,
          sb_createdAt = db_now db, sb_bytes = 0, sb_rows = 0, sb_origin = origin\<rparr>], db_next := Suc (db_next db)\<rparr>)" .
  have h: "healthy_db db'" using deleted_healthy [OF assms(1)] by (simp add: d)
  have n: "db_next db' = db_next db" by (simp add: d)
  have f: "\<forall>b \<in> set (db_backups db'). sb_filename b \<noteq> name @ PARTIAL_SUFFIX" by (simp add: d)
  have fresh: "\<forall>b \<in> set (db_backups db'). sb_id b < db_next db" "\<forall>c \<in> set (db_chunks db'). ck_backup c < db_next db"
    using h n by (auto simp: healthy_db_def)
  have c: "filter (\<lambda>c. ck_backup c = db_next db) (db_chunks db') = []" using fresh(2) by (auto simp: filter_empty_conv)
  have "healthy_db (snd ws)"
    using h f fresh by (auto simp: w healthy_db_def less_SucI)
  moreover have "chunks_of (db_next db) (snd ws) = []" by (simp add: w chunks_of_def c)
  ultimately show ?thesis using assms(2)
    by (simp add: w writing_db_def parented_def holds_bytes_def CHUNK_BYTES_def)
qed

lemma begin_hides:
  assumes "healthy_db db" "isComplete name" "beginStoredBackup origin name db = Some ws" "isComplete n"
  shows "stored_db (snd ws) n = stored_db db n"
proof -
  from begin_cases [OF assms(3)] obtain db' where
    d: "db' = delete_backups (\<lambda>b. sb_filename b = name @ PARTIAL_SUFFIX) db" and
    w: "db_backups (snd ws) = db_backups db' @ [\<lparr>sb_id = db_next db, sb_filename = name @ PARTIAL_SUFFIX,
          sb_createdAt = db_now db, sb_bytes = 0, sb_rows = 0, sb_origin = origin\<rparr>]"
      "db_chunks (snd ws) = db_chunks db'" by (metis (no_types, lifting) backup_db.select_convs backup_db.surjective backup_db.update_convs(1,3) snd_conv)
  have p: "name @ PARTIAL_SUFFIX \<noteq> n" using assms(4) partial_name by blast
  have r: "readStoredBackup i (snd ws) = readStoredBackup i db'" for i
    by (rule read_frame) (simp add: chunks_of_def w)
  have f: "findStoredBackup n (snd ws) = findStoredBackup n db'"
    using p by (simp add: findStoredBackup_def w find_snoc split: option.split)
  have "stored_db (snd ws) n = stored_db db' n" by (simp add: stored_db_def r f)
  also have "\<dots> = stored_db db n" unfolding d using p by (intro deleted_hides [OF assms(1)]) auto
  finally show ?thesis .
qed

definition named :: "store_writer \<Rightarrow> stored_backup \<Rightarrow> stored_backup" where
  "named w b = (if sb_id b = sw_parent w
     then b\<lparr>sb_filename := sw_filename w, sb_bytes := sw_total w, sb_rows := sw_rows w\<rparr> else b)"

lemma publish_run:
  assumes "publish w db = (r, db')"
  shows "db_chunks db' = db_chunks db" "db_next db' = db_next db"
    "r = None \<Longrightarrow> db_backups db' = db_backups db"
    "r = Some len \<Longrightarrow> len = sw_total w \<and> db_backups db' = map (named w) (db_backups db) \<and>
       (\<forall>b \<in> set (db_backups db). sb_id b \<noteq> sw_parent w \<longrightarrow> sb_filename b \<noteq> sw_filename w)"
  using assms by (auto simp: publish_def Let_def named_def split: prod.splits if_splits)

lemma named_id [simp]: "sb_id (named w b) = sb_id b"
  by (simp add: named_def)

lemma find_map_id:
  "(\<And>x. x \<in> set xs \<Longrightarrow> P (g x) = P x) \<Longrightarrow> (\<And>x. f (g x) = f x) \<Longrightarrow>
   map_option f (find P (map g xs)) = map_option f (find P xs)"
  by (induction xs) auto

lemma find_named:
  assumes "parented name (w, db)" "isComplete n" "n \<noteq> name"
  shows "map_option sb_id (find (\<lambda>b. sb_filename b = n) (map (named w) (db_backups db))) =
    map_option sb_id (find (\<lambda>b. sb_filename b = n) (db_backups db))"
proof -
  obtain p where p: "p \<in> set (db_backups db)" "sb_id p = sw_parent w" "sb_filename p = name @ PARTIAL_SUFFIX"
    and d: "distinct (map sb_id (db_backups db))" and f: "sw_filename w = name"
    using assms(1) by (auto simp: parented_def healthy_db_def)
  have "(sb_filename (named w b) = n) = (sb_filename b = n)" if "b \<in> set (db_backups db)" for b
  proof (cases "sb_id b = sw_parent w")
    case True
    then have "b = p" using that p d by (metis distinct_map inj_onD)
    then show ?thesis using p f assms(2,3) partial_name by (auto simp: named_def)
  qed (simp add: named_def)
  then show ?thesis by (intro find_map_id) simp_all
qed

lemma stored_by_id:
  assumes "map_option sb_id (findStoredBackup n db') = map_option sb_id (findStoredBackup n db)"
    and "db_chunks db' = db_chunks db"
  shows "stored_db db' n = stored_db db n"
proof -
  have "readStoredBackup i db' = readStoredBackup i db" for i by (rule read_frame) (simp add: chunks_of_def assms(2))
  then have "stored_db db'' n = map_option (\<lambda>i. readStoredBackup i db) (map_option sb_id (findStoredBackup n db''))"
    if "db'' = db \<or> db'' = db'" for db''
    using that by (auto simp: stored_db_def map_option_case split: option.split)
  then show ?thesis using assms(1) by simp
qed

lemma publish_others:
  assumes "parented name (w, db)" "publish w db = (r, db')" "isComplete n" "r = None \<or> n \<noteq> name"
  shows "stored_db db' n = stored_db db n"
proof (rule stored_by_id)
  show "db_chunks db' = db_chunks db" using publish_run(1) [OF assms(2)] .
  show "map_option sb_id (findStoredBackup n db') = map_option sb_id (findStoredBackup n db)"
  proof (cases r)
    case None
    then show ?thesis using publish_run(3) [OF assms(2)] by (simp add: findStoredBackup_def)
  next
    case (Some len)
    then show ?thesis using publish_run(4) [OF assms(2)] find_named [OF assms(1,3)] assms(4)
      by (simp add: findStoredBackup_def)
  qed
qed

lemma publish_stores:
  assumes p: "parented name (w, db)" and s: "map ck_seq (chunks_of (sw_parent w) db) = [0..<k]"
    and r: "publish w db = (Some len, db')"
  shows "len = sw_total w" "stored_db db' name = Some (concat (map ck_data (chunks_of (sw_parent w) db)))" "healthy_db db'"
proof -
  have n: "sw_filename w = name" "isComplete name" and h: "healthy_db db" using p by (auto simp: parented_def)
  obtain q where q: "q \<in> set (db_backups db)" "sb_id q = sw_parent w" using p by (auto simp: parented_def)
  from publish_run [OF r] have b: "db_backups db' = map (named w) (db_backups db)"
    and u: "\<And>b. b \<in> set (db_backups db) \<Longrightarrow> sb_id b \<noteq> sw_parent w \<Longrightarrow> sb_filename b \<noteq> name"
    and c: "db_chunks db' = db_chunks db" "db_next db' = db_next db" using n by auto
  from publish_run(4) [OF r] show "len = sw_total w" by simp
  have name: "sb_filename (named w x) = name \<longleftrightarrow> sb_id x = sw_parent w" if "x \<in> set (db_backups db)" for x
    using u [OF that] n by (auto simp: named_def)
  have "find (\<lambda>x. sb_filename x = name) (db_backups db') \<noteq> None"
    using q name by (auto simp: b find_None_iff)
  then obtain x where f: "find (\<lambda>x. sb_filename x = name) (db_backups db') = Some x" by auto
  then have "x \<in> set (db_backups db')" "sb_filename x = name" by (auto simp: find_Some_iff)
  then obtain y where "x = named w y" "y \<in> set (db_backups db)" "sb_filename x = name" by (auto simp: b)
  then have "sb_id x = sw_parent w" using name [of y] by simp
  moreover have "chunks_of (sw_parent w) db' = chunks_of (sw_parent w) db" by (simp add: chunks_of_def c)
  ultimately show "stored_db db' name = Some (concat (map ck_data (chunks_of (sw_parent w) db)))"
    using f read_in_order [of "sw_parent w" db' k] s n by (simp add: stored_db_def findStoredBackup_def)
  have "inj_on (\<lambda>x. sb_filename (named w x)) (set (db_backups db))"
  proof (rule inj_onI)
    fix x y
    assume xy: "x \<in> set (db_backups db)" "y \<in> set (db_backups db)" "sb_filename (named w x) = sb_filename (named w y)"
    have i: "sb_id x = sb_id y \<Longrightarrow> x = y" and j: "sb_filename x = sb_filename y \<Longrightarrow> x = y"
      using h xy by (auto simp: healthy_db_def distinct_map dest: inj_onD)
    show "x = y"
      using xy name [of x] name [of y] i j by (auto simp: named_def split: if_splits)
  qed
  then have "distinct (map sb_filename (db_backups db'))" using h by (auto simp: b distinct_map healthy_db_def comp_def inj_on_def)
  then show "healthy_db db'" using h by (auto simp: healthy_db_def b c comp_def)
qed

lemma flush_run:
  assumes "flush_rest w db = (ok, w', db')" "parented name (w, db)" "holds_bytes b (w, db)"
  shows "only_adds (w, db) (w', db')" "parented name (w', db')"
    "ok \<Longrightarrow> map ck_seq (chunks_of (sw_parent w') db') = [0..<sw_seq w'] \<and>
      concat (map ck_data (chunks_of (sw_parent w') db')) = b \<and> sw_total w' = length b"
proof -
  show a: "only_adds (w, db) (w', db')"
  proof (cases "sw_pendingBytes w = 0")
    case False
    let ?w = "w\<lparr>sw_pending := [], sw_pendingBytes := 0\<rparr>"
    have "only_adds (w, db) (?w, db)" by (simp add: only_adds_def)
    moreover have "insert_chunk (concat (sw_pending w)) ?w db = (ok, w', db')" using assms(1) False by (simp add: flush_rest_def)
    ultimately show ?thesis using only_adds_chunk only_adds_trans by blast
  qed (use assms(1) in \<open>simp add: flush_rest_def only_adds_refl\<close>)
  show "parented name (w', db')" by (rule only_adds_parented [OF a assms(2)])
  show "map ck_seq (chunks_of (sw_parent w') db') = [0..<sw_seq w'] \<and>
      concat (map ck_data (chunks_of (sw_parent w') db')) = b \<and> sw_total w' = length b" if ok
  proof (cases "sw_pendingBytes w = 0")
    case True
    moreover have "sw_pendingBytes w = length (concat (sw_pending w))"
      using assms(3) unfolding holds_bytes_def Let_def prod.case by blast
    ultimately have "concat (sw_pending w) = []" by (simp only: length_0_conv)
    then show ?thesis using assms(1,3) True by (auto simp del: concat_eq_Nil_conv simp: flush_rest_def holds_bytes_def Let_def)
  next
    case False
    then have "insert_chunk (concat (sw_pending w)) (w\<lparr>sw_pending := [], sw_pendingBytes := 0\<rparr>) db = (ok, w', db')"
      using assms(1) by (simp add: flush_rest_def)
    from insert_chunk_run [OF this] that assms(3) show ?thesis by (auto simp: holds_bytes_def Let_def)
  qed
qed

lemma commit_cases:
  assumes "commit_backup (w, db) = (r, db')" "\<not> sw_failed w"
  obtains w1 where "flush_rest w db = (False, w1, db')" "r = None"
    | w1 db1 where "flush_rest w db = (True, w1, db1)" "publish w1 db1 = (r, db')"
  using assms by (auto simp: commit_backup_def split: prod.splits bool.splits)

lemma commit_stores:
  assumes "writing_db name b ws" "commit_backup ws = (Some len, db')"
  shows "len = length b \<and> stored_db db' name = Some b \<and> healthy_db db'"
proof -
  obtain w db where ws: "ws = (w, db)" by (cases ws)
  have h: "parented name (w, db)" "holds_bytes b (w, db)" "\<not> sw_failed w"
    using assms(1) by (auto simp: writing_db_def ws)
  from assms(2) ws h(3) obtain w1 db1 where f: "flush_rest w db = (True, w1, db1)" "publish w1 db1 = (Some len, db')"
    by (auto elim: commit_cases)
  note r = flush_run [OF f(1) h(1,2)]
  from publish_stores [OF r(2) _ f(2)] r(3) show ?thesis by auto
qed

lemma commit_others:
  assumes "writing_db name b ws" "commit_backup ws = (r, db')" "isComplete n" "r = None \<or> n \<noteq> name"
  shows "stored_db db' n = stored_db (snd ws) n"
proof -
  obtain w db where ws: "ws = (w, db)" by (cases ws)
  have h: "parented name (w, db)" "holds_bytes b (w, db)" "\<not> sw_failed w"
    using assms(1) by (auto simp: writing_db_def ws)
  from assms(2) h(3) show ?thesis unfolding ws
  proof (rule commit_cases)
    fix w1
    assume "flush_rest w db = (False, w1, db')"
    from only_adds_hides [OF flush_run(1) [OF this h(1,2)] h(1) assms(3)]
    show "stored_db db' n = stored_db (snd (w, db)) n" by simp
  next
    fix w1 db1
    assume f: "flush_rest w db = (True, w1, db1)" "publish w1 db1 = (r, db')"
    note g = flush_run [OF f(1) h(1,2)]
    from publish_others [OF g(2) f(2) assms(3,4)] only_adds_hides [OF g(1) h(1) assms(3)]
    show "stored_db db' n = stored_db (snd (w, db)) n" by simp
  qed
qed

lemma abort_hides:
  assumes "parented name ws" "isComplete n"
  shows "stored_db (abort_backup ws) n = stored_db (snd ws) n" "healthy_db (abort_backup ws)"
proof -
  obtain w db where ws: "ws = (w, db)" by (cases ws)
  obtain p where p: "p \<in> set (db_backups db)" "sb_id p = sw_parent w" "sb_filename p = name @ PARTIAL_SUFFIX"
    and h: "healthy_db db" using assms(1) by (auto simp: parented_def ws)
  have "sb_id b \<noteq> sw_parent w" if b: "b \<in> set (db_backups db)" "sb_filename b = n" for b
  proof
    assume "sb_id b = sw_parent w"
    with b p h have "b = p" unfolding healthy_db_def by (metis distinct_map inj_onD)
    with b p assms(2) partial_name show False by metis
  qed
  then show "stored_db (abort_backup ws) n = stored_db (snd ws) n"
    by (simp add: ws abort_backup_def deleted_hides [OF h])
  show "healthy_db (abort_backup ws)" by (simp add: ws abort_backup_def deleted_healthy [OF h])
qed

interpretation db: backup_target "beginStoredBackup origin" write_piece commit_backup abort_backup
    stored_db healthy_db writing_db broken_db for origin
proof (unfold_locales, goal_cases)
  case (1 s name ws)
  then show ?case by (rule begin_writing)
next
  case (2 s name ws n)
  then show ?case by (rule begin_hides)
next
  case (3 name b ws p)
  then show ?case by (rule write_piece_writing)
next
  case (4 name ws p)
  then show ?case by (auto simp: broken_db_def write_piece_def split: prod.split)
next
  case (5 name b ws n p)
  then have "parented name ws" by (auto simp: writing_db_def broken_db_def)
  from only_adds_hides [OF write_piece_adds this 5(2)] show ?case .
next
  case (6 name b ws len s')
  then show ?case by (rule commit_stores)
next
  case (7 name b ws r s' n)
  then show ?case by (rule commit_others)
next
  case (8 name ws)
  then show ?case by (auto simp: broken_db_def commit_backup_def split: prod.split)
next
  case (9 name b ws n)
  then show ?case using abort_hides(1) [of name ws n] by (auto simp: writing_db_def broken_db_def)
next
  case (10 name b ws)
  then show ?case using abort_hides(2) [of name ws name] by (auto simp: writing_db_def broken_db_def parented_def)
qed

subsection \<open>A failed commit\<close>

text \<open>
  Nobody gives up a backup whose commit failed, so its partial row and chunks stay; a later backup only
  clears a partial row of its own name, which carries another instant.
\<close>

lemma failed_commit_leaves_its_chunks:
  assumes h: "parented name (w, db)" "holds_bytes b (w, db)" "\<not> sw_failed w"
    and c: "commit_backup (w, db) = (None, db')" and m: "beginStoredBackup origin m db' = Some ws" "m \<noteq> name"
  shows "\<exists>p \<in> set (db_backups (snd ws)). sb_id p = sw_parent w \<and> sb_filename p = name @ PARTIAL_SUFFIX"
    and "set (chunks_of (sw_parent w) db) \<subseteq> set (chunks_of (sw_parent w) (snd ws))"
proof -
  obtain ok w1 db1 where f: "flush_rest w db = (ok, w1, db1)" by (metis prod_cases3)
  note g = flush_run [OF f h(1,2)]
  have d': "db_backups db' = db_backups db1" "db_chunks db' = db_chunks db1" "db_next db' = db_next db1"
    using c h(3) f publish_run [of w1 db1 None db']
    by (auto simp: commit_backup_def split: bool.splits)
  have old: "set (chunks_of (sw_parent w) db) \<subseteq> set (chunks_of (sw_parent w) db')"
  proof (cases "sw_pendingBytes w = 0")
    case False
    with f have "insert_chunk (concat (sw_pending w)) (w\<lparr>sw_pending := [], sw_pendingBytes := 0\<rparr>) db = (ok, w1, db1)"
      by (simp add: flush_rest_def)
    from insert_chunk_run(11,13) [OF this] show ?thesis by (cases ok) (auto simp: chunks_of_def d')
  qed (use f in \<open>simp add: flush_rest_def chunks_of_def d'\<close>)
  have healthy: "healthy_db db'" using g(2) d' by (simp add: parented_def healthy_db_def)
  obtain p where p: "p \<in> set (db_backups db')" "sb_id p = sw_parent w" "sb_filename p = name @ PARTIAL_SUFFIX"
    using g(1) h(1) d' by (auto simp: only_adds_def parented_def)
  let ?sel = "\<lambda>b. sb_filename b = m @ PARTIAL_SUFFIX"
  from begin_cases [OF m(1)] obtain db2 where d2: "db2 = delete_backups ?sel db'"
    and s: "set (db_backups db2) \<subseteq> set (db_backups (snd ws))" "db_chunks (snd ws) = db_chunks db2"
    by (metis (no_types, lifting) Un_upper1 backup_db.select_convs(1,2) backup_db.surjective backup_db.update_convs(1,3) set_append snd_conv)
  have sel: "\<not> ?sel p" using p(3) m(2) by simp
  then show "\<exists>p \<in> set (db_backups (snd ws)). sb_id p = sw_parent w \<and> sb_filename p = name @ PARTIAL_SUFFIX"
    using p s(1) by (auto simp: d2)
  have "chunks_of (sw_parent w) db2 = chunks_of (sw_parent w) db'"
    using deleted_chunks [OF healthy p(1), of ?sel] sel p(2) by (simp add: d2)
  then show "set (chunks_of (sw_parent w) db) \<subseteq> set (chunks_of (sw_parent w) (snd ws))"
    using old s(2) by (simp add: chunks_of_def)
qed

end
