(* ===== verification/Backup_Copy.thy ===== *)
theory Backup_Copy
  imports Backup_Store_Laws Js_Map
begin

text \<open>
  \<open>src/lib/backupDestination.ts\<close> and \<open>src/services/backupCopy.service.ts\<close>: the copy outside the gateway. A
  folder is its files by name with the outcomes of its next operations; paths below it are the names.
\<close>

record folder =
  fd_files :: "(string, bytes) jsmap"
  fd_is_dir :: bool
  fd_outcomes :: "bool list"

record sink =
  sk_name :: string
  sk_failure :: bool

definition folder_outcome :: "folder \<Rightarrow> bool \<times> folder" where
  "folder_outcome f = (case next_outcome (fd_outcomes f) of (ok, rest) \<Rightarrow> (ok, f\<lparr>fd_outcomes := rest\<rparr>))"

subsection \<open>The folder\<close>

definition ensure :: "folder \<Rightarrow> bool \<times> folder" where
  "ensure f = (case folder_outcome f of
     (False, f') \<Rightarrow> (False, f') | (True, f') \<Rightarrow> (fd_is_dir f', f'))"

definition begin_sink :: "string \<Rightarrow> folder \<Rightarrow> (sink \<times> folder) option" where
  "begin_sink name f = (case folder_outcome f of
     (False, f') \<Rightarrow> None
   | (True, f') \<Rightarrow> Some (\<lparr>sk_name = name, sk_failure = False\<rparr>,
       f'\<lparr>fd_files := AList.update (name @ PARTIAL_SUFFIX) [] (fd_files f')\<rparr>))"

text \<open>A write through the stream; the first error is kept and the stream is destroyed.\<close>

definition write_sink :: "bytes \<Rightarrow> sink \<times> folder \<Rightarrow> sink \<times> folder" where
  "write_sink piece sf = (case sf of (s, f) \<Rightarrow>
     if sk_failure s then (s, f)
     else (case folder_outcome f of
        (False, f') \<Rightarrow> (s\<lparr>sk_failure := True\<rparr>, f')
      | (True, f') \<Rightarrow> (s, f'\<lparr>fd_files := AList.update (sk_name s @ PARTIAL_SUFFIX)
            (option_or (map_of (fd_files f') (sk_name s @ PARTIAL_SUFFIX)) [] @ piece) (fd_files f')\<rparr>)))"

definition commit_sink :: "sink \<times> folder \<Rightarrow> nat option \<times> folder" where
  "commit_sink sf = (case sf of (s, f) \<Rightarrow>
     if sk_failure s then (None, f)
     else (case folder_outcome f of
        (False, f') \<Rightarrow> (None, f')
      | (True, f') \<Rightarrow> (let part = sk_name s @ PARTIAL_SUFFIX; data = option_or (map_of (fd_files f') part) [] in
          (Some (length data), f'\<lparr>fd_files := AList.update (sk_name s) data (AList.delete part (fd_files f'))\<rparr>))))"

definition abort_sink :: "sink \<times> folder \<Rightarrow> folder" where
  "abort_sink sf = (case sf of (s, f) \<Rightarrow>
     f\<lparr>fd_files := AList.delete (sk_name s @ PARTIAL_SUFFIX) (fd_files f)\<rparr>)"

definition list_files :: "folder \<Rightarrow> string list" where
  "list_files f = map fst (fd_files f)"

definition remove_file :: "string \<Rightarrow> folder \<Rightarrow> folder" where
  "remove_file name f = f\<lparr>fd_files := AList.delete name (fd_files f)\<rparr>"

subsection \<open>Copying\<close>

record copy_outcome =
  co_copied :: bool
  co_pruned :: "nat option"

definition copyOffMachine :: "string \<Rightarrow> bytes list \<Rightarrow> rat option \<Rightarrow> folder \<Rightarrow> copy_outcome \<times> folder" where
  "copyOffMachine filename pieces keep f0 =
     (let failed = \<lparr>co_copied = False, co_pruned = None\<rparr> in
      case ensure f0 of
        (False, f) \<Rightarrow> (failed, f)
      | (True, f) \<Rightarrow> (case begin_sink filename f of
          None \<Rightarrow> (failed, f)
        | Some sf \<Rightarrow> (let sf' = fold write_sink pieces sf in
            if sk_failure (fst sf') then (failed, abort_sink sf')
            else (case commit_sink sf' of
                (None, f') \<Rightarrow> (failed, f')
              | (Some n, f') \<Rightarrow> (let doomed = prunable (list_files f') keep in
                  (\<lparr>co_copied = True, co_pruned = Some (length doomed)\<rparr>, fold remove_file doomed f'))))))"

subsection \<open>The folder as a backup target\<close>

definition stored_file :: "folder \<Rightarrow> string \<Rightarrow> bytes option" where
  "stored_file f name = map_of (fd_files f) name"

definition writing_file :: "string \<Rightarrow> bytes \<Rightarrow> sink \<times> folder \<Rightarrow> bool" where
  "writing_file name b sf \<longleftrightarrow> isComplete name \<and> sk_name (fst sf) = name \<and> \<not> sk_failure (fst sf) \<and>
     jsmap_ok (fd_files (snd sf)) \<and> stored_file (snd sf) (name @ PARTIAL_SUFFIX) = Some b"

definition broken_file :: "string \<Rightarrow> sink \<times> folder \<Rightarrow> bool" where
  "broken_file name sf \<longleftrightarrow> isComplete name \<and> sk_name (fst sf) = name \<and> sk_failure (fst sf) \<and> jsmap_ok (fd_files (snd sf))"

lemma folder_outcome_files: "folder_outcome f = (ok, f') \<Longrightarrow> fd_files f' = fd_files f"
  by (auto simp: folder_outcome_def split: prod.splits)

lemma complete_not_partial: "isComplete n \<Longrightarrow> n \<noteq> m @ PARTIAL_SUFFIX"
  using partial_name by blast

interpretation fd: backup_target begin_sink write_sink commit_sink abort_sink
    stored_file "\<lambda>f. jsmap_ok (fd_files f)" writing_file broken_file
proof (unfold_locales, goal_cases)
  case (1 s name ws)
  then show ?case
    by (auto simp: begin_sink_def writing_file_def stored_file_def jsmap_ok_update update_conv' folder_outcome_files
        split: prod.splits bool.splits)
next
  case (2 s name ws n)
  then show ?case using complete_not_partial [of n name]
    by (auto simp: begin_sink_def stored_file_def update_conv' folder_outcome_files split: prod.splits bool.splits)
next
  case (3 name b ws p)
  then show ?case
    by (auto simp: write_sink_def writing_file_def broken_file_def stored_file_def jsmap_ok_update update_conv'
        folder_outcome_files option_or_def split: prod.splits bool.splits)
next
  case (4 name ws p)
  then show ?case by (auto simp: broken_file_def write_sink_def split: prod.splits)
next
  case (5 name b ws n p)
  then have "n \<noteq> sk_name (fst ws) @ PARTIAL_SUFFIX" by (intro complete_not_partial) simp
  then show ?case by (auto simp: write_sink_def stored_file_def update_conv' folder_outcome_files split: prod.splits bool.splits)
next
  case (6 name b ws len s')
  then show ?case
    by (auto simp: commit_sink_def writing_file_def stored_file_def Let_def option_or_def jsmap_ok_update jsmap_ok_delete
        update_conv' folder_outcome_files split: prod.splits bool.splits if_splits)
next
  case (7 name b ws r s' n)
  then show ?case using complete_not_partial [of n name]
    by (auto simp: commit_sink_def writing_file_def stored_file_def Let_def update_conv' delete_conv'
        folder_outcome_files split: prod.splits bool.splits if_splits)
next
  case (8 name ws)
  then show ?case by (auto simp: broken_file_def commit_sink_def split: prod.splits)
next
  case (9 name b ws n)
  then have "n \<noteq> sk_name (fst ws) @ PARTIAL_SUFFIX" by (intro complete_not_partial) simp
  then show ?case by (auto simp: abort_sink_def stored_file_def delete_conv' split: prod.splits)
next
  case (10 name b ws)
  then show ?case by (auto simp: abort_sink_def writing_file_def broken_file_def jsmap_ok_delete split: prod.splits)
qed

subsection \<open>Property\<close>

lemma pruned_is_own: "n \<in> set (prunable fs keep) \<Longrightarrow> isBackupFilename n"
  by (auto simp: prunable_def Let_def split: option.splits if_splits dest: in_set_takeD)

lemma remove_files: "stored_file (fold remove_file ns f) n = (if n \<in> set ns then None else stored_file f n)"
  by (induction ns arbitrary: f) (auto simp: remove_file_def stored_file_def delete_conv')

lemma ensure_files: "ensure f = (ok, f') \<Longrightarrow> fd_files f' = fd_files f"
  by (auto simp: ensure_def folder_outcome_files split: prod.splits bool.splits)

lemma copy_cases:
  assumes "copyOffMachine filename pieces keep f0 = (out, f)" "jsmap_ok (fd_files f0)" "isComplete filename" "isComplete n"
  shows "if co_copied out then (isBackupFilename n \<and> stored_file f n = None) \<or>
      stored_file f n = (if n = filename then Some (concat pieces) else stored_file f0 n)
    else stored_file f n = stored_file f0 n"
proof -
  obtain ok f1 where e: "ensure f0 = (ok, f1)" by (meson surj_pair)
  have f1: "stored_file f1 m = stored_file f0 m" for m using ensure_files [OF e] by (simp add: stored_file_def)
  have j: "jsmap_ok (fd_files f1)" using ensure_files [OF e] assms(2) by simp
  show ?thesis
  proof (cases "ok \<and> begin_sink filename f1 \<noteq> None")
    case False
    then show ?thesis using assms(1) e f1 by (auto simp: copyOffMachine_def Let_def split: bool.splits option.splits)
  next
    case True
    then obtain sf where b: "begin_sink filename f1 = Some sf" by auto
    let ?sf = "fold write_sink pieces sf"
    have p: "?sf = fd.puts pieces sf" by (simp add: fd.puts_def)
    note keep_all = fd.nothing_partial [OF j assms(3) b assms(4), of pieces, folded p]
    show ?thesis
    proof (cases "sk_failure (fst ?sf)")
      case bad: True
      then show ?thesis using assms(1) e True b keep_all(2) f1 by (auto simp: copyOffMachine_def Let_def)
    next
      case good: False
      obtain r f2 where c: "commit_sink ?sf = (r, f2)" by (meson surj_pair)
      show ?thesis
      proof (cases r)
        case None
        then show ?thesis using assms(1) e True b good c keep_all(3) f1 by (auto simp: copyOffMachine_def Let_def)
      next
        case (Some len)
        note whole = fd.stored_whole [OF j assms(3) b c [unfolded Some p]]
        have "f = fold remove_file (prunable (list_files f2) keep) f2" "co_copied out"
          using assms(1) e True b good c Some by (auto simp: copyOffMachine_def Let_def)
        then show ?thesis using whole(2) whole(4) [OF assms(4)] f1 pruned_is_own by (auto simp: remove_files)
      qed
    qed
  qed
qed



end
