(* ===== verification/Backup_Names.thy ===== *)
theory Backup_Names
  imports Backup_Schedule "HOL-Library.Multiset"
begin

text \<open>
  The order of backup names. A name carries its instant in fixed-width fields, so names sort by age;
  retention rests on it. First texts of digits and the civil fields of a day, then the names, then the
  properties of the schedule and of retention.
\<close>

subsection \<open>Fixed-width fields\<close>

lemma append_less: "length a = length b \<Longrightarrow> a @ x < b @ y \<longleftrightarrow> a < b \<or> a = b \<and> x < y"
  for a b :: "'a :: linorder list"
  by (induction a b rule: list_induct2) auto

lemma digits_val_snoc: "digits_val (s @ [c]) = 10 * digits_val s + digit_val c"
  by (simp add: digits_val_def)

lemma digits_val_Cons: "digits_val (c # s) = digit_val c * 10 ^ length s + digits_val s"
  by (induction s rule: rev_induct) (simp add: digits_val_def, simp add: digits_val_snoc flip: append_Cons)

lemma digits_val_bound: "list_all is_digit s \<Longrightarrow> digits_val s < 10 ^ length s"
proof (induction s)
  case (Cons c s)
  then have "is_digit c" "digits_val s < 10 ^ length s" by simp_all
  then have "digit_val c \<le> 9" "digits_val s < 10 ^ length s" by (simp_all add: is_digit_def digit_val_def le_diff_conv)
  then have "digit_val c * 10 ^ length s + digits_val s < 9 * 10 ^ length s + 10 ^ length s"
    by (intro add_le_less_mono mult_right_mono) auto
  then show ?case by (simp add: digits_val_Cons)
qed (simp add: digits_val_def)

lemma digit_order: "is_digit c \<Longrightarrow> is_digit d \<Longrightarrow> c < d \<longleftrightarrow> digit_val c < digit_val d"
  by (auto simp: less_char_def is_digit_def digit_val_def)

lemma digit_eq: "is_digit c \<Longrightarrow> is_digit d \<Longrightarrow> digit_val c = digit_val d \<Longrightarrow> c = d"
  by (metis digit_order less_irrefl neqE)

lemma lead_digit: "(a :: nat) * p + x < b * p + y \<longleftrightarrow> a < b \<or> a = b \<and> x < y" if "x < p" "y < p"
proof -
  consider "a < b" | "a = b" | "b < a" by linarith
  then show ?thesis
  proof cases
    case 1
    then have "(a + 1) * p \<le> b * p" by (intro mult_right_mono) auto
    with that 1 show ?thesis by (simp add: algebra_simps)
  next
    case 3
    then have "(b + 1) * p \<le> a * p" by (intro mult_right_mono) auto
    with that 3 show ?thesis by (simp add: algebra_simps)
  qed simp
qed

text \<open>Digits of one length are in the order of their values.\<close>

lemma digits_order: "length a = length b \<Longrightarrow> list_all is_digit a \<Longrightarrow> list_all is_digit b \<Longrightarrow>
    a < b \<longleftrightarrow> digits_val a < digits_val b"
proof (induction a b rule: list_induct2)
  case (Cons c a d b)
  then have "digits_val a < 10 ^ length a" "digits_val b < 10 ^ length a"
    using digits_val_bound [of a] digits_val_bound [of b] by auto
  from lead_digit [OF this] Cons show ?case
    using digit_eq [of c d] by (auto simp: digits_val_Cons digit_order)
qed simp

text \<open>A number padded to a width.\<close>

definition padded :: "nat \<Rightarrow> int \<Rightarrow> string" where
  "padded k n = pad_start k (CHR ''0'') (int_string n)"

lemma zero_digits: "digits_val (replicate n (CHR ''0'') @ s) = digits_val s"
  by (induction n) (simp_all add: digits_val_Cons digit_val_def)

lemma padded_facts:
  assumes "0 \<le> n" "n < 10 ^ Suc k"
  shows "length (padded (Suc k) n) = Suc k" "list_all is_digit (padded (Suc k) n)" "digits_val (padded (Suc k) n) = nat n"
proof -
  have "nat n < 10 ^ Suc k" using assms by (simp add: nat_less_iff)
  then show "length (padded (Suc k) n) = Suc k"
    using nat_string_length [of "nat n" k] assms by (simp add: padded_def pad_start_def int_string_def)
  show "list_all is_digit (padded (Suc k) n)"
    using nat_string_digits [of "nat n"] assms
    by (auto simp: padded_def pad_start_def int_string_def list_all_iff is_digit_def)
  show "digits_val (padded (Suc k) n) = nat n"
    using assms by (simp add: padded_def pad_start_def int_string_def zero_digits digits_val_nat_string)
qed

lemma padded_order:
  assumes "0 \<le> m" "m < 10 ^ Suc k" "0 \<le> n" "n < 10 ^ Suc k"
  shows "padded (Suc k) m < padded (Suc k) n \<longleftrightarrow> m < n" "padded (Suc k) m = padded (Suc k) n \<longleftrightarrow> m = n"
proof -
  note p = padded_facts [OF assms(1,2)] padded_facts [OF assms(3,4)]
  show "padded (Suc k) m < padded (Suc k) n \<longleftrightarrow> m < n"
    using digits_order [of "padded (Suc k) m" "padded (Suc k) n"] p assms(1,3) by auto
  show "padded (Suc k) m = padded (Suc k) n \<longleftrightarrow> m = n"
    using p assms(1,3) by (metis eq_nat_nat_iff)
qed

definition field_ok :: "int \<Rightarrow> bool" where "field_ok n \<longleftrightarrow> 0 \<le> n \<and> n < 100"

lemma fields_order:
  "length xs = length ys \<Longrightarrow> list_all field_ok xs \<Longrightarrow> list_all field_ok ys \<Longrightarrow>
   concat (map (\<lambda>n. CHR ''-'' # two n) xs) < concat (map (\<lambda>n. CHR ''-'' # two n) ys) \<longleftrightarrow> xs < ys"
proof (induction xs ys rule: list_induct2)
  case (Cons x xs y ys)
  have t: "two n = padded (Suc 1) n" for n by (simp add: two_def padded_def eval_nat_numeral)
  have "0 \<le> x" "x < 10 ^ Suc 1" "0 \<le> y" "y < 10 ^ Suc 1" using Cons.prems by (auto simp: field_ok_def)
  note p = padded_order [OF this] padded_facts(1) [OF this(1,2)] padded_facts(1) [OF this(3,4)]
  show ?case using Cons p by (simp add: t append_less)
qed simp

text \<open>The civil fields are in the order of the days, and the clock fields in that of the seconds.\<close>

lemma civil_less:
  assumes "d < e"
  shows "[year_of_day d, int (month_of_day d), date_of_day d] < [year_of_day e, int (month_of_day e), date_of_day e]"
proof -
  have y: "year_of_day d \<le> year_of_day e"
    using year_of_day_bounds [of d] year_of_day_bounds [of e] day_from_year_mono [of "year_of_day e + 1" "year_of_day d"] assms
    by (cases "year_of_day d \<le> year_of_day e") auto
  show ?thesis
  proof (cases "year_of_day d = year_of_day e")
    case same: True
    let ?ms = "month_starts (leap (year_of_day d))"
    have n: "day_in_year d < day_in_year e" using assms same by (simp add: day_in_year_def)
    note m = month_bounds [of d] month_bounds [of e]
    have "\<not> month_of_day e < month_of_day d"
    proof
      assume less: "month_of_day e < month_of_day d"
      then have "?ms ! Suc (month_of_day e) \<le> ?ms ! month_of_day d"
        using month_starts_increase [of "Suc (month_of_day e)" "month_of_day d" "leap (year_of_day d)"] m
        by (cases "Suc (month_of_day e) = month_of_day d") auto
      with m n same show False by simp
    qed
    then show ?thesis using n same by (auto simp: date_of_day_def)
  qed (use y in auto)
qed

lemma radix_less: "0 < c \<Longrightarrow> a < b \<longleftrightarrow> a div c < b div c \<or> a div c = b div c \<and> a mod c < b mod c" for a b c :: int
proof -
  assume c: "0 < c"
  have m: "a div c \<le> b div c" if "a \<le> b" using that c by (rule zdiv_mono1)
  have m': "b div c \<le> a div c" if "b \<le> a" using that c by (rule zdiv_mono1)
  have "a = c * (a div c) + a mod c" "b = c * (b div c) + b mod c" by simp_all
  then have e: "a div c = b div c \<Longrightarrow> a < b \<longleftrightarrow> a mod c < b mod c" by (metis add_less_cancel_left)
  show ?thesis using m m' e by (cases "a < b") force+
qed

lemma clock_digits:
  "t mod MS_PER_DAY div 3600000 = t div 1000 div 60 div 60 mod 24"
  "t mod 3600000 div 60000 = t div 1000 div 60 mod 60"
  "t mod 60000 div 1000 = t div 1000 mod 60"
  "day_of t = t div 1000 div 60 div 60 div 24"
proof -
  have r: "t mod (b * c) div b = t div b mod c" if "0 < b" "0 \<le> c" for b c :: int
    using that by (simp add: zmod_zmult2_eq)
  have m: "t div 1000 div 60 = t div 60000" using zdiv_zmult2_eq [of 60 t 1000] by simp
  have h: "t div 60000 div 60 = t div 3600000" using zdiv_zmult2_eq [of 60 t 60000] by simp
  have d: "t div 3600000 div 24 = t div MS_PER_DAY" using zdiv_zmult2_eq [of 24 t 3600000] by (simp add: MS_PER_DAY_def)
  show "t mod MS_PER_DAY div 3600000 = t div 1000 div 60 div 60 mod 24"
    unfolding m h using r [of 3600000 24] by (simp add: MS_PER_DAY_def)
  show "t mod 3600000 div 60000 = t div 1000 div 60 mod 60" unfolding m using r [of 60000 60] by simp
  show "t mod 60000 div 1000 = t div 1000 mod 60" using r [of 1000 60] by simp
  show "day_of t = t div 1000 div 60 div 60 div 24" unfolding m h d by (simp add: day_of_def)
qed

definition stamp_fields :: "int \<Rightarrow> int list" where
  "stamp_fields t = UTCFullYear t # clock_fields t"

lemma stamp_fields_seconds: "t div 1000 = u div 1000 \<Longrightarrow> stamp_fields t = stamp_fields u"
  by (simp add: stamp_fields_def clock_fields_def clock_digits UTCFullYear_def UTCMonth_def UTCDate_def)

lemma stamp_fields_less:
  assumes "t div 1000 < u div 1000"
  shows "stamp_fields t < stamp_fields u"
proof (cases "day_of t < day_of u")
  case True
  from civil_less [OF True] show ?thesis
    by (auto simp: stamp_fields_def clock_fields_def UTCFullYear_def UTCMonth_def UTCDate_def)
next
  case False
  let ?h = "\<lambda>x :: int. x div 1000 div 60 div 60"
  have s: "t div 1000 div 60 < u div 1000 div 60 \<or> t div 1000 div 60 = u div 1000 div 60 \<and> t div 1000 mod 60 < u div 1000 mod 60"
    using assms radix_less [of 60 "t div 1000"] by simp
  have h: "t div 1000 div 60 < u div 1000 div 60 \<longleftrightarrow> ?h t < ?h u \<or> ?h t = ?h u \<and> t div 1000 div 60 mod 60 < u div 1000 div 60 mod 60"
    by (rule radix_less) simp
  have d: "?h t < ?h u \<longleftrightarrow> day_of t < day_of u \<or> day_of t = day_of u \<and> ?h t mod 24 < ?h u mod 24"
    unfolding clock_digits(4) by (rule radix_less) simp
  have "?h t = ?h u \<Longrightarrow> day_of t = day_of u" unfolding clock_digits(4) by (rule arg_cong)
  moreover have "t div 1000 div 60 = u div 1000 div 60 \<Longrightarrow> ?h t = ?h u" by (rule arg_cong)
  ultimately have e: "day_of t = day_of u" using False d s h by blast
  have "?h t mod 24 < ?h u mod 24 \<or> ?h t mod 24 = ?h u mod 24 \<and>
      (t div 1000 div 60 mod 60 < u div 1000 div 60 mod 60 \<or>
       t div 1000 div 60 mod 60 = u div 1000 div 60 mod 60 \<and> t div 1000 mod 60 < u div 1000 mod 60)"
    using False d s h e by metis
  with e show ?thesis
    unfolding stamp_fields_def clock_fields_def clock_digits(1-3) UTCFullYear_def UTCMonth_def UTCDate_def
    by (simp only: Cons_less_Cons simp_thms) blast
qed

lemma stamp_fields_order: "stamp_fields t \<le> stamp_fields u \<longleftrightarrow> t div 1000 \<le> u div 1000"
  using stamp_fields_seconds [of t u] stamp_fields_less [of t u] stamp_fields_less [of u t]
  by (cases "t div 1000" "u div 1000" rule: linorder_cases) auto

text \<open>The years a four-digit name can hold.\<close>

definition nameable :: "int \<Rightarrow> bool" where
  "nameable t \<longleftrightarrow> 0 \<le> t \<and> t < 253402300800000"

lemma nameable_year: "nameable t \<Longrightarrow> 0 \<le> UTCFullYear t \<and> UTCFullYear t < 10000"
proof -
  assume t: "nameable t"
  then have d: "0 \<le> day_of t" "day_of t < 2932897"
    using day_span [of t] by (auto simp: nameable_def day_of_def MS_PER_DAY_def)
  have "day_from_year 10000 = 2932897" by code_simp
  moreover have "day_from_year 10000 \<le> day_from_year (UTCFullYear t)" if "10000 \<le> UTCFullYear t"
    using that by (rule day_from_year_mono)
  ultimately have "UTCFullYear t < 10000"
    using year_of_day_bounds [of "day_of t"] d unfolding UTCFullYear_def by force
  then show ?thesis using year_nonneg [OF d(1)] by (simp add: UTCFullYear_def)
qed

lemma mod_div_below: "0 < b \<Longrightarrow> 0 < c \<Longrightarrow> c \<le> 100 * b \<Longrightarrow> field_ok (t mod c div b)" for b c :: int
proof -
  assume *: "0 < b" "0 < c" "c \<le> 100 * b"
  have "t mod c < 100 * b" using pos_mod_bound [OF *(2), of t] * by linarith
  then have "b * (t mod c div b) < b * 100" using div_bounds [OF *(1), of "t mod c"] by linarith
  then have "t mod c div b < 100" using * by simp
  with * show ?thesis by (simp add: field_ok_def pos_imp_zdiv_nonneg_iff)
qed

lemma clock_fields_ok: "list_all field_ok (clock_fields t)" "length (clock_fields t) = 5"
proof -
  have "field_ok (UTCMonth t + 1)" "field_ok (UTCDate t)"
    using month_bounds [of "day_of t"] date_bounds [of "day_of t"] by (auto simp: field_ok_def UTCMonth_def UTCDate_def)
  then show "list_all field_ok (clock_fields t)"
    using mod_div_below [of 3600000 MS_PER_DAY t] mod_div_below [of 60000 3600000 t] mod_div_below [of 1000 60000 t]
    by (simp add: clock_fields_def MS_PER_DAY_def)
  show "length (clock_fields t) = 5" by (simp add: clock_fields_def)
qed

lemma two_padded: "two n = padded (Suc 1) n"
  by (simp add: two_def padded_def eval_nat_numeral)

lemma field_text: "field_ok n \<Longrightarrow> length (two n) = 2 \<and> list_all is_digit (two n)"
  using padded_facts [of n 1] by (simp add: two_padded field_ok_def)

lemma fields_length: "list_all field_ok ns \<Longrightarrow> length (concat (map (\<lambda>n. CHR ''-'' # two n) ns)) = 3 * length ns"
  by (induction ns) (auto simp: field_text)

lemma iso_stamp_nameable:
  assumes "nameable t"
  shows "iso_stamp t = padded (Suc 3) (UTCFullYear t) @ concat (map (\<lambda>n. CHR ''-'' # two n) (clock_fields t))"
proof -
  have y: "iso_year (UTCFullYear t) = padded (Suc 3) (UTCFullYear t)"
    using nameable_year [OF assms] by (simp add: iso_year_def padded_def eval_nat_numeral)
  have "length (padded (Suc 3) (UTCFullYear t)) = 4"
    using padded_facts(1) [of "UTCFullYear t" 3] nameable_year [OF assms] by simp
  then show ?thesis using fields_length [OF clock_fields_ok(1), of t]
    by (simp add: iso_stamp_def y clock_fields_ok(2))
qed

lemma backupFilename_less:
  assumes "nameable t" "nameable u"
  shows "backupFilename t < backupFilename u \<longleftrightarrow> t div 1000 < u div 1000"
proof -
  have y: "0 \<le> UTCFullYear t" "UTCFullYear t < 10 ^ Suc 3" "0 \<le> UTCFullYear u" "UTCFullYear u < 10 ^ Suc 3"
    using nameable_year assms by auto
  have f: "concat (map (\<lambda>n. CHR ''-'' # two n) (clock_fields t)) < concat (map (\<lambda>n. CHR ''-'' # two n) (clock_fields u))
      \<longleftrightarrow> clock_fields t < clock_fields u"
    by (rule fields_order) (simp_all add: clock_fields_ok)
  have i: "iso_stamp t < iso_stamp u \<longleftrightarrow> stamp_fields t < stamp_fields u"
    unfolding iso_stamp_nameable [OF assms(1)] iso_stamp_nameable [OF assms(2)]
    using padded_order [OF y] padded_facts(1) [OF y(1,2)] padded_facts(1) [OF y(3,4)] f
    by (simp add: append_less stamp_fields_def)
  have l: "length (iso_stamp t) = length (iso_stamp u)"
    unfolding iso_stamp_nameable [OF assms(1)] iso_stamp_nameable [OF assms(2)]
    using padded_facts(1) [OF y(1,2)] padded_facts(1) [OF y(3,4)] by (simp add: fields_length clock_fields_ok)
  have "backupFilename t < backupFilename u \<longleftrightarrow> iso_stamp t < iso_stamp u"
    unfolding backupFilename_def by (simp add: append_less l)
  also have "\<dots> \<longleftrightarrow> t div 1000 < u div 1000"
    unfolding i using stamp_fields_order [of u t] by (simp add: not_le [symmetric])
  finally show ?thesis .
qed

lemma eat_text_append [simp]: "eat_text p (p @ s) = Some s"
  by (simp add: eat_text_def starts_with_def)

lemma eat_digits_append: "list_all is_digit d \<Longrightarrow> length d = n \<Longrightarrow> eat_digits n (d @ s) = Some s"
  by (simp add: eat_digits_def)

lemma eat_fields_text: "list_all field_ok ns \<Longrightarrow>
    eat_fields (length ns) (concat (map (\<lambda>n. CHR ''-'' # two n) ns) @ s) = Some s"
proof (induction ns)
  case (Cons n ns)
  have "eat_text ''-'' (''-'' @ (two n @ concat (map (\<lambda>n. CHR ''-'' # two n) ns) @ s)) =
      Some (two n @ concat (map (\<lambda>n. CHR ''-'' # two n) ns) @ s)" by (rule eat_text_append)
  with Cons field_text [of n] show ?case by (simp add: eat_digits_append)
qed simp

lemma own_name: "nameable t \<Longrightarrow> isBackupFilename (backupFilename t)"
proof -
  assume t: "nameable t"
  let ?fs = "concat (map (\<lambda>n. CHR ''-'' # two n) (clock_fields t)) @ ''.nxb''"
  have "eat_text ''alayra-nexus-backup-'' (''alayra-nexus-backup-'' @ padded (Suc 3) (UTCFullYear t) @ ?fs) =
      Some (padded (Suc 3) (UTCFullYear t) @ ?fs)" by (rule eat_text_append)
  moreover have "eat_digits 4 (padded (Suc 3) (UTCFullYear t) @ ?fs) = Some ?fs"
    using padded_facts [of "UTCFullYear t" 3] nameable_year [OF t] by (intro eat_digits_append) auto
  moreover have "eat_fields 5 ?fs = Some ''.nxb''"
    using eat_fields_text [OF clock_fields_ok(1), of t] by (simp add: clock_fields_ok(2))
  ultimately show ?thesis
    by (simp add: isBackupFilename_def backupFilename_def iso_stamp_nameable [OF t])
qed

subsection \<open>Properties\<close>

lemma due_exactly:
  assumes ok: "schedule_ok s"
  shows "isDue s lastRun now = (bs_enabled s \<and>
      (\<exists>d. due_instant s d \<and> d \<le> now \<and> (case lastRun of None \<Rightarrow> True | Some t \<Rightarrow> t < d)))"
    and "due_instant s (nextDueAt s now)" "now < nextDueAt s now"
    and "due_instant s e \<Longrightarrow> now < e \<Longrightarrow> nextDueAt s now \<le> e"
proof -
  obtain d where d: "lastDueAt s now = Some d" "due_instant s d" "d \<le> now" using lastDueAt_spec [OF ok] by blast
  have "e \<le> d" if "due_instant s e" "e \<le> now" for e using last_due_greatest [OF ok d(1) that] .
  then show "isDue s lastRun now = (bs_enabled s \<and>
      (\<exists>d. due_instant s d \<and> d \<le> now \<and> (case lastRun of None \<Rightarrow> True | Some t \<Rightarrow> t < d)))"
    using d by (auto simp: isDue_def split: option.split) (meson order_less_le_trans)+
  note n = nextDueAt_spec [OF ok, of now]
  then show "due_instant s (nextDueAt s now)" "now < nextDueAt s now" by simp_all
  show "nextDueAt s now \<le> e" if "due_instant s e" "now < e"
    using due_apart [OF that(1) conjunct1 [OF n] _ ok] n that(2) by linarith
qed

text \<open>
  C16. Whatever is stored as the schedule, a backup is owed at an instant exactly when the schedule is on
  and one of its due instants has come since the last run (or none ever ran), so a missed window is
  caught up and a done one is not repeated; and the announced next run is the first due instant after
  now.
\<close>

theorem backup_due_exactly:
  "isDue (parseSchedule parse raw) lastRun now = (bs_enabled (parseSchedule parse raw) \<and>
      (\<exists>d. due_instant (parseSchedule parse raw) d \<and> d \<le> now \<and> (case lastRun of None \<Rightarrow> True | Some t \<Rightarrow> t < d))) \<and>
    due_instant (parseSchedule parse raw) (nextDueAt (parseSchedule parse raw) now) \<and>
    now < nextDueAt (parseSchedule parse raw) now \<and>
    (\<forall>d. due_instant (parseSchedule parse raw) d \<longrightarrow> now < d \<longrightarrow> nextDueAt (parseSchedule parse raw) now \<le> d)"
  using due_exactly [OF parsed_ok] by blast

theorem backup_due_exactly_witness:
  "\<exists>d. due_instant (parseSchedule (\<lambda>_. None) None) d \<and> 100 < d \<and>
     nextDueAt (parseSchedule (\<lambda>_. None) None) 100 \<le> d"
  using backup_due_exactly [of "\<lambda>_. None" None None 100] by blast

text \<open>
  C17. Retention deletes only files the gateway wrote, and of those it keeps as many as asked for: the
  deleted and the kept ones are together the gateway's files, and every kept backup was taken in the
  same second as every deleted one or later.
\<close>

theorem retention_keeps_the_newest:
  assumes "1 \<le> k"
  shows "\<exists>kept. mset (filter isBackupFilename fs) = mset (prunable fs (Some (of_int k))) + mset kept \<and>
    length kept = min (nat k) (length (filter isBackupFilename fs)) \<and>
    (\<forall>t u. nameable t \<and> nameable u \<and> backupFilename t \<in> set (prunable fs (Some (of_int k))) \<and>
       backupFilename u \<in> set kept \<longrightarrow> t div 1000 \<le> u div 1000)"
proof -
  define ours where "ours = sort (filter isBackupFilename fs)"
  define n where "n = length ours - nat k"
  have p: "prunable fs (Some (of_int k)) = take n ours"
    using assms by (simp add: prunable_def ours_def n_def Let_def)
  have s: "sorted (take n ours @ drop n ours)" by (simp add: ours_def)
  have o: "p \<le> q" if "p \<in> set (take n ours)" "q \<in> set (drop n ours)" for p q
    using s that unfolding sorted_append by blast
  have "mset (filter isBackupFilename fs) = mset (take n ours) + mset (drop n ours)"
    by (simp add: ours_def flip: mset_append)
  moreover have "length (drop n ours) = min (nat k) (length (filter isBackupFilename fs))"
    by (simp add: n_def ours_def)
  moreover have "t div 1000 \<le> u div 1000"
    if "nameable t" "nameable u" "backupFilename t \<in> set (take n ours)" "backupFilename u \<in> set (drop n ours)" for t u
    using o [OF that(3,4)] backupFilename_less [OF that(2,1)] by (simp add: not_less [symmetric])
  ultimately show ?thesis unfolding p by blast
qed

theorem retention_keeps_the_newest_witness:
  "\<exists>kept. mset (filter isBackupFilename [''notes.txt'']) = mset (prunable [''notes.txt''] (Some 2)) + mset kept"
  using retention_keeps_the_newest [where k = 2 and fs = "[''notes.txt'']"] by auto

end
