(* ===== verification/Backup_Runner.thy ===== *)
theory Backup_Runner
  imports Backup_Copy Backup_Names Kv_Views
begin

text \<open>
  \<open>src/services/backupSchedule.service.ts\<close>: taking the unattended backup, on several replicas that share the
  database and the key-value store. A replica is between two of its awaits: asking for the lock, holding
  it, running, releasing it. The export itself is a parameter, the pieces it writes and the row count it
  answers (\<open>None\<close> when it throws); settings are read as values; audit lines and the reasons of failures
  are left out.
\<close>

definition SCHEDULE_LOCK_KEY :: string where "SCHEDULE_LOCK_KEY = ''nexus:backup:schedule:lock''"
definition LOCK_TTL_SECONDS :: int where "LOCK_TTL_SECONDS = 2 * 60 * 60"

record run_outcome =
  ro_ran :: bool
  ro_error :: bool
  ro_filename :: "string option"
  ro_bytes :: "nat option"
  ro_rows :: "nat option"
  ro_pruned :: "nat option"
  ro_copy :: "copy_outcome option"

record schedule_run_state =
  rs_lastRunAt :: "int option"
  rs_lastOk :: "bool option"
  rs_lastFilename :: "string option"
  rs_lastBytes :: "nat option"
  rs_lastRows :: "nat option"
  rs_lastPruned :: "nat option"
  rs_lastCopyOk :: "bool option"

definition EMPTY_STATE :: schedule_run_state where
  "EMPTY_STATE = \<lparr>rs_lastRunAt = None, rs_lastOk = None, rs_lastFilename = None, rs_lastBytes = None,
     rs_lastRows = None, rs_lastPruned = None, rs_lastCopyOk = None\<rparr>"

subsection \<open>Saving a schedule\<close>

datatype save_problem = Unusable schedule_problem | NoRecoveryKey

definition whole :: "rat option \<Rightarrow> int" where
  "whole v = (case v of Some n \<Rightarrow> \<lfloor>n\<rfloor> | None \<Rightarrow> 0)"

definition writeSchedule :: "bool \<Rightarrow> rat option backup_schedule \<Rightarrow> save_problem + rat option backup_schedule" where
  "writeSchedule hasRecoveryKey s = (case scheduleProblem s of
      Some p \<Rightarrow> Inl (Unusable p)
    | None \<Rightarrow> if bs_enabled s \<and> \<not> hasRecoveryKey then Inl NoRecoveryKey else Inr s)"

subsection \<open>One run\<close>

type_synonym export_run = "bytes list \<times> nat option"

definition failed_run :: run_outcome where
  "failed_run = \<lparr>ro_ran = False, ro_error = True, ro_filename = None, ro_bytes = None, ro_rows = None,
     ro_pruned = None, ro_copy = None\<rparr>"

definition prune_stored :: "int \<Rightarrow> backup_db \<Rightarrow> string list \<times> backup_db" where
  "prune_stored keep db = (let doomed = prunable (map sb_filename (listStoredBackups db)) (Some (of_int keep)) in
     (doomed, fold deleteStoredBackup doomed db))"

definition extra_copy :: "int backup_schedule \<Rightarrow> string \<Rightarrow> backup_db \<Rightarrow> folder \<Rightarrow> copy_outcome option \<times> folder" where
  "extra_copy s filename db f = (if bs_copyOffMachine s
     then case findStoredBackup filename db of
         None \<Rightarrow> (None, f)
       | Some saved \<Rightarrow> (case copyOffMachine filename (chunk_stream (db_chunks db) (sb_id saved) (- 1))
             (Some (of_int (bs_keep s))) f of (c, f') \<Rightarrow> (Some c, f'))
     else (None, f))"

definition runBackupNow ::
  "int backup_schedule \<Rightarrow> int \<Rightarrow> backup_origin \<Rightarrow> export_run \<Rightarrow> backup_db \<Rightarrow> folder \<Rightarrow> run_outcome \<times> backup_db \<times> folder" where
  "runBackupNow s now origin ex db f = (let filename = backupFilename now in
     case beginStoredBackup origin filename db of
       None \<Rightarrow> (failed_run, db, f)
     | Some ws \<Rightarrow> (let ws' = fold write_piece (fst ex) ws in
         case snd ex of
           None \<Rightarrow> (failed_run, abort_backup ws', f)
         | Some rows \<Rightarrow> (case commit_backup (describeContents rows ws') of
             (None, db') \<Rightarrow> (failed_run, db', f)
           | (Some bytes, db') \<Rightarrow> (case prune_stored (bs_keep s) db' of (doomed, db'') \<Rightarrow>
               (case extra_copy s filename db'' f of (copy, f') \<Rightarrow>
                 (\<lparr>ro_ran = True, ro_error = False, ro_filename = Some filename, ro_bytes = Some bytes,
                   ro_rows = Some rows, ro_pruned = Some (length doomed), ro_copy = copy\<rparr>, db'', f'))))))"

text \<open>\<open>writeState\<close> of \<open>underLock\<close>.\<close>

definition state_after :: "int \<Rightarrow> run_outcome \<Rightarrow> schedule_run_state" where
  "state_after now out = \<lparr>rs_lastRunAt = Some now, rs_lastOk = Some (ro_ran out), rs_lastFilename = ro_filename out,
     rs_lastBytes = ro_bytes out, rs_lastRows = ro_rows out, rs_lastPruned = ro_pruned out,
     rs_lastCopyOk = map_option co_copied (ro_copy out)\<rparr>"

subsection \<open>The lock\<close>

definition acquire_lock :: "int \<Rightarrow> string \<Rightarrow> bool kv" where
  "acquire_lock now token = kv_set now SCHEDULE_LOCK_KEY token [OptEX LOCK_TTL_SECONDS, OptNX]"

definition read_lock :: "int \<Rightarrow> string \<Rightarrow> bool kv" where
  "read_lock now token = bind_m (kv_get now SCHEDULE_LOCK_KEY) (\<lambda>v. return_m (v = Some token))"

definition drop_lock :: "int \<Rightarrow> nat kv" where
  "drop_lock now = kv_del now [SCHEDULE_LOCK_KEY]"

subsection \<open>Replicas\<close>

text \<open>Where a replica stands; a holder remembers its token, when it took the lock and the run's instant.\<close>

datatype place = Idle
  | Asking int backup_origin
  | Locked string int int backup_origin
  | Running string int int backup_origin
  | Releasing string int
  | Dropping string int

fun held :: "place \<Rightarrow> (string \<times> int) option" where
  "held (Locked t a n b) = Some (t, a)"
| "held (Running t a n b) = Some (t, a)"
| "held (Releasing t a) = Some (t, a)"
| "held (Dropping t a) = Some (t, a)"
| "held _ = None"

record backup_world =
  bw_clock :: int
  bw_store :: store
  bw_state :: schedule_run_state
  bw_db :: backup_db
  bw_folder :: folder
  bw_place :: "nat \<Rightarrow> place"
  bw_used :: "string set"
  bw_log :: "int list"

text \<open>
  The steps. \<open>manual\<close> says whether an operator presses the button. The log holds the instants of the runs
  whose state was written; a run whose state write fails, or whose process dies, is not in it. Other
  clients of the store may write anything but the lock.
\<close>

inductive bstep :: "int backup_schedule \<Rightarrow> bool \<Rightarrow> backup_world \<Rightarrow> backup_world \<Rightarrow> bool"
  for s :: "int backup_schedule" and manual :: bool where
  clock: "bw_clock W \<le> t \<Longrightarrow> bstep s manual W (W\<lparr>bw_clock := t\<rparr>)"
| others: "(\<forall>t \<ge> bw_clock W. view t S SCHEDULE_LOCK_KEY = view t (bw_store W) SCHEDULE_LOCK_KEY) \<Longrightarrow>
    bstep s manual W (W\<lparr>bw_store := S\<rparr>)"
| tick: "bw_place W r = Idle \<Longrightarrow> isDue s (rs_lastRunAt (bw_state W)) (bw_clock W) \<Longrightarrow>
    bstep s manual W (W\<lparr>bw_place := (bw_place W)(r := Asking (bw_clock W) Scheduled)\<rparr>)"
| press: "manual \<Longrightarrow> bw_place W r = Idle \<Longrightarrow>
    bstep s manual W (W\<lparr>bw_place := (bw_place W)(r := Asking (bw_clock W) Manual)\<rparr>)"
| acquire: "bw_place W r = Asking n origin \<Longrightarrow> token \<notin> bw_used W \<Longrightarrow>
    acquire_lock (bw_clock W) token (bw_store W) = (Inr got, S) \<Longrightarrow>
    bstep s manual W (W\<lparr>bw_store := S, bw_used := insert token (bw_used W),
      bw_place := (bw_place W)(r := (if got then Locked token (bw_clock W) n origin else Idle))\<rparr>)"
| recheck: "bw_place W r = Locked token a n Scheduled \<Longrightarrow>
    bstep s manual W (W\<lparr>bw_place := (bw_place W)(r :=
      (if isDue s (rs_lastRunAt (bw_state W)) n then Running token a n Scheduled else Releasing token a))\<rparr>)"
| go: "bw_place W r = Locked token a n Manual \<Longrightarrow>
    bstep s manual W (W\<lparr>bw_place := (bw_place W)(r := Running token a n Manual)\<rparr>)"
| finish: "bw_place W r = Running token a n origin \<Longrightarrow>
    runBackupNow s n origin ex (bw_db W) (bw_folder W) = (out, db, f) \<Longrightarrow>
    bstep s manual W (W\<lparr>bw_db := db, bw_folder := f, bw_state := state_after n out, bw_log := bw_log W @ [n],
      bw_place := (bw_place W)(r := Releasing token a)\<rparr>)"
| unwritten: "bw_place W r = Running token a n origin \<Longrightarrow>
    runBackupNow s n origin ex (bw_db W) (bw_folder W) = (out, db, f) \<Longrightarrow>
    bstep s manual W (W\<lparr>bw_db := db, bw_folder := f, bw_place := (bw_place W)(r := Releasing token a)\<rparr>)"
| compare: "bw_place W r = Releasing token a \<Longrightarrow> read_lock (bw_clock W) token (bw_store W) = (v, S) \<Longrightarrow>
    bstep s manual W (W\<lparr>bw_store := S,
      bw_place := (bw_place W)(r := (if v = Inr True then Dropping token a else Idle))\<rparr>)"
| drop: "bw_place W r = Dropping token a \<Longrightarrow> drop_lock (bw_clock W) (bw_store W) = (v, S) \<Longrightarrow>
    bstep s manual W (W\<lparr>bw_store := S, bw_place := (bw_place W)(r := Idle)\<rparr>)"
| crash: "bstep s manual W (W\<lparr>bw_place := (bw_place W)(r := Idle)\<rparr>)"

text \<open>Every holder is still within the lifetime of the lock it took.\<close>

definition timely :: "backup_world \<Rightarrow> bool" where
  "timely W \<longleftrightarrow> (\<forall>r t a. held (bw_place W r) = Some (t, a) \<longrightarrow> bw_clock W < a + LOCK_TTL_SECONDS * 1000)"

text \<open>What the gateways start from: no replica busy, nothing recorded in this history.\<close>

definition starts :: "backup_world \<Rightarrow> bool" where
  "starts W \<longleftrightarrow> (\<forall>r. bw_place W r = Idle) \<and> bw_log W = [] \<and>
     (\<forall>v x. view (bw_clock W) (bw_store W) SCHEDULE_LOCK_KEY = Some \<lparr>val_of = VStr v, expires_at = x\<rparr> \<longrightarrow> v \<in> bw_used W)"

inductive reaches :: "int backup_schedule \<Rightarrow> bool \<Rightarrow> backup_world \<Rightarrow> backup_world \<Rightarrow> bool"
  for s :: "int backup_schedule" and manual :: bool where
  here: "starts W \<Longrightarrow> reaches s manual W W"
| further: "reaches s manual W0 W \<Longrightarrow> bstep s manual W W' \<Longrightarrow> timely W' \<Longrightarrow> reaches s manual W0 W'"

end
