(* ===== verification/Backup_Runner_Spec.thy ===== *)
theory Backup_Runner_Spec
  imports Backup_Runner
begin

text \<open>
  What the replicas keep: a holder's token is in the lock, so there is one holder, and the recorded runs
  each have a due instant of their own; and what one run leaves in the tables.
\<close>

subsection \<open>One holder\<close>

definition lock_entry :: "string \<Rightarrow> int \<Rightarrow> kv_entry" where
  "lock_entry token a = \<lparr>val_of = VStr token, expires_at = Some (a + LOCK_TTL_SECONDS * 1000)\<rparr>"

definition lock_seen :: "backup_world \<Rightarrow> kv_entry option" where
  "lock_seen W = view (bw_clock W) (bw_store W) SCHEDULE_LOCK_KEY"

definition lock_inv :: "backup_world \<Rightarrow> bool" where
  "lock_inv W \<longleftrightarrow> (\<forall>r t a. held (bw_place W r) = Some (t, a) \<longrightarrow> lock_seen W = Some (lock_entry t a) \<and> t \<in> bw_used W) \<and>
     (\<forall>r r' t a a'. held (bw_place W r) = Some (t, a) \<longrightarrow> held (bw_place W r') = Some (t, a') \<longrightarrow> r = r')"

lemma exclusive: "lock_inv W \<Longrightarrow> held (bw_place W r) \<noteq> None \<Longrightarrow> held (bw_place W r') \<noteq> None \<Longrightarrow> r = r'"
proof -
  assume i: "lock_inv W" and h: "held (bw_place W r) \<noteq> None" "held (bw_place W r') \<noteq> None"
  then obtain t a t' a' where ta: "held (bw_place W r) = Some (t, a)" "held (bw_place W r') = Some (t', a')" by fastforce
  with i have "Some (lock_entry t a) = Some (lock_entry t' a')" unfolding lock_inv_def by metis
  then have "t' = t" by (simp add: lock_entry_def)
  with ta i show "r = r'" unfolding lock_inv_def by blast
qed

lemma lock_inv_mono:
  assumes "lock_inv W" "\<And>r. held (bw_place W' r) = None \<or> held (bw_place W' r) = held (bw_place W r)"
    "bw_used W \<subseteq> bw_used W'"
    "\<And>r. held (bw_place W' r) \<noteq> None \<Longrightarrow> lock_seen W' = lock_seen W"
  shows "lock_inv W'"
  unfolding lock_inv_def
proof (intro conjI allI impI)
  fix r t a
  assume h: "held (bw_place W' r) = Some (t, a)"
  then have "lock_seen W' = lock_seen W" by (intro assms(4) [of r]) simp
  moreover have "held (bw_place W r) = Some (t, a)" using assms(2) [of r] h by auto
  ultimately have "held (bw_place W r) = Some (t, a)" "lock_seen W' = lock_seen W" by simp_all
  then show "lock_seen W' = Some (lock_entry t a)" "t \<in> bw_used W'" using assms(1,3) by (auto simp: lock_inv_def)
next
  fix r r' t a a'
  assume "held (bw_place W' r) = Some (t, a)" "held (bw_place W' r') = Some (t, a')"
  then have "held (bw_place W r) = Some (t, a)" "held (bw_place W r') = Some (t, a')"
    using assms(2) [of r] assms(2) [of r'] by auto
  then show "r = r'" using assms(1) by (auto simp: lock_inv_def)
qed

lemma acquire_lock_run: "acquire_lock now token s = (if view now s SCHEDULE_LOCK_KEY \<noteq> None then (Inr False, purge now SCHEDULE_LOCK_KEY s)
   else (Inr True, store_set SCHEDULE_LOCK_KEY (lock_entry token now) (purge now SCHEDULE_LOCK_KEY s)))"
  by (simp add: acquire_lock_def kv_set_ex_nx_run lock_entry_def)

lemma read_lock_view: "read_lock now token s = (v, s') \<Longrightarrow> view now s' = view now s"
  by (auto simp: read_lock_def kv_get_def bind_m_def asString_run return_m_def split: option.splits kv_value.splits prod.splits sum.splits)

lemma lock_inv_step:
  assumes "bstep s manual W W'" "lock_inv W" "timely W'"
  shows "lock_inv W'"
  using assms(1)
proof cases
  case (clock t)
  show ?thesis
  proof (rule lock_inv_mono [OF assms(2)])
    fix r
    assume h: "held (bw_place W' r) \<noteq> None"
    then obtain tk a where "held (bw_place W r) = Some (tk, a)" by (auto simp: clock)
    moreover from this have "lock_seen W = Some (lock_entry tk a)" "t < a + LOCK_TTL_SECONDS * 1000"
      using assms(2,3) by (auto simp: lock_inv_def timely_def clock)
    ultimately show "lock_seen W' = lock_seen W"
      by (auto simp: lock_seen_def clock view_def lock_entry_def expired_def split: option.splits if_splits)
  qed (simp_all add: clock)
next
  case (others S)
  then show ?thesis by (intro lock_inv_mono [OF assms(2)]) (auto simp: lock_seen_def)
next
  case (acquire r n origin token got S)
  show ?thesis
  proof (cases "lock_seen W")
    case (Some e)
    with acquire show ?thesis
      by (intro lock_inv_mono [OF assms(2)]) (auto simp: acquire_lock_run lock_seen_def)
  next
    case None
    then have none: "held (bw_place W r') = None" for r'
      using assms(2) by (cases "held (bw_place W r')") (auto simp: lock_inv_def)
    have "lock_seen W' = Some (lock_entry token (bw_clock W))"
      using None acquire by (auto simp: acquire_lock_run lock_seen_def view_store_set expired_def lock_entry_def LOCK_TTL_SECONDS_def)
    then show ?thesis using None none acquire by (auto simp: lock_inv_def acquire_lock_run lock_seen_def split: if_splits)
  qed
next
  case (compare r token a v S)
  then show ?thesis
    by (intro lock_inv_mono [OF assms(2)]) (auto simp: lock_seen_def read_lock_view)
next
  case (drop r token a v S)
  then have h: "held (bw_place W r) \<noteq> None" by simp
  have "held (bw_place W' r') = None" for r'
  proof (cases "r' = r")
    case False
    then have "held (bw_place W r') = None" using exclusive [OF assms(2) h, of r'] by blast
    with False show ?thesis by (simp add: drop)
  qed (simp add: drop)
  then show ?thesis by (simp add: lock_inv_def)
qed (intro lock_inv_mono [OF assms(2)], auto simp: lock_seen_def)+

lemma starts_lock_inv: "starts W \<Longrightarrow> lock_inv W"
  by (simp add: starts_def lock_inv_def)

lemma reaches_lock_inv: "reaches s manual W0 W \<Longrightarrow> lock_inv W"
  by (induction rule: reaches.induct) (use starts_lock_inv lock_inv_step in blast)+

subsection \<open>One backup per due instant\<close>

text \<open>A due instant has come between two instants.\<close>

definition due_between :: "int backup_schedule \<Rightarrow> int \<Rightarrow> int \<Rightarrow> bool" where
  "due_between s m n \<longleftrightarrow> (\<exists>d. due_instant s d \<and> m < d \<and> d \<le> n)"

lemma due_between_trans: "due_between s l m \<Longrightarrow> due_between s m n \<Longrightarrow> due_between s l n"
  unfolding due_between_def by (meson order.strict_trans2 order_trans less_imp_le)

lemma due_between_isDue: "schedule_ok s \<Longrightarrow> isDue s (Some m) n \<Longrightarrow> due_between s m n"
  using due_exactly(1) [of s "Some m" n] by (auto simp: due_between_def)

fun scheduled_only :: "place \<Rightarrow> bool" where
  "scheduled_only (Asking n b) = (b = Scheduled)"
| "scheduled_only (Locked t a n b) = (b = Scheduled)"
| "scheduled_only (Running t a n b) = (b = Scheduled)"
| "scheduled_only _ = True"

definition log_inv :: "int backup_schedule \<Rightarrow> backup_world \<Rightarrow> bool" where
  "log_inv s W \<longleftrightarrow> (\<forall>r. scheduled_only (bw_place W r)) \<and>
     (bw_log W \<noteq> [] \<longrightarrow> rs_lastRunAt (bw_state W) = Some (last (bw_log W))) \<and>
     (\<forall>r t a n b. bw_place W r = Running t a n b \<longrightarrow> isDue s (rs_lastRunAt (bw_state W)) n) \<and>
     sorted_wrt (due_between s) (bw_log W)"

lemma log_inv_keep:
  assumes "log_inv s W" "bw_log W' = bw_log W" "bw_state W' = bw_state W"
    "\<And>r. scheduled_only (bw_place W' r)"
    "\<And>r t a n b. bw_place W' r = Running t a n b \<Longrightarrow> bw_place W r = Running t a n b \<or> isDue s (rs_lastRunAt (bw_state W)) n"
  shows "log_inv s W'"
  using assms unfolding log_inv_def by metis

lemma sorted_wrt_snoc:
  assumes "sorted_wrt P xs" "xs \<noteq> [] \<Longrightarrow> P (last xs) y" "\<And>a b c. P a b \<Longrightarrow> P b c \<Longrightarrow> P a c"
  shows "sorted_wrt P (xs @ [y])"
proof -
  have "P x y" if "x \<in> set xs" for x
  proof (cases "x = last xs")
    case True
    from that have "xs \<noteq> []" by auto
    with True assms(2) show ?thesis by simp
  next
    case False
    from that obtain zs z where xs: "xs = zs @ [z]" by (cases xs rule: rev_cases) auto
    with False that assms(1) have "P x (last xs)" by (auto simp: sorted_wrt_append)
    with assms(2,3) that show ?thesis by (metis empty_iff list.set(1))
  qed
  with assms(1) show ?thesis by (simp add: sorted_wrt_append)
qed

lemma log_inv_step:
  assumes ok: "schedule_ok s" and step: "bstep s False W W'" and inv: "log_inv s W" and lock: "lock_inv W"
  shows "log_inv s W'"
proof -
  have so: "scheduled_only (bw_place W r)" for r using inv by (simp add: log_inv_def)
  from step show ?thesis
  proof cases
    case (acquire r n origin token got S)
    then show ?thesis using so so [of r] by (intro log_inv_keep [OF inv]) (auto split: if_splits)
  next
    case (recheck r token a n)
    then show ?thesis using so by (intro log_inv_keep [OF inv]) (auto split: if_splits)
  next
    case (go r token a n)
    then show ?thesis using so [of r] by simp
  next
    case (finish r token a n origin ex out db f)
    have alone: "bw_place W' r' = Running t' a' n' b' \<Longrightarrow> False" for r' t' a' n' b'
      using exclusive [OF lock, of r r'] finish by (auto split: if_splits)
    have due: "isDue s (rs_lastRunAt (bw_state W)) n" using inv finish unfolding log_inv_def by blast
    have "sorted_wrt (due_between s) (bw_log W @ [n])"
    proof (rule sorted_wrt_snoc)
      show "due_between s (last (bw_log W)) n" if "bw_log W \<noteq> []"
        using due_between_isDue [OF ok] due inv that by (simp add: log_inv_def)
    qed (use inv due_between_trans in \<open>auto simp: log_inv_def\<close>)
    moreover have "scheduled_only (bw_place W' r')" for r' using so by (simp add: finish)
    moreover have "bw_log W' = bw_log W @ [n]" "rs_lastRunAt (bw_state W') = Some n"
      by (simp_all add: finish state_after_def)
    ultimately show ?thesis using alone unfolding log_inv_def by simp blast
  qed (use so in \<open>intro log_inv_keep [OF inv], auto split: if_splits\<close>)+
qed

lemma reaches_log_inv: "reaches s False W0 W \<Longrightarrow> schedule_ok s \<Longrightarrow> log_inv s W"
proof (induction rule: reaches.induct)
  case (here W)
  then show ?case by (simp add: starts_def log_inv_def)
next
  case (further W0 W W')
  then show ?case using log_inv_step reaches_lock_inv by blast
qed

subsection \<open>What a run leaves behind\<close>

lemma own_name_complete: "isComplete (backupFilename t)"
proof -
  have "last (backupFilename t) = CHR ''b''" by (simp add: backupFilename_def)
  moreover have "last x = CHR ''l''" if "ends_with PARTIAL_SUFFIX x" for x
  proof -
    let ?n = "length x - length PARTIAL_SUFFIX"
    from that have d: "drop ?n x = PARTIAL_SUFFIX" unfolding ends_with_def by blast
    have "drop ?n x \<noteq> []" unfolding d by (simp add: PARTIAL_SUFFIX_def)
    then have "last (drop ?n x) = last x" by (simp add: last_drop)
    then show ?thesis unfolding d by (simp add: PARTIAL_SUFFIX_def)
  qed
  ultimately show ?thesis by (auto simp: isComplete_def)
qed

lemma describe_writing: "writing_db name b (describeContents k ws) = writing_db name b ws"
    "broken_db name (describeContents k ws) = broken_db name ws" "snd (describeContents k ws) = snd ws"
  by (auto simp: describeContents_def writing_db_def broken_db_def parented_def holds_bytes_def split: prod.split)

lemma deletes_keep: "healthy_db db \<Longrightarrow> healthy_db (fold deleteStoredBackup ns db) \<and>
    (n \<notin> set ns \<longrightarrow> stored_db (fold deleteStoredBackup ns db) n = stored_db db n)"
proof (induction ns arbitrary: db)
  case (Cons m ns)
  have "healthy_db (deleteStoredBackup m db)" unfolding deleteStoredBackup_def by (rule deleted_healthy [OF Cons.prems])
  moreover have "n \<noteq> m \<Longrightarrow> stored_db (deleteStoredBackup m db) n = stored_db db n"
    unfolding deleteStoredBackup_def by (rule deleted_hides [OF Cons.prems]) auto
  ultimately show ?case using Cons.IH [of "deleteStoredBackup m db"] by auto
qed simp

text \<open>The newest of distinct names is never pruned.\<close>

lemma newest_not_pruned:
  assumes "distinct fs" "1 \<le> k" "\<And>m. m \<in> set fs \<Longrightarrow> isBackupFilename m \<Longrightarrow> m \<le> n"
  shows "n \<notin> set (prunable fs (Some (of_int k)))"
proof
  define ours where "ours = sort (filter isBackupFilename fs)"
  assume "n \<in> set (prunable fs (Some (of_int k)))"
  then have i: "n \<in> set (take (length ours - nat k) ours)" using assms(2) by (simp add: prunable_def ours_def Let_def)
  have d: "distinct ours" "sorted ours" using assms(1) by (simp_all add: ours_def)
  let ?j = "length ours - nat k"
  from i have j: "?j < length ours" using assms(2) by (cases ours) auto
  have x: "ours ! ?j \<in> set (drop ?j ours)" using j by (auto simp: in_set_conv_nth intro!: exI [of _ 0])
  then have "ours ! ?j \<notin> set (take ?j ours)" using d(1) by (metis disjoint_iff set_take_disj_set_drop_if_distinct order_refl)
  moreover have "n \<le> ours ! ?j"
    using d(2) i x by (metis append_take_drop_id sorted_append)
  moreover have "ours ! ?j \<le> n" using j assms(3) nth_mem [OF j] by (simp add: ours_def)
  ultimately show False using i by auto
qed

lemma listed_names: "set (map sb_filename (listStoredBackups db)) \<subseteq> set (map sb_filename (db_backups db))"
  "distinct (map sb_filename (db_backups db)) \<Longrightarrow> distinct (map sb_filename (listStoredBackups db))"
proof -
  show "set (map sb_filename (listStoredBackups db)) \<subseteq> set (map sb_filename (db_backups db))"
    by (auto simp: listStoredBackups_def)
  assume "distinct (map sb_filename (db_backups db))"
  then have "distinct (map sb_filename (sort_key (\<lambda>b. - sb_createdAt b) (db_backups db)))"
    by (simp add: distinct_map)
  then show "distinct (map sb_filename (listStoredBackups db))" unfolding listStoredBackups_def by (rule distinct_map_filter)
qed

lemma pruned_own: "m \<in> set (prunable fs keep) \<Longrightarrow> isBackupFilename m \<and> m \<in> set fs"
  by (auto simp: prunable_def Let_def split: option.splits if_splits dest: in_set_takeD)

lemma stored_db_some: "stored_db db n \<noteq> None \<longleftrightarrow> isComplete n \<and> n \<in> sb_filename ` set (db_backups db)"
proof -
  have "find (\<lambda>b. sb_filename b = n) (db_backups db) \<noteq> None \<longleftrightarrow> n \<in> sb_filename ` set (db_backups db)"
    unfolding find_None_iff by auto
  then show ?thesis by (simp add: stored_db_def findStoredBackup_def)
qed

lemma described_puts:
  fixes ps k
  assumes "healthy_db db" "isComplete name" "beginStoredBackup origin name db = Some ws"
  defines "ws' \<equiv> describeContents k (fold write_piece ps ws)"
  shows "writing_db name (concat ps) ws' \<or> broken_db name ws'"
    "isComplete n \<Longrightarrow> stored_db (snd ws') n = stored_db db n"
proof -
  have f: "fold write_piece ps ws = db.puts ps ws" by (simp add: db.puts_def)
  show "writing_db name (concat ps) ws' \<or> broken_db name ws'"
    using db.puts_result [OF db.start_writes [OF assms(1-3)], of ps] by (simp add: ws'_def describe_writing f)
  show "isComplete n \<Longrightarrow> stored_db (snd ws') n = stored_db db n"
    using db.nothing_partial(1) [OF assms(1-3)] by (simp add: ws'_def describe_writing f)
qed

lemma run_outcome_cases:
  assumes "runBackupNow s now origin ex db f = (out, db', f')"
  obtains "beginStoredBackup origin (backupFilename now) db = None" "\<not> ro_ran out" "db' = db"
  | ws where "beginStoredBackup origin (backupFilename now) db = Some ws" "snd ex = None" "\<not> ro_ran out"
      "db' = abort_backup (fold write_piece (fst ex) ws)"
  | ws rows where "beginStoredBackup origin (backupFilename now) db = Some ws" "\<not> ro_ran out"
      "commit_backup (describeContents rows (fold write_piece (fst ex) ws)) = (None, db')"
  | ws rows len db1 where "beginStoredBackup origin (backupFilename now) db = Some ws" "ro_ran out"
      "commit_backup (describeContents rows (fold write_piece (fst ex) ws)) = (Some len, db1)"
      "db' = snd (prune_stored (bs_keep s) db1)"
  using assms by (auto simp: runBackupNow_def Let_def failed_run_def split: option.splits prod.splits)

lemma failed_run_keeps:
  assumes "healthy_db db" "runBackupNow s now origin ex db f = (out, db', f')" "\<not> ro_ran out" "isComplete n"
  shows "stored_db db' n = stored_db db n"
  using assms(2)
proof (cases rule: run_outcome_cases)
  case (2 ws)
  have "fold write_piece (fst ex) ws = db.puts (fst ex) ws" by (simp add: db.puts_def)
  then show ?thesis using db.nothing_partial(2) [OF assms(1) own_name_complete 2(1) assms(4)] 2(4) by simp
next
  case (3 ws rows)
  from described_puts [OF assms(1) own_name_complete 3(1), where ps = "fst ex" and k = rows] db.finish_others [OF _ 3(3) assms(4)]
    db.finish_broken 3(3) assms(4)
  show ?thesis by (metis snd_conv)
qed (use assms(3) in simp_all)

lemma run_keeps:
  assumes "healthy_db db" "runBackupNow s now origin ex db f = (out, db', f')" "ro_ran out" "1 \<le> bs_keep s"
    and newest: "\<And>b. b \<in> set (db_backups db) \<Longrightarrow> isBackupFilename (sb_filename b) \<Longrightarrow> sb_filename b \<le> backupFilename now"
  shows "stored_db db' (backupFilename now) = Some (concat (fst ex))" "healthy_db db'"
    and "isComplete n \<Longrightarrow> \<not> isBackupFilename n \<Longrightarrow> n \<noteq> backupFilename now \<Longrightarrow> stored_db db' n = stored_db db n"
proof -
  let ?name = "backupFilename now"
  obtain ws rows len db1 where b: "beginStoredBackup origin ?name db = Some ws"
    and c: "commit_backup (describeContents rows (fold write_piece (fst ex) ws)) = (Some len, db1)"
    and d': "db' = snd (prune_stored (bs_keep s) db1)"
    using assms(2) by (cases rule: run_outcome_cases) (use assms(3) in auto)
  let ?ws = "describeContents rows (fold write_piece (fst ex) ws)"
  note p = described_puts [OF assms(1) own_name_complete b, where ps = "fst ex" and k = rows]
  from p(1) c have w: "writing_db ?name (concat (fst ex)) ?ws" using db.finish_broken by fastforce
  note st = db.finish_stores [OF w c]
  define doomed where "doomed = prunable (map sb_filename (listStoredBackups db1)) (Some (of_int (bs_keep s)))"
  have d: "db' = fold deleteStoredBackup doomed db1" by (simp add: d' prune_stored_def doomed_def Let_def)
  have le: "m \<le> ?name" if m: "m \<in> set (map sb_filename (listStoredBackups db1))" "isBackupFilename m" for m
  proof (cases "m = ?name")
    case False
    have "isComplete m" using m(1) by (auto simp: listStoredBackups_def)
    moreover have "m \<in> sb_filename ` set (db_backups db1)" using m(1) listed_names(1) by force
    ultimately have "stored_db db1 m \<noteq> None" unfolding stored_db_some by blast
    then have "stored_db db m \<noteq> None"
      using db.finish_others [OF w c \<open>isComplete m\<close>] False p(2) [OF \<open>isComplete m\<close>] by simp
    then show ?thesis using newest m(2) unfolding stored_db_some by blast
  qed simp
  have "?name \<notin> set doomed"
    unfolding doomed_def using assms(4) le st
    by (intro newest_not_pruned listed_names(2)) (auto simp: healthy_db_def)
  with st deletes_keep [where db = db1 and n = ?name and ns = doomed] d show "stored_db db' ?name = Some (concat (fst ex))" "healthy_db db'" by auto
  show "stored_db db' n = stored_db db n" if n: "isComplete n" "\<not> isBackupFilename n" "n \<noteq> ?name"
  proof -
    have "n \<notin> set doomed" using n(2) pruned_own by (auto simp: doomed_def)
    then have "stored_db db' n = stored_db db1 n" using deletes_keep [where db = db1 and n = n and ns = doomed] st d by auto
    also have "\<dots> = stored_db (snd ?ws) n" using db.finish_others [OF w c n(1)] n(3) by simp
    finally show ?thesis using p(2) [OF n(1)] by simp
  qed
qed

subsection \<open>Properties\<close>

text \<open>
  C11. On any number of replicas, whose runs finish within the lifetime of the lock they took, whatever the
  order of their steps, with crashes, failed state writes and other clients of the store: two replicas
  are never inside a run at the same time. Where nobody presses the button, every recorded run has a due
  instant of the stored schedule of its own: between two recorded runs a due instant has come.
\<close>

theorem backups_one_at_a_time:
  assumes "reaches (parseSchedule parse raw) manual W0 W"
  shows "(\<forall>r r' t a n b t' a' n' b'. bw_place W r = Running t a n b \<and> bw_place W r' = Running t' a' n' b' \<longrightarrow> r = r') \<and>
    (\<not> manual \<longrightarrow> sorted_wrt (\<lambda>m n. \<exists>d. due_instant (parseSchedule parse raw) d \<and> m < d \<and> d \<le> n) (bw_log W))"
proof (intro conjI impI allI)
  fix r r' t a n b t' a' n' b'
  assume "bw_place W r = Running t a n b \<and> bw_place W r' = Running t' a' n' b'"
  then show "r = r'" using exclusive [OF reaches_lock_inv [OF assms], of r r'] by simp
next
  assume "\<not> manual"
  then have "log_inv (parseSchedule parse raw) W" using reaches_log_inv [OF _ parsed_ok] assms by simp
  then show "sorted_wrt (\<lambda>m n. \<exists>d. due_instant (parseSchedule parse raw) d \<and> m < d \<and> d \<le> n) (bw_log W)"
    by (simp add: log_inv_def due_between_def [abs_def])
qed

definition quiet_world :: "int \<Rightarrow> backup_world" where
  "quiet_world t = \<lparr>bw_clock = t, bw_store = [], bw_state = EMPTY_STATE,
     bw_db = \<lparr>db_backups = [], db_chunks = [], db_next = 0, db_now = t, db_outcomes = []\<rparr>,
     bw_folder = \<lparr>fd_files = [], fd_is_dir = True, fd_outcomes = []\<rparr>, bw_place = (\<lambda>_. Idle), bw_used = {}, bw_log = []\<rparr>"

theorem backups_one_at_a_time_witness:
  "\<exists>W. reaches (parseSchedule (\<lambda>_. None) None) True (quiet_world 0) W \<and>
     (\<exists>t. bw_place W 0 = Running t 0 0 Manual) \<and> (\<forall>r t a n b. bw_place W r = Running t a n b \<longrightarrow> r = 0)"
proof -
  let ?s = "parseSchedule (\<lambda>_. None) None"
  define W0 where "W0 = quiet_world 0"
  define W1 where "W1 = W0\<lparr>bw_place := (bw_place W0)(0 := Asking (bw_clock W0) Manual)\<rparr>"
  define W2 where "W2 = W1\<lparr>bw_store := store_set SCHEDULE_LOCK_KEY (lock_entry ''t'' 0) [], bw_used := insert ''t'' (bw_used W1),
    bw_place := (bw_place W1)(0 := (if True then Locked ''t'' (bw_clock W1) 0 Manual else Idle))\<rparr>"
  define W3 where "W3 = W2\<lparr>bw_place := (bw_place W2)(0 := Running ''t'' 0 0 Manual)\<rparr>"
  have w0: "bw_clock W0 = 0" "bw_store W0 = []" "bw_used W0 = {}" "\<And>r. bw_place W0 r = Idle" "bw_log W0 = []"
    by (simp_all add: W0_def quiet_world_def)
  have w1: "bw_clock W1 = 0" "bw_store W1 = []" "bw_used W1 = {}" "\<And>r. bw_place W1 r = (if r = 0 then Asking 0 Manual else Idle)"
    by (simp_all add: W1_def w0)
  have w2: "bw_clock W2 = 0" "\<And>r. bw_place W2 r = (if r = 0 then Locked ''t'' 0 0 Manual else Idle)"
    by (simp_all add: W2_def w1)
  have w3: "bw_clock W3 = 0" "\<And>r. bw_place W3 r = (if r = 0 then Running ''t'' 0 0 Manual else Idle)"
    by (simp_all add: W3_def w2)
  have "reaches ?s True W0 W0" by (rule here) (simp add: starts_def w0 view_def)
  moreover have "bstep ?s True W0 W1" unfolding W1_def by (rule press) (simp_all add: w0)
  moreover have "timely W1" by (simp add: timely_def w1)
  ultimately have 1: "reaches ?s True W0 W1" using further by blast
  have "acquire_lock (bw_clock W1) ''t'' (bw_store W1) = (Inr True, store_set SCHEDULE_LOCK_KEY (lock_entry ''t'' 0) [])"
    by (simp add: acquire_lock_run view_def purge_def w1)
  then have "bstep ?s True W1 W2"
    unfolding W2_def by (rule acquire [rotated 2]) (simp_all add: w1)
  moreover have "timely W2" "timely W3" by (simp_all add: timely_def w2 w3 LOCK_TTL_SECONDS_def)
  moreover have "bstep ?s True W2 W3" unfolding W3_def by (rule go) (simp add: w2)
  ultimately have 3: "reaches ?s True W0 W3" using 1 further by blast
  from conjunct1 [OF backups_one_at_a_time [OF 3]] 3 w3 show ?thesis unfolding W0_def
    by (metis (no_types, lifting) place.distinct)
qed



end
