(* ===== verification/Totp.thy ===== *)
theory Totp
  imports Prelude "HOL-Library.Word"
begin

text \<open>
  \<open>src/lib/totp.ts\<close>: base32, HOTP and TOTP. The bit accumulators are the language's 32-bit integers, kept
  as \<open>32 word\<close>, from which high bits fall off unnoticed; \<open>hmac\<close> is SHA-1 HMAC of the platform, a
  parameter. A counter is written as eight bytes, which a negative one refuses.
\<close>

unbundle bit_operations_syntax

type_synonym octets = "8 word list"

definition TOTP_STEP_SECONDS :: int where "TOTP_STEP_SECONDS = 30"
definition TOTP_DIGITS :: nat where "TOTP_DIGITS = 6"
definition TOTP_WINDOW :: int where "TOTP_WINDOW = 1"

definition BASE32_ALPHABET :: string where
  "BASE32_ALPHABET = ''ABCDEFGHIJKLMNOPQRSTUVWXYZ234567''"

datatype totp_error = BadBase32 | NegativeCounter

subsection \<open>Base32\<close>

definition base32_char :: "32 word \<Rightarrow> char" where
  "base32_char v = BASE32_ALPHABET ! unat (v AND 31)"

text \<open>\<open>while (bits >= 5)\<close>: the characters, and the bits left.\<close>

fun emit_fives :: "32 word \<Rightarrow> nat \<Rightarrow> string \<times> nat" where
  "emit_fives value bits = (if 5 \<le> bits
     then (case emit_fives value (bits - 5) of (out, rest) \<Rightarrow> (base32_char (drop_bit (bits - 5) value) # out, rest))
     else ([], bits))"

declare emit_fives.simps [simp del]

fun encode_from :: "32 word \<Rightarrow> nat \<Rightarrow> octets \<Rightarrow> string" where
  "encode_from value bits [] = (if 0 < bits then [base32_char (push_bit (5 - bits) value)] else [])"
| "encode_from value bits (byte # buf) = (let value' = push_bit 8 value OR ucast byte in
     case emit_fives value' (bits + 8) of (out, rest) \<Rightarrow> out @ encode_from value' rest buf)"

definition base32Encode :: "octets \<Rightarrow> string" where
  "base32Encode buf = encode_from 0 0 buf"

definition index_of :: "char \<Rightarrow> string \<Rightarrow> nat option" where
  "index_of c s = (let i = length (takeWhile (\<lambda>d. d \<noteq> c) s) in if i < length s then Some i else None)"

fun decode_from :: "32 word \<Rightarrow> nat \<Rightarrow> string \<Rightarrow> totp_error + octets" where
  "decode_from value bits [] = Inr []"
| "decode_from value bits (ch # cs) = (case index_of ch BASE32_ALPHABET of
      None \<Rightarrow> Inl BadBase32
    | Some idx \<Rightarrow> (let value' = push_bit 5 value OR word_of_nat idx; bits' = bits + 5 in
        if 8 \<le> bits' then (case decode_from value' (bits' - 8) cs of
            Inl e \<Rightarrow> Inl e
          | Inr out \<Rightarrow> Inr (ucast (drop_bit (bits' - 8) value' AND 0xff) # out))
        else decode_from value' bits' cs))"

definition base32_clean :: "string \<Rightarrow> string" where
  "base32_clean input = filter (\<lambda>c. c \<noteq> CHR ''='' \<and> \<not> is_space c \<and> c \<noteq> CHR ''-'') (to_upper input)"

definition base32Decode :: "string \<Rightarrow> totp_error + octets" where
  "base32Decode input = decode_from 0 0 (base32_clean input)"

subsection \<open>Codes\<close>

definition counter_bytes :: "int \<Rightarrow> octets" where
  "counter_bytes counter = map (\<lambda>i. word_of_int (counter div 256 ^ (7 - i))) [0..<8]"

definition truncated :: "octets \<Rightarrow> 32 word" where
  "truncated digest = (let offset = unat (last digest AND 0x0f) in
     push_bit 24 (ucast (digest ! offset AND 0x7f)) OR push_bit 16 (ucast (digest ! (offset + 1) AND 0xff)) OR
     push_bit 8 (ucast (digest ! (offset + 2) AND 0xff)) OR ucast (digest ! (offset + 3) AND 0xff))"

definition hotp :: "(octets \<Rightarrow> octets \<Rightarrow> octets) \<Rightarrow> octets \<Rightarrow> int \<Rightarrow> nat \<Rightarrow> totp_error + string" where
  "hotp hmac secret counter digits = (if counter < 0 then Inl NegativeCounter
     else Inr (pad_start digits (CHR ''0'')
       (nat_string (unat (truncated (hmac secret (counter_bytes counter))) mod 10 ^ digits))))"

definition counterFor :: "int \<Rightarrow> int" where
  "counterFor atMs = atMs div (1000 * TOTP_STEP_SECONDS)"

definition totp :: "(octets \<Rightarrow> octets \<Rightarrow> octets) \<Rightarrow> string \<Rightarrow> int \<Rightarrow> totp_error + string" where
  "totp hmac secretBase32 atMs = (case base32Decode secretBase32 of
      Inl e \<Rightarrow> Inl e
    | Inr secret \<Rightarrow> hotp hmac secret (counterFor atMs) TOTP_DIGITS)"

text \<open>The loop over the drifts, which never stops early.\<close>

fun match_drifts :: "(octets \<Rightarrow> octets \<Rightarrow> octets) \<Rightarrow> octets \<Rightarrow> int \<Rightarrow> string \<Rightarrow> bool \<Rightarrow> int list \<Rightarrow> totp_error + bool" where
  "match_drifts hmac secret base submitted matched [] = Inr matched"
| "match_drifts hmac secret base submitted matched (drift # ds) =
     (case hotp hmac secret (base + drift) TOTP_DIGITS of
        Inl e \<Rightarrow> Inl e
      | Inr candidate \<Rightarrow> match_drifts hmac secret base submitted (candidate = submitted \<or> matched) ds)"

definition verifyTotp ::
  "(octets \<Rightarrow> octets \<Rightarrow> octets) \<Rightarrow> string option \<Rightarrow> string \<Rightarrow> int \<Rightarrow> int \<Rightarrow> totp_error + bool" where
  "verifyTotp hmac token secretBase32 atMs window =
     (let submitted = filter (\<lambda>c. \<not> is_space c) (option_or token []) in
      if \<not> (length submitted = 6 \<and> list_all is_digit submitted) then Inr False
      else case base32Decode secretBase32 of
          Inl e \<Rightarrow> Inl e
        | Inr secret \<Rightarrow> match_drifts hmac secret (counterFor atMs) submitted False [- window..window])"

subsection \<open>Bits\<close>

text \<open>The low \<open>k\<close> bits of a word, highest first.\<close>

definition low_bits :: "nat \<Rightarrow> 'a :: len word \<Rightarrow> bool list" where
  "low_bits k v = map (bit v) (rev [0..<k])"

lemma length_low_bits [simp]: "length (low_bits k v) = k"
  by (simp add: low_bits_def)

lemma low_bits_split: "low_bits (k + n) v = low_bits n (drop_bit k v) @ low_bits k v"
proof -
  have "[0..<k + n] = [0..<k] @ map (\<lambda>i. i + k) [0..<n]"
    unfolding map_add_upt add.commute [of n k] by (rule upt_add_eq_append) simp
  moreover have "bit v (i + k) = bit (drop_bit k v) i" for i by (simp add: bit_drop_bit_eq add.commute)
  ultimately show ?thesis by (simp add: low_bits_def rev_map comp_def)
qed

lemma low_bits_eqI: "(\<And>i. i < k \<Longrightarrow> bit v i = bit w i) \<Longrightarrow> low_bits k v = low_bits k w"
  by (simp add: low_bits_def)

lemma low_bits_inj: "low_bits LENGTH('a) v = low_bits LENGTH('a) w \<Longrightarrow> v = (w :: 'a :: len word)"
  by (rule bit_word_eqI) (simp add: low_bits_def)

subsection \<open>The encoder and the decoder on bits\<close>

lemma shifted_in:
  fixes v w :: "32 word"
  assumes "k + n \<le> 32" "\<And>i. n \<le> i \<Longrightarrow> \<not> bit w i"
  shows "low_bits (k + n) (push_bit n v OR w) = low_bits k v @ low_bits n w"
proof -
  have "low_bits (n + k) (push_bit n v OR w) = low_bits k (drop_bit n (push_bit n v OR w)) @ low_bits n (push_bit n v OR w)"
    by (rule low_bits_split)
  moreover have "low_bits k (drop_bit n (push_bit n v OR w)) = low_bits k v"
    using assms by (intro low_bits_eqI) (simp add: bit_simps)
  moreover have "low_bits n (push_bit n v OR w) = low_bits n w"
    using assms(1) by (intro low_bits_eqI) (simp add: bit_simps)
  ultimately show ?thesis by (simp add: add.commute)
qed

lemma low_bits_append_eq:
  assumes "low_bits (n + k) v = xs @ ys" "length ys = n"
  shows "low_bits n v = ys" "low_bits k (drop_bit n v) = xs"
  using assms low_bits_split [of n k v] by (metis append_eq_append_conv length_low_bits)+

definition bits5 :: "nat \<Rightarrow> bool list" where
  "bits5 d = low_bits 5 (word_of_nat d :: 32 word)"

definition bits8 :: "octets \<Rightarrow> bool list" where
  "bits8 bs = concat (map (low_bits 8) bs)"

lemma length_bits5 [simp]: "length (bits5 d) = 5"
  by (simp add: bits5_def)

lemma length_bits8 [simp]: "length (bits8 bs) = 8 * length bs"
  by (induction bs) (simp_all add: bits8_def)

text \<open>The position of a character in the alphabet.\<close>

definition base32_val :: "char \<Rightarrow> nat option" where
  "base32_val c = index_of c BASE32_ALPHABET"

lemma alphabet_all: "n < 32 \<Longrightarrow> base32_val (BASE32_ALPHABET ! n) = Some n"
proof -
  have "list_all (\<lambda>n. base32_val (BASE32_ALPHABET ! n) = Some n) [0..<32]" by code_simp
  then show "n < 32 \<Longrightarrow> base32_val (BASE32_ALPHABET ! n) = Some n" by (simp add: list_all_iff)
qed

lemma alphabet_clean: "n < 32 \<Longrightarrow> base32_clean [BASE32_ALPHABET ! n] = [BASE32_ALPHABET ! n]"
proof -
  have "list_all (\<lambda>n. base32_clean [BASE32_ALPHABET ! n] = [BASE32_ALPHABET ! n]) [0..<32]" by code_simp
  then show "n < 32 \<Longrightarrow> base32_clean [BASE32_ALPHABET ! n] = [BASE32_ALPHABET ! n]" by (simp add: list_all_iff)
qed

lemma and_31: "(v AND 31 :: 32 word) = take_bit 5 v"
proof -
  have "(31 :: 32 word) = mask 5" by (simp add: mask_eq_exp_minus_1)
  then show ?thesis by (simp only: take_bit_eq_mask)
qed

lemma and_31_less: "unat (v AND 31 :: 32 word) < 32"
  using take_bit_nat_less_exp [of 5 "unat v"] by (simp add: and_31 unsigned_take_bit_eq)

lemma base32_char_val: "base32_val (base32_char v) = Some (unat (v AND 31))"
  unfolding base32_char_def by (rule alphabet_all [OF and_31_less])

lemma bits5_char: "bits5 (unat (v AND 31)) = low_bits 5 v" for v :: "32 word"
  unfolding bits5_def by (intro low_bits_eqI) (simp add: and_31 bit_simps)

text \<open>A word of text as the digits it stands for, when it has no other characters.\<close>

definition digits_of :: "string \<Rightarrow> nat list" where
  "digits_of s = map (\<lambda>c. the (base32_val c)) s"

definition all_base32 :: "string \<Rightarrow> bool" where
  "all_base32 s \<longleftrightarrow> (\<forall>c \<in> set s. \<exists>d < 32. c = BASE32_ALPHABET ! d)"

lemma base32_char_in: "\<exists>d < 32. base32_char v = BASE32_ALPHABET ! d"
  using and_31_less by (auto simp: base32_char_def)

lemma emit_fives_bits:
  assumes "emit_fives v bits = (out, rest)"
  shows "low_bits bits v = concat (map bits5 (digits_of out)) @ low_bits rest v \<and> rest < 5 \<and> rest \<le> bits \<and> all_base32 out"
  using assms
proof (induction v bits arbitrary: out rest rule: emit_fives.induct)
  case (1 v bits)
  show ?case
  proof (cases "5 \<le> bits")
    case True
    obtain out' rest' where e: "emit_fives v (bits - 5) = (out', rest')" by (meson surj_pair)
    with 1(2) True have o: "out = base32_char (drop_bit (bits - 5) v) # out'" "rest = rest'"
      by (simp_all add: emit_fives.simps [of v bits])
    have "low_bits (bits - 5 + 5) v = low_bits 5 (drop_bit (bits - 5) v) @ low_bits (bits - 5) v" by (rule low_bits_split)
    with 1(1) [OF True e] True o show ?thesis
      using base32_char_in by (auto simp: digits_of_def base32_char_val bits5_char all_base32_def)
  next
    case False
    with 1(2) show ?thesis by (simp add: emit_fives.simps [of v bits] digits_of_def all_base32_def)
  qed
qed

lemma padded_tail: "bits < 5 \<Longrightarrow> bits5 (the (base32_val (base32_char (push_bit (5 - bits) v)))) =
    low_bits bits v @ replicate (5 - bits) False"
proof -
  assume b: "bits < 5"
  have "low_bits (5 - bits + bits) (push_bit (5 - bits) v OR 0) = low_bits bits v @ low_bits (5 - bits) (0 :: 32 word)"
    using shifted_in [of bits "5 - bits" 0 v] b by (simp add: add.commute)
  moreover have "low_bits k (0 :: 32 word) = replicate k False" for k
    by (rule nth_equalityI) (simp_all add: low_bits_def)
  ultimately show ?thesis using b by (simp add: base32_char_val bits5_char)
qed

text \<open>The encoder's text stands for its pending bits and the bytes, filled up with less than five zeros.\<close>

lemma encode_from_bits:
  assumes "bits < 5"
  shows "\<exists>k < 5. concat (map bits5 (digits_of (encode_from v bits bs))) = low_bits bits v @ bits8 bs @ replicate k False \<and>
    all_base32 (encode_from v bits bs)"
  using assms
proof (induction bs arbitrary: v bits)
  case Nil
  then show ?case
    using padded_tail [of bits v] base32_char_in
    by (auto simp: digits_of_def bits8_def low_bits_def all_base32_def intro: exI [of _ "5 - bits"])
next
  case (Cons b bs)
  let ?v = "push_bit 8 v OR ucast b"
  obtain out rest where e: "emit_fives ?v (bits + 8) = (out, rest)" by (meson surj_pair)
  note f = emit_fives_bits [OF e]
  from Cons.IH [of rest ?v] f obtain k where k: "k < 5"
    "concat (map bits5 (digits_of (encode_from ?v rest bs))) = low_bits rest ?v @ bits8 bs @ replicate k False"
    "all_base32 (encode_from ?v rest bs)" by auto
  have "low_bits (bits + 8) ?v = low_bits bits v @ low_bits 8 (ucast b :: 32 word)"
    using Cons.prems by (intro shifted_in) (auto simp: bit_simps dest: bit_imp_le_length)
  moreover have "low_bits 8 (ucast b :: 32 word) = low_bits 8 b" by (simp add: low_bits_def bit_simps)
  ultimately show ?case using e f k
    by (intro exI [of _ k]) (auto simp: Let_def digits_of_def bits8_def all_base32_def)
qed

lemma bits8_inj: "length a = length b \<Longrightarrow> bits8 a = bits8 b \<Longrightarrow> a = b"
proof (induction a b rule: list_induct2)
  case (Cons x xs y ys)
  then have "low_bits 8 x = low_bits 8 y" "bits8 xs = bits8 ys" by (simp_all add: bits8_def)
  then show ?case using Cons low_bits_inj [of x y] by simp
qed simp

lemma decode_from_bits:
  assumes "all_base32 s" "bits < 8"
  shows "\<exists>out. decode_from v bits s = Inr out \<and> length out = (bits + 5 * length s) div 8 \<and>
    bits8 out = take (8 * length out) (low_bits bits v @ concat (map bits5 (digits_of s)))"
  using assms
proof (induction s arbitrary: v bits)
  case Nil
  then show ?case by (simp add: bits8_def digits_of_def)
next
  case (Cons c s)
  from Cons.prems(1) obtain d where d: "d < 32" "c = BASE32_ALPHABET ! d" by (auto simp: all_base32_def)
  have i: "index_of c BASE32_ALPHABET = Some d" using alphabet_all [OF d(1)] d(2) by (simp add: base32_val_def)
  have s: "all_base32 s" using Cons.prems(1) by (simp add: all_base32_def)
  define v' where "v' = push_bit 5 v OR (word_of_nat d :: 32 word)"
  have high: "\<not> bit (word_of_nat d :: 32 word) i" if "5 \<le> i" for i
  proof -
    have "d < 2 ^ i" using d(1) power_increasing [OF that, of "2 :: nat"] by simp
    then have "int d < 2 ^ i" by simp
    then have "int d div 2 ^ i = 0" by (intro div_pos_pos_trivial) simp_all
    then have "\<not> bit (int d) i" by (simp add: bit_iff_odd)
    then have "\<not> bit (word_of_int (int d) :: 32 word) i" by (simp only: bit_word_of_int_iff simp_thms)
    then show ?thesis by simp
  qed
  have low: "low_bits (bits + 5) v' = low_bits bits v @ bits5 d"
    unfolding v'_def bits5_def using Cons.prems(2) high by (intro shifted_in) auto
  have digits: "concat (map bits5 (digits_of (c # s))) = bits5 d @ concat (map bits5 (digits_of s))"
    using alphabet_all [OF d(1)] d(2) by (simp add: digits_of_def)
  show ?case
  proof (cases "8 \<le> bits + 5")
    case False
    then have "bits + 5 < 8" by simp
    from Cons.IH [OF s this, of v'] obtain out where o: "decode_from v' (bits + 5) s = Inr out"
      "length out = (bits + 5 + 5 * length s) div 8"
      "bits8 out = take (8 * length out) (low_bits (bits + 5) v' @ concat (map bits5 (digits_of s)))" by blast
    then show ?thesis using False by (simp add: i Let_def v'_def [symmetric] low digits add.assoc add.commute)
  next
    case True
    let ?r = "bits + 5 - 8"
    have r: "?r < 8" using Cons.prems(2) by simp
    from Cons.IH [OF s r, of v'] obtain out where o: "decode_from v' ?r s = Inr out"
      "length out = (?r + 5 * length s) div 8"
      "bits8 out = take (8 * length out) (low_bits ?r v' @ concat (map bits5 (digits_of s)))" by blast
    let ?b = "ucast (drop_bit ?r v' AND 0xff) :: 8 word"
    have m: "(0xff :: 32 word) = mask 8" by (simp add: mask_eq_exp_minus_1)
    have b: "low_bits 8 ?b = low_bits 8 (drop_bit ?r v')"
      unfolding m by (simp add: low_bits_def bit_simps)
    have e: "?r + 8 = bits + 5" using True by simp
    have "low_bits (bits + 5) v' = low_bits 8 (drop_bit ?r v') @ low_bits ?r v'"
      using low_bits_split [of ?r 8 v'] unfolding e .
    then have "low_bits bits v @ bits5 d = low_bits 8 ?b @ low_bits ?r v'" unfolding low b .
    then have "low_bits bits v @ concat (map bits5 (digits_of (c # s))) =
        low_bits 8 ?b @ low_bits ?r v' @ concat (map bits5 (digits_of s))"
      unfolding digits by (metis append_assoc)
    moreover have "bits8 (?b # out) = low_bits 8 ?b @ bits8 out" by (simp add: bits8_def)
    ultimately have "bits8 (?b # out) = take (8 * length (?b # out)) (low_bits bits v @ concat (map bits5 (digits_of (c # s))))"
      by (simp add: o(3))
    moreover have "length (?b # out) = (bits + 5 * length (c # s)) div 8" using o(2) True by simp
    moreover have "decode_from v bits (c # s) = Inr (?b # out)"
      using True o(1) by (simp add: i Let_def v'_def [symmetric])
    ultimately show ?thesis by blast
  qed
qed

lemma clean_Cons: "base32_clean (c # s) = base32_clean [c] @ base32_clean s"
  by (simp add: base32_clean_def to_upper_def)

lemma clean_id: "all_base32 s \<Longrightarrow> base32_clean s = s"
proof (induction s)
  case (Cons c s)
  then have "base32_clean [c] = [c]" "base32_clean s = s" using alphabet_clean by (auto simp: all_base32_def)
  then show ?case using clean_Cons [of c s] by simp
qed (simp add: base32_clean_def to_upper_def)

lemma upper_lower: "\<not> (97 \<le> (of_char c :: nat) \<and> (of_char c :: nat) \<le> 122) \<Longrightarrow> upper_char (lower_char c) = c"
  by (auto simp: upper_char_def lower_char_def)

lemma alphabet_lower: "n < 32 \<Longrightarrow> base32_clean (to_lower [BASE32_ALPHABET ! n]) = [BASE32_ALPHABET ! n]"
proof -
  assume n: "n < 32"
  let ?c = "BASE32_ALPHABET ! n"
  have "list_all (\<lambda>n. \<not> (97 \<le> (of_char (BASE32_ALPHABET ! n) :: nat) \<and> (of_char (BASE32_ALPHABET ! n) :: nat) \<le> 122)) [0..<32]"
    by code_simp
  then have "upper_char (lower_char ?c) = ?c" using n by (intro upper_lower) (simp add: list_all_iff)
  moreover have "filter (\<lambda>c. c \<noteq> CHR ''='' \<and> \<not> is_space c \<and> c \<noteq> CHR ''-'') [upper_char ?c] = [?c]"
    using alphabet_clean [OF n] by (simp add: base32_clean_def to_upper_def)
  ultimately show ?thesis by (auto simp: base32_clean_def to_upper_def to_lower_def split: if_splits)
qed

lemma clean_lower_padded: "all_base32 s \<Longrightarrow> base32_clean (to_lower s @ replicate n (CHR ''='')) = s"
proof (induction s)
  case Nil
  have "upper_char (CHR ''='') = CHR ''=''" by code_simp
  then show ?case by (simp add: base32_clean_def to_upper_def to_lower_def)
next
  case (Cons c s)
  then have "base32_clean [lower_char c] = [c]" using alphabet_lower by (auto simp: all_base32_def to_lower_def)
  moreover have "base32_clean (to_lower s @ replicate n (CHR ''='')) = s" using Cons by (simp add: all_base32_def)
  ultimately show ?case
    using clean_Cons [of "lower_char c" "to_lower s @ replicate n (CHR ''='')"] by (simp add: to_lower_def)
qed

lemma decode_encoded:
  assumes "base32_clean s = base32Encode bs"
  shows "base32Decode s = Inr bs"
proof -
  obtain k where k: "k < 5" "concat (map bits5 (digits_of (base32Encode bs))) = bits8 bs @ replicate k False"
    and all: "all_base32 (base32Encode bs)"
    using encode_from_bits [of 0 0 bs] by (auto simp: base32Encode_def low_bits_def)
  obtain out where o: "decode_from 0 0 (base32Encode bs) = Inr out" "length out = 5 * length (base32Encode bs) div 8"
    "bits8 out = take (8 * length out) (concat (map bits5 (digits_of (base32Encode bs))))"
    using decode_from_bits [OF all, of 0 0] by (auto simp: low_bits_def)
  have l5: "length (concat (map bits5 ds)) = 5 * length ds" for ds by (induction ds) simp_all
  have d: "length (digits_of (base32Encode bs)) = length (base32Encode bs)" by (simp add: digits_of_def)
  have "5 * length (base32Encode bs) = 8 * length bs + k"
    using arg_cong [OF k(2), of length] by (simp only: l5 d length_append length_bits8 length_replicate)
  then have l: "length out = length bs" using o(2) k(1) by simp
  then have "bits8 out = bits8 bs" using o(3) k(2) by simp
  with l have "out = bs" by (rule bits8_inj)
  with o(1) assms show ?thesis by (simp add: base32Decode_def)
qed

lemma encoded_base32: "all_base32 (base32Encode bs)"
  using encode_from_bits [of 0 0 bs] by (auto simp: base32Encode_def)

subsection \<open>Properties\<close>


lemma hotp_six_digits: "hotp hmac secret counter TOTP_DIGITS = Inr code \<Longrightarrow> length code = 6 \<and> list_all is_digit code"
proof -
  assume "hotp hmac secret counter TOTP_DIGITS = Inr code"
  then obtain n where c: "code = pad_start 6 (CHR ''0'') (nat_string (n mod 10 ^ 6))"
    by (auto simp: hotp_def TOTP_DIGITS_def split: if_splits)
  have "length (nat_string (n mod 10 ^ 6)) \<le> Suc 5" by (rule nat_string_length) simp
  then show ?thesis using nat_string_digits [of "n mod 10 ^ 6"]
    by (auto simp: c pad_start_def list_all_iff is_digit_def)
qed

lemma digits_no_space: "list_all is_digit s \<Longrightarrow> filter (\<lambda>c. \<not> is_space c) s = s"
  by (auto simp: filter_id_conv list_all_iff is_digit_def is_space_def)

lemma match_drifts_any:
  "(\<forall>d \<in> set ds. 0 \<le> base + d) \<Longrightarrow> match_drifts hmac secret base tok m ds =
     Inr (m \<or> (\<exists>d \<in> set ds. hotp hmac secret (base + d) TOTP_DIGITS = Inr tok))"
  by (induction ds arbitrary: m) (auto simp: hotp_def)

lemma verify_spec:
  assumes "base32Decode k = Inr secret" and "window \<le> counterFor now"
  shows "verifyTotp hmac token k now window =
    Inr (\<exists>d \<in> {- window..window}. hotp hmac secret (counterFor now + d) TOTP_DIGITS =
       Inr (filter (\<lambda>c. \<not> is_space c) (option_or token [])))"
proof -
  let ?tok = "filter (\<lambda>c. \<not> is_space c) (option_or token [])"
  have "match_drifts hmac secret (counterFor now) ?tok False [- window..window] =
      Inr (\<exists>d \<in> {- window..window}. hotp hmac secret (counterFor now + d) TOTP_DIGITS = Inr ?tok)"
    using assms(2) by (subst match_drifts_any) auto
  then show ?thesis using assms(1) hotp_six_digits by (auto simp: verifyTotp_def Let_def)
qed

lemma near_steps: "\<bar>t - u\<bar> \<le> n \<Longrightarrow> 0 < n \<Longrightarrow> t div n - u div n \<in> {-1, 0, 1}" for t u n :: int
proof -
  assume *: "\<bar>t - u\<bar> \<le> n" "0 < n"
  have "t div n \<le> (u + n) div n" "u div n \<le> (t + n) div n" by (rule zdiv_mono1; use * in linarith)+
  with *(2) show ?thesis by auto
qed

text \<open>
  C32. A submitted code is accepted exactly when, spaces aside, it is the code of the current time step, of
  the one before or of the one after, for any HMAC; so the code a device shows is accepted as long as the
  two clocks are at most thirty seconds apart.
\<close>

theorem totp_window:
  assumes "base32Decode k = Inr secret" and "TOTP_WINDOW \<le> counterFor now"
  shows "verifyTotp hmac token k now TOTP_WINDOW =
      Inr (\<exists>d \<in> {-1, 0, 1}. hotp hmac secret (counterFor now + d) TOTP_DIGITS =
         Inr (filter (\<lambda>c. \<not> is_space c) (option_or token []))) \<and>
    (\<forall>t code. \<bar>t - now\<bar> \<le> 30000 \<and> totp hmac k t = Inr code \<longrightarrow> verifyTotp hmac (Some code) k now TOTP_WINDOW = Inr True)"
proof -
  have w: "{- TOTP_WINDOW..TOTP_WINDOW} = {-1, 0, 1}" by (auto simp: TOTP_WINDOW_def)
  have "verifyTotp hmac (Some code) k now TOTP_WINDOW = Inr True" if t: "\<bar>t - now\<bar> \<le> 30000" "totp hmac k t = Inr code" for t code
  proof -
    have h: "hotp hmac secret (counterFor t) TOTP_DIGITS = Inr code" using t(2) assms(1) by (simp add: totp_def)
    have "counterFor t - counterFor now \<in> {-1, 0, 1}"
      using near_steps t(1) by (auto simp: counterFor_def TOTP_STEP_SECONDS_def)
    then have "\<exists>d \<in> {- TOTP_WINDOW..TOTP_WINDOW}. hotp hmac secret (counterFor now + d) TOTP_DIGITS = Inr code"
      unfolding w using h by (intro bexI [of _ "counterFor t - counterFor now"]) simp_all
    moreover have "filter (\<lambda>c. \<not> is_space c) code = code" using hotp_six_digits [OF h] digits_no_space by blast
    ultimately show ?thesis unfolding verify_spec [OF assms] by (simp add: option_or_def)
  qed
  then show ?thesis unfolding verify_spec [OF assms] w by blast
qed

theorem totp_window_witness:
  "verifyTotp (\<lambda>_ _. replicate 20 0) (Some ''000000'') ''MFRGG'' 95000 TOTP_WINDOW = Inr True"
proof -
  have k: "base32Decode ''MFRGG'' = Inr [97, 98, 99]" by code_simp
  have t: "totp (\<lambda>_ _. replicate 20 0) ''MFRGG'' 80000 = Inr ''000000''"
  proof -
    have z: "nat_string 0 = ''0''" "replicate 5 (CHR ''0'') = ''00000''" by code_simp+
    show ?thesis
      by (simp add: totp_def k hotp_def counterFor_def TOTP_STEP_SECONDS_def TOTP_DIGITS_def truncated_def Let_def
          pad_start_def z)
  qed
  have "TOTP_WINDOW \<le> counterFor 95000" by code_simp
  note * = conjunct2 [OF totp_window [OF k this, of "\<lambda>_ _. replicate 20 0" None], THEN spec, THEN spec, THEN mp]
  show ?thesis by (rule * [OF conjI [OF _ t]]) simp
qed

end
