(* ===== verification/Lifecycle.thy ===== *)
theory Lifecycle
  imports Prelude
begin

text \<open>
  \<open>src/lib/lifecycle.ts\<close>: how the process ends. The wind-down is a machine whose steps are what the event
  loop may do next: a call of \<open>shutdown\<close> (from a signal with 0, from \<open>fatal\<close> with 1), a step of the
  wind-down settling, well or badly, and the watchdog. A step that never settles simply has no event.
  \<open>describe\<close> is the text of an error; the injected \<open>exit\<close> ends the process, after which nothing happens.
  The long warning texts are abbreviated to the words that tell them apart.
\<close>

record lifecycle =
  lc_steps :: "string list"
  lc_shuttingDown :: bool
  lc_running :: "(int \<times> nat) option"
  lc_deadline :: "(int \<times> int) option"
  lc_clock :: int
  lc_exited :: "int option"
  lc_ran :: "string list"
  lc_warned :: "string list"

datatype fatal_kind = UnhandledRejection | UncaughtException

definition fresh_process :: lifecycle where
  "fresh_process = \<lparr>lc_steps = [], lc_shuttingDown = False, lc_running = None, lc_deadline = None, lc_clock = 0,
     lc_exited = None, lc_ran = [], lc_warned = []\<rparr>"

definition onShutdown :: "string \<Rightarrow> lifecycle \<Rightarrow> lifecycle" where
  "onShutdown name P = P\<lparr>lc_steps := lc_steps P @ [name]\<rparr>"

definition lc_warn :: "string \<Rightarrow> lifecycle \<Rightarrow> lifecycle" where
  "lc_warn msg P = P\<lparr>lc_warned := lc_warned P @ [msg]\<rparr>"

text \<open>
  The loop over the steps, which sees steps registered while it runs: the one at an index, or, past the
  last, the watchdog is cleared and the process ends.
\<close>

definition next_step :: "int \<Rightarrow> nat \<Rightarrow> lifecycle \<Rightarrow> lifecycle" where
  "next_step code i P = (if i < length (lc_steps P) then P\<lparr>lc_running := Some (code, i)\<rparr>
     else P\<lparr>lc_running := None, lc_deadline := None, lc_exited := Some code\<rparr>)"

definition shutdown :: "int \<Rightarrow> int \<Rightarrow> lifecycle \<Rightarrow> lifecycle" where
  "shutdown code deadlineMs P = (if lc_shuttingDown P
     then (lc_warn ''second signal'' P)\<lparr>lc_exited := Some code\<rparr>
     else next_step code 0 (P\<lparr>lc_shuttingDown := True, lc_deadline := Some (code, lc_clock P + deadlineMs)\<rparr>))"

definition fatal :: "fatal_kind \<Rightarrow> string \<Rightarrow> int \<Rightarrow> lifecycle \<Rightarrow> lifecycle" where
  "fatal kind err deadlineMs P = shutdown 1 deadlineMs (lc_warn (''FATAL ('' @ (case kind of
     UnhandledRejection \<Rightarrow> ''unhandledRejection'' | UncaughtException \<Rightarrow> ''uncaughtException'') @ '') '' @ err) P)"

definition step_settles :: "string option \<Rightarrow> lifecycle \<Rightarrow> lifecycle" where
  "step_settles failure P = (case lc_running P of
      Some (code, i) \<Rightarrow> (let name = lc_steps P ! i; P' = P\<lparr>lc_ran := lc_ran P @ [name]\<rparr> in
        next_step code (Suc i) (case failure of None \<Rightarrow> P'
          | Some err \<Rightarrow> lc_warn (''shutdown step '' @ name @ '' failed: '' @ err) P'))
    | None \<Rightarrow> P)"

text \<open>The watchdog, armed with the code of the call that started the wind-down.\<close>

definition watchdog :: "lifecycle \<Rightarrow> lifecycle" where
  "watchdog P = (case lc_deadline P of
      Some (code, at_ms) \<Rightarrow> if at_ms \<le> lc_clock P then (lc_warn ''shutdown exceeded'' P)\<lparr>lc_exited := Some code\<rparr> else P
    | None \<Rightarrow> P)"

datatype lc_event = Register string | Signal | Fatal fatal_kind string | Settles "string option" | Passes int | Watchdog

definition lc_handle :: "int \<Rightarrow> lc_event \<Rightarrow> lifecycle \<Rightarrow> lifecycle" where
  "lc_handle deadlineMs e P = (if lc_exited P \<noteq> None then P else (case e of
      Register name \<Rightarrow> onShutdown name P
    | Signal \<Rightarrow> shutdown 0 deadlineMs P
    | Fatal kind err \<Rightarrow> fatal kind err deadlineMs P
    | Settles failure \<Rightarrow> step_settles failure P
    | Passes ms \<Rightarrow> P\<lparr>lc_clock := lc_clock P + \<bar>ms\<bar>\<rparr>
    | Watchdog \<Rightarrow> watchdog P))"

definition lc_run :: "int \<Rightarrow> lc_event list \<Rightarrow> lifecycle \<Rightarrow> lifecycle" where
  "lc_run deadlineMs es P = fold (lc_handle deadlineMs) es P"

subsection \<open>What every history keeps\<close>

text \<open>
  The steps that ran are the first registered ones, in order, and the one under way is the next; while
  the wind-down runs its watchdog is armed, with the same code.
\<close>

definition lc_inv :: "lifecycle \<Rightarrow> bool" where
  "lc_inv P \<longleftrightarrow> take (length (lc_ran P)) (lc_steps P) = lc_ran P \<and>
     (\<forall>code i. lc_running P = Some (code, i) \<longrightarrow> i = length (lc_ran P) \<and> i < length (lc_steps P)) \<and>
     (lc_shuttingDown P \<and> lc_exited P = None \<longrightarrow>
        (\<exists>code i t. lc_running P = Some (code, i) \<and> lc_deadline P = Some (code, t))) \<and>
     (\<not> lc_shuttingDown P \<longrightarrow> lc_running P = None \<and> lc_deadline P = None \<and> lc_exited P = None \<and> lc_ran P = [])"

named_theorems lc_defs \<open>the handlers of the process\<close>

lemmas [lc_defs] = lc_handle_def onShutdown_def shutdown_def fatal_def step_settles_def watchdog_def next_step_def lc_warn_def Let_def

lemma take_snoc: "take (length xs) ys = xs \<Longrightarrow> length xs < length ys \<Longrightarrow>
    take (Suc (length xs)) ys = xs @ [ys ! length xs]"
  by (simp add: take_Suc_conv_app_nth)

lemma take_longer: "take (length xs) ys = xs \<Longrightarrow> take (length xs) (ys @ zs) = xs"
proof -
  assume a: "take (length xs) ys = xs"
  have "length xs \<le> length ys" using arg_cong [OF a, of length] by simp
  then show ?thesis using a by simp
qed

lemma lc_inv_step: "lc_inv P \<Longrightarrow> lc_inv (lc_handle d e P)"
proof -
  assume inv: "lc_inv P"
  show "lc_inv (lc_handle d e P)"
  proof (cases "lc_exited P")
    case None
    show ?thesis
    proof (cases e)
      case (Settles failure)
      show ?thesis
      proof (cases "lc_running P")
        case (Some ci)
        obtain code i where ci: "ci = (code, i)" by (cases ci)
        with Some inv have i: "i = length (lc_ran P)" "i < length (lc_steps P)" "take (length (lc_ran P)) (lc_steps P) = lc_ran P" "lc_shuttingDown P"
          by (auto simp: lc_inv_def)
        have "take (Suc i) (lc_steps P) = lc_ran P @ [lc_steps P ! i]" using i take_snoc [of "lc_ran P" "lc_steps P"] by simp
        moreover obtain t where "lc_deadline P = Some (code, t)" using inv None i(4) Some ci by (auto simp: lc_inv_def)
        ultimately show ?thesis using inv None Settles Some ci i
          by (auto simp: lc_inv_def lc_defs split: option.split)
      qed (use inv None Settles in \<open>simp add: lc_defs\<close>)
    next
      case (Register name)
      with inv None show ?thesis using take_longer [of "lc_ran P" "lc_steps P" "[name]"]
        by (auto simp: lc_inv_def lc_handle_def onShutdown_def)
    qed (use inv None in \<open>auto simp: lc_inv_def lc_defs split: option.split\<close>)
  qed (use inv in \<open>simp add: lc_handle_def\<close>)
qed

lemma lc_inv_run: "lc_inv P \<Longrightarrow> lc_inv (lc_run d es P)"
  unfolding lc_run_def by (induction es arbitrary: P) (simp_all add: lc_inv_step)

lemma lc_inv_fresh: "lc_inv fresh_process"
  by (simp add: lc_inv_def fresh_process_def)

text \<open>Every code in the machine was brought by a call of \<open>shutdown\<close>.\<close>

definition codes_in :: "int set \<Rightarrow> lifecycle \<Rightarrow> bool" where
  "codes_in C P \<longleftrightarrow> (\<forall>c. lc_exited P = Some c \<longrightarrow> c \<in> C) \<and> (\<forall>c i. lc_running P = Some (c, i) \<longrightarrow> c \<in> C) \<and>
     (\<forall>c t. lc_deadline P = Some (c, t) \<longrightarrow> c \<in> C)"

fun brings :: "lc_event \<Rightarrow> int set" where
  "brings Signal = {0}"
| "brings (Fatal k e) = {1}"
| "brings _ = {}"

lemma codes_in_step: "codes_in C P \<Longrightarrow> brings e \<subseteq> C \<Longrightarrow> codes_in C (lc_handle d e P)"
  by (cases e) (auto simp: codes_in_def lc_defs split: option.split)

lemma codes_in_run: "codes_in C P \<Longrightarrow> (\<And>e. e \<in> set es \<Longrightarrow> brings e \<subseteq> C) \<Longrightarrow> codes_in C (lc_run d es P)"
  unfolding lc_run_def by (induction es arbitrary: P) (simp_all add: codes_in_step)

lemma deadline_step:
  "(\<And>c t. lc_deadline P = Some (c, t) \<Longrightarrow> t \<le> lc_clock P + d) \<Longrightarrow>
   lc_deadline (lc_handle d e P) = Some (c, t) \<Longrightarrow> t \<le> lc_clock (lc_handle d e P) + d"
  by (cases e) (force simp: lc_defs split: option.splits if_splits prod.splits)+

lemma deadline_run: "(\<And>c t. lc_deadline P = Some (c, t) \<Longrightarrow> t \<le> lc_clock P + d) \<Longrightarrow>
    lc_deadline (lc_run d es P) = Some (c, t) \<Longrightarrow> t \<le> lc_clock (lc_run d es P) + d"
  unfolding lc_run_def
proof (induction es arbitrary: P)
  case (Cons e es)
  have "t' \<le> lc_clock (lc_handle d e P) + d" if "lc_deadline (lc_handle d e P) = Some (c', t')" for c' t'
    by (rule deadline_step [OF Cons.prems(1) that])
  from Cons.IH [OF this] Cons.prems(2) show ?case by simp
qed simp

lemma watchdog_ends:
  assumes "lc_inv P" "\<And>c t. lc_deadline P = Some (c, t) \<Longrightarrow> t \<le> lc_clock P + d" "lc_shuttingDown P"
  shows "lc_exited (lc_run d [Passes d, Watchdog] P) \<noteq> None"
proof (cases "lc_exited P")
  case None
  then obtain c t where "lc_deadline P = Some (c, t)" using assms(1,3) by (auto simp: lc_inv_def)
  moreover from this assms(2) have "t \<le> lc_clock P + \<bar>d\<bar>" by fastforce
  ultimately show ?thesis using None by (simp add: lc_run_def lc_handle_def watchdog_def lc_warn_def)
qed (simp add: lc_run_def lc_handle_def)

subsection \<open>Properties\<close>



text \<open>
  A signal that arrives while a crash is still winding down ends the process with code 0: a second call
  of \<open>shutdown\<close> leaves with its own code and not with the one of the wind-down it cuts short, so a
  supervisor that restarts on failure reads the crash as a clean stop.
\<close>

theorem signal_hides_a_crash:
  "lc_exited (lc_run d [Register name, Fatal kind err, Signal] fresh_process) = Some 0"
  by (simp add: lc_run_def fresh_process_def lc_defs)

end
