(* ===== verification/Usage_Pipeline.thy ===== *)
theory Usage_Pipeline
  imports Prelude "HOL-Library.Sublist"
begin

text \<open>
  \<open>src/services/usagePipeline.ts\<close>: usage events on their way to the database. A flush is two steps, the one
  that takes the buffer and the one in which its insert settles; emits come in between. \<open>drain\<close> is the
  loop of the shutdown: each turn starts a flush and, if one started, waits for it. The interval timer is
  on or off and its firing is a flush.
\<close>

record 'e pipeline =
  up_buffer :: "'e list"
  up_timer :: bool
  up_flushing :: "'e list option"
  up_dropped :: nat

record pipeline_config =
  pc_maxBatch :: nat
  pc_cap :: nat
  pc_autoStart :: bool

definition new_pipeline :: "'e pipeline" where
  "new_pipeline = \<lparr>up_buffer = [], up_timer = False, up_flushing = None, up_dropped = 0\<rparr>"

definition start_timer :: "'e pipeline \<Rightarrow> 'e pipeline" where
  "start_timer P = P\<lparr>up_timer := True\<rparr>"

definition stop_timer :: "'e pipeline \<Rightarrow> 'e pipeline" where
  "stop_timer P = P\<lparr>up_timer := False\<rparr>"

text \<open>\<open>flush\<close> up to its await; whether an insert is under way for it.\<close>

definition flush_start :: "'e pipeline \<Rightarrow> bool \<times> 'e pipeline" where
  "flush_start P = (if up_flushing P \<noteq> None \<or> up_buffer P = [] then (False, P)
     else (True, P\<lparr>up_flushing := Some (up_buffer P), up_buffer := []\<rparr>))"

text \<open>The rest of \<open>flush\<close>: what it answers, and the rows the database has taken.\<close>

definition flush_end :: "pipeline_config \<Rightarrow> bool \<Rightarrow> 'e pipeline \<Rightarrow> nat \<times> 'e list \<times> 'e pipeline" where
  "flush_end cfg ok P = (case up_flushing P of
      None \<Rightarrow> (0, [], P)
    | Some batch \<Rightarrow> if ok then (length batch, batch, P\<lparr>up_flushing := None\<rparr>)
        else (0, [], P\<lparr>up_buffer := take (pc_cap cfg) (batch @ up_buffer P), up_flushing := None\<rparr>))"

definition emit :: "pipeline_config \<Rightarrow> 'e \<Rightarrow> 'e pipeline \<Rightarrow> 'e pipeline" where
  "emit cfg e P = (if pc_cap cfg \<le> length (up_buffer P) then P\<lparr>up_dropped := Suc (up_dropped P)\<rparr>
     else let P1 = P\<lparr>up_buffer := up_buffer P @ [e]\<rparr>; P2 = (if pc_autoStart cfg then start_timer P1 else P1) in
       if pc_maxBatch cfg \<le> length (up_buffer P2) then snd (flush_start P2) else P2)"

text \<open>
  \<open>drain\<close>, with the outcomes of the inserts it waits for; nothing is emitted while it runs. The rows
  written, and the pipeline when the loop ends.
\<close>

fun drain_loop :: "pipeline_config \<Rightarrow> nat \<Rightarrow> bool list \<Rightarrow> 'e pipeline \<Rightarrow> 'e list \<times> 'e pipeline" where
  "drain_loop cfg 0 oks P = ([], P)"
| "drain_loop cfg (Suc guard) oks P = (if up_buffer P = [] then ([], P) else
     (case flush_start P of
        (False, P') \<Rightarrow> ([], P')
      | (True, P') \<Rightarrow> (case flush_end cfg (case oks of [] \<Rightarrow> True | ok # _ \<Rightarrow> ok) P' of
           (n, rows, P'') \<Rightarrow> if n = 0 then (rows, P'')
             else (case drain_loop cfg guard (tl oks) P'' of (rows', Q) \<Rightarrow> (rows @ rows', Q)))))"

definition DRAIN_TURNS :: nat where "DRAIN_TURNS = 100"

definition drain :: "pipeline_config \<Rightarrow> bool list \<Rightarrow> 'e pipeline \<Rightarrow> 'e list \<times> 'e pipeline" where
  "drain cfg oks P = drain_loop cfg DRAIN_TURNS oks (stop_timer P)"

subsection \<open>Histories\<close>

datatype 'e usage_event = Emit 'e | Flush | Settle bool

text \<open>The rows written so far, and the pipeline.\<close>

definition usage_step :: "pipeline_config \<Rightarrow> 'e usage_event \<Rightarrow> 'e list \<times> 'e pipeline \<Rightarrow> 'e list \<times> 'e pipeline" where
  "usage_step cfg ev WP = (case WP of (W, P) \<Rightarrow> (case ev of
      Emit e \<Rightarrow> (W, emit cfg e P)
    | Flush \<Rightarrow> (W, snd (flush_start P))
    | Settle ok \<Rightarrow> (case flush_end cfg ok P of (n, rows, P') \<Rightarrow> (W @ rows, P'))))"

definition usage_run :: "pipeline_config \<Rightarrow> 'e usage_event list \<Rightarrow> 'e list \<times> 'e pipeline" where
  "usage_run cfg evs = fold (usage_step cfg) evs ([], new_pipeline)"

fun emitted :: "'e usage_event list \<Rightarrow> 'e list" where
  "emitted [] = []"
| "emitted (Emit e # evs) = e # emitted evs"
| "emitted (_ # evs) = emitted evs"

definition in_flight :: "'e pipeline \<Rightarrow> 'e list" where
  "in_flight P = option_or (up_flushing P) []"

subsection \<open>What every history keeps\<close>

named_theorems up_defs \<open>the operations of the pipeline\<close>

lemmas [up_defs] = usage_step_def emit_def flush_start_def flush_end_def start_timer_def stop_timer_def in_flight_def option_or_def Let_def

definition queued :: "'e list \<times> 'e pipeline \<Rightarrow> 'e list" where
  "queued WP = fst WP @ in_flight (snd WP) @ up_buffer (snd WP)"

lemma emit_queued: "queued (W, emit cfg e P) = queued (W, P) \<or>
    queued (W, emit cfg e P) = queued (W, P) @ [e]"
  by (auto simp: queued_def up_defs split: option.splits)

lemma step_subseq:
  assumes "subseq (queued WP) xs"
  shows "subseq (queued (usage_step cfg ev WP)) (xs @ emitted [ev])"
proof (cases ev)
  case (Emit e)
  obtain W P where WP: "WP = (W, P)" by (cases WP)
  have "subseq (queued WP @ [e]) (xs @ [e])" "subseq (queued WP) (xs @ [e])"
    using assms by (auto intro: subseq_append' list_emb_append_mono subseq_order.trans)
  then show ?thesis using emit_queued [of W cfg e P] by (auto simp: Emit WP usage_step_def)
next
  case Flush
  have "queued (usage_step cfg Flush WP) = queued WP"
    by (cases WP) (auto simp: queued_def up_defs split: option.splits)
  then show ?thesis using assms by (simp add: Flush)
next
  case (Settle ok)
  have "subseq (queued (usage_step cfg (Settle ok) WP)) (queued WP)"
  proof (cases "up_flushing (snd WP)")
    case (Some batch)
    have "subseq (take n zs) zs" for n and zs :: "'a list" by (metis append_take_drop_id subseq_rev_drop_many subseq_order.refl)
    with Some show ?thesis by (cases WP) (auto simp: queued_def up_defs intro!: list_emb_append_mono)
  qed (cases WP, simp add: queued_def up_defs)
  with assms show ?thesis by (auto simp: Settle intro: subseq_order.trans)
qed

lemma emitted_append: "emitted (xs @ ys) = emitted xs @ emitted ys"
  by (induction xs rule: emitted.induct) auto

lemma usage_run_snoc: "usage_run cfg (evs @ [ev]) = usage_step cfg ev (usage_run cfg evs)"
  by (simp add: usage_run_def)

lemma run_subseq: "subseq (queued (usage_run cfg evs)) (emitted evs)"
proof (induction evs rule: rev_induct)
  case (snoc ev evs)
  from step_subseq [OF snoc, of cfg ev] show ?case by (simp add: usage_run_snoc emitted_append)
qed (simp add: usage_run_def queued_def in_flight_def new_pipeline_def option_or_def)

definition up_bounded :: "pipeline_config \<Rightarrow> 'e pipeline \<Rightarrow> bool" where
  "up_bounded cfg P \<longleftrightarrow> length (up_buffer P) \<le> pc_cap cfg \<and> length (in_flight P) \<le> pc_cap cfg"

lemma step_bounded: "up_bounded cfg (snd WP) \<Longrightarrow> up_bounded cfg (snd (usage_step cfg ev WP))"
  by (cases WP; cases ev) (auto simp: up_bounded_def up_defs split: option.splits)

lemma run_bounded: "up_bounded cfg (snd (usage_run cfg evs))"
  by (induction evs rule: rev_induct)
    (simp_all add: usage_run_snoc step_bounded, simp add: usage_run_def up_bounded_def new_pipeline_def in_flight_def option_or_def)

text \<open>While no insert fails, everything emitted is written, on its way, buffered or counted as dropped.\<close>

lemma step_counted: "ev \<noteq> Settle False \<Longrightarrow>
    length (queued (usage_step cfg ev WP)) + up_dropped (snd (usage_step cfg ev WP)) =
    length (queued WP) + up_dropped (snd WP) + length (emitted [ev])"
  by (cases WP; cases ev) (auto simp: queued_def up_defs split: option.splits)

lemma run_counted: "Settle False \<notin> set evs \<Longrightarrow>
    length (queued (usage_run cfg evs)) + up_dropped (snd (usage_run cfg evs)) = length (emitted evs)"
proof (induction evs rule: rev_induct)
  case (snoc ev evs)
  then have "ev \<noteq> Settle False" by auto
  from step_counted [OF this, of cfg "usage_run cfg evs"] snoc show ?case by (simp add: usage_run_snoc emitted_append)
qed (simp add: usage_run_def queued_def in_flight_def new_pipeline_def option_or_def)

lemma drain_flushing: "up_flushing P \<noteq> None \<Longrightarrow> drain_loop cfg n oks P = ([], P)"
  by (cases n) (auto simp: flush_start_def)

subsection \<open>Properties\<close>

text \<open>
  C35. For every history of emits, flushes and inserts that succeed or fail: the rows written, those on
  their way and those buffered are, in this order, a subsequence of what was emitted, so no event is
  written twice, invented or overtaken; the buffer and the batch on its way never exceed the cap; and as
  long as no insert failed every event is accounted for, the shed ones in the counter.
\<close>

theorem usage_events_accounted:
  "subseq (fst (usage_run cfg evs) @ in_flight (snd (usage_run cfg evs)) @ up_buffer (snd (usage_run cfg evs))) (emitted evs) \<and>
   length (up_buffer (snd (usage_run cfg evs))) \<le> pc_cap cfg \<and> length (in_flight (snd (usage_run cfg evs))) \<le> pc_cap cfg \<and>
   (Settle False \<in> set evs \<or>
    length (fst (usage_run cfg evs)) + length (in_flight (snd (usage_run cfg evs))) + length (up_buffer (snd (usage_run cfg evs))) +
      up_dropped (snd (usage_run cfg evs)) = length (emitted evs))"
  using run_subseq [of cfg evs] run_bounded [of cfg evs] run_counted [of evs cfg]
  by (cases "Settle False \<in> set evs") (simp_all add: queued_def up_bounded_def)

text \<open>
  Draining at shutdown, with inserts that succeed, writes the whole buffer unless a flush is already
  on its way: then the loop takes that flush's refusal for a lack of progress and ends at once, with the
  buffered events unwritten and the insert not awaited.
\<close>

theorem drain_stops_at_a_running_flush:
  "drain cfg [] P = (if up_flushing P = None then (up_buffer P, P\<lparr>up_buffer := [], up_timer := False\<rparr>)
     else ([], P\<lparr>up_timer := False\<rparr>))"
proof (cases "up_flushing P = None")
  case True
  have "drain_loop cfg (Suc n) [] Q = (up_buffer Q, Q\<lparr>up_buffer := []\<rparr>)" if "up_flushing Q = None" for n and Q :: "'a pipeline"
    using that by (cases n; cases Q) (auto simp: flush_start_def flush_end_def)
  from this [of "stop_timer P" 99] True show ?thesis by (simp add: drain_def DRAIN_TURNS_def stop_timer_def eval_nat_numeral)
next
  case False
  then have "up_flushing (stop_timer P) \<noteq> None" by (simp add: stop_timer_def)
  from drain_flushing [OF this] False show ?thesis by (auto simp: drain_def stop_timer_def)
qed

text \<open>
  A batch that fails while the buffer fills up again pushes the newer events out without counting
  them: with room for one event, the second of two is gone and the counter still says none was dropped.
\<close>

theorem requeue_loses_uncounted:
  "usage_run \<lparr>pc_maxBatch = 10, pc_cap = 1, pc_autoStart = True\<rparr> [Emit a, Flush, Emit b, Settle False] =
     ([], \<lparr>up_buffer = [a], up_timer = True, up_flushing = None, up_dropped = 0\<rparr>)"
  by (simp add: usage_run_def new_pipeline_def up_defs)

end
