(* ===== verification/Bpe_Table.thy ===== *)
theory Bpe_Table
  imports Prelude "HOL-Library.Word"
begin

unbundle bit_operations_syntax

text \<open>
  The pair table of \<open>src/lib/bpeCount.ts\<close>: for every two tokens whose bytes join into a token, the rank of
  that token, in three arrays with open addressing. A probe goes on until it meets the pair or a free
  slot, so it may go on for ever in a full table: its value is then \<open>None\<close>. The rank file is an argument,
  the tokens' bytes and ranks in the order of the map that holds them.
\<close>

type_synonym rank_map = "(string \<times> nat) list"

definition RANK_NONE :: nat where "RANK_NONE = 0x7fffffff"

record pair_table =
  pt_left :: "int list"
  pt_right :: "nat list"
  pt_joined :: "nat list"
  pt_mask :: nat
  pt_shift :: nat

definition pairSlot :: "pair_table \<Rightarrow> nat \<Rightarrow> nat \<Rightarrow> nat" where
  "pairSlot t left right = unat (drop_bit (pt_shift t)
     ((word_of_nat left * 0x9e3779b1 XOR word_of_nat right) * 0x85ebca6b :: 32 word))"

partial_function (option) joined_from :: "pair_table \<Rightarrow> nat \<Rightarrow> nat \<Rightarrow> nat \<Rightarrow> nat option" where
  "joined_from t left right i =
     (if pt_left t ! i = int left \<and> pt_right t ! i = right then Some (pt_joined t ! i)
      else if pt_left t ! i = -1 then Some RANK_NONE
      else joined_from t left right ((i + 1) AND pt_mask t))"

definition joined :: "pair_table \<Rightarrow> nat \<Rightarrow> nat \<Rightarrow> nat option" where
  "joined t left right = joined_from t left right (pairSlot t left right)"

text \<open>\<open>buildPairs\<close>: the pairs, the size of the arrays, and the entries put where the probe finds room.\<close>

definition pair_entries :: "rank_map \<Rightarrow> ((nat \<times> nat) \<times> nat) list" where
  "pair_entries ranks = concat (map (\<lambda>(bytes, rank). concat (map (\<lambda>k.
     (case (map_of ranks (take k bytes), map_of ranks (drop k bytes)) of
        (Some a, Some b) \<Rightarrow> [((a, b), rank)] | _ \<Rightarrow> [])) [1..<length bytes])) ranks)"

function table_bits :: "nat \<Rightarrow> nat \<Rightarrow> nat" where
  "table_bits n bits = (if 10 * 2 ^ bits < 16 * n then table_bits n (Suc bits) else bits)"
  by auto
termination
  by (relation "measure (\<lambda>(n, bits). 16 * n - 10 * 2 ^ bits)")
    (auto intro: diff_less_mono2)

declare table_bits.simps [simp del]

definition empty_table :: "nat \<Rightarrow> pair_table" where
  "empty_table bits = \<lparr>pt_left = replicate (2 ^ bits) (-1), pt_right = replicate (2 ^ bits) 0,
     pt_joined = replicate (2 ^ bits) 0, pt_mask = 2 ^ bits - 1, pt_shift = 32 - bits\<rparr>"

partial_function (option) free_slot :: "pair_table \<Rightarrow> nat \<Rightarrow> nat option" where
  "free_slot t i = (if pt_left t ! i \<noteq> -1 then free_slot t ((i + 1) AND pt_mask t) else Some i)"

definition put_pair :: "(nat \<times> nat) \<times> nat \<Rightarrow> pair_table \<Rightarrow> pair_table option" where
  "put_pair e t = (case e of ((a, b), r) \<Rightarrow> (case free_slot t (pairSlot t a b) of
      None \<Rightarrow> None
    | Some i \<Rightarrow> Some (t\<lparr>pt_left := (pt_left t)[i := int a], pt_right := (pt_right t)[i := b],
        pt_joined := (pt_joined t)[i := r]\<rparr>)))"

fun put_pairs :: "((nat \<times> nat) \<times> nat) list \<Rightarrow> pair_table \<Rightarrow> pair_table option" where
  "put_pairs [] t = Some t"
| "put_pairs (e # es) t = Option.bind (put_pair e t) (put_pairs es)"

definition buildPairs :: "rank_map \<Rightarrow> pair_table option" where
  "buildPairs ranks = (let es = pair_entries ranks in put_pairs es (empty_table (table_bits (length es) 1)))"

subsection \<open>Probing\<close>

text \<open>The slots a pair's probe visits, the table's size being \<open>N = 2 ^ bits\<close>.\<close>

definition table_of :: "nat \<Rightarrow> pair_table \<Rightarrow> bool" where
  "table_of bits t \<longleftrightarrow> 0 < bits \<and> bits \<le> 32 \<and> length (pt_left t) = 2 ^ bits \<and> length (pt_right t) = 2 ^ bits \<and>
     length (pt_joined t) = 2 ^ bits \<and> pt_mask t = 2 ^ bits - 1 \<and> pt_shift t = 32 - bits"

lemma next_slot: "table_of bits t \<Longrightarrow> (i + 1) AND pt_mask t = (i + 1) mod 2 ^ bits"
  by (simp only: table_of_def flip: take_bit_eq_mod mask_eq_exp_minus_1) (simp add: take_bit_eq_mask)

lemma pairSlot_less: "table_of bits t \<Longrightarrow> pairSlot t a b < 2 ^ bits"
proof -
  assume t: "table_of bits t"
  have "unat (drop_bit (32 - bits) w) < 2 ^ bits" for w :: "32 word"
  proof -
    have "unat w < 2 ^ (32 - bits) * 2 ^ bits" using t unsigned_less [of w] by (simp add: table_of_def flip: power_add)
    then show ?thesis unfolding unat_drop_bit_eq by (simp add: less_mult_imp_div_less mult.commute drop_bit_eq_div)
  qed
  then show ?thesis using t by (simp add: pairSlot_def table_of_def)
qed

definition visit :: "nat \<Rightarrow> nat \<Rightarrow> nat \<Rightarrow> nat" where
  "visit bits i d = (i + d) mod 2 ^ bits"

lemma visit_less [simp]: "visit bits i d < 2 ^ bits"
  by (simp add: visit_def)

lemma visit_step: "visit bits (Suc i mod 2 ^ bits) d = visit bits i (Suc d)"
  by (simp add: visit_def mod_simps)

lemma visit_0: "i < 2 ^ bits \<Longrightarrow> visit bits i 0 = i"
  by (simp add: visit_def)

lemma visits_all: "i < 2 ^ bits \<Longrightarrow> p < 2 ^ bits \<Longrightarrow> \<exists>d < 2 ^ bits. visit bits i d = p"
proof -
  assume "i < 2 ^ bits" "p < (2 :: nat) ^ bits"
  moreover have "(i + (2 ^ bits - i + p)) mod 2 ^ bits = p" "\<not> i \<le> p \<Longrightarrow> 2 ^ bits - i + p < 2 ^ bits"
    using calculation by (simp_all add: mod_simps)
  ultimately show ?thesis
    by (cases "i \<le> p") (auto simp: visit_def intro: exI [of _ "p - i"] exI [of _ "2 ^ bits - i + p"])
qed

abbreviation slot_free :: "pair_table \<Rightarrow> nat \<Rightarrow> bool" where
  "slot_free t i \<equiv> pt_left t ! i = -1"

definition slot_holds :: "pair_table \<Rightarrow> nat \<times> nat \<Rightarrow> nat \<Rightarrow> bool" where
  "slot_holds t ab i \<longleftrightarrow> pt_left t ! i = int (fst ab) \<and> pt_right t ! i = snd ab"

lemma probe_hit:
  assumes "table_of bits t" "i < 2 ^ bits" "slot_holds t (a, b) (visit bits i d)"
    "\<And>d'. d' < d \<Longrightarrow> \<not> slot_free t (visit bits i d') \<and> \<not> slot_holds t (a, b) (visit bits i d')"
  shows "joined_from t a b i = Some (pt_joined t ! visit bits i d)"
  using assms(2-)
proof (induction d arbitrary: i)
  case 0
  then show ?case by (subst joined_from.simps) (simp add: visit_0 slot_holds_def)
next
  case (Suc d)
  from Suc.prems(3) [of 0] Suc.prems(1) have "joined_from t a b i = joined_from t a b (Suc i mod 2 ^ bits)"
    by (subst joined_from.simps) (auto simp: visit_0 slot_holds_def next_slot [OF assms(1), simplified])
  moreover have "joined_from t a b (Suc i mod 2 ^ bits) = Some (pt_joined t ! visit bits (Suc i mod 2 ^ bits) d)"
    using Suc.prems by (intro Suc.IH) (simp_all add: visit_step)
  ultimately show ?case by (simp add: visit_step)
qed

lemma probe_miss:
  assumes "table_of bits t" "i < 2 ^ bits" "slot_free t (visit bits i d)"
    "\<And>d'. d' < d \<Longrightarrow> \<not> slot_free t (visit bits i d') \<and> \<not> slot_holds t (a, b) (visit bits i d')"
  shows "joined_from t a b i = Some RANK_NONE"
  using assms(2-)
proof (induction d arbitrary: i)
  case 0
  then show ?case by (subst joined_from.simps) (simp add: visit_0 slot_holds_def)
next
  case (Suc d)
  from Suc.prems(3) [of 0] Suc.prems(1) have "joined_from t a b i = joined_from t a b (Suc i mod 2 ^ bits)"
    by (subst joined_from.simps) (auto simp: visit_0 slot_holds_def next_slot [OF assms(1), simplified])
  moreover have "joined_from t a b (Suc i mod 2 ^ bits) = Some RANK_NONE"
    using Suc.prems by (intro Suc.IH) (simp_all add: visit_step)
  ultimately show ?case by simp
qed

lemma free_slot_found:
  assumes "table_of bits t" "i < 2 ^ bits" "slot_free t (visit bits i d)" "\<And>d'. d' < d \<Longrightarrow> \<not> slot_free t (visit bits i d')"
  shows "free_slot t i = Some (visit bits i d)"
  using assms(2-)
proof (induction d arbitrary: i)
  case 0
  then show ?case by (subst free_slot.simps) (simp add: visit_0)
next
  case (Suc d)
  from Suc.prems(3) [of 0] Suc.prems(1) have "free_slot t i = free_slot t (Suc i mod 2 ^ bits)"
    by (subst free_slot.simps) (simp add: visit_0 next_slot [OF assms(1), simplified])
  moreover have "free_slot t (Suc i mod 2 ^ bits) = Some (visit bits (Suc i mod 2 ^ bits) d)"
    using Suc.prems by (intro Suc.IH) (simp_all add: visit_step)
  ultimately show ?case by (simp add: visit_step)
qed

text \<open>The first free slot on a pair's way, in a table that has one.\<close>

lemma first_free:
  assumes "i < 2 ^ bits" "p < 2 ^ bits" "slot_free t p"
  obtains d where "d < 2 ^ bits" "slot_free t (visit bits i d)" "\<And>d'. d' < d \<Longrightarrow> \<not> slot_free t (visit bits i d')"
proof -
  obtain e where e: "e < 2 ^ bits" "visit bits i e = p" using visits_all assms by blast
  let ?d = "LEAST d. slot_free t (visit bits i d)"
  have f: "slot_free t (visit bits i ?d)" by (rule LeastI [of _ e]) (simp add: e assms)
  have "?d \<le> e" by (rule Least_le) (simp add: e assms)
  then have "?d < 2 ^ bits" using e(1) by (rule le_less_trans)
  moreover have "\<not> slot_free t (visit bits i d')" if "d' < ?d" for d' using not_less_Least [OF that] .
  ultimately show ?thesis using f by (intro that)
qed

subsection \<open>Building\<close>

text \<open>
  A table that holds the entries \<open>es\<close>: every stored pair is one of theirs, every one of them is met by
  its probe before a free slot, with the value of its first entry, and the other slots are free.
\<close>

definition table_ok :: "nat \<Rightarrow> ((nat \<times> nat) \<times> nat) list \<Rightarrow> pair_table \<Rightarrow> bool" where
  "table_ok bits es t \<longleftrightarrow> table_of bits t \<and>
     (\<forall>i < 2 ^ bits. slot_free t i \<or> (\<exists>ab \<in> fst ` set es. slot_holds t ab i)) \<and>
     (\<forall>a b r. map_of es (a, b) = Some r \<longrightarrow> (\<exists>d. slot_holds t (a, b) (visit bits (pairSlot t a b) d) \<and>
        pt_joined t ! visit bits (pairSlot t a b) d = r \<and>
        (\<forall>d' < d. \<not> slot_free t (visit bits (pairSlot t a b) d') \<and> \<not> slot_holds t (a, b) (visit bits (pairSlot t a b) d')))) \<and>
     2 ^ bits \<le> card {i. i < 2 ^ bits \<and> slot_free t i} + length es"

lemma slot_holds_free: "slot_holds t ab i \<Longrightarrow> \<not> slot_free t i"
  by (auto simp: slot_holds_def)

lemma slot_holds_same: "slot_holds t ab i \<Longrightarrow> slot_holds t cd i \<Longrightarrow> ab = cd"
  by (auto simp: slot_holds_def prod_eq_iff)

lemma has_free: "table_ok bits es t \<Longrightarrow> length es < 2 ^ bits \<Longrightarrow> \<exists>p < 2 ^ bits. slot_free t p"
proof (rule ccontr)
  assume t: "table_ok bits es t" "length es < 2 ^ bits" and n: "\<not> (\<exists>p < 2 ^ bits. slot_free t p)"
  then have "{i. i < 2 ^ bits \<and> slot_free t i} = {}" by auto
  with t show False by (simp add: table_ok_def)
qed

lemma lookup_ok:
  assumes t: "table_ok bits es t" "length es < 2 ^ bits"
  shows "joined t a b = Some (option_or (map_of es (a, b)) RANK_NONE)"
proof (cases "map_of es (a, b)")
  case (Some r)
  with t obtain d where "slot_holds t (a, b) (visit bits (pairSlot t a b) d)" "pt_joined t ! visit bits (pairSlot t a b) d = r"
    "\<forall>d' < d. \<not> slot_free t (visit bits (pairSlot t a b) d') \<and> \<not> slot_holds t (a, b) (visit bits (pairSlot t a b) d')"
    unfolding table_ok_def by blast
  with probe_hit [of bits t "pairSlot t a b" a b d] pairSlot_less [of bits t a b] t Some show ?thesis
    by (simp add: joined_def table_ok_def)
next
  case None
  have s: "pairSlot t a b < 2 ^ bits" using t pairSlot_less by (simp add: table_ok_def)
  from has_free [OF t] obtain p where p: "p < 2 ^ bits" "slot_free t p" by blast
  obtain d where d: "d < 2 ^ bits" "slot_free t (visit bits (pairSlot t a b) d)"
    "\<And>d'. d' < d \<Longrightarrow> \<not> slot_free t (visit bits (pairSlot t a b) d')"
    by (rule first_free [OF s p]) blast
  have "\<not> slot_holds t (a, b) i" if "i < 2 ^ bits" for i
  proof
    assume h: "slot_holds t (a, b) i"
    with that t slot_holds_free obtain ab where "ab \<in> fst ` set es" "slot_holds t ab i" unfolding table_ok_def by blast
    with slot_holds_same [OF h] have "(a, b) \<in> fst ` set es" by auto
    with None show False by (simp add: map_of_eq_None_iff)
  qed
  with probe_miss [of bits t "pairSlot t a b" d a b] d s t None show ?thesis
    by (simp add: joined_def table_ok_def)
qed

lemma stored_known: "table_ok bits es t \<Longrightarrow> i < 2 ^ bits \<Longrightarrow> slot_holds t ab i \<Longrightarrow> map_of es ab \<noteq> None"
proof -
  assume t: "table_ok bits es t" and i: "i < 2 ^ bits" "slot_holds t ab i"
  then obtain cd where "cd \<in> fst ` set es" "slot_holds t cd i" using slot_holds_free unfolding table_ok_def by blast
  with slot_holds_same [OF i(2)] show "map_of es ab \<noteq> None" by (simp add: map_of_eq_None_iff)
qed

lemma pairSlot_update [simp]: "pairSlot (t\<lparr>pt_left := l, pt_right := r, pt_joined := j\<rparr>) a b = pairSlot t a b"
  by (simp add: pairSlot_def)

lemma put_pair_ok:
  assumes t: "table_ok bits es t" "length es < 2 ^ bits"
  shows "\<exists>t'. put_pair ((a, b), r) t = Some t' \<and> table_ok bits (es @ [((a, b), r)]) t'"
proof -
  have tb: "table_of bits t" using t by (simp add: table_ok_def)
  note s = pairSlot_less [OF tb, of a b]
  from has_free [OF t] obtain q where q: "q < 2 ^ bits" "slot_free t q" by blast
  obtain d where d: "slot_free t (visit bits (pairSlot t a b) d)" "\<And>d'. d' < d \<Longrightarrow> \<not> slot_free t (visit bits (pairSlot t a b) d')"
    by (rule first_free [OF s q]) blast
  define p where "p = visit bits (pairSlot t a b) d"
  define t' where "t' = t\<lparr>pt_left := (pt_left t)[p := int a], pt_right := (pt_right t)[p := b], pt_joined := (pt_joined t)[p := r]\<rparr>"
  have put: "put_pair ((a, b), r) t = Some t'"
    using free_slot_found [OF tb s d] by (simp add: put_pair_def t'_def p_def)
  have at_p: "slot_holds t' (a, b) p" "pt_joined t' ! p = r"
    using tb by (simp_all add: t'_def slot_holds_def table_of_def p_def)
  have off_p: "pt_left t' ! i = pt_left t ! i" "slot_holds t' ab i = slot_holds t ab i" "pt_joined t' ! i = pt_joined t ! i" if "i \<noteq> p" for i ab
    using that by (simp_all add: t'_def slot_holds_def)
  have busy: "\<not> slot_free t i \<Longrightarrow> i \<noteq> p" for i using d(1) by (auto simp: p_def)
  have slots: "pairSlot t' x y = pairSlot t x y" for x y by (simp add: t'_def)
  let ?v = "\<lambda>x y. visit bits (pairSlot t x y)"
  have met: "\<exists>e. slot_holds t' (x, y) (?v x y e) \<and> pt_joined t' ! ?v x y e = v \<and>
      (\<forall>d' < e. \<not> slot_free t' (?v x y d') \<and> \<not> slot_holds t' (x, y) (?v x y d'))"
    if m: "map_of (es @ [((a, b), r)]) (x, y) = Some v" for x y v
  proof (cases "map_of es (x, y)")
    case (Some w)
    with m have "w = v" by simp
    with Some t obtain e where "slot_holds t (x, y) (?v x y e)" "pt_joined t ! ?v x y e = v"
      "\<forall>d' < e. \<not> slot_free t (?v x y d') \<and> \<not> slot_holds t (x, y) (?v x y d')" unfolding table_ok_def by blast
    then show ?thesis using off_p busy slot_holds_free by (intro exI [of _ e]) auto
  next
    case None
    with m have xy: "x = a" "y = b" "v = r" by (simp_all add: map_add_def split: if_splits)
    have "\<not> slot_free t' (?v a b d') \<and> \<not> slot_holds t' (a, b) (?v a b d')" if "d' < d" for d'
      using d(2) [OF that] busy off_p stored_known [OF t(1) visit_less, of "(a, b)" "pairSlot t a b" d'] None xy by auto
    with at_p xy show ?thesis by (intro exI [of _ d]) (simp add: p_def)
  qed
  have fr: "slot_free t' i \<longleftrightarrow> i \<noteq> p \<and> slot_free t i" for i
    using slot_holds_free [OF at_p(1)] off_p(1) [of i] by (cases "i = p") auto
  have pf: "p < 2 ^ bits \<and> slot_free t p" using d(1) by (simp add: p_def)
  have "{i. i < 2 ^ bits \<and> slot_free t i} = insert p {i. i < 2 ^ bits \<and> slot_free t' i}"
    using pf unfolding fr by blast
  moreover have "p \<notin> {i. i < 2 ^ bits \<and> slot_free t' i}" unfolding fr by blast
  moreover have "finite {i. i < 2 ^ bits \<and> slot_free t' i}" by simp
  ultimately have "card {i. i < 2 ^ bits \<and> slot_free t i} = Suc (card {i. i < 2 ^ bits \<and> slot_free t' i})"
    by (metis card_insert_disjoint)
  then have free: "2 ^ bits \<le> card {i. i < 2 ^ bits \<and> slot_free t' i} + length (es @ [((a, b), r)])"
    using t(1) by (simp only: table_ok_def) simp
  have "table_of bits t'" using tb by (simp add: table_of_def t'_def)
  moreover have "slot_free t' i \<or> (\<exists>ab \<in> fst ` set (es @ [((a, b), r)]). slot_holds t' ab i)" if "i < 2 ^ bits" for i
    using that t(1) at_p(1) off_p by (cases "i = p") (auto simp: table_ok_def)
  ultimately have "table_ok bits (es @ [((a, b), r)]) t'"
    using met free unfolding table_ok_def slots by blast
  with put show ?thesis by blast
qed

lemma put_pairs_ok:
  "table_ok bits es t \<Longrightarrow> length es + length fs \<le> 2 ^ bits \<Longrightarrow> \<exists>t'. put_pairs fs t = Some t' \<and> table_ok bits (es @ fs) t'"
proof (induction fs arbitrary: es t)
  case (Cons f fs)
  obtain a b r where f: "f = ((a, b), r)" by (metis surj_pair)
  from put_pair_ok [of bits es t a b r] Cons.prems f obtain t1 where "put_pair f t = Some t1" "table_ok bits (es @ [f]) t1" by auto
  with Cons.IH [of "es @ [f]" t1] Cons.prems show ?case by simp
qed simp

lemma empty_table_ok: "0 < bits \<Longrightarrow> bits \<le> 32 \<Longrightarrow> table_ok bits [] (empty_table bits)"
proof -
  assume "0 < bits" "bits \<le> 32"
  moreover have "{i. i < 2 ^ bits \<and> slot_free (empty_table bits) i} = {..<2 ^ bits}" by (auto simp: empty_table_def)
  ultimately show ?thesis by (simp add: table_ok_def) (simp add: table_of_def empty_table_def)
qed

lemma table_bits_enough: "16 * n \<le> 10 * 2 ^ table_bits n bits \<and> bits \<le> table_bits n bits"
  by (induction n bits rule: table_bits.induct) (subst table_bits.simps, subst (2) table_bits.simps, fastforce)

lemma table_bits_small: "16 * n \<le> 10 * 2 ^ k \<Longrightarrow> bits \<le> k \<Longrightarrow> table_bits n bits \<le> k"
proof (induction n bits rule: table_bits.induct)
  case (1 n bits)
  show ?case
  proof (cases "10 * 2 ^ bits < 16 * n")
    case True
    with 1(2) have "bits \<noteq> k" by auto
    with 1 True show ?thesis by (subst table_bits.simps) simp
  qed (use 1 in \<open>subst table_bits.simps, simp\<close>)
qed

text \<open>The built table answers every lookup, with the first entry of the pair.\<close>

lemma buildPairs_lookup:
  assumes "length (pair_entries ranks) \<le> 2 ^ 30"
  shows "\<exists>t. buildPairs ranks = Some t \<and>
    (\<forall>a b. joined t a b = Some (option_or (map_of (pair_entries ranks) (a, b)) RANK_NONE))"
proof -
  let ?es = "pair_entries ranks"
  let ?b = "table_bits (length ?es) 1"
  have b: "16 * length ?es \<le> 10 * 2 ^ ?b" "1 \<le> ?b" "?b \<le> 32"
    using table_bits_enough [of "length ?es" 1] table_bits_small [of "length ?es" 32 1] assms by auto
  have "0 < (2 :: nat) ^ ?b" by simp
  with b(1) have l: "length ?es < 2 ^ ?b" by linarith
  with put_pairs_ok [OF empty_table_ok, of ?b ?es] b obtain t where "put_pairs ?es (empty_table ?b) = Some t" "table_ok ?b ?es t" by auto
  with lookup_ok [of ?b ?es t] l show ?thesis by (auto simp: buildPairs_def Let_def)
qed

subsection \<open>Joining tokens\<close>

text \<open>What the table needs of a rank file: ranks name tokens, no token is empty, and there are not 2^30 bytes.\<close>

definition good_ranks :: "rank_map \<Rightarrow> bool" where
  "good_ranks ranks \<longleftrightarrow> distinct (map fst ranks) \<and> distinct (map snd ranks) \<and> [] \<notin> fst ` set ranks \<and>
     sum_list (map (\<lambda>e. length (fst e)) ranks) \<le> 2 ^ 30 \<and> (\<forall>r \<in> snd ` set ranks. r < RANK_NONE)"

lemma rank_names_token: "good_ranks ranks \<Longrightarrow> map_of ranks X = Some r \<Longrightarrow> map_of ranks Y = Some r \<Longrightarrow> X = Y"
  unfolding good_ranks_def using eq_key_imp_eq_value [of "map prod.swap ranks" r]
  by (auto simp: comp_def dest!: map_of_SomeD intro: image_eqI)

lemma pair_entries_iff: "((a, b), r) \<in> set (pair_entries ranks) \<longleftrightarrow>
    (\<exists>X Y. X \<noteq> [] \<and> Y \<noteq> [] \<and> (X @ Y, r) \<in> set ranks \<and> map_of ranks X = Some a \<and> map_of ranks Y = Some b)"
proof
  assume "((a, b), r) \<in> set (pair_entries ranks)"
  then obtain bytes k where "(bytes, r) \<in> set ranks" "1 \<le> k" "k < length bytes"
    "map_of ranks (take k bytes) = Some a" "map_of ranks (drop k bytes) = Some b"
    by (auto simp: pair_entries_def split: option.splits)
  then show "\<exists>X Y. X \<noteq> [] \<and> Y \<noteq> [] \<and> (X @ Y, r) \<in> set ranks \<and> map_of ranks X = Some a \<and> map_of ranks Y = Some b"
    by (intro exI [of _ "take k bytes"] exI [of _ "drop k bytes"]) auto
next
  assume "\<exists>X Y. X \<noteq> [] \<and> Y \<noteq> [] \<and> (X @ Y, r) \<in> set ranks \<and> map_of ranks X = Some a \<and> map_of ranks Y = Some b"
  then obtain X Y where "X \<noteq> []" "Y \<noteq> []" "(X @ Y, r) \<in> set ranks" "map_of ranks X = Some a" "map_of ranks Y = Some b" by blast
  then show "((a, b), r) \<in> set (pair_entries ranks)"
    by (auto simp: pair_entries_def Suc_le_eq intro!: bexI [of _ "(X @ Y, r)"] bexI [of _ "length X"])
qed

lemma pair_entries_length: "length (pair_entries ranks) \<le> sum_list (map (\<lambda>e. length (fst e)) ranks)"
proof -
  have c: "length (concat (map f xs)) \<le> length xs" if "\<And>k. length (f k) \<le> 1" for f :: "nat \<Rightarrow> 'b list" and xs
    using sum_list_mono [of xs "\<lambda>k. length (f k)" "\<lambda>k. 1"] that
    by (simp add: length_concat comp_def sum_list_triv)
  show ?thesis
    unfolding pair_entries_def length_concat map_map comp_def
  proof (rule sum_list_mono)
    fix e assume "e \<in> set ranks"
    obtain bytes rank where e: "e = (bytes, rank)" by (cases e)
    have "length (concat (map (\<lambda>k. case (map_of ranks (take k bytes), map_of ranks (drop k bytes)) of
        (Some a, Some b) \<Rightarrow> [((a, b), rank)] | _ \<Rightarrow> []) [1..<length bytes])) \<le> length [1..<length bytes]"
      by (rule c) (simp split: option.split)
    then show "length (case e of (bytes, rank) \<Rightarrow> concat (map (\<lambda>k. case (map_of ranks (take k bytes), map_of ranks (drop k bytes)) of
        (Some a, Some b) \<Rightarrow> [((a, b), rank)] | _ \<Rightarrow> []) [1..<length bytes])) \<le> length (fst e)"
      by (simp add: e)
  qed
qed

lemma entries_lookup:
  assumes g: "good_ranks ranks" and ab: "map_of ranks A = Some a" "map_of ranks B = Some b"
  shows "map_of (pair_entries ranks) (a, b) = map_of ranks (A @ B)"
proof -
  have d: "distinct (map fst ranks)" using g by (simp add: good_ranks_def)
  have ne: "A \<noteq> []" "B \<noteq> []" using g ab by (force simp: good_ranks_def dest: map_of_SomeD)+
  have i: "((a, b), r) \<in> set (pair_entries ranks) \<longleftrightarrow> map_of ranks (A @ B) = Some r" for r
  proof
    assume "((a, b), r) \<in> set (pair_entries ranks)"
    then obtain X Y where "(X @ Y, r) \<in> set ranks" "map_of ranks X = Some a" "map_of ranks Y = Some b"
      unfolding pair_entries_iff by blast
    moreover from this rank_names_token [OF g _ ab(1)] rank_names_token [OF g _ ab(2)] have "X = A" "Y = B" by blast+
    ultimately show "map_of ranks (A @ B) = Some r" using d by simp
  next
    assume "map_of ranks (A @ B) = Some r"
    from map_of_SomeD [OF this] ab ne show "((a, b), r) \<in> set (pair_entries ranks)" unfolding pair_entries_iff by blast
  qed
  show ?thesis
  proof (cases "map_of (pair_entries ranks) (a, b)")
    case None
    then have "((a, b), r) \<notin> set (pair_entries ranks)" for r by (force simp: map_of_eq_None_iff)
    with i None show ?thesis by (metis not_Some_eq)
  qed (use i map_of_SomeD in metis)
qed

text \<open>The merge searches by ranks alone: the joined rank is the rank of the joined bytes.\<close>

lemma buildPairs_joins:
  assumes "good_ranks ranks"
  obtains t where "buildPairs ranks = Some t"
    "\<And>A B a b. map_of ranks A = Some a \<Longrightarrow> map_of ranks B = Some b \<Longrightarrow>
       joined t a b = Some (option_or (map_of ranks (A @ B)) RANK_NONE)"
    "\<And>a b. \<exists>r. joined t a b = Some r \<and> r \<le> RANK_NONE"
proof -
  have "length (pair_entries ranks) \<le> 2 ^ 30"
    using pair_entries_length [of ranks] assms by (simp add: good_ranks_def)
  from buildPairs_lookup [OF this] obtain t where t: "buildPairs ranks = Some t"
    "\<And>a b. joined t a b = Some (option_or (map_of (pair_entries ranks) (a, b)) RANK_NONE)" by blast
  have "r \<le> RANK_NONE" if "map_of (pair_entries ranks) (a, b) = Some r" for a b r
    using map_of_SomeD [OF that] assms by (force simp: pair_entries_iff good_ranks_def)
  with t entries_lookup [OF assms] show ?thesis by (intro that [OF t(1)]) (auto split: option.split simp: option_or_def)
qed

end
