(* ===== verification/Bpe_Heap.thy ===== *)
theory Bpe_Heap
  imports Prelude "HOL-Library.Multiset"
begin

text \<open>
  The min-heap of \<open>src/lib/bpeCount.ts\<close>: an array that outlives the calls and a size, with the sifting
  loops written as they are, over a hole that moves. A write past the end of the array is lost, as it
  is in a typed array.
\<close>

type_synonym heap = "nat list \<times> nat"

text \<open>\<open>push\<close>: the loop carries the hole up and writes the key where it ends.\<close>

fun push_up :: "nat \<Rightarrow> nat \<Rightarrow> nat list \<Rightarrow> nat list" where
  "push_up key i h = (if i = 0 then h[i := key]
     else let up = (i - 1) div 2 in if h ! up \<le> key then h[i := key] else push_up key up (h[i := h ! up]))"

declare push_up.simps [simp del]

definition push :: "nat \<Rightarrow> heap \<Rightarrow> heap" where
  "push key H = (case H of (h, sz) \<Rightarrow> (push_up key sz h, Suc sz))"

text \<open>\<open>pop\<close>: the hole goes down to the smaller child until the last key fits.\<close>

function sift_down :: "nat \<Rightarrow> nat \<Rightarrow> nat \<Rightarrow> nat list \<Rightarrow> nat list" where
  "sift_down lst sz i h = (if 2 * i + 1 < sz
     then let child = (if 2 * i + 2 < sz \<and> h ! (2 * i + 2) < h ! (2 * i + 1) then 2 * i + 2 else 2 * i + 1) in
       if lst \<le> h ! child then h[i := lst] else sift_down lst sz child (h[i := h ! child])
     else h[i := lst])"
  by auto
termination by (relation "measure (\<lambda>(lst, sz, i, h). sz - i)") auto

declare sift_down.simps [simp del]

definition pop :: "heap \<Rightarrow> nat \<times> heap" where
  "pop H = (case H of (h, sz) \<Rightarrow> (h ! 0, sift_down (h ! (sz - 1)) (sz - 1) 0 h, sz - 1))"

subsection \<open>The heap order\<close>

definition par :: "nat \<Rightarrow> nat" where
  "par j = (j - 1) div 2"

lemma par_child [simp]: "par (2 * i + 1) = i" "par (2 * i + 2) = i" "par (Suc (2 * i)) = i" "par (Suc (Suc (2 * i))) = i"
  by (simp_all add: par_def)

lemma par_less: "0 < j \<Longrightarrow> par j < j"
  by (simp add: par_def)

lemma par_of: "0 < j \<Longrightarrow> j = 2 * par j + 1 \<or> j = 2 * par j + 2"
  by (simp add: par_def) presburger

definition heap_order :: "nat list \<Rightarrow> nat \<Rightarrow> bool" where
  "heap_order h n \<longleftrightarrow> (\<forall>j. 0 < j \<and> j < n \<longrightarrow> h ! par j \<le> h ! j)"

lemma heap_root_least: "heap_order h n \<Longrightarrow> i < n \<Longrightarrow> h ! 0 \<le> h ! i"
proof (induction i rule: less_induct)
  case (less i)
  show ?case
  proof (cases "i = 0")
    case False
    then have "par i < i" by (simp add: par_less)
    with less have "h ! 0 \<le> h ! par i" by simp
    also have "h ! par i \<le> h ! i" using less.prems False by (simp add: heap_order_def)
    finally show ?thesis .
  qed simp
qed

text \<open>The order everywhere but above the hole, or everywhere but below it.\<close>

definition order_but_up :: "nat list \<Rightarrow> nat \<Rightarrow> nat \<Rightarrow> bool" where
  "order_but_up h n i \<longleftrightarrow> (\<forall>j. 0 < j \<and> j < n \<longrightarrow> (j \<noteq> i \<longrightarrow> h ! par j \<le> h ! j) \<and> (0 < i \<and> par j = i \<longrightarrow> h ! par i \<le> h ! j))"

definition order_but_down :: "nat list \<Rightarrow> nat \<Rightarrow> nat \<Rightarrow> bool" where
  "order_but_down h n i \<longleftrightarrow> (\<forall>j. 0 < j \<and> j < n \<longrightarrow> (par j \<noteq> i \<longrightarrow> h ! par j \<le> h ! j) \<and> (0 < i \<and> par j = i \<longrightarrow> h ! par i \<le> h ! j))"

lemma mset_take_swap:
  assumes "i < n" "k < n" "n \<le> length h"
  shows "mset (take n (h[i := h ! k, k := v])) = mset (take n (h[i := v]))"
proof (cases "i = k")
  case False
  let ?xs = "(take n h)[i := v]"
  have l: "i < length ?xs" "k < length ?xs" using assms by auto
  have "take n (h[i := h ! k, k := v]) = ?xs[i := ?xs ! k, k := ?xs ! i]"
    using assms False by (simp add: take_update_swap)
  with mset_swap [OF l(2,1)] show ?thesis by (simp add: take_update_swap)
qed simp

lemma length_push_up [simp]: "length (push_up key i h) = length h"
  by (induction key i h rule: push_up.induct) (subst push_up.simps, simp add: Let_def)

lemma length_sift_down [simp]: "length (sift_down l n i h) = length h"
  by (induction l n i h rule: sift_down.induct) (subst sift_down.simps, simp add: Let_def)

lemma push_up_heap:
  assumes "order_but_up (h[i := key]) n i" "i < n" "n \<le> length h"
  shows "heap_order (push_up key i h) n \<and> mset (take n (push_up key i h)) = mset (take n (h[i := key]))"
  using assms
proof (induction key i h rule: push_up.induct)
  case (1 key i h)
  show ?case
  proof (cases "i = 0 \<or> h ! par i \<le> key")
    case True
    then have "push_up key i h = h[i := key]" by (subst push_up.simps) (auto simp: Let_def par_def)
    moreover have "h[i := key] ! par j \<le> h[i := key] ! j" if "0 < j" "j < n" for j
    proof (cases "j = i")
      case j: True
      with that True have "par i \<noteq> i" "h ! par i \<le> key" using par_less [of i] by auto
      with j 1(3,4) show ?thesis by simp
    qed (use 1(2) that in \<open>auto simp: order_but_up_def\<close>)
    ultimately show ?thesis by (simp add: heap_order_def)
  next
    case False
    let ?h = "h[i := h ! par i]"
    have p: "par i < i" using False par_less [of i] by simp
    then have step: "push_up key i h = push_up key (par i) ?h" using False by (subst push_up.simps) (simp add: Let_def par_def)
    have "order_but_up (?h[par i := key]) n (par i)"
      unfolding order_but_up_def
    proof (intro allI impI conjI)
      fix j assume j: "0 < j \<and> j < n" and n: "j \<noteq> par i"
      have o: "j \<noteq> i \<Longrightarrow> h[i := key] ! par j \<le> h[i := key] ! j" "par j = i \<Longrightarrow> h ! par i \<le> h[i := key] ! j"
        using 1(2) j False p by (auto simp: order_but_up_def)
      consider "j = i" | "j \<noteq> i" "par j = i" | "j \<noteq> i" "par j \<noteq> i" "par j = par i" | "j \<noteq> i" "par j \<noteq> i" "par j \<noteq> par i" by blast
      then show "?h[par i := key] ! par j \<le> ?h[par i := key] ! j"
        by cases (use o n p j False 1(3,4) in auto)
    next
      fix j assume j: "0 < j \<and> j < n" and n: "0 < par i \<and> par j = par i"
      have q: "par (par i) < par i" using n par_less by blast
      have a: "h ! par (par i) \<le> h ! par i"
        using 1(2,3) p q n by (auto simp: order_but_up_def dest!: spec [of _ "par i"])
      have "j \<noteq> par i" using n q by auto
      moreover have "h ! par i \<le> h ! j" if "j \<noteq> i"
        using 1(2) that j n p by (auto simp: order_but_up_def dest!: spec [of _ j])
      ultimately show "?h[par i := key] ! par (par i) \<le> ?h[par i := key] ! j"
        using a p q j 1(3,4) by (cases "j = i") auto
    qed
    then have "heap_order (push_up key (par i) ?h) n \<and> mset (take n (push_up key (par i) ?h)) = mset (take n (?h[par i := key]))"
      using 1 False p by (simp add: par_def)
    moreover have "mset (take n (?h[par i := key])) = mset (take n (h[i := key]))"
      using mset_take_swap [of i n "par i" h key] 1(3,4) p by simp
    ultimately show ?thesis using step by simp
  qed
qed

lemma sift_down_heap:
  assumes "order_but_down (h[i := lst]) n i" "i < n \<or> n = 0" "n \<le> length h"
  shows "heap_order (sift_down lst n i h) n \<and> mset (take n (sift_down lst n i h)) = mset (take n (h[i := lst]))"
  using assms
proof (induction lst n i h rule: sift_down.induct)
  case (1 lst n i h)
  define c where "c = (if 2 * i + 2 < n \<and> h ! (2 * i + 2) < h ! (2 * i + 1) then 2 * i + 2 else 2 * i + 1)"
  show ?case
  proof (cases "2 * i + 1 < n \<and> h ! c < lst")
    case False
    then have e: "sift_down lst n i h = h[i := lst]" by (subst sift_down.simps) (auto simp: Let_def c_def)
    have "h[i := lst] ! par j \<le> h[i := lst] ! j" if j: "0 < j" "j < n" for j
    proof (cases "par j = i")
      case True
      with j par_of [of j] have ji: "j = 2 * i + 1 \<or> j = 2 * i + 2" by simp
      with j False have "lst \<le> h ! j" by (auto simp: c_def split: if_splits)
      moreover have "i < n" "j \<noteq> i" using ji j by auto
      ultimately show ?thesis using True 1(4) by simp
    qed (use 1(2) j in \<open>auto simp: order_but_down_def\<close>)
    then show ?thesis using e by (simp add: heap_order_def)
  next
    case True
    let ?h = "h[i := h ! c]"
    have c: "c < n" "par c = i" "i < c" using True by (auto simp: c_def)
    have step: "sift_down lst n i h = sift_down lst n c ?h" using True by (subst sift_down.simps) (auto simp: Let_def c_def)
    have least: "h ! c \<le> h ! j" if "par j = i" "0 < j" "j < n" for j
      using par_of [of j] that by (auto simp: c_def)
    have "order_but_down (?h[c := lst]) n c"
      unfolding order_but_down_def
    proof (intro allI impI conjI)
      fix j assume j: "0 < j \<and> j < n" and n: "par j \<noteq> c"
      have o: "par j \<noteq> i \<Longrightarrow> h[i := lst] ! par j \<le> h[i := lst] ! j" "0 < i \<Longrightarrow> par j = i \<Longrightarrow> h ! par i \<le> h[i := lst] ! j"
        using 1(2) j par_less [of i] by (auto simp: order_but_down_def)
      have pj: "par j < j" using par_less j by blast
      consider "j = c" | "j \<noteq> c" "par j = i" | "j \<noteq> c" "par j \<noteq> i" "j = i" | "j \<noteq> c" "par j \<noteq> i" "j \<noteq> i" by blast
      then show "?h[c := lst] ! par j \<le> ?h[c := lst] ! j"
      proof cases
        case 3
        with j have "h ! par i \<le> h ! c" using 1(2) c by (auto simp: order_but_down_def dest!: spec [of _ c])
        with 3 c j pj 1(4) show ?thesis by simp
      qed (use o n pj j c least True 1(4) in auto)
    next
      fix j assume j: "0 < j \<and> j < n" and n: "0 < c \<and> par j = c"
      have "h[i := lst] ! par j \<le> h[i := lst] ! j" using 1(2) j n c by (auto simp: order_but_down_def)
      moreover have "par j < j" using par_less j by blast
      ultimately show "?h[c := lst] ! par c \<le> ?h[c := lst] ! j" using c n j 1(4) by auto
    qed
    then have "heap_order (sift_down lst n c ?h) n \<and> mset (take n (sift_down lst n c ?h)) = mset (take n (?h[c := lst]))"
      using 1(1) [of c] 1(3,4) c True by (auto simp: c_def)
    moreover have "mset (take n (?h[c := lst])) = mset (take n (h[i := lst]))"
      using mset_take_swap [of i n c h lst] 1(4) c by simp
    ultimately show ?thesis using step by simp
  qed
qed

subsection \<open>Laws\<close>

text \<open>The keys in the heap, and the heap's invariant.\<close>

definition heap_keys :: "heap \<Rightarrow> nat multiset" where
  "heap_keys H = mset (take (snd H) (fst H))"

definition heap_ok :: "heap \<Rightarrow> bool" where
  "heap_ok H \<longleftrightarrow> snd H \<le> length (fst H) \<and> heap_order (fst H) (snd H)"

lemma size_heap_keys: "heap_ok H \<Longrightarrow> size (heap_keys H) = snd H"
  by (simp add: heap_ok_def heap_keys_def)

lemma push_laws:
  assumes "heap_ok H" "snd H < length (fst H)"
  shows "heap_ok (push key H)" "heap_keys (push key H) = add_mset key (heap_keys H)"
    "snd (push key H) = Suc (snd H)" "length (fst (push key H)) = length (fst H)"
proof -
  obtain h n where H: "H = (h, n)" by (cases H)
  have "order_but_up (h[n := key]) (Suc n) n"
    unfolding order_but_up_def
  proof (intro allI impI conjI)
    fix j assume "0 < j \<and> j < Suc n" and "j \<noteq> n"
    then have "0 < j" "j < n" "par j \<noteq> n" using par_less [of j] by auto
    with assms(1) \<open>j \<noteq> n\<close> show "h[n := key] ! par j \<le> h[n := key] ! j" by (simp add: H heap_ok_def heap_order_def)
  next
    fix j assume "0 < j \<and> j < Suc n" "0 < n \<and> par j = n"
    then show "h[n := key] ! par n \<le> h[n := key] ! j" using par_less [of j] by simp
  qed
  from push_up_heap [OF this] assms(2)
  have "heap_order (push_up key n h) (Suc n) \<and> mset (take (Suc n) (push_up key n h)) = mset (take (Suc n) (h[n := key]))"
    by (simp add: H)
  moreover have "mset (take (Suc n) (h[n := key])) = add_mset key (mset (take n h))"
    using assms(2) by (simp add: H take_Suc_conv_app_nth)
  ultimately show "heap_ok (push key H)" "heap_keys (push key H) = add_mset key (heap_keys H)"
    using assms(2) by (simp_all add: H push_def heap_ok_def heap_keys_def)
qed (cases H, simp add: push_def)+

lemma pop_laws:
  assumes "heap_ok H" "0 < snd H" "pop H = (key, H')"
  shows "heap_ok H'" "heap_keys H = add_mset key (heap_keys H')" "\<forall>k \<in># heap_keys H. key \<le> k"
    "snd H = Suc (snd H')" "length (fst H') = length (fst H)"
proof -
  obtain h n where H: "H = (h, Suc n)" using assms(2) by (cases H; cases "snd H") auto
  have H': "H' = (sift_down (h ! n) n 0 h, n)" "key = h ! 0" using assms(3) by (auto simp: H pop_def)
  have l: "n < length h" "heap_order h (Suc n)" using assms(1) by (simp_all add: H heap_ok_def)
  have "order_but_down (h[0 := h ! n]) n 0"
    using l par_less by (auto simp: order_but_down_def heap_order_def)
  from sift_down_heap [OF this] l have s: "heap_order (sift_down (h ! n) n 0 h) n"
    "mset (take n (sift_down (h ! n) n 0 h)) = mset (take n (h[0 := h ! n]))" by auto
  have "mset (take (Suc n) h) = add_mset (h ! 0) (mset (take n (h[0 := h ! n])))"
  proof (cases n)
    case 0
    with l show ?thesis by (cases h) auto
  next
    case (Suc k)
    have "take (Suc n) h = take n h @ [h ! n]" by (rule take_Suc_conv_app_nth [OF l(1)])
    moreover have "take n h = h ! 0 # take k (tl h)" "take n (h[0 := h ! n]) = h ! n # take k (tl h)" using Suc l by (cases h; simp)+
    ultimately show ?thesis by simp
  qed
  then show "heap_keys H = add_mset key (heap_keys H')" using s by (simp add: H H' heap_keys_def)
  show "heap_ok H'" using s l by (simp add: H' heap_ok_def)
  show "\<forall>k \<in># heap_keys H. key \<le> k"
  proof
    fix k assume "k \<in># heap_keys H"
    then obtain i where "i < Suc n" "k = h ! i" using l by (auto simp: H heap_keys_def in_set_conv_nth)
    with heap_root_least [OF l(2)] show "key \<le> k" by (simp add: H')
  qed
  show "snd H = Suc (snd H')" "length (fst H') = length (fst H)" by (simp_all add: H H')
qed

end
