(* ===== verification/Bpe_Merge.thy ===== *)
theory Bpe_Merge
  imports Bpe_Table Bpe_Heap
begin

text \<open>
  The two merges of \<open>src/lib/bpeCount.ts\<close>, over a function that says what two tokens join into, or that
  they do not: \<open>scanMerge\<close> for a short piece, and \<open>heapMerge\<close>, which finds the same pair through a heap
  over a linked list. Both work in arrays that outlive the calls, so what these held before is
  arbitrary. A heap key is an exact number: ranks are below 2^21, and 2^53 is the limit of a double.
\<close>

type_synonym joins = "nat \<Rightarrow> nat \<Rightarrow> nat"

subsection \<open>The rule: the lowest pair first, the leftmost on a tie\<close>

definition pair_ranks :: "joins \<Rightarrow> nat list \<Rightarrow> nat list" where
  "pair_ranks jn ts = map2 jn ts (tl ts)"

definition best_of :: "nat list \<Rightarrow> nat option" where
  "best_of rs = find (\<lambda>i. rs ! i < RANK_NONE \<and> list_all (\<lambda>r. rs ! i \<le> r) rs) [0..<length rs]"

definition best_pair :: "joins \<Rightarrow> nat list \<Rightarrow> nat option" where
  "best_pair jn ts = best_of (pair_ranks jn ts)"

definition merge_pair :: "nat \<Rightarrow> nat \<Rightarrow> nat list \<Rightarrow> nat list" where
  "merge_pair i r ts = take i ts @ r # drop (i + 2) ts"

lemma length_pair_ranks [simp]: "length (pair_ranks jn ts) = length ts - 1"
  by (simp add: pair_ranks_def)

lemma pair_ranks_nth: "Suc i < length ts \<Longrightarrow> pair_ranks jn ts ! i = jn (ts ! i) (ts ! Suc i)"
  by (simp add: pair_ranks_def nth_tl)

text \<open>The pair at \<open>i\<close> is the one to merge.\<close>

definition is_best :: "nat list \<Rightarrow> nat \<Rightarrow> bool" where
  "is_best rs i \<longleftrightarrow> i < length rs \<and> rs ! i < RANK_NONE \<and> (\<forall>j < length rs. rs ! i \<le> rs ! j) \<and> (\<forall>j < i. rs ! i < rs ! j)"

lemma is_best_least:
  "is_best rs i \<longleftrightarrow> i < length rs \<and> (rs ! i < RANK_NONE \<and> (\<forall>j < length rs. rs ! i \<le> rs ! j)) \<and>
     (\<forall>k < i. \<not> (rs ! k < RANK_NONE \<and> (\<forall>j < length rs. rs ! k \<le> rs ! j)))"
proof (intro iffI)
  assume "is_best rs i"
  then show "i < length rs \<and> (rs ! i < RANK_NONE \<and> (\<forall>j < length rs. rs ! i \<le> rs ! j)) \<and>
     (\<forall>k < i. \<not> (rs ! k < RANK_NONE \<and> (\<forall>j < length rs. rs ! k \<le> rs ! j)))"
    unfolding is_best_def by (meson not_le)
next
  assume a: "i < length rs \<and> (rs ! i < RANK_NONE \<and> (\<forall>j < length rs. rs ! i \<le> rs ! j)) \<and>
     (\<forall>k < i. \<not> (rs ! k < RANK_NONE \<and> (\<forall>j < length rs. rs ! k \<le> rs ! j)))"
  have "rs ! i < rs ! k" if "k < i" for k
  proof (rule ccontr)
    assume "\<not> rs ! i < rs ! k"
    then have "rs ! k < RANK_NONE \<and> (\<forall>j < length rs. rs ! k \<le> rs ! j)" using a by (meson le_less_trans not_le order_trans)
    with a that show False by blast
  qed
  with a show "is_best rs i" by (simp add: is_best_def)
qed

lemma is_bestI:
  assumes "k < length rs" "rs ! k < RANK_NONE" and le: "\<And>j. j < length rs \<Longrightarrow> rs ! k < rs ! j \<or> rs ! k = rs ! j \<and> k \<le> j"
  shows "is_best rs k"
proof -
  have "rs ! k \<le> rs ! j" if "j < length rs" for j using le [OF that] by linarith
  moreover have "rs ! k < rs ! j" if "j < k" for j using le [of j] that assms(1) by linarith
  ultimately show ?thesis using assms by (simp add: is_best_def)
qed

lemma best_of_iff: "best_of rs = Some i \<longleftrightarrow> is_best rs i"
  unfolding best_of_def find_Some_iff is_best_least list_all_length by auto

lemma best_pair_iff: "best_pair jn ts = Some i \<longleftrightarrow> is_best (pair_ranks jn ts) i"
  by (simp add: best_pair_def best_of_iff)

lemma best_pair_None: "best_pair jn ts = None \<longleftrightarrow> (\<forall>j < length ts - 1. RANK_NONE \<le> pair_ranks jn ts ! j)"
proof
  let ?rs = "pair_ranks jn ts"
  assume none: "best_pair jn ts = None"
  show "\<forall>j < length ts - 1. RANK_NONE \<le> ?rs ! j"
  proof (rule ccontr)
    assume "\<not> ?thesis"
    then obtain j where j: "j < length ?rs" "?rs ! j < RANK_NONE" by (auto simp: not_le)
    then obtain i where i: "i < length ?rs" "?rs ! i = Min (set ?rs)" by (metis List.finite_set Min_in empty_iff in_set_conv_nth nth_mem)
    have m: "?rs ! i \<le> r" if "r \<in> set ?rs" for r using that i(2) by simp
    with j have "?rs ! i < RANK_NONE" by (metis le_less_trans nth_mem)
    with m i(1) none show False unfolding best_pair_def best_of_def find_None_iff list_all_iff by auto
  qed
next
  assume a: "\<forall>j < length ts - 1. RANK_NONE \<le> pair_ranks jn ts ! j"
  show "best_pair jn ts = None"
  proof (rule ccontr)
    assume "best_pair jn ts \<noteq> None"
    then obtain i where "is_best (pair_ranks jn ts) i" by (auto simp: best_pair_iff)
    with a show False by (auto simp: is_best_def)
  qed
qed

lemma best_unique: "is_best rs i \<Longrightarrow> is_best rs j \<Longrightarrow> i = j"
  by (metis is_best_def linorder_neqE_nat not_le)

lemma merge_pair_length: "Suc i < length ts \<Longrightarrow> length (merge_pair i r ts) = length ts - 1"
  by (simp add: merge_pair_def)

lemma merge_pair_nth:
  "Suc i < length ts \<Longrightarrow> j < length ts - 1 \<Longrightarrow>
   merge_pair i r ts ! j = (if j < i then ts ! j else if j = i then r else ts ! Suc j)"
  by (auto simp: merge_pair_def nth_append nth_Cons min_def split: nat.split)
    (metis Suc_diff_Suc add_Suc_right add_diff_inverse_nat linorder_neqE_nat)

function merge_all :: "joins \<Rightarrow> nat list \<Rightarrow> nat list" where
  "merge_all jn ts = (case best_pair jn ts of
      None \<Rightarrow> ts
    | Some i \<Rightarrow> merge_all jn (merge_pair i (pair_ranks jn ts ! i) ts))"
  by auto
termination
  by (relation "measure (\<lambda>(jn, ts). length ts)") (auto simp: best_pair_iff is_best_def merge_pair_length)

declare merge_all.simps [simp del]

subsection \<open>The scan\<close>

text \<open>\<open>copyWithin\<close> of a typed array.\<close>

definition copyWithin :: "nat \<Rightarrow> nat \<Rightarrow> nat \<Rightarrow> 'a list \<Rightarrow> 'a list" where
  "copyWithin target start end_ix xs = (let n = min (min end_ix (length xs) - start) (length xs - target) in
     take target xs @ take n (drop start xs) @ drop (target + n) xs)"

fun scan_best :: "nat list \<Rightarrow> nat \<Rightarrow> nat \<times> nat option" where
  "scan_best pairRanks 0 = (RANK_NONE, None)"
| "scan_best pairRanks (Suc i) = (case scan_best pairRanks i of (best, found) \<Rightarrow>
     if pairRanks ! i < best then (pairRanks ! i, Some i) else (best, found))"

function scan_loop :: "joins \<Rightarrow> nat \<Rightarrow> nat list \<Rightarrow> nat list \<Rightarrow> nat" where
  "scan_loop jn n parts pairRanks = (if n \<le> 1 then n else
     (case scan_best pairRanks (n - 1) of
        (best, None) \<Rightarrow> n
      | (best, Some i) \<Rightarrow>
          (let parts' = copyWithin (i + 1) (i + 2) n (parts[i := best]);
               ranks1 = copyWithin (i + 1) (i + 2) (n - 1) pairRanks;
               ranks2 = (if i < n - 2 then ranks1[i := jn best (parts' ! (i + 1))] else ranks1);
               ranks3 = (if 0 < i then ranks2[i - 1 := jn (parts' ! (i - 1)) best] else ranks2)
           in scan_loop jn (n - 1) parts' ranks3)))"
  by auto
termination by (relation "measure (\<lambda>(jn, n, parts, ranks). n)") auto

declare scan_loop.simps [simp del]

text \<open>The two filling loops, over what the arrays held.\<close>

definition scanMerge :: "joins \<Rightarrow> (char \<Rightarrow> nat) \<Rightarrow> nat list \<times> nat list \<Rightarrow> string \<Rightarrow> nat" where
  "scanMerge jn byteRank scratch bytes = (let n = length bytes;
     parts = fold (\<lambda>i p. p[i := byteRank (bytes ! i)]) [0..<n] (fst scratch);
     pairRanks = fold (\<lambda>i p. p[i := jn (parts ! i) (parts ! (i + 1))]) [0..<n - 1] (snd scratch)
     in scan_loop jn n parts pairRanks)"

lemma fill_length [simp]: "length (fold (\<lambda>i p. p[i := f i]) is xs) = length xs"
  by (induction "is" arbitrary: xs) auto

lemma fill_nth: "j < length xs \<Longrightarrow> fold (\<lambda>i p. p[i := f i]) [0..<n] xs ! j = (if j < n then f j else xs ! j)"
  by (induction n) (auto simp: nth_list_update less_Suc_eq)

lemma copyWithin_length [simp]: "target \<le> length xs \<Longrightarrow> length (copyWithin target start e xs) = length xs"
  by (auto simp: copyWithin_def Let_def min_def)

lemma copyWithin_shift:
  assumes "i < n" "n \<le> length xs" "j < length xs" "j < n - 1"
  shows "copyWithin (i + 1) (i + 2) n xs ! j = (if j \<le> i then xs ! j else xs ! Suc j)"
  using assms by (auto simp: copyWithin_def Let_def nth_append min_def)

lemma scan_best_spec:
  "scan_best rs m = (best, found) \<Longrightarrow>
   (case found of None \<Rightarrow> best = RANK_NONE \<and> (\<forall>j < m. RANK_NONE \<le> rs ! j)
    | Some i \<Rightarrow> i < m \<and> best = rs ! i \<and> rs ! i < RANK_NONE \<and> (\<forall>j < m. rs ! i \<le> rs ! j) \<and> (\<forall>j < i. rs ! i < rs ! j))"
proof (induction m arbitrary: best found)
  case (Suc m)
  obtain b f where bf: "scan_best rs m = (b, f)" by (cases "scan_best rs m")
  from Suc.IH [OF bf] Suc.prems bf show ?case
    by (cases f) (fastforce simp: less_Suc_eq split: if_splits)+
qed simp

lemma scan_best_take:
  assumes "take m rs = pair_ranks jn ts" "m = length ts - 1" "m \<le> length rs"
  shows "map_option (\<lambda>i. (pair_ranks jn ts ! i, i)) (best_pair jn ts) = (case scan_best rs m of (best, f) \<Rightarrow> map_option (Pair best) f)"
proof -
  obtain best f where bf: "scan_best rs m = (best, f)" by (cases "scan_best rs m")
  have n: "pair_ranks jn ts ! j = rs ! j" if "j < m" for j using that by (simp flip: assms(1))
  show ?thesis
  proof (cases f)
    case None
    with scan_best_spec [OF bf] n assms(2) have "best_pair jn ts = None" by (simp add: best_pair_None)
    with None bf show ?thesis by simp
  next
    case (Some i)
    with scan_best_spec [OF bf] n assms(2) have "is_best (pair_ranks jn ts) i" "best = pair_ranks jn ts ! i"
      by (auto simp: is_best_def)
    with Some bf show ?thesis by (simp add: flip: best_pair_iff)
  qed
qed

lemma scan_step:
  assumes ts: "take n parts = ts" "n = length ts" "n \<le> length parts"
    and rs: "take (n - 1) ranks = pair_ranks jn ts" "n - 1 \<le> length ranks"
    and i: "Suc i < n" "best = pair_ranks jn ts ! i"
    and parts': "parts' = copyWithin (i + 1) (i + 2) n (parts[i := best])"
    and ranks1: "ranks1 = copyWithin (i + 1) (i + 2) (n - 1) ranks"
    and ranks2: "ranks2 = (if i < n - 2 then ranks1[i := jn best (parts' ! (i + 1))] else ranks1)"
    and ranks3: "ranks3 = (if 0 < i then ranks2[i - 1 := jn (parts' ! (i - 1)) best] else ranks2)"
  shows "take (n - 1) parts' = merge_pair i best ts" "take (n - 2) ranks3 = pair_ranks jn (merge_pair i best ts)"
    "length parts' = length parts" "length ranks3 = length ranks"
proof -
  let ?m = "merge_pair i best ts"
  have lm: "length ?m = n - 1" using i ts by (simp add: merge_pair_length)
  show lp: "length parts' = length parts" using parts' i ts by simp
  have lr1: "length ranks1 = length ranks" using ranks1 i rs by simp
  then show "length ranks3 = length ranks" by (simp add: ranks2 ranks3)
  have old: "ts ! j = parts ! j" if "j < n" for j using that by (simp flip: ts(1))
  have p': "parts' ! j = ?m ! j" if "j < n - 1" for j
    using that i ts lm copyWithin_shift [of i n "parts[i := best]" j] old [of j] old [of "Suc j"]
    by (auto simp: parts' merge_pair_nth nth_list_update)
  then show "take (n - 1) parts' = ?m" using lm lp ts(3) by (intro nth_equalityI) auto
  have r1: "ranks1 ! j = jn (ts ! (if j \<le> i then j else Suc j)) (ts ! Suc (if j \<le> i then j else Suc j))"
    if "j < n - 2" for j
  proof -
    have "ranks ! k = jn (ts ! k) (ts ! Suc k)" if "k < n - 1" for k
      using that ts(2) pair_ranks_nth [of k ts jn] by (simp flip: rs(1))
    moreover have "copyWithin (i + 1) (i + 2) (n - 1) ranks ! j = (if j \<le> i then ranks ! j else ranks ! Suc j)"
      using that i rs(2) by (intro copyWithin_shift) auto
    ultimately show ?thesis using that by (simp add: ranks1)
  qed
  have "ranks3 ! j = pair_ranks jn ?m ! j" if j: "j < n - 2" for j
  proof -
    have m: "pair_ranks jn ?m ! j = jn (?m ! j) (?m ! Suc j)" using j lm by (intro pair_ranks_nth) simp
    have mm: "?m ! k = (if k < i then ts ! k else if k = i then best else ts ! Suc k)" if "k < n - 1" for k
      using that i ts(2) merge_pair_nth by simp
    have len: "j < length ranks1" using j lr1 rs(2) by simp
    consider "j < i - 1" | "j = i - 1" "0 < i" | "j = i" | "i < j" by linarith
    then show ?thesis
    proof cases
      case 2
      then have "ranks3 ! j = jn (parts' ! j) best" using len by (simp add: ranks3 ranks2)
      with 2 j p' [of j] mm [of i] m show ?thesis by simp
    next
      case 3
      then have "ranks3 ! j = jn best (parts' ! Suc i)" using len j by (auto simp: ranks3 ranks2)
      with 3 j p' [of "Suc i"] mm [of i] m show ?thesis by simp
    next
      case 1
      then have a: "j < i" "Suc j < i" by linarith+
      have "ranks3 ! j = ranks1 ! j" using 1 by (auto simp: ranks3 ranks2)
      with a j r1 [OF j] mm [of j] mm [of "Suc j"] show ?thesis by (simp add: m)
    next
      case 4
      then have "ranks3 ! j = ranks1 ! j" by (auto simp: ranks3 ranks2)
      with 4 j r1 [OF j] mm [of j] mm [of "Suc j"] show ?thesis by (simp add: m)
    qed
  qed
  then show "take (n - 2) ranks3 = pair_ranks jn ?m"
    using lm \<open>length ranks3 = length ranks\<close> rs(2) by (intro nth_equalityI) auto
qed

lemma scan_loop_merge:
  "take n parts = ts \<Longrightarrow> n = length ts \<Longrightarrow> n \<le> length parts \<Longrightarrow> take (n - 1) ranks = pair_ranks jn ts \<Longrightarrow> n - 1 \<le> length ranks \<Longrightarrow>
   scan_loop jn n parts ranks = length (merge_all jn ts)"
proof (induction n arbitrary: parts ts ranks rule: less_induct)
  case (less n)
  note best = scan_best_take [OF less.prems(4), unfolded less.prems(2) [symmetric], OF refl less.prems(5)]
  show ?case
  proof (cases "best_pair jn ts")
    case None
    then have "length (merge_all jn ts) = n" by (subst merge_all.simps) (simp add: less.prems(2))
    moreover from None best have "snd (scan_best ranks (n - 1)) = None" by (cases "scan_best ranks (n - 1)") auto
    ultimately show ?thesis by (subst scan_loop.simps) (auto split: prod.splits)
  next
    case (Some i)
    let ?b = "pair_ranks jn ts ! i"
    from Some best have s: "scan_best ranks (n - 1) = (?b, Some i)"
      by (cases "scan_best ranks (n - 1)"; cases "snd (scan_best ranks (n - 1))") auto
    have i: "Suc i < n" using Some less.prems(2) by (auto simp: best_pair_iff is_best_def)
    define P where "P = copyWithin (i + 1) (i + 2) n (parts[i := ?b])"
    define R1 where "R1 = copyWithin (i + 1) (i + 2) (n - 1) ranks"
    define R2 where "R2 = (if i < n - 2 then R1[i := jn ?b (P ! (i + 1))] else R1)"
    define R where "R = (if 0 < i then R2[i - 1 := jn (P ! (i - 1)) ?b] else R2)"
    note step = scan_step [OF less.prems i refl P_def R1_def R2_def R_def]
    have "\<not> n \<le> 1" using i by simp
    then have "scan_loop jn n parts ranks = scan_loop jn (n - 1) P R"
      by (subst scan_loop.simps) (simp only: s if_False prod.case option.case Let_def flip: P_def R1_def R2_def R_def)
    also have "\<dots> = length (merge_all jn (merge_pair i ?b ts))"
    proof (rule less.IH)
      show "n - 1 = length (merge_pair i ?b ts)" using i less.prems(2) by (simp add: merge_pair_length)
      show "take (n - 1 - 1) R = pair_ranks jn (merge_pair i ?b ts)" using step(2) by (simp add: numeral_2_eq_2)
    qed (use step i less.prems in auto)
    also have "merge_all jn (merge_pair i ?b ts) = merge_all jn ts" using Some by (subst (2) merge_all.simps) simp
    finally show ?thesis .
  qed
qed

text \<open>Whatever its arrays held, the scan leaves as many tokens as the rule does.\<close>

lemma scanMerge_merge:
  assumes "length bytes \<le> length (fst scratch)" "length bytes \<le> length (snd scratch)"
  shows "scanMerge jn byteRank scratch bytes = length (merge_all jn (map byteRank bytes))"
  unfolding scanMerge_def Let_def
proof (rule scan_loop_merge)
  let ?parts = "fold (\<lambda>i p. p[i := byteRank (bytes ! i)]) [0..<length bytes] (fst scratch)"
  show p: "take (length bytes) ?parts = map byteRank bytes" using assms by (intro nth_equalityI) (auto simp: fill_nth)
  have "?parts ! j = byteRank (bytes ! j)" if "j < length bytes" for j using that assms by (simp add: fill_nth)
  then show "take (length bytes - 1) (fold (\<lambda>i p. p[i := jn (?parts ! i) (?parts ! (i + 1))]) [0..<length bytes - 1] (snd scratch)) =
      pair_ranks jn (map byteRank bytes)"
    using assms by (intro nth_equalityI) (auto simp: fill_nth pair_ranks_nth)
qed (use assms in auto)

subsection \<open>The heap over a linked list\<close>

definition POS :: nat where "POS = 2 ^ 32"

record merge_arrays =
  ma_next :: "nat list"
  ma_prev :: "int list"
  ma_token :: "nat list"
  ma_rankAt :: "int list"
  ma_heap :: heap

text \<open>The arrays grow when a longer piece comes; a heap entry's pair may have changed since it was pushed.\<close>

definition grown :: "nat \<Rightarrow> merge_arrays \<Rightarrow> merge_arrays" where
  "grown n A = (if length (ma_next A) < n
     then \<lparr>ma_next = replicate n 0, ma_prev = replicate n 0, ma_token = replicate n 0, ma_rankAt = replicate n 0,
       ma_heap = (replicate (3 * n) 0, 0)\<rparr>
     else A\<lparr>ma_heap := (fst (ma_heap A), 0)\<rparr>)"

definition fill_part :: "(char \<Rightarrow> nat) \<Rightarrow> string \<Rightarrow> nat \<Rightarrow> merge_arrays \<Rightarrow> merge_arrays" where
  "fill_part byteRank bytes i A = A\<lparr>ma_next := (ma_next A)[i := i + 1], ma_prev := (ma_prev A)[i := int i - 1],
     ma_token := (ma_token A)[i := byteRank (bytes ! i)]\<rparr>"

definition set_rank :: "nat \<Rightarrow> nat \<Rightarrow> merge_arrays \<Rightarrow> merge_arrays" where
  "set_rank i r A = A\<lparr>ma_rankAt := (ma_rankAt A)[i := int r],
     ma_heap := (if r \<noteq> RANK_NONE then push (r * POS + i) (ma_heap A) else ma_heap A)\<rparr>"

definition fill_rank :: "joins \<Rightarrow> nat \<Rightarrow> merge_arrays \<Rightarrow> merge_arrays" where
  "fill_rank jn i A = set_rank i (jn (ma_token A ! i) (ma_token A ! (i + 1))) A"

definition join_at :: "joins \<Rightarrow> nat \<Rightarrow> nat \<Rightarrow> nat \<Rightarrow> merge_arrays \<Rightarrow> merge_arrays" where
  "join_at jn n r s A = (let t = ma_next A ! s; u = ma_next A ! t;
     A1 = A\<lparr>ma_token := (ma_token A)[s := r], ma_next := (ma_next A)[s := u],
       ma_prev := (if u < n then (ma_prev A)[u := int s] else ma_prev A), ma_rankAt := (ma_rankAt A)[t := -1]\<rparr>;
     A2 = set_rank s (if u < n then jn r (ma_token A1 ! u) else RANK_NONE) A1;
     p = ma_prev A2 ! s
     in if 0 \<le> p then set_rank (nat p) (jn (ma_token A2 ! nat p) r) A2 else A2)"

partial_function (option) heap_loop :: "joins \<Rightarrow> nat \<Rightarrow> nat \<Rightarrow> merge_arrays \<Rightarrow> nat option" where
  "heap_loop jn n cnt A = (if snd (ma_heap A) = 0 then Some cnt else
     (case pop (ma_heap A) of (key, H) \<Rightarrow>
       (let r = key div POS; s = key - r * POS; A' = A\<lparr>ma_heap := H\<rparr> in
        if ma_rankAt A' ! s \<noteq> int r then heap_loop jn n cnt A'
        else heap_loop jn n (cnt - 1) (join_at jn n r s A'))))"

definition heapMerge :: "joins \<Rightarrow> (char \<Rightarrow> nat) \<Rightarrow> merge_arrays \<Rightarrow> string \<Rightarrow> nat option" where
  "heapMerge jn byteRank scratch bytes = (let n = length bytes in if n < 2 then Some n else
     let A1 = fold (fill_part byteRank bytes) [0..<n] (grown n scratch);
         A2 = fold (fill_rank jn) [0..<n - 1] A1;
         A3 = A2\<lparr>ma_rankAt := (ma_rankAt A2)[n - 1 := int RANK_NONE]\<rparr>
     in heap_loop jn n n A3)"

subsection \<open>The parts in the arrays\<close>

text \<open>
  The arrays hold the tokens \<open>ts\<close> at the positions \<open>ps\<close>: links, tokens and the rank of each pair; a
  position that was merged away has rank -1.
\<close>

definition rank_after :: "joins \<Rightarrow> nat list \<Rightarrow> nat \<Rightarrow> nat" where
  "rank_after jn ts k = (if Suc k < length ts then jn (ts ! k) (ts ! Suc k) else RANK_NONE)"

definition link_after :: "nat \<Rightarrow> nat list \<Rightarrow> nat \<Rightarrow> nat" where
  "link_after n ps k = (if Suc k < length ps then ps ! Suc k else n)"

definition link_before :: "nat list \<Rightarrow> nat \<Rightarrow> int" where
  "link_before ps k = (if k = 0 then -1 else int (ps ! (k - 1)))"

definition sized :: "nat \<Rightarrow> merge_arrays \<Rightarrow> bool" where
  "sized n A \<longleftrightarrow> n \<le> length (ma_next A) \<and> n \<le> length (ma_prev A) \<and> n \<le> length (ma_token A) \<and> n \<le> length (ma_rankAt A)"

definition linked :: "joins \<Rightarrow> nat \<Rightarrow> nat list \<Rightarrow> nat list \<Rightarrow> merge_arrays \<Rightarrow> bool" where
  "linked jn n ps ts A \<longleftrightarrow> length ps = length ts \<and> sorted_wrt (<) ps \<and> (\<forall>p \<in> set ps. p < n) \<and> sized n A \<and>
     (\<forall>k < length ts. ma_next A ! (ps ! k) = link_after n ps k \<and> ma_prev A ! (ps ! k) = link_before ps k \<and>
        ma_token A ! (ps ! k) = ts ! k \<and> ma_rankAt A ! (ps ! k) = int (rank_after jn ts k)) \<and>
     (\<forall>i < n. i \<notin> set ps \<longrightarrow> ma_rankAt A ! i = -1)"

text \<open>Every pair that merges has its key in the heap, and there is room for the keys to come.\<close>

definition keyed :: "joins \<Rightarrow> nat \<Rightarrow> nat list \<Rightarrow> nat list \<Rightarrow> heap \<Rightarrow> bool" where
  "keyed jn n ps ts H \<longleftrightarrow> heap_ok H \<and>
     (\<forall>k < length ts. rank_after jn ts k \<noteq> RANK_NONE \<longrightarrow> rank_after jn ts k * POS + ps ! k \<in># heap_keys H) \<and>
     (\<forall>key \<in># heap_keys H. key mod POS < n \<and> key div POS < RANK_NONE) \<and>
     snd H + 2 * length ts \<le> length (fst H)"

definition cut :: "nat \<Rightarrow> nat list \<Rightarrow> nat list" where
  "cut k ps = take (Suc k) ps @ drop (k + 2) ps"

lemma cut_nth: "Suc k < length ps \<Longrightarrow> j < length ps - 1 \<Longrightarrow> cut k ps ! j = (if j \<le> k then ps ! j else ps ! Suc j)"
  by (auto simp: cut_def nth_append min_def)

lemma length_cut [simp]: "Suc k < length ps \<Longrightarrow> length (cut k ps) = length ps - 1"
  by (simp add: cut_def)

lemma set_cut: "Suc k < length ps \<Longrightarrow> distinct ps \<Longrightarrow> set (cut k ps) = set ps - {ps ! Suc k}"
proof -
  assume k: "Suc k < length ps" and d: "distinct ps"
  have "ps = take (Suc k) ps @ ps ! Suc k # drop (k + 2) ps" using id_take_nth_drop [OF k] by simp
  with d have "distinct (take (Suc k) ps @ ps ! Suc k # drop (k + 2) ps)" "set ps = set (take (Suc k) ps @ ps ! Suc k # drop (k + 2) ps)" by metis+
  then show ?thesis by (auto simp: cut_def)
qed

lemma sorted_cut: "sorted_wrt (<) ps \<Longrightarrow> Suc k < length ps \<Longrightarrow> sorted_wrt (<) (cut k ps)"
  by (simp add: sorted_wrt_iff_nth_less cut_nth)

lemma linked_simps:
  assumes "linked jn n ps ts A" "k < length ts"
  shows "ma_next A ! (ps ! k) = link_after n ps k" "ma_prev A ! (ps ! k) = link_before ps k" "ma_token A ! (ps ! k) = ts ! k"
    "ma_rankAt A ! (ps ! k) = int (rank_after jn ts k)" "ps ! k < n" "length ps = length ts"
  using assms nth_mem [of k ps] by (auto simp: linked_def)

lemma linked_same:
  assumes "linked jn n ps ts A" "i < length ts" "j < length ts"
  shows "ps ! i = ps ! j \<longleftrightarrow> i = j"
proof -
  have "distinct ps" using assms(1) by (auto simp: linked_def strict_sorted_iff)
  with assms show ?thesis by (simp add: nth_eq_iff_index_eq linked_simps(6))
qed

lemma set_rank_fields [simp]:
  "ma_next (set_rank i r A) = ma_next A" "ma_prev (set_rank i r A) = ma_prev A" "ma_token (set_rank i r A) = ma_token A"
  "ma_rankAt (set_rank i r A) = (ma_rankAt A)[i := int r]"
  by (simp_all add: set_rank_def)

text \<open>The new ranks around a merge.\<close>

definition right_rank :: "joins \<Rightarrow> nat \<Rightarrow> nat list \<Rightarrow> nat \<Rightarrow> nat" where
  "right_rank jn r ts k = (if k + 2 < length ts then jn r (ts ! (k + 2)) else RANK_NONE)"

lemma rank_after_merge:
  assumes k: "Suc k < length ts" and j: "j < length ts - 1"
  shows "rank_after jn (merge_pair k r ts) j = (if Suc j < k then rank_after jn ts j
     else if Suc j = k then jn (ts ! j) r else if j = k then right_rank jn r ts k else rank_after jn ts (Suc j))"
  using assms by (auto simp: rank_after_def merge_pair_length merge_pair_nth right_rank_def)

lemma join_at_fields:
  fixes r :: nat
  assumes l: "linked jn n ps ts A" and k: "Suc k < length ts"
  defines "s \<equiv> ps ! k" and "t \<equiv> ps ! Suc k" and "u \<equiv> link_after n ps (Suc k)" and "R \<equiv> right_rank jn r ts k"
  defines "A1 \<equiv> A\<lparr>ma_token := (ma_token A)[s := r], ma_next := (ma_next A)[s := u],
       ma_prev := (if u < n then (ma_prev A)[u := int s] else ma_prev A), ma_rankAt := (ma_rankAt A)[t := -1]\<rparr>"
  shows "join_at jn n r s A = (if k = 0 then set_rank s R A1
    else set_rank (ps ! (k - 1)) (jn (ts ! (k - 1)) r) (set_rank s R A1))"
proof -
  have t: "ma_next A ! s = t" "ma_next A ! t = u"
    using linked_simps [OF l, of k] linked_simps [OF l, of "Suc k"] k by (simp_all add: s_def t_def u_def link_after_def)
  have un: "u < n \<longleftrightarrow> k + 2 < length ts"
    using linked_simps(5) [OF l, of "k + 2"] linked_simps(6) [OF l, of k] k by (auto simp: u_def link_after_def)
  have up: "u = ps ! (k + 2)" if "u < n" using that linked_simps(6) [OF l, of k] k by (simp add: u_def link_after_def split: if_splits)
  have "ma_token A1 ! u = ts ! (k + 2)" if "u < n"
    using that un up linked_simps(3) [OF l, of "k + 2"] linked_same [OF l, of k "k + 2"] k by (simp add: A1_def s_def)
  then have R: "(if u < n then jn r (ma_token A1 ! u) else RANK_NONE) = R" using un by (simp add: R_def right_rank_def)
  have "s \<noteq> u" if "u < n" using that up un linked_same [OF l, of k "k + 2"] k by (simp add: s_def)
  then have p: "ma_prev A1 ! s = link_before ps k"
    using linked_simps(2) [OF l, of k] k by (auto simp: A1_def s_def nth_list_update)
  have "ma_token A1 ! (ps ! (k - 1)) = ts ! (k - 1)" if "0 < k"
    using that linked_simps(3) [OF l, of "k - 1"] linked_same [OF l, of "k - 1" k] k by (cases k) (simp_all add: A1_def s_def)
  then show ?thesis
    unfolding join_at_def Let_def t A1_def [symmetric] R set_rank_fields p by (cases k) (simp_all add: link_before_def)
qed

lemma join_at_linked:
  assumes l: "linked jn n ps ts A" and k: "Suc k < length ts"
  shows "linked jn n (cut k ps) (merge_pair k r ts) (join_at jn n r (ps ! k) A)"
proof -
  let ?s = "ps ! k" and ?t = "ps ! Suc k" and ?u = "link_after n ps (Suc k)" and ?R = "right_rank jn r ts k"
  let ?A = "join_at jn n r (ps ! k) A" and ?ps = "cut k ps" and ?ts = "merge_pair k r ts"
  have lps: "length ps = length ts" using linked_simps(6) [OF l, of k] k by simp
  have lts: "length ?ts = length ts - 1" using k by (simp add: merge_pair_length)
  have sz: "sized n A" using l by (simp add: linked_def)
  note f = join_at_fields [OF l k, of r]
  have nxt: "ma_next ?A = (ma_next A)[?s := ?u]" unfolding f by simp
  have prv: "ma_prev ?A = (if ?u < n then (ma_prev A)[?u := int ?s] else ma_prev A)" unfolding f by simp
  have tok: "ma_token ?A = (ma_token A)[?s := r]" unfolding f by simp
  have rnk: "ma_rankAt ?A = (if k = 0 then (ma_rankAt A)[?t := -1, ?s := int ?R]
      else (ma_rankAt A)[?t := -1, ?s := int ?R, ps ! (k - 1) := int (jn (ts ! (k - 1)) r)])" unfolding f by simp
  have ne: "ts \<noteq> []" using k by auto
  have sz': "sized n ?A" using sz by (simp add: sized_def nxt prv tok rnk)
  have dist: "sorted_wrt (<) ps" "distinct ps" using l by (auto simp: linked_def strict_sorted_iff)
  define m where "m j = (if j \<le> k then j else Suc j)" for j
  have q: "?ps ! j = ps ! m j" "m j < length ts" "m j \<noteq> Suc k" "ps ! m j < n" if "j < length ts - 1" for j
    using that k lps linked_simps(5) [OF l, of "m j"] by (auto simp: m_def cut_nth)
  have same: "ps ! m j = ps ! i \<longleftrightarrow> m j = i" if "j < length ts - 1" "i < length ts" for i j
    using linked_same [OF l] q that by blast
  have bound: "ps ! m j < length (ma_next A)" "ps ! m j < length (ma_prev A)" "ps ! m j < length (ma_token A)" "ps ! m j < length (ma_rankAt A)"
    if "j < length ts - 1" for j using q(4) [OF that] sz by (auto simp: sized_def)
  have "ma_next ?A ! (?ps ! j) = link_after n ?ps j" if j: "j < length ts - 1" for j
    using same [OF j, of k] linked_simps(1) [OF l q(2) [OF j]] bound [OF j] k lps j q(1) [OF j]
    by (cases j k rule: linorder_cases) (auto simp: nxt nth_list_update link_after_def cut_nth m_def)
  moreover have "ma_prev ?A ! (?ps ! j) = link_before ?ps j" if j: "j < length ts - 1" for j
  proof -
    have "?u < n \<and> ps ! m j = ?u \<longleftrightarrow> j = Suc k"
      using same [OF j, of "k + 2"] q(4) [OF j] lps k j linked_simps(5) [OF l, of "k + 2"]
      by (auto simp: link_after_def m_def split: if_splits)
    then show ?thesis
      using linked_simps(2) [OF l q(2) [OF j]] bound [OF j] k lps j q(1) [OF j]
      by (auto simp: prv nth_list_update link_before_def cut_nth m_def split: if_splits)
  qed
  moreover have "ma_token ?A ! (?ps ! j) = ?ts ! j" if j: "j < length ts - 1" for j
    using same [OF j, of k] linked_simps(3) [OF l q(2) [OF j]] bound [OF j] k lps j q(1) [OF j]
    by (auto simp: tok nth_list_update merge_pair_nth m_def)
  moreover have "ma_rankAt ?A ! (?ps ! j) = int (rank_after jn ?ts j)" if j: "j < length ts - 1" for j
    using same [OF j, of k] same [OF j, of "Suc k"] same [OF j, of "k - 1"] linked_simps(4) [OF l q(2) [OF j]] bound [OF j] k j q(1,3) [OF j] ne
    unfolding rnk by (cases k; cases j k rule: linorder_cases) (auto simp: nth_list_update rank_after_merge m_def split: if_splits)
  moreover have "ma_rankAt ?A ! i = -1" if i: "i < n" "i \<notin> set ?ps" for i
  proof -
    have "i = ?t \<or> i \<notin> set ps" using i set_cut [of k ps] dist lps k by auto
    moreover have "?s \<noteq> ?t" "ps ! (k - 1) \<noteq> ?t" using linked_same [OF l, of k "Suc k"] linked_same [OF l, of "k - 1" "Suc k"] k by auto
    moreover have "?s \<in> set ps" "ps ! (k - 1) \<in> set ps" "?t \<in> set ps" using k lps by auto
    ultimately consider "i = ?t" "i \<noteq> ?s" "i \<noteq> ps ! (k - 1)" | "i \<noteq> ?t" "i \<noteq> ?s" "i \<noteq> ps ! (k - 1)" "i \<notin> set ps" by metis
    then show ?thesis
    proof cases
      case 1
      then have "ma_rankAt ?A ! i = (ma_rankAt A)[?t := -1] ! i" unfolding rnk by (cases k) simp_all
      with 1 i(1) sz show ?thesis by (simp add: sized_def)
    next
      case 2
      then have "ma_rankAt ?A ! i = ma_rankAt A ! i" unfolding rnk by (cases k) simp_all
      with 2 i(1) l show ?thesis by (simp add: linked_def)
    qed
  qed
  moreover have "\<forall>p \<in> set ?ps. p < n" using set_cut [of k ps] dist(2) lps k l by (auto simp: linked_def)
  ultimately show ?thesis
    using sz' lps lts k sorted_cut [OF dist(1)] unfolding linked_def by simp
qed

subsection \<open>The keys in the heap\<close>

lemma key_split: "i < n \<Longrightarrow> n \<le> POS \<Longrightarrow> (r * POS + i) div POS = r \<and> (r * POS + i) mod POS = i"
  by (simp add: POS_def)

lemma key_unsplit: "key - key div POS * POS = key mod POS"
  by (simp add: minus_div_mult_eq_mod)

lemma key_less: "i < n \<Longrightarrow> j < n \<Longrightarrow> n \<le> POS \<Longrightarrow> r * POS + i \<le> r' * POS + j \<longleftrightarrow> r < r' \<or> r = r' \<and> i \<le> j"
proof -
  assume n: "i < n" "j < n" "n \<le> POS"
  have "r * POS + i < r' * POS + j" if "r < r'"
  proof -
    from that have "Suc r * POS \<le> r' * POS" by (intro mult_le_mono1) simp
    with n show ?thesis by simp
  qed
  moreover have "r' * POS + j < r * POS + i" if "r' < r"
  proof -
    from that have "Suc r' * POS \<le> r * POS" by (intro mult_le_mono1) simp
    with n show ?thesis by simp
  qed
  ultimately show ?thesis by (cases r r' rule: linorder_cases) auto
qed

lemma set_rank_heap:
  assumes "heap_ok (ma_heap A)" "snd (ma_heap A) < length (fst (ma_heap A))"
  shows "heap_ok (ma_heap (set_rank i r A))"
    "heap_keys (ma_heap (set_rank i r A)) = (if r \<noteq> RANK_NONE then add_mset (r * POS + i) (heap_keys (ma_heap A)) else heap_keys (ma_heap A))"
    "snd (ma_heap (set_rank i r A)) \<le> Suc (snd (ma_heap A))" "length (fst (ma_heap (set_rank i r A))) = length (fst (ma_heap A))"
  using push_laws [OF assms] assms(1) by (simp_all add: set_rank_def)

lemma join_at_heap:
  fixes r :: nat
  assumes l: "linked jn n ps ts A" and k: "Suc k < length ts"
    and h: "heap_ok (ma_heap A)" "Suc (snd (ma_heap A)) < length (fst (ma_heap A))"
  defines "H \<equiv> ma_heap (join_at jn n r (ps ! k) A)"
  shows "heap_ok H" "snd H \<le> snd (ma_heap A) + 2" "length (fst H) = length (fst (ma_heap A))"
    "heap_keys H = heap_keys (ma_heap A) +
       (if right_rank jn r ts k \<noteq> RANK_NONE then {#right_rank jn r ts k * POS + ps ! k#} else {#}) +
       (if k \<noteq> 0 \<and> jn (ts ! (k - 1)) r \<noteq> RANK_NONE then {#jn (ts ! (k - 1)) r * POS + ps ! (k - 1)#} else {#})"
proof -
  define A1 where "A1 = A\<lparr>ma_token := (ma_token A)[ps ! k := r], ma_next := (ma_next A)[ps ! k := link_after n ps (Suc k)],
       ma_prev := (if link_after n ps (Suc k) < n then (ma_prev A)[link_after n ps (Suc k) := int (ps ! k)] else ma_prev A),
       ma_rankAt := (ma_rankAt A)[ps ! Suc k := -1]\<rparr>"
  define A2 where "A2 = set_rank (ps ! k) (right_rank jn r ts k) A1"
  have f: "join_at jn n r (ps ! k) A = (if k = 0 then A2 else set_rank (ps ! (k - 1)) (jn (ts ! (k - 1)) r) A2)"
    unfolding A2_def A1_def by (rule join_at_fields [OF l k])
  have h1: "heap_ok (ma_heap A1)" "snd (ma_heap A1) < length (fst (ma_heap A1))" "ma_heap A1 = ma_heap A" using h by (simp_all add: A1_def)
  note g = set_rank_heap [OF h1(1,2), of "ps ! k" "right_rank jn r ts k", folded A2_def]
  have "snd (ma_heap A2) < length (fst (ma_heap A2))" using g(3,4) h(2) unfolding h1(3) by linarith
  note g' = set_rank_heap [OF g(1) this, of "ps ! (k - 1)" "jn (ts ! (k - 1)) r"]
  show "heap_ok H" unfolding H_def f using g(1) g'(1) by simp
  show "length (fst H) = length (fst (ma_heap A))" unfolding H_def f using g(4) g'(4) h1(3) by simp
  show "snd H \<le> snd (ma_heap A) + 2" unfolding H_def f using g(3) g'(3) h1(3) by (cases "k = 0") simp_all
  show "heap_keys H = heap_keys (ma_heap A) +
       (if right_rank jn r ts k \<noteq> RANK_NONE then {#right_rank jn r ts k * POS + ps ! k#} else {#}) +
       (if k \<noteq> 0 \<and> jn (ts ! (k - 1)) r \<noteq> RANK_NONE then {#jn (ts ! (k - 1)) r * POS + ps ! (k - 1)#} else {#})"
    unfolding H_def f using g(2) g'(2) h1(3) by (cases "k = 0") simp_all
qed

lemma keyedD:
  assumes "keyed jn n ps ts H"
  shows "heap_ok H" "\<And>k. k < length ts \<Longrightarrow> rank_after jn ts k \<noteq> RANK_NONE \<Longrightarrow> rank_after jn ts k * POS + ps ! k \<in># heap_keys H"
    "\<And>key. key \<in># heap_keys H \<Longrightarrow> key mod POS < n \<and> key div POS < RANK_NONE" "snd H + 2 * length ts \<le> length (fst H)"
  using assms by (auto simp: keyed_def)

lemma stale_keyed:
  assumes l: "linked jn n ps ts A" and n: "n \<le> POS" and q: "keyed jn n ps ts H0" "0 < snd H0" "pop H0 = (key, H)"
    and stale: "ma_rankAt A ! (key mod POS) \<noteq> int (key div POS)"
  shows "keyed jn n ps ts H"
proof -
  note p = pop_laws [OF keyedD(1) [OF q(1)] q(2,3)]
  have "rank_after jn ts k * POS + ps ! k \<in># heap_keys H" if k: "k < length ts" "rank_after jn ts k \<noteq> RANK_NONE" for k
  proof -
    note s = key_split [OF linked_simps(5) [OF l k(1)] n, of "rank_after jn ts k"]
    have "rank_after jn ts k * POS + ps ! k \<noteq> key" using stale linked_simps(4) [OF l k(1)] s by auto
    with keyedD(2) [OF q(1) k] p(2) show ?thesis by simp
  qed
  with keyedD(3,4) [OF q(1)] p show ?thesis by (auto simp: keyed_def)
qed

lemma join_keyed:
  assumes l: "linked jn n ps ts A" and n: "n \<le> POS" and jn: "\<And>a b. jn a b \<le> RANK_NONE"
    and q: "keyed jn n ps ts H0" "0 < snd H0" "pop H0 = (r * POS + ps ! k, ma_heap A)"
    and k: "Suc k < length ts"
  shows "keyed jn n (cut k ps) (merge_pair k r ts) (ma_heap (join_at jn n r (ps ! k) A))"
proof -
  let ?H = "ma_heap (join_at jn n r (ps ! k) A)" and ?ts = "merge_pair k r ts"
  note p = pop_laws [OF keyedD(1) [OF q(1)] q(2,3)]
  have room: "Suc (snd (ma_heap A)) < length (fst (ma_heap A))" using keyedD(4) [OF q(1)] p(4,5) k by linarith
  note h = join_at_heap [OF l k p(1) room, of r]
  have lps: "length ps = length ts" using linked_simps(6) [OF l, of k] k by simp
  have lt: "length ?ts = length ts - 1" using k by (simp add: merge_pair_length)
  have kept: "rank_after jn ts i * POS + ps ! i \<in># heap_keys ?H" if i: "i < length ts" "i \<noteq> k" "rank_after jn ts i \<noteq> RANK_NONE" for i
  proof -
    have "ps ! i \<noteq> ps ! k" using linked_same [OF l, of i k] i k by simp
    then have "rank_after jn ts i * POS + ps ! i \<noteq> r * POS + ps ! k"
      using key_split [OF linked_simps(5) [OF l, of i] n] key_split [OF linked_simps(5) [OF l, of k] n] i k by (metis Suc_lessD)
    with keyedD(2) [OF q(1) i(1,3)] p(2) have "rank_after jn ts i * POS + ps ! i \<in># heap_keys (ma_heap A)" by simp
    then show ?thesis unfolding h(4) by simp
  qed
  have "rank_after jn ?ts j * POS + cut k ps ! j \<in># heap_keys ?H"
    if j: "j < length ?ts" "rank_after jn ?ts j \<noteq> RANK_NONE" for j
  proof -
    consider "Suc j < k" | "Suc j = k" | "j = k" | "k < j" by linarith
    then show ?thesis
    proof cases
      case 1
      with j kept [of j] k lps lt show ?thesis by (simp add: rank_after_merge cut_nth)
    next
      case 2
      then have kj: "k \<noteq> 0" "k - 1 = j" by auto
      have "rank_after jn ?ts j = jn (ts ! j) r" "cut k ps ! j = ps ! j" using 2 j(1) k lps lt by (simp_all add: rank_after_merge cut_nth)
      with j(2) kj show ?thesis unfolding h(4) by simp
    next
      case 3
      then have "rank_after jn ?ts j = right_rank jn r ts k" "cut k ps ! j = ps ! k" using j(1) k lps lt by (simp_all add: rank_after_merge cut_nth)
      with j(2) show ?thesis unfolding h(4) by simp
    next
      case 4
      with j kept [of "Suc j"] k lps lt show ?thesis by (simp add: rank_after_merge cut_nth)
    qed
  qed
  moreover have "key mod POS < n \<and> key div POS < RANK_NONE" if key: "key \<in># heap_keys ?H" for key
  proof -
    have below: "right_rank jn r ts k \<le> RANK_NONE" "jn (ts ! (k - 1)) r \<le> RANK_NONE" using jn by (simp_all add: right_rank_def)
    have at_k: "ps ! k < n" "ps ! (k - 1) < n" using linked_simps(5) [OF l] k by simp_all
    have "key \<in># heap_keys (ma_heap A) \<or> (key = right_rank jn r ts k * POS + ps ! k \<and> right_rank jn r ts k \<noteq> RANK_NONE) \<or>
        (key = jn (ts ! (k - 1)) r * POS + ps ! (k - 1) \<and> jn (ts ! (k - 1)) r \<noteq> RANK_NONE)"
      using key unfolding h(4) by (auto split: if_splits)
    then show ?thesis
    proof (elim disjE conjE)
      assume "key \<in># heap_keys (ma_heap A)"
      with keyedD(3) [OF q(1), of key] p(2) show ?thesis by simp
    qed (use below at_k key_split n in auto)
  qed
  moreover have "snd ?H + 2 * length ?ts \<le> length (fst ?H)" using h(2,3) p(4,5) keyedD(4) [OF q(1)] lt k by linarith
  ultimately show ?thesis using h(1) unfolding keyed_def by blast
qed

lemma heap_loop_merge:
  assumes n: "n \<le> POS" and jn: "\<And>a b. jn a b \<le> RANK_NONE"
  shows "linked jn n ps ts A \<Longrightarrow> keyed jn n ps ts (ma_heap A) \<Longrightarrow> heap_loop jn n (length ts) A = Some (length (merge_all jn ts))"
proof (induction "2 * length ts + snd (ma_heap A)" arbitrary: ps ts A rule: less_induct)
  case less
  note l = less.prems(1) and q = less.prems(2)
  show ?case
  proof (cases "snd (ma_heap A) = 0")
    case True
    then have "heap_keys (ma_heap A) = {#}" by (simp add: heap_keys_def)
    then have none: "rank_after jn ts k = RANK_NONE" if "k < length ts" for k using keyedD(2) [OF q that] by auto
    have "RANK_NONE \<le> pair_ranks jn ts ! j" if "j < length ts - 1" for j
      using none [of j] that by (simp add: rank_after_def pair_ranks_nth less_diff_conv)
    then have "best_pair jn ts = None" by (simp add: best_pair_None)
    with True show ?thesis by (subst heap_loop.simps, subst merge_all.simps) simp
  next
    case False
    then have pos: "0 < snd (ma_heap A)" by simp
    obtain key H where p: "pop (ma_heap A) = (key, H)" by (cases "pop (ma_heap A)")
    note pl = pop_laws [OF keyedD(1) [OF q] pos p]
    let ?A = "A\<lparr>ma_heap := H\<rparr>" and ?r = "key div POS" and ?s = "key mod POS"
    have l': "linked jn n ps ts ?A" using l by (simp add: linked_def sized_def)
    have step: "heap_loop jn n (length ts) A = (if ma_rankAt A ! ?s \<noteq> int ?r then heap_loop jn n (length ts) ?A
        else heap_loop jn n (length ts - 1) (join_at jn n ?r ?s ?A))"
      by (subst heap_loop.simps) (use False p in \<open>simp add: Let_def key_unsplit\<close>)
    show ?thesis
    proof (cases "ma_rankAt A ! ?s \<noteq> int ?r")
      case True
      have "keyed jn n ps ts (ma_heap ?A)" using stale_keyed [OF l n q pos p True] by simp
      with less.hyps [of ts ?A ps] l' pl(4) step True show ?thesis by simp
    next
      case False
      have key: "key \<in># heap_keys (ma_heap A)" using pl(2) by simp
      with keyedD(3) [OF q] have kb: "?s < n" "?r < RANK_NONE" by auto
      have "?s \<in> set ps"
      proof (rule ccontr)
        assume "?s \<notin> set ps"
        with l kb have "ma_rankAt A ! ?s = -1" by (simp add: linked_def)
        with False show False by simp
      qed
      then obtain k where k: "k < length ts" "ps ! k = ?s" using l by (metis in_set_conv_nth linked_def)
      have r: "rank_after jn ts k = ?r" using linked_simps(4) [OF l k(1)] k(2) False by simp
      then have k': "Suc k < length ts" using kb by (simp add: rank_after_def split: if_splits)
      have key_eq: "key = ?r * POS + ps ! k" using k by simp
      have best: "is_best (pair_ranks jn ts) k"
      proof -
        have le: "?r < pair_ranks jn ts ! j \<or> ?r = pair_ranks jn ts ! j \<and> k \<le> j" if j: "j < length ts - 1" for j
        proof (cases "pair_ranks jn ts ! j < RANK_NONE")
          case True
          from j have j': "j < length ts" and ra: "rank_after jn ts j = pair_ranks jn ts ! j" by (auto simp: rank_after_def pair_ranks_nth)
          from keyedD(2) [OF q j'] True have "rank_after jn ts j * POS + ps ! j \<in># heap_keys (ma_heap A)" by (simp add: ra)
          with pl(3) have "?r * POS + ps ! k \<le> pair_ranks jn ts ! j * POS + ps ! j" by (simp add: ra flip: key_eq)
          with key_less [OF linked_simps(5) [OF l k(1)] linked_simps(5) [OF l j'] n]
          have "?r < pair_ranks jn ts ! j \<or> ?r = pair_ranks jn ts ! j \<and> ps ! k \<le> ps ! j" by simp
          moreover have "ps ! j < ps ! k" if "j < k"
            using that l k(1) by (simp add: linked_def sorted_wrt_iff_nth_less)
          ultimately show ?thesis by (metis not_le)
        qed (use kb in auto)
        have pk: "pair_ranks jn ts ! k = ?r" using r k' by (simp add: rank_after_def pair_ranks_nth)
        show ?thesis
        proof (rule is_bestI)
          show "k < length (pair_ranks jn ts)" using k' by simp
          show "pair_ranks jn ts ! k < RANK_NONE" unfolding pk by (rule kb(2))
          show "pair_ranks jn ts ! k < pair_ranks jn ts ! j \<or> pair_ranks jn ts ! k = pair_ranks jn ts ! j \<and> k \<le> j"
            if "j < length (pair_ranks jn ts)" for j using le [of j] that unfolding pk by simp
        qed
      qed
      have "linked jn n (cut k ps) (merge_pair k ?r ts) (join_at jn n ?r (ps ! k) ?A)" by (rule join_at_linked [OF l' k'])
      moreover have "keyed jn n (cut k ps) (merge_pair k ?r ts) (ma_heap (join_at jn n ?r (ps ! k) ?A))"
        by (rule join_keyed [OF l' n jn q pos _ k']) (simp add: p flip: key_eq)
      moreover have "2 * length (merge_pair k ?r ts) + snd (ma_heap (join_at jn n ?r (ps ! k) ?A)) < 2 * length ts + snd (ma_heap A)"
      proof -
        have room: "Suc (snd (ma_heap ?A)) < length (fst (ma_heap ?A))" using keyedD(4) [OF q] pl(4,5) k' by simp
        have ok: "heap_ok (ma_heap ?A)" using pl(1) by simp
        show ?thesis using join_at_heap(2) [OF l' k' ok room, of ?r] pl(4) k' by (simp add: merge_pair_length)
      qed
      ultimately have "heap_loop jn n (length (merge_pair k ?r ts)) (join_at jn n ?r (ps ! k) ?A) = Some (length (merge_all jn (merge_pair k ?r ts)))"
        using less.hyps by blast
      moreover have "merge_all jn ts = merge_all jn (merge_pair k ?r ts)"
        using best r k' by (subst merge_all.simps) (simp add: rank_after_def pair_ranks_nth flip: best_pair_iff)
      ultimately show ?thesis using step False k(2) k' by (simp add: merge_pair_length)
    qed
  qed
qed

subsection \<open>Filling the arrays\<close>

text \<open>The module's arrays were made together: of one length, and a heap of three times that.\<close>

definition arrays_ok :: "merge_arrays \<Rightarrow> bool" where
  "arrays_ok A \<longleftrightarrow> length (ma_prev A) = length (ma_next A) \<and> length (ma_token A) = length (ma_next A) \<and>
     length (ma_rankAt A) = length (ma_next A) \<and> length (fst (ma_heap A)) = 3 * length (ma_next A)"

lemma grown_sized: "arrays_ok A \<Longrightarrow> sized n (grown n A) \<and> 3 * n \<le> length (fst (ma_heap (grown n A))) \<and> snd (ma_heap (grown n A)) = 0"
  by (auto simp: arrays_ok_def grown_def sized_def)

lemma fill_part_fold:
  assumes "sized n A" "m \<le> n"
  shows "sized n (fold (fill_part byteRank bytes) [0..<m] A) \<and> ma_heap (fold (fill_part byteRank bytes) [0..<m] A) = ma_heap A \<and>
    (\<forall>i < m. ma_next (fold (fill_part byteRank bytes) [0..<m] A) ! i = i + 1 \<and>
       ma_prev (fold (fill_part byteRank bytes) [0..<m] A) ! i = int i - 1 \<and>
       ma_token (fold (fill_part byteRank bytes) [0..<m] A) ! i = byteRank (bytes ! i))"
  using assms
proof (induction m)
  case (Suc m)
  then show ?case by (auto simp: fill_part_def sized_def nth_list_update less_Suc_eq)
qed simp

text \<open>After the first ranks were written: what the arrays and the heap hold.\<close>

definition ranked :: "joins \<Rightarrow> nat \<Rightarrow> nat \<Rightarrow> merge_arrays \<Rightarrow> merge_arrays \<Rightarrow> bool" where
  "ranked jn n m A B \<longleftrightarrow> ma_next B = ma_next A \<and> ma_prev B = ma_prev A \<and> ma_token B = ma_token A \<and>
     length (ma_rankAt B) = length (ma_rankAt A) \<and>
     (\<forall>i < m. ma_rankAt B ! i = int (jn (ma_token A ! i) (ma_token A ! Suc i))) \<and>
     heap_ok (ma_heap B) \<and> snd (ma_heap B) \<le> m \<and> length (fst (ma_heap B)) = length (fst (ma_heap A)) \<and>
     (\<forall>i < m. jn (ma_token A ! i) (ma_token A ! Suc i) \<noteq> RANK_NONE \<longrightarrow>
        jn (ma_token A ! i) (ma_token A ! Suc i) * POS + i \<in># heap_keys (ma_heap B)) \<and>
     (\<forall>key \<in># heap_keys (ma_heap B). key mod POS < n \<and> key div POS < RANK_NONE)"

lemma fill_rank_ranked:
  assumes r: "ranked jn n m A B" and m: "m < n" "n \<le> POS" "n \<le> length (ma_rankAt A)" "n \<le> length (fst (ma_heap A))"
    and jn: "\<And>a b. jn a b \<le> RANK_NONE"
  shows "ranked jn n (Suc m) A (fill_rank jn m B)"
proof -
  let ?r = "jn (ma_token A ! m) (ma_token A ! Suc m)"
  have f: "fill_rank jn m B = set_rank m ?r B" using r by (simp add: fill_rank_def ranked_def)
  have room: "heap_ok (ma_heap B)" "snd (ma_heap B) < length (fst (ma_heap B))" using r m by (simp_all add: ranked_def)
  note h = set_rank_heap [OF room, of m ?r]
  have "?r = RANK_NONE \<or> ?r < RANK_NONE" using jn [of "ma_token A ! m" "ma_token A ! Suc m"] by linarith
  then have "\<forall>key \<in># heap_keys (ma_heap (set_rank m ?r B)). key mod POS < n \<and> key div POS < RANK_NONE"
    using r m key_split [OF m(1,2), of ?r] unfolding h(2) ranked_def by auto
  moreover have "\<forall>i < Suc m. jn (ma_token A ! i) (ma_token A ! Suc i) \<noteq> RANK_NONE \<longrightarrow>
        jn (ma_token A ! i) (ma_token A ! Suc i) * POS + i \<in># heap_keys (ma_heap (set_rank m ?r B))"
    using r unfolding h(2) ranked_def by (auto simp: less_Suc_eq)
  moreover have "\<forall>i < Suc m. ma_rankAt (set_rank m ?r B) ! i = int (jn (ma_token A ! i) (ma_token A ! Suc i))"
    using r m by (auto simp: ranked_def less_Suc_eq nth_list_update)
  ultimately show ?thesis using r h(1,3,4) unfolding f ranked_def by simp
qed

lemma fill_ranks:
  assumes "n \<le> POS" "n \<le> length (ma_rankAt A)" "n \<le> length (fst (ma_heap A))" "snd (ma_heap A) = 0" "\<And>a b. jn a b \<le> RANK_NONE"
  shows "m < n \<Longrightarrow> ranked jn n m A (fold (fill_rank jn) [0..<m] A)"
proof (induction m)
  case 0
  then show ?case using assms by (simp add: ranked_def heap_ok_def heap_order_def heap_keys_def)
next
  case (Suc m)
  then show ?case using fill_rank_ranked [of jn n m A] assms by simp
qed

text \<open>Whatever its arrays held, \<open>heapMerge\<close> returns, with as many tokens as the rule leaves.\<close>

lemma heapMerge_merge:
  assumes A: "arrays_ok scratch" and n: "length bytes \<le> POS" and jn: "\<And>a b. jn a b \<le> RANK_NONE"
  shows "heapMerge jn byteRank scratch bytes = Some (length (merge_all jn (map byteRank bytes)))"
proof (cases "length bytes < 2")
  case True
  then have "best_pair jn (map byteRank bytes) = None" by (simp add: best_pair_None)
  with True show ?thesis by (subst merge_all.simps) (simp add: heapMerge_def)
next
  case False
  let ?n = "length bytes" and ?ts = "map byteRank bytes"
  define A1 where "A1 = fold (fill_part byteRank bytes) [0..<?n] (grown ?n scratch)"
  define A2 where "A2 = fold (fill_rank jn) [0..<?n - 1] A1"
  let ?A = "A2\<lparr>ma_rankAt := (ma_rankAt A2)[?n - 1 := int RANK_NONE]\<rparr>"
  note g = grown_sized [OF A, of ?n]
  have a1: "sized ?n A1" "ma_heap A1 = ma_heap (grown ?n scratch)"
    "i < ?n \<Longrightarrow> ma_next A1 ! i = i + 1 \<and> ma_prev A1 ! i = int i - 1 \<and> ma_token A1 ! i = byteRank (bytes ! i)" for i
    using fill_part_fold [of ?n "grown ?n scratch" ?n byteRank bytes] g by (auto simp: A1_def)
  have "ranked jn ?n (?n - 1) A1 A2"
    unfolding A2_def using a1 g False by (intro fill_ranks n jn) (auto simp: sized_def)
  note r = this [unfolded ranked_def]
  have tok: "jn (ma_token A1 ! i) (ma_token A1 ! Suc i) = rank_after jn ?ts i" if "i < ?n - 1" for i
    using that a1(3) [of i] a1(3) [of "Suc i"] by (simp add: rank_after_def less_diff_conv)
  have last: "rank_after jn ?ts i = RANK_NONE" if "\<not> i < ?n - 1" for i using that by (simp add: rank_after_def less_diff_conv)
  have "ma_rankAt ?A ! i = int (rank_after jn ?ts i)" if "i < ?n" for i
    using that r tok [of i] last [of i] a1(1) by (cases "i < ?n - 1") (auto simp: sized_def nth_list_update)
  then have "linked jn ?n [0..<?n] ?ts ?A"
    using r a1(1,3) False by (auto simp: linked_def sized_def link_after_def link_before_def)
  moreover have "keyed jn ?n [0..<?n] ?ts (ma_heap ?A)"
  proof -
    have "rank_after jn ?ts i * POS + i \<in># heap_keys (ma_heap A2)" if "i < ?n" "rank_after jn ?ts i \<noteq> RANK_NONE" for i
      using that r tok [of i] last [of i] by metis
    moreover have "snd (ma_heap A2) + 2 * ?n \<le> length (fst (ma_heap A2))" using r g a1(2) by auto
    ultimately show ?thesis using r by (simp add: keyed_def)
  qed
  ultimately have "heap_loop jn ?n (length ?ts) ?A = Some (length (merge_all jn ?ts))" by (rule heap_loop_merge [OF n jn])
  with False show ?thesis by (simp add: heapMerge_def Let_def A1_def A2_def)
qed

end
