(* ===== verification/Bpe_Count.thy ===== *)
theory Bpe_Count
  imports Bpe_Merge Token_Estimate
begin

text \<open>
  \<open>countCl100k\<close> of \<open>src/lib/bpeCount.ts\<close> and the counts of \<open>src/lib/tokenizer.ts\<close> over it. A text is its
  list of UTF-16 code units. The cut into pieces is a regular expression of the rank file, and is an
  argument; so are the ranks. The arrays an earlier piece left behind are arbitrary: an argument gives
  them for each piece and offset.
\<close>

definition SCAN_BYTES :: nat where "SCAN_BYTES = 64"
definition SLICE_BYTES :: nat where "SLICE_BYTES = 64 * 1024"
definition CUT_MARGIN :: nat where "CUT_MARGIN = 8"

record cl100k =
  cl_ranks :: rank_map
  cl_byteRank :: "char \<Rightarrow> nat"
  cl_longest :: nat
  cl_pairs :: pair_table

type_synonym leftovers = "nat \<Rightarrow> (nat list \<times> nat list) \<times> merge_arrays"

text \<open>\<open>load\<close>, after the rank file was read into the map.\<close>

definition load :: "rank_map \<Rightarrow> cl100k option" where
  "load ranks = (case buildPairs ranks of None \<Rightarrow> None | Some t \<Rightarrow>
     Some \<lparr>cl_ranks = ranks, cl_byteRank = (\<lambda>b. option_or (map_of ranks [b]) RANK_NONE),
       cl_longest = fold (\<lambda>e m. max m (length (fst e))) ranks 0, cl_pairs = t\<rparr>)"

text \<open>A lookup, as a number: it ends in every table that was built.\<close>

definition cl_joins :: "cl100k \<Rightarrow> joins" where
  "cl_joins d a b = option_or (joined (cl_pairs d) a b) RANK_NONE"

definition continuation :: "char \<Rightarrow> bool" where
  "continuation c \<longleftrightarrow> (of_char c :: nat) div 64 = 2"

text \<open>\<open>while (continuation) to--\<close>; the first byte of a piece is no continuation.\<close>

fun back_up :: "string \<Rightarrow> nat \<Rightarrow> nat" where
  "back_up bytes 0 = 0"
| "back_up bytes (Suc i) = (if continuation (bytes ! Suc i) then back_up bytes i else Suc i)"

partial_function (option) slices_from :: "cl100k \<Rightarrow> leftovers \<Rightarrow> string \<Rightarrow> nat \<Rightarrow> nat \<Rightarrow> nat option" where
  "slices_from d left bytes i tot = (if SLICE_BYTES < length bytes - i then
       (let to_ix = back_up bytes (i + SLICE_BYTES) in
        Option.bind (heapMerge (cl_joins d) (cl_byteRank d) (snd (left i)) (take (to_ix - i) (drop i bytes)))
          (\<lambda>m. slices_from d left bytes to_ix (tot + m + CUT_MARGIN)))
     else Option.bind (heapMerge (cl_joins d) (cl_byteRank d) (snd (left i)) (drop i bytes)) (\<lambda>m. Some (tot + m)))"

definition longPiece :: "cl100k \<Rightarrow> leftovers \<Rightarrow> string \<Rightarrow> nat option" where
  "longPiece d left bytes = (if length bytes \<le> SLICE_BYTES
     then heapMerge (cl_joins d) (cl_byteRank d) (snd (left 0)) bytes else slices_from d left bytes 0 0)"

subsection \<open>Bytes\<close>

definition utf8_unit :: "nat \<Rightarrow> nat list" where
  "utf8_unit x = (if x < 0x80 then [x]
     else if x < 0x800 then [0xc0 + x div 64, 0x80 + x mod 64]
     else if 0xd800 \<le> x \<and> x < 0xe000 then [0xef, 0xbf, 0xbd]
     else [0xe0 + x div 4096, 0x80 + x div 64 mod 64, 0x80 + x mod 64])"

definition utf8_pair :: "nat \<Rightarrow> nat \<Rightarrow> nat list" where
  "utf8_pair x y = (let c = 0x10000 + (x - 0xd800) * 0x400 + (y - 0xdc00) in
     [0xf0 + c div 262144, 0x80 + c div 4096 mod 64, 0x80 + c div 64 mod 64, 0x80 + c mod 64])"

fun utf8_encode :: "nat list \<Rightarrow> nat list" where
  "utf8_encode [] = []"
| "utf8_encode [x] = utf8_unit x"
| "utf8_encode (x # y # r) = (if 0xd800 \<le> x \<and> x < 0xdc00 \<and> 0xdc00 \<le> y \<and> y < 0xe000 then utf8_pair x y @ utf8_encode r
     else utf8_unit x @ utf8_encode (y # r))"

definition utf8Bytes :: "nat list \<Rightarrow> string" where
  "utf8Bytes piece = (if list_ex (\<lambda>x. 0x7f < x) piece then map char_of (utf8_encode piece) else map char_of piece)"

definition piece_count :: "cl100k \<Rightarrow> leftovers \<Rightarrow> string \<Rightarrow> nat option" where
  "piece_count d left bytes =
     (if length bytes = 1 \<or> length bytes \<le> cl_longest d \<and> map_of (cl_ranks d) bytes \<noteq> None then Some 1
      else if length bytes \<le> SCAN_BYTES then Some (scanMerge (cl_joins d) (cl_byteRank d) (fst (left 0)) bytes)
      else longPiece d left bytes)"

fun count_pieces :: "cl100k \<Rightarrow> (nat \<Rightarrow> leftovers) \<Rightarrow> nat \<Rightarrow> nat list list \<Rightarrow> nat option" where
  "count_pieces d left i [] = Some 0"
| "count_pieces d left i (p # ps) = Option.bind (piece_count d (left i) (utf8Bytes p))
     (\<lambda>m. map_option ((+) m) (count_pieces d left (Suc i) ps))"

definition countCl100k :: "(nat list \<Rightarrow> nat list list) \<Rightarrow> cl100k \<Rightarrow> (nat \<Rightarrow> leftovers) \<Rightarrow> nat list \<Rightarrow> nat option" where
  "countCl100k pieces d left text = count_pieces d left 0 (pieces text)"

subsection \<open>The reference: merging byte strings\<close>

text \<open>
  What the file says it counts: the adjacent pair of strings with the lowest rank is joined, the leftmost
  on a tie, until no pair is a token; a piece that is a token is one.
\<close>

definition byte_pairs :: "rank_map \<Rightarrow> string list \<Rightarrow> nat list" where
  "byte_pairs ranks ps = map2 (\<lambda>A B. option_or (map_of ranks (A @ B)) RANK_NONE) ps (tl ps)"

lemma length_byte_pairs [simp]: "length (byte_pairs ranks ps) = length ps - 1"
  by (simp add: byte_pairs_def)

function bpe :: "rank_map \<Rightarrow> string list \<Rightarrow> string list" where
  "bpe ranks ps = (case best_of (byte_pairs ranks ps) of
      None \<Rightarrow> ps
    | Some i \<Rightarrow> bpe ranks (take i ps @ (ps ! i @ ps ! Suc i) # drop (i + 2) ps))"
  by auto
termination
  by (relation "measure (\<lambda>(ranks, ps). length ps)") (auto simp: best_of_iff is_best_def)

declare bpe.simps [simp del]

definition reference_count :: "rank_map \<Rightarrow> string \<Rightarrow> nat" where
  "reference_count ranks bytes = (if map_of ranks bytes \<noteq> None then 1 else length (bpe ranks (map (\<lambda>c. [c]) bytes)))"

text \<open>The rank file names every byte.\<close>

definition names_bytes :: "rank_map \<Rightarrow> bool" where
  "names_bytes ranks \<longleftrightarrow> (\<forall>c. map_of ranks [c] \<noteq> None)"

definition rank_of :: "rank_map \<Rightarrow> string \<Rightarrow> nat" where
  "rank_of ranks p = option_or (map_of ranks p) RANK_NONE"

definition all_tokens :: "rank_map \<Rightarrow> string list \<Rightarrow> bool" where
  "all_tokens ranks ps \<longleftrightarrow> (\<forall>p \<in> set ps. map_of ranks p \<noteq> None)"

lemma merge_all_bpe:
  assumes jn: "\<And>A B. map_of ranks A \<noteq> None \<Longrightarrow> map_of ranks B \<noteq> None \<Longrightarrow> jn (rank_of ranks A) (rank_of ranks B) = rank_of ranks (A @ B)"
  shows "all_tokens ranks ps \<Longrightarrow> merge_all jn (map (rank_of ranks) ps) = map (rank_of ranks) (bpe ranks ps)"
proof (induction "length ps" arbitrary: ps rule: less_induct)
  case less
  have tok: "map_of ranks (ps ! i) \<noteq> None" if "i < length ps" for i using less.prems that by (simp add: all_tokens_def)
  have pairs: "pair_ranks jn (map (rank_of ranks) ps) = byte_pairs ranks ps"
  proof (rule nth_equalityI)
    fix i assume i: "i < length (pair_ranks jn (map (rank_of ranks) ps))"
    then show "pair_ranks jn (map (rank_of ranks) ps) ! i = byte_pairs ranks ps ! i"
      using jn [OF tok [of i] tok [of "Suc i"]] by (simp add: pair_ranks_nth byte_pairs_def nth_tl rank_of_def less_diff_conv)
  qed simp
  show ?case
  proof (cases "best_of (byte_pairs ranks ps)")
    case None
    then show ?thesis by (subst merge_all.simps, subst bpe.simps) (simp add: best_pair_def pairs)
  next
    case (Some i)
    let ?ps = "take i ps @ (ps ! i @ ps ! Suc i) # drop (i + 2) ps" and ?r = "byte_pairs ranks ps ! i"
    have i: "Suc i < length ps" "?r < RANK_NONE" using Some by (auto simp: best_of_iff is_best_def)
    then have r: "?r = rank_of ranks (ps ! i @ ps ! Suc i)" by (simp add: byte_pairs_def nth_tl rank_of_def)
    with i(2) have "map_of ranks (ps ! i @ ps ! Suc i) \<noteq> None"
      by (cases "map_of ranks (ps ! i @ ps ! Suc i)") (auto simp: rank_of_def)
    with less.prems have "all_tokens ranks ?ps" by (auto simp: all_tokens_def dest: in_set_takeD in_set_dropD)
    moreover have "length ?ps < length ps" using i by simp
    ultimately have "merge_all jn (map (rank_of ranks) ?ps) = map (rank_of ranks) (bpe ranks ?ps)" using less.hyps by blast
    moreover have "map (rank_of ranks) ?ps = merge_pair i ?r (map (rank_of ranks) ps)"
      by (simp add: merge_pair_def r take_map drop_map)
    ultimately show ?thesis using Some by (subst merge_all.simps, subst bpe.simps) (simp add: best_pair_def pairs)
  qed
qed

lemma load_joins:
  assumes g: "good_ranks ranks" and d: "load ranks = Some d"
  shows "map_of ranks A \<noteq> None \<Longrightarrow> map_of ranks B \<noteq> None \<Longrightarrow> cl_joins d (rank_of ranks A) (rank_of ranks B) = rank_of ranks (A @ B)"
    "cl_joins d a b \<le> RANK_NONE"
    "cl_byteRank d c = rank_of ranks [c]" "cl_ranks d = ranks"
    "length bytes \<le> cl_longest d \<and> map_of ranks bytes \<noteq> None \<longleftrightarrow> map_of ranks bytes \<noteq> None"
proof -
  obtain t where t: "buildPairs ranks = Some t"
    "\<And>A B a b. map_of ranks A = Some a \<Longrightarrow> map_of ranks B = Some b \<Longrightarrow>
       joined t a b = Some (option_or (map_of ranks (A @ B)) RANK_NONE)"
    "\<And>a b. \<exists>r. joined t a b = Some r \<and> r \<le> RANK_NONE" by (rule buildPairs_joins [OF g]) blast
  with d have d': "cl_pairs d = t" "cl_ranks d = ranks" "cl_byteRank d = (\<lambda>b. option_or (map_of ranks [b]) RANK_NONE)"
    "cl_longest d = fold (\<lambda>e m. max m (length (fst e))) ranks 0" by (auto simp: load_def)
  then show "cl_ranks d = ranks" "cl_byteRank d c = rank_of ranks [c]" by (simp_all add: rank_of_def)
  show "cl_joins d a b \<le> RANK_NONE" using t(3) [of a b] by (auto simp: cl_joins_def d'(1))
  show "map_of ranks A \<noteq> None \<Longrightarrow> map_of ranks B \<noteq> None \<Longrightarrow> cl_joins d (rank_of ranks A) (rank_of ranks B) = rank_of ranks (A @ B)"
    using t(2) [of A _ B] by (auto simp: cl_joins_def d'(1) rank_of_def)
  have f: "m \<le> fold (\<lambda>e m. max m (length (fst e))) rs m \<and> (\<forall>e \<in> set rs. length (fst e) \<le> fold (\<lambda>e m. max m (length (fst e))) rs m)" for rs :: rank_map and m
  proof (induction rs arbitrary: m)
    case (Cons e rs)
    from Cons [of "max m (length (fst e))"] show ?case by auto
  qed simp
  show "length bytes \<le> cl_longest d \<and> map_of ranks bytes \<noteq> None \<longleftrightarrow> map_of ranks bytes \<noteq> None"
    using f [of 0 ranks] by (force simp: d'(4) dest: map_of_SomeD)
qed

text \<open>What earlier pieces left has the arrays' sizes.\<close>

definition left_ok :: "leftovers \<Rightarrow> bool" where
  "left_ok left \<longleftrightarrow> (\<forall>i. length (fst (fst (left i))) = SCAN_BYTES \<and> length (snd (fst (left i))) = SCAN_BYTES \<and> arrays_ok (snd (left i)))"

lemma start_bpe:
  assumes g: "good_ranks ranks" "names_bytes ranks" "load ranks = Some d"
  shows "length (merge_all (cl_joins d) (map (cl_byteRank d) bytes)) = length (bpe ranks (map (\<lambda>c. [c]) bytes))"
proof -
  have "map (cl_byteRank d) bytes = map (rank_of ranks) (map (\<lambda>c. [c]) bytes)" by (simp add: load_joins(3) [OF g(1,3)])
  moreover have "all_tokens ranks (map (\<lambda>c. [c]) bytes)" using g(2) by (auto simp: all_tokens_def names_bytes_def)
  note merge_all_bpe [of ranks "cl_joins d", OF load_joins(1) [OF g(1,3)] this]
  ultimately show ?thesis by (metis length_map)
qed

lemma heap_count:
  assumes g: "good_ranks ranks" "names_bytes ranks" "load ranks = Some d" and l: "left_ok left" "length bytes \<le> POS"
  shows "heapMerge (cl_joins d) (cl_byteRank d) (snd (left i)) bytes = Some (length (bpe ranks (map (\<lambda>c. [c]) bytes)))"
  using heapMerge_merge [of "snd (left i)" bytes "cl_joins d" "cl_byteRank d"] l load_joins(2) [OF g(1,3)] start_bpe [OF g]
  by (simp add: left_ok_def)

lemma scan_count:
  assumes g: "good_ranks ranks" "names_bytes ranks" "load ranks = Some d" and l: "left_ok left" "length bytes \<le> SCAN_BYTES"
  shows "scanMerge (cl_joins d) (cl_byteRank d) (fst (left i)) bytes = length (bpe ranks (map (\<lambda>c. [c]) bytes))"
  using scanMerge_merge [of bytes "fst (left i)" "cl_joins d" "cl_byteRank d"] l start_bpe [OF g] by (simp add: left_ok_def)

lemma piece_exact:
  assumes g: "good_ranks ranks" "names_bytes ranks" "load ranks = Some d" and l: "left_ok left" "length bytes \<le> SLICE_BYTES"
  shows "piece_count d left bytes = Some (reference_count ranks bytes)"
proof -
  have pos: "length bytes \<le> POS" using l(2) by (simp add: SLICE_BYTES_def POS_def)
  have one: "map_of ranks bytes \<noteq> None" if "length bytes = 1"
    using that g(2) by (auto simp: names_bytes_def length_Suc_conv)
  have "(length bytes = 1 \<or> length bytes \<le> cl_longest d \<and> map_of (cl_ranks d) bytes \<noteq> None) \<longleftrightarrow> map_of ranks bytes \<noteq> None"
    using load_joins(4,5) [OF g(1,3)] one by metis
  then show ?thesis
    using scan_count [OF g l(1), of bytes 0] heap_count [OF g l(1) pos, of 0] l(2)
    by (simp add: piece_count_def reference_count_def longPiece_def)
qed

lemma count_pieces_exact:
  assumes g: "good_ranks ranks" "names_bytes ranks" "load ranks = Some d" and l: "\<And>i. left_ok (left i)"
  shows "\<forall>p \<in> set ps. length (utf8Bytes p) \<le> SLICE_BYTES \<Longrightarrow>
    count_pieces d left i ps = Some (sum_list (map (\<lambda>p. reference_count ranks (utf8Bytes p)) ps))"
  by (induction ps arbitrary: i) (simp_all add: piece_exact [OF g l])

subsection \<open>Slices\<close>

text \<open>In UTF-8 no four bytes in a row are continuations, and the first one is none.\<close>

definition utf8_ok :: "string \<Rightarrow> bool" where
  "utf8_ok bytes \<longleftrightarrow> (\<forall>i < length bytes. \<exists>j \<le> 3. j \<le> i \<and> \<not> continuation (bytes ! (i - j)))"

lemma continuation_char: "continuation (char_of (n :: nat)) \<longleftrightarrow> n mod 256 div 64 = 2"
  by (simp add: continuation_def)

lemma utf8_ok_append:
  assumes "\<not> continuation l" "length cs \<le> 3" "utf8_ok rest"
  shows "utf8_ok ((l # cs) @ rest)"
  unfolding utf8_ok_def
proof (intro allI impI)
  fix i
  assume i: "i < length ((l # cs) @ rest)"
  show "\<exists>j \<le> 3. j \<le> i \<and> \<not> continuation (((l # cs) @ rest) ! (i - j))"
  proof (cases "i < length (l # cs)")
    case True
    with assms(1,2) show ?thesis by (intro exI [of _ i]) auto
  next
    case False
    let ?k = "i - length (l # cs)"
    have "?k < length rest" using i False by simp
    with assms(3) obtain j where j: "j \<le> 3" "j \<le> ?k" "\<not> continuation (rest ! (?k - j))" unfolding utf8_ok_def by blast
    moreover have "((l # cs) @ rest) ! (i - j) = rest ! (?k - j)" using False j(2)
      by (subst nth_append) (auto intro: arg_cong [where f = "(!) rest"])
    ultimately show ?thesis using False by (intro exI [of _ j]) auto
  qed
qed

lemma utf8_unit_shape: "x < 0x10000 \<Longrightarrow> \<exists>l cs. map char_of (utf8_unit x) = l # cs \<and> \<not> continuation l \<and> length cs \<le> 3"
proof -
  assume x: "x < 0x10000"
  then have "x div 64 < 32" if "x < 0x800" using that by (simp add: less_mult_imp_div_less)
  moreover have "x div 4096 < 16" using x by (simp add: less_mult_imp_div_less)
  ultimately show ?thesis by (auto simp: utf8_unit_def continuation_char)
qed

lemma utf8_pair_shape:
  "0xd800 \<le> x \<Longrightarrow> x < 0xdc00 \<Longrightarrow> 0xdc00 \<le> y \<Longrightarrow> y < 0xe000 \<Longrightarrow>
   \<exists>l cs. map char_of (utf8_pair x y) = l # cs \<and> \<not> continuation l \<and> length cs \<le> 3"
proof -
  assume "0xd800 \<le> x" "x < 0xdc00" "0xdc00 \<le> y" "y < 0xe000"
  then have "(0x10000 + (x - 0xd800) * 0x400 + (y - 0xdc00)) div 262144 < 8" by (intro less_mult_imp_div_less) linarith
  then show ?thesis by (simp add: utf8_pair_def Let_def continuation_char)
qed

lemma utf8_encode_ok: "\<forall>x \<in> set p. x < 0x10000 \<Longrightarrow> utf8_ok (map char_of (utf8_encode p))"
proof (induction p rule: utf8_encode.induct)
  case 1
  then show ?case by (simp add: utf8_ok_def)
next
  case (2 x)
  obtain l cs where "map char_of (utf8_unit x) = l # cs" "\<not> continuation l" "length cs \<le> 3" using utf8_unit_shape [of x] 2 by auto
  with utf8_ok_append [of l cs "[]"] show ?case by (simp add: utf8_ok_def)
next
  case (3 x y r)
  show ?case
  proof (cases "0xd800 \<le> x \<and> x < 0xdc00 \<and> 0xdc00 \<le> y \<and> y < 0xe000")
    case True
    then have "\<exists>l cs. map char_of (utf8_pair x y) = l # cs \<and> \<not> continuation l \<and> length cs \<le> 3" by (intro utf8_pair_shape) auto
    then obtain l cs where "map char_of (utf8_pair x y) = l # cs" "\<not> continuation l" "length cs \<le> 3" by (elim exE conjE)
    with utf8_ok_append [of l cs "map char_of (utf8_encode r)"] 3 True show ?thesis by simp
  next
    case False
    obtain l cs where "map char_of (utf8_unit x) = l # cs" "\<not> continuation l" "length cs \<le> 3" using utf8_unit_shape [of x] 3(3) by auto
    moreover have "utf8_encode (x # y # r) = utf8_unit x @ utf8_encode (y # r)" by (simp only: utf8_encode.simps False if_False)
    moreover have "utf8_ok (map char_of (utf8_encode (y # r)))" using 3(2) [OF False] 3(3) by simp
    ultimately show ?thesis using utf8_ok_append [of l cs "map char_of (utf8_encode (y # r))"] by simp
  qed
qed

lemma utf8Bytes_ok: "\<forall>x \<in> set p. x < 0x10000 \<Longrightarrow> utf8_ok (utf8Bytes p)"
proof (cases "list_ex (\<lambda>x. 0x7f < x) p")
  case False
  have "\<not> continuation (char_of n)" if "n \<le> 0x7f" for n :: nat
    using that div_le_mono [of n "0x7f" 64] by (simp add: continuation_char)
  with False have "utf8_ok (map char_of p)" by (auto simp: utf8_ok_def list_ex_iff not_less intro!: exI [of _ 0])
  with False show ?thesis by (simp add: utf8Bytes_def)
qed (simp add: utf8Bytes_def utf8_encode_ok)

lemma back_up_stops:
  "\<not> continuation (bytes ! (i - j)) \<Longrightarrow> j < i \<Longrightarrow>
   i - j \<le> back_up bytes i \<and> back_up bytes i \<le> i \<and> \<not> continuation (bytes ! back_up bytes i)"
proof (induction i arbitrary: j)
  case (Suc i)
  show ?case
  proof (cases "continuation (bytes ! Suc i)")
    case True
    with Suc.prems obtain k where k: "j = Suc k" by (cases j) auto
    with Suc.IH [of k] Suc.prems True show ?thesis by auto
  qed simp
qed simp

text \<open>The slices of a long piece: how it is cut, whatever the merge counts.\<close>

lemma slices_count:
  assumes g: "good_ranks ranks" "names_bytes ranks" "load ranks = Some d" and l: "left_ok left" and u: "utf8_ok bytes"
  shows "i < length bytes \<Longrightarrow> \<not> continuation (bytes ! i) \<Longrightarrow>
    \<exists>ss. concat ss = drop i bytes \<and> ss \<noteq> [] \<and> (\<forall>s \<in> set ss. s \<noteq> [] \<and> length s \<le> SLICE_BYTES \<and> \<not> continuation (hd s)) \<and>
      slices_from d left bytes i tot = Some (tot + sum_list (map (\<lambda>s. length (bpe ranks (map (\<lambda>c. [c]) s))) ss) + CUT_MARGIN * (length ss - 1))"
proof (induction "length bytes - i" arbitrary: i tot rule: less_induct)
  case less
  have pos: "SLICE_BYTES \<le> POS" by (simp add: SLICE_BYTES_def POS_def)
  show ?case
  proof (cases "SLICE_BYTES < length bytes - i")
    case False
    let ?s = "drop i bytes"
    have "heapMerge (cl_joins d) (cl_byteRank d) (snd (left i)) ?s = Some (length (bpe ranks (map (\<lambda>c. [c]) ?s)))"
      using False pos by (intro heap_count [OF g l]) simp
    then have "slices_from d left bytes i tot = Some (tot + length (bpe ranks (map (\<lambda>c. [c]) ?s)))"
      using False by (subst slices_from.simps) simp
    with less.prems False show ?thesis by (intro exI [of _ "[?s]"]) (simp add: hd_drop_conv_nth)
  next
    case True
    let ?t = "i + SLICE_BYTES"
    have "?t < length bytes" using True by linarith
    with u obtain j where j: "j \<le> 3" "j \<le> ?t" "\<not> continuation (bytes ! (?t - j))" unfolding utf8_ok_def by blast
    define k where "k = back_up bytes ?t"
    have k: "?t - j \<le> k" "k \<le> ?t" "\<not> continuation (bytes ! k)"
      using back_up_stops [OF j(3)] j(1) by (simp_all add: k_def SLICE_BYTES_def)
    have ik: "i < k" "k < length bytes" using k j(1) True by (auto simp: SLICE_BYTES_def)
    let ?s = "take (k - i) (drop i bytes)"
    have ls: "length ?s = k - i" "k - i \<le> SLICE_BYTES" using ik k(2) by auto
    have m: "heapMerge (cl_joins d) (cl_byteRank d) (snd (left i)) ?s = Some (length (bpe ranks (map (\<lambda>c. [c]) ?s)))"
      using ls pos by (intro heap_count [OF g l]) simp
    let ?n = "length (bpe ranks (map (\<lambda>c. [c]) ?s))"
    have "slices_from d left bytes i tot = slices_from d left bytes k (tot + ?n + CUT_MARGIN)"
      using True m by (subst slices_from.simps) (simp add: Let_def flip: k_def)
    moreover obtain ss where ss: "concat ss = drop k bytes" "ss \<noteq> []"
      "\<forall>s \<in> set ss. s \<noteq> [] \<and> length s \<le> SLICE_BYTES \<and> \<not> continuation (hd s)"
      "slices_from d left bytes k (tot + ?n + CUT_MARGIN) = Some (tot + ?n + CUT_MARGIN +
         sum_list (map (\<lambda>s. length (bpe ranks (map (\<lambda>c. [c]) s))) ss) + CUT_MARGIN * (length ss - 1))"
      using less.hyps [of k "tot + ?n + CUT_MARGIN"] ik k(3) by (auto simp: diff_less_mono2)
    moreover have "concat (?s # ss) = drop i bytes"
      using ss(1) ik append_take_drop_id [of "k - i" "drop i bytes"] by simp
    moreover have "hd ?s = bytes ! i" "?s \<noteq> []" using ik ls less.prems by (auto simp: hd_take hd_drop_conv_nth)
    moreover have "CUT_MARGIN * (length (?s # ss) - 1) = CUT_MARGIN + CUT_MARGIN * (length ss - 1)" using ss(2) by (cases ss) simp_all
    moreover have "length ?s \<le> SLICE_BYTES" using ls by simp
    ultimately show ?thesis using less.prems(2)
      by (intro exI [of _ "?s # ss"]) (simp only: ss(4) sum_list.Cons list.map list.set ball_simps, simp)
  qed
qed

subsection \<open>Counting a text\<close>

text \<open>\<open>countTokens\<close> and \<open>countMessageTokens\<close>; a rank file that cannot be loaded is the unexpected error.\<close>

definition countTokens :: "(nat list \<Rightarrow> nat list list) \<Rightarrow> cl100k option \<Rightarrow> (nat \<Rightarrow> leftovers) \<Rightarrow> nat list \<Rightarrow> int option" where
  "countTokens pieces d left text = (if text = [] then Some 0 else
     (case d of Some d' \<Rightarrow> map_option int (countCl100k pieces d' left text)
      | None \<Rightarrow> Some (ceil_div (int (length text)) 4)))"

definition countMessageTokens :: "(nat list \<Rightarrow> nat list list) \<Rightarrow> cl100k option \<Rightarrow> (nat \<Rightarrow> leftovers) \<Rightarrow> json list \<Rightarrow> int" where
  "countMessageTokens pieces d left messages =
     sumMessages messages (\<lambda>s. option_or (countTokens pieces d left (units s)) 0)"

subsection \<open>A small rank file\<close>

definition sample_ranks :: rank_map where
  "sample_ranks = map (\<lambda>n. ([char_of n], n)) [0..<256] @ [(''ab'', 256)]"

definition sample_left :: leftovers where
  "sample_left i = ((replicate SCAN_BYTES 0, replicate SCAN_BYTES 0),
     \<lparr>ma_next = [], ma_prev = [], ma_token = [], ma_rankAt = [], ma_heap = ([], 0)\<rparr>)"

lemma sample_left_ok: "left_ok sample_left"
  by (simp add: left_ok_def sample_left_def arrays_ok_def)

lemma map_of_bytes: "n \<le> 256 \<Longrightarrow> map_of (map (\<lambda>n. ([char_of n :: char], n)) [0..<n]) p =
    (case p of [c] \<Rightarrow> if of_char c < n then Some (of_char c) else None | _ \<Rightarrow> None)"
proof (induction n)
  case (Suc n)
  then show ?case by (auto simp: map_add_def less_Suc_eq split: list.splits option.splits)
qed (simp split: list.split)

lemma sample_lookup: "map_of sample_ranks p = (case p of [c] \<Rightarrow> Some (of_char c) | _ \<Rightarrow> if p = ''ab'' then Some 256 else None)"
proof -
  have "(of_char c :: nat) < 256" for c :: char by (rule of_char_mod_256 [THEN subst, of "\<lambda>x. x < 256"]) simp
  then show ?thesis by (auto simp: sample_ranks_def map_add_def map_of_bytes [of 256, simplified] split: list.split)
qed

lemma sample_good: "good_ranks sample_ranks" "names_bytes sample_ranks"
proof -
  have "inj_on (\<lambda>n. [char_of n :: char]) {0..<256 :: nat}"
    by (rule inj_onI) (metis atLeastLessThan_iff list.inject mod_less of_char_of)
  then have "distinct (map (\<lambda>n. [char_of n :: char]) [0..<256 :: nat])" by (simp add: distinct_map)
  moreover have "sum_list (map (\<lambda>e. length (fst e)) (map (\<lambda>n. ([char_of n :: char], n)) ns)) = length ns" for ns :: "nat list"
    by (induction ns) simp_all
  ultimately show "good_ranks sample_ranks"
    by (simp add: good_ranks_def sample_ranks_def comp_def RANK_NONE_def) auto
  show "names_bytes sample_ranks" by (simp add: names_bytes_def sample_lookup)
qed

subsection \<open>Properties\<close>

text \<open>
  C9. The exact token count is exact: for every rank file that names every byte and no rank twice, and for
  every text without a piece over 64 KiB, \<open>countCl100k\<close> returns the number of tokens the plain rule
  leaves, which joins the byte strings with the lowest rank, leftmost first, until no pair is a token.
  The pair table with its open addressing, the scan of short pieces and the heap over a linked list for
  long ones, in arrays that earlier counts left in any state, make no difference, and none of their
  loops runs for ever.
\<close>

theorem count_is_the_reference:
  assumes "good_ranks ranks" "names_bytes ranks" "\<And>i. left_ok (left i)"
    and "\<forall>p \<in> set (pieces text). length (utf8Bytes p) \<le> SLICE_BYTES"
  shows "\<exists>d. load ranks = Some d \<and>
    countCl100k pieces d left text = Some (sum_list (map (\<lambda>p. reference_count ranks (utf8Bytes p)) (pieces text)))"
proof -
  obtain t where "buildPairs ranks = Some t" by (rule buildPairs_joins [OF assms(1)]) blast
  then have "load ranks \<noteq> None" by (simp add: load_def)
  then obtain d where d: "load ranks = Some d" by blast
  with count_pieces_exact [OF assms(1,2) d assms(3,4)] show ?thesis by (simp add: countCl100k_def)
qed

theorem count_is_the_reference_witness:
  "\<exists>d. load sample_ranks = Some d \<and>
    countCl100k (\<lambda>t. [t]) d (\<lambda>i. sample_left) [97, 98, 97, 98] = Some 2"
proof -
  have p: "utf8Bytes [97, 98, 97, 98] = ''abab''" by code_simp
  have "reference_count sample_ranks ''abab'' = 2"
    by (simp add: reference_count_def bpe.simps byte_pairs_def sample_lookup best_of_def RANK_NONE_def upt_rec)
  with count_is_the_reference [OF sample_good, of "\<lambda>i. sample_left" "\<lambda>t. [t]" "[97, 98, 97, 98]"] show ?thesis
    by (simp add: p sample_left_ok SLICE_BYTES_def)
qed

text \<open>
  A piece over 64 KiB is cut between characters, never inside one, into slices of at most 64 KiB, and
  its count is the sum of the slices' exact counts plus eight for each cut; the cutting ends.
\<close>

theorem long_piece_sliced:
  assumes "good_ranks ranks" "names_bytes ranks" "load ranks = Some d" "left_ok left"
    and "\<forall>x \<in> set p. x < 0x10000" "SLICE_BYTES < length (utf8Bytes p)"
  shows "\<exists>ss. concat ss = utf8Bytes p \<and> (\<forall>s \<in> set ss. s \<noteq> [] \<and> length s \<le> SLICE_BYTES \<and> \<not> continuation (hd s)) \<and>
    longPiece d left (utf8Bytes p) =
      Some (sum_list (map (\<lambda>s. length (bpe ranks (map (\<lambda>c. [c]) s))) ss) + CUT_MARGIN * (length ss - 1))"
proof -
  note u = utf8Bytes_ok [OF assms(5)]
  have b: "0 < length (utf8Bytes p)" using assms(6) by linarith
  with u have "\<not> continuation (utf8Bytes p ! 0)" unfolding utf8_ok_def by auto
  with slices_count [OF assms(1-4) u b, of 0] assms(6) show ?thesis by (auto simp: longPiece_def)
qed

theorem long_piece_sliced_witness:
  "\<exists>d ss. load sample_ranks = Some d \<and> concat ss = utf8Bytes (replicate 65537 97) \<and>
    longPiece d sample_left (utf8Bytes (replicate 65537 97)) =
      Some (sum_list (map (\<lambda>s. length (bpe sample_ranks (map (\<lambda>c. [c]) s))) ss) + CUT_MARGIN * (length ss - 1))"
proof -
  obtain t where "buildPairs sample_ranks = Some t" by (rule buildPairs_joins [OF sample_good(1)]) blast
  then obtain d where d: "load sample_ranks = Some d" by (simp add: load_def)
  have "char_of (97 :: nat) = CHR ''a''" by code_simp
  then have "utf8Bytes (replicate 65537 97) = replicate 65537 (CHR ''a'')"
    by (simp add: utf8Bytes_def list_ex_iff map_replicate_const)
  then have "SLICE_BYTES < length (utf8Bytes (replicate 65537 97))" by (simp add: SLICE_BYTES_def)
  with long_piece_sliced [OF sample_good d sample_left_ok, of "replicate 65537 97"] d show ?thesis by auto
qed

end
