(* ===== verification/Model_Catalog.thy ===== *)
theory Model_Catalog
  imports Key_Health
begin

text \<open>
  What a caller may ask for: the listing and the resolution of \<open>src/services/modelCatalog.service.ts\<close>, the
  servable part of \<open>src/services/registrySnapshot.ts\<close>, and the refusals of teams that bring their own keys,
  \<open>src/services/byokOnly.service.ts\<close>. The registry, the active pools and the key table are arguments, read
  once per request; what they promise is stated against the routing of \<open>Discovery\<close>.
\<close>

subsection \<open>The catalogue\<close>

definition AUTO_MODEL_ID :: string where "AUTO_MODEL_ID = ''alayra-nexus-1''"
definition AUTO_MODEL_NAME :: string where "AUTO_MODEL_NAME = ''Alayra Nexus (auto-route)''"

definition AUTO_ALIASES :: "string list" where
  "AUTO_ALIASES = [AUTO_MODEL_ID, ''kinetic-nexus-1'', ''nexus'', ''auto'', ''default'']"

definition isAutoModel :: "string \<Rightarrow> bool" where
  "isAutoModel raw \<longleftrightarrow> to_lower (trim raw) \<in> set AUTO_ALIASES"

record ai_model = selectable_model +
  am_displayName :: string
  am_contextWindow :: int
  am_maxTokens :: int

record catalog_entry =
  ce_id :: string
  ce_displayName :: string
  ce_provider :: string
  ce_capabilities :: "string list"
  ce_contextWindow :: int
  ce_maxTokens :: int
  ce_auto :: bool

datatype model_resolution = ResAuto | ResPinned ai_model | ResUnknown string "string list"

text \<open>\<open>a || b\<close> on text: the empty text is not there.\<close>

definition or_text :: "string \<Rightarrow> string \<Rightarrow> string" where
  "or_text a b = (if a \<noteq> [] then a else b)"

definition toCatalogEntry :: "ai_model \<Rightarrow> catalog_entry" where
  "toCatalogEntry m = \<lparr>ce_id = m_id m,
     ce_displayName = or_text (am_displayName m) (or_text (m_modelString m) (m_id m)),
     ce_provider = m_provider m, ce_capabilities = m_capabilities m, ce_contextWindow = am_contextWindow m,
     ce_maxTokens = am_maxTokens m, ce_auto = False\<rparr>"

text \<open>The providers a team has a usable key for, on a pool that is active.\<close>

definition ownedProviderSlugs :: "db_key list \<Rightarrow> provider_row list \<Rightarrow> string \<Rightarrow> string set" where
  "ownedProviderSlugs rows active teamId =
     {pr_provider p | p. p \<in> set active \<and> list_ex (\<lambda>r. kr_ownerTeamId r = Some teamId \<and> usable r \<and> kr_providerId r = pr_id p) rows}"

lemma ownedProviderSlugs_code [code]:
  "ownedProviderSlugs rows active teamId = set (map pr_provider (filter (\<lambda>p.
     list_ex (\<lambda>r. kr_ownerTeamId r = Some teamId \<and> usable r \<and> kr_providerId r = pr_id p) rows) active))"
  by (auto simp: ownedProviderSlugs_def)

definition countUsable :: "db_key list \<Rightarrow> nat" where
  "countUsable rows = length (filter usable rows)"

definition servableSnapshot :: "ai_model list \<Rightarrow> string set \<Rightarrow> ai_model list \<times> catalog_entry list" where
  "servableSnapshot registry pooled =
     (let models = filter (\<lambda>m. m_status m = ''active'' \<and> m_provider m \<in> pooled) registry
      in (models, map toCatalogEntry models))"

record catalog_facts =
  cf_registry :: "ai_model list"
  cf_active :: "provider_row list"
  cf_rows :: "db_key list"

definition narrowed :: "routing_scope option \<Rightarrow> string option" where
  "narrowed scope = (case scope of None \<Rightarrow> None
     | Some s \<Rightarrow> if truthy (rs_ownerTeamId s) \<and> \<not> rs_fallbackToShared s then rs_ownerTeamId s else None)"

definition servableRegistry :: "catalog_facts \<Rightarrow> routing_scope option \<Rightarrow> ai_model list \<times> catalog_entry list" where
  "servableRegistry cf scope =
     (let shared = servableSnapshot (cf_registry cf) (activeProviderSlugs (cf_active cf)) in
      case narrowed scope of
        None \<Rightarrow> shared
      | Some team \<Rightarrow> let owned = ownedProviderSlugs (cf_rows cf) (cf_active cf) team in
          (filter (\<lambda>m. m_provider m \<in> owned) (fst shared), filter (\<lambda>e. ce_provider e \<in> owned) (snd shared)))"

fun legacy_entries_from :: "string list \<Rightarrow> provider_row list \<Rightarrow> catalog_entry list" where
  "legacy_entries_from seen [] = []"
| "legacy_entries_from seen (p # ps) =
     (let i = trim (option_or (pr_preferredModel p) []) in
      if i = [] \<or> i \<in> set seen then legacy_entries_from seen ps
      else \<lparr>ce_id = i, ce_displayName = i, ce_provider = pr_provider p, ce_capabilities = [''chat''],
             ce_contextWindow = 0, ce_maxTokens = 0, ce_auto = False\<rparr> # legacy_entries_from (i # seen) ps)"

definition legacyPoolEntries :: "provider_row list \<Rightarrow> catalog_entry list" where
  "legacyPoolEntries providers = legacy_entries_from [] providers"

definition auto_entry :: catalog_entry where
  "auto_entry = \<lparr>ce_id = AUTO_MODEL_ID, ce_displayName = AUTO_MODEL_NAME, ce_provider = ''alayra-nexus'',
     ce_capabilities = [], ce_contextWindow = 0, ce_maxTokens = 0, ce_auto = True\<rparr>"

definition listServableModels :: "catalog_facts \<Rightarrow> routing_scope option \<Rightarrow> catalog_entry list" where
  "listServableModels cf scope =
     (case servableRegistry cf scope of (models, entries) \<Rightarrow>
        let extra = (if list_ex (\<lambda>m. ''chat'' \<in> set (m_capabilities m)) models then []
          else let legacy = legacyPoolEntries (cf_active cf) in
            case scope of
              Some s \<Rightarrow> if rs_byokOnly s \<and> truthy (rs_ownerTeamId s)
                then filter (\<lambda>e. ce_provider e \<in> ownedProviderSlugs (cf_rows cf) (cf_active cf) (option_or (rs_ownerTeamId s) [])) legacy
                else legacy
            | None \<Rightarrow> legacy)
        in auto_entry # entries @ extra)"

subsection \<open>Resolving a request\<close>

definition legacy_ai_model :: "catalog_entry \<Rightarrow> ai_model" where
  "legacy_ai_model e = \<lparr>m_id = ce_id e, m_modelString = ce_id e, m_provider = ce_provider e, m_tier = ''standard'',
     m_priority = 2, m_status = ''active'', m_capabilities = [''chat''], am_displayName = ce_displayName e,
     am_contextWindow = 0, am_maxTokens = 0\<rparr>"

definition MAX_LISTED_IN_ERROR :: nat where "MAX_LISTED_IN_ERROR = 20"

definition find_pin :: "ai_model list \<Rightarrow> string \<Rightarrow> ai_model option" where
  "find_pin capable wanted = (case find (\<lambda>m. to_lower (m_id m) = wanted) capable of
       Some m \<Rightarrow> Some m | None \<Rightarrow> find (\<lambda>m. to_lower (m_modelString m) = wanted) capable)"

definition resolveRequestedModel :: "catalog_facts \<Rightarrow> string option \<Rightarrow> string \<Rightarrow> routing_scope option \<Rightarrow> model_resolution" where
  "resolveRequestedModel cf raw capability scope =
     (let requested = trim (option_or raw []) in
      if requested = [] \<or> isAutoModel requested then ResAuto
      else let wanted = to_lower requested;
               capable = filter (\<lambda>m. capability \<in> set (m_capabilities m)) (fst (servableRegistry cf scope)) in
        case find_pin capable wanted of
          Some m \<Rightarrow> ResPinned m
        | None \<Rightarrow>
            (case (if capability = ''chat'' \<and> capable = []
                   then find (\<lambda>e. to_lower (ce_id e) = wanted) (legacyPoolEntries (cf_active cf)) else None) of
               Some legacy \<Rightarrow> ResPinned (legacy_ai_model legacy)
             | None \<Rightarrow> ResUnknown requested (take MAX_LISTED_IN_ERROR (AUTO_MODEL_ID # map m_id capable))))"

subsection \<open>Refusals\<close>

definition noCapacityMessage :: "catalog_facts \<Rightarrow> bool \<Rightarrow> string option \<Rightarrow> int \<Rightarrow> string" where
  "noCapacityMessage cf isolated pinnedModelId retryAfter =
     (if cf_active cf = [] then
        ''No provider pools are configured on this gateway. Add a provider and an API key in the Nexus tab before sending requests.''
      else if countUsable (cf_rows cf) = 0 then
        ''No usable provider API keys are configured on this gateway. Add a key to a provider pool in the Nexus tab, or re-enable a banned one.''
      else if truthy pinnedModelId then
        ''Model \"'' @ option_or pinnedModelId [] @ ''\" is configured, but every API key for its provider is rate-limited or cooling. ''
        @ ''Retry in '' @ int_string retryAfter @ ''s, add another key for that provider, or send \"'' @ AUTO_MODEL_ID
        @ ''\" to let Alayra Nexus route across the rest of your models.''
      else if isolated then
        ''Your team's own provider keys are all rate-limited or unavailable, and fall-back to the shared pool is disabled for this team. Retry in ''
        @ int_string retryAfter @ ''s or add more keys to your team.''
      else ''All API keys are currently rate-limited. Retry in '' @ int_string retryAfter @ ''s or add more provider keys.'')"

datatype byok_ask = AskUnknown string | AskNoRoute "string option"

definition uniq :: "string list \<Rightarrow> string list" where
  "uniq xs = rev (remdups (rev xs))"

definition MAX_NAMED :: nat where "MAX_NAMED = 5"

fun join_with :: "string \<Rightarrow> string list \<Rightarrow> string" where
  "join_with sep [] = []"
| "join_with sep [x] = x"
| "join_with sep (x # xs) = x @ sep @ join_with sep xs"

text \<open>The message of the 403; type and code are constants.\<close>

definition byokKeyRequiredBody :: "string list \<Rightarrow> string" where
  "byokKeyRequiredBody providers =
     (let named = map (\<lambda>p. ''\"'' @ p @ ''\"'') (take MAX_NAMED providers);
          need = (case named of [] \<Rightarrow> ''a provider API key'' | [n] \<Rightarrow> ''an API key for '' @ n
            | _ \<Rightarrow> ''an API key for one of '' @ join_with '', '' named)
      in ''This team is served only by its own provider keys, and none of them can serve this request. Add ''
         @ need @ '', then retry.'')"

definition servable_for :: "catalog_facts \<Rightarrow> string \<Rightarrow> ai_model list" where
  "servable_for cf capability = filter (\<lambda>m. m_status m = ''active'' \<and> m_provider m \<in> activeProviderSlugs (cf_active cf)
     \<and> capability \<in> set (m_capabilities m)) (cf_registry cf)"

definition missingProviders :: "catalog_facts \<Rightarrow> string \<Rightarrow> string \<Rightarrow> byok_ask \<Rightarrow> string list option" where
  "missingProviders cf teamId capability ask =
     (let owned = ownedProviderSlugs (cf_rows cf) (cf_active cf) teamId in
      case ask of
        AskUnknown unknownModel \<Rightarrow>
          (case resolveRequestedModel cf (Some unknownModel) capability None of
             ResPinned m \<Rightarrow> if m_provider m \<in> owned then None else Some [m_provider m]
           | _ \<Rightarrow> None)
      | AskNoRoute pinnedModelId \<Rightarrow>
          let none = (if owned = {} then Some [] else None);
              servable = servable_for cf capability in
          if truthy pinnedModelId then
            (let provider = (case find (\<lambda>m. Some (m_id m) = pinnedModelId) servable of
                 Some m \<Rightarrow> Some (m_provider m)
               | None \<Rightarrow> map_option pr_provider (find (\<lambda>p. pr_preferredModel p = pinnedModelId) (cf_active cf)))
             in if truthy provider \<and> option_or provider [] \<notin> owned then Some [option_or provider []] else none)
          else if servable \<noteq> [] then
            (if list_ex (\<lambda>m. m_provider m \<in> owned) servable then None else Some (uniq (map m_provider servable)))
          else if capability \<noteq> ''chat'' then none
          else let pools = filter (\<lambda>p. truthy (pr_preferredModel p)) (cf_active cf) in
            if list_ex (\<lambda>p. pr_provider p \<in> owned) pools then None else Some (uniq (map pr_provider pools)))"

definition byokKeyRequired :: "catalog_facts \<Rightarrow> routing_scope \<Rightarrow> string \<Rightarrow> byok_ask \<Rightarrow> string option" where
  "byokKeyRequired cf scope capability ask =
     (if \<not> isByokOnly scope then None
      else case rs_ownerTeamId scope of None \<Rightarrow> None
        | Some team \<Rightarrow> map_option byokKeyRequiredBody (missingProviders cf team capability ask))"

section \<open>What is listed and accepted, and what is routed\<close>

lemma set_selectModels: "set (selectModels ms opts) = {m \<in> set ms. eligible opts m}"
  using arg_cong [OF mset_selectModels [of ms opts], of set_mset] by simp

lemma servable_registry_mem:
  "m \<in> set (fst (servableRegistry cf scope)) \<longleftrightarrow> m \<in> set (cf_registry cf) \<and> m_status m = ''active'' \<and>
     m_provider m \<in> activeProviderSlugs (cf_active cf) \<and>
     (\<forall>team. narrowed scope = Some team \<longrightarrow> m_provider m \<in> ownedProviderSlugs (cf_rows cf) (cf_active cf) team)"
  by (auto simp: servableRegistry_def servableSnapshot_def Let_def split: option.split)

lemma servable_registry_entries:
  "snd (servableRegistry cf scope) = map toCatalogEntry (fst (servableRegistry cf scope))"
  by (simp add: servableRegistry_def servableSnapshot_def Let_def filter_map comp_def toCatalogEntry_def split: option.split)

lemma legacy_entries_mem:
  "e \<in> set (legacy_entries_from seen ps) \<Longrightarrow> ce_id e \<noteq> [] \<and> ce_auto e = False \<and> ce_capabilities e = [''chat''] \<and>
     (\<exists>p \<in> set ps. ce_id e = trim (option_or (pr_preferredModel p) []) \<and> ce_provider e = pr_provider p)"
  by (induction ps arbitrary: seen) (auto simp: Let_def split: if_splits)

lemma find_pin_mem:
  "find_pin ms w = Some m \<Longrightarrow> m \<in> set ms \<and> (to_lower (m_id m) = w \<or> to_lower (m_modelString m) = w)"
  by (auto simp: find_pin_def dest: find_in split: option.splits)

lemma find_hit: "x \<in> set xs \<Longrightarrow> P x \<Longrightarrow> \<exists>y. find P xs = Some y"
  by (induction xs) auto

lemma find_pin_id: "m \<in> set ms \<Longrightarrow> to_lower (m_id m) = w \<Longrightarrow> \<exists>m'. find_pin ms w = Some m' \<and> to_lower (m_id m') = w"
  using find_hit [of m ms "\<lambda>m. to_lower (m_id m) = w"] by (auto simp: find_pin_def dest: find_in)

definition capable_models :: "catalog_facts \<Rightarrow> string \<Rightarrow> routing_scope option \<Rightarrow> ai_model list" where
  "capable_models cf capability scope = filter (\<lambda>m. capability \<in> set (m_capabilities m)) (fst (servableRegistry cf scope))"

definition legacy_pin :: "catalog_facts \<Rightarrow> string \<Rightarrow> catalog_entry option" where
  "legacy_pin cf wanted = find (\<lambda>e. to_lower (ce_id e) = wanted) (legacyPoolEntries (cf_active cf))"

lemma resolve_cases:
  "resolveRequestedModel cf raw capability scope =
     (let requested = trim (option_or raw []); wanted = to_lower requested; capable = capable_models cf capability scope in
      if requested = [] \<or> isAutoModel requested then ResAuto
      else case find_pin capable wanted of Some m \<Rightarrow> ResPinned m
        | None \<Rightarrow> (case (if capability = ''chat'' \<and> capable = [] then legacy_pin cf wanted else None) of
            Some legacy \<Rightarrow> ResPinned (legacy_ai_model legacy)
          | None \<Rightarrow> ResUnknown requested (take MAX_LISTED_IN_ERROR (AUTO_MODEL_ID # map m_id capable))))"
  by (simp only: resolveRequestedModel_def capable_models_def legacy_pin_def Let_def)

lemma resolved_pin:
  assumes "resolveRequestedModel cf raw capability scope = ResPinned m"
  obtains "m \<in> set (capable_models cf capability scope)"
  | e where "capability = ''chat''" "capable_models cf capability scope = []"
      "e \<in> set (legacyPoolEntries (cf_active cf))" "m = legacy_ai_model e"
proof -
  let ?w = "to_lower (trim (option_or raw []))"
  show ?thesis
  proof (cases "find_pin (capable_models cf capability scope) ?w")
    case (Some m')
    with assms have "m' = m" by (simp add: resolve_cases Let_def split: if_splits)
    with find_pin_mem [OF Some] show ?thesis by (intro that(1)) simp
  next
    case None
    with assms have "(if capability = ''chat'' \<and> capable_models cf capability scope = [] then legacy_pin cf ?w else None) \<noteq> None"
      by (auto simp: resolve_cases Let_def split: if_splits option.splits)
    then obtain e where e: "capability = ''chat''" "capable_models cf capability scope = []" "legacy_pin cf ?w = Some e"
      by (auto split: if_splits)
    with assms None have "m = legacy_ai_model e" by (simp add: resolve_cases Let_def split: if_splits)
    moreover from find_in [OF e(3) [unfolded legacy_pin_def]] have "e \<in> set (legacyPoolEntries (cf_active cf))" by simp
    ultimately show ?thesis using e that(2) by blast
  qed
qed

text \<open>The request routing sees when a model was resolved, over the same registry.\<close>

definition same_registry :: "catalog_facts \<Rightarrow> routing_facts \<Rightarrow> bool" where
  "same_registry cf F \<longleftrightarrow> map rg_model (f_registry F) = map selectable_model.truncate (cf_registry cf) \<and> f_active F = cf_active cf"

lemma truncate_fields [simp]:
  "m_id (selectable_model.truncate m) = m_id m" "m_status (selectable_model.truncate m) = m_status m"
  "m_provider (selectable_model.truncate m) = m_provider m" "m_capabilities (selectable_model.truncate m) = m_capabilities m"
  "m_modelString (selectable_model.truncate m) = m_modelString m"
  by (simp_all add: selectable_model.truncate_def)

lemma same_registry_models: "same_registry cf F \<Longrightarrow> rg_model ` set (f_registry F) = selectable_model.truncate ` set (cf_registry cf)"
  unfolding same_registry_def by (metis list.set_map)

lemma candidate_mem:
  "m \<in> set (candidate_models F q) \<longleftrightarrow> m \<in> rg_model ` set (f_registry F) \<and> m_status m = ''active'' \<and>
     q_capability q \<in> set (m_capabilities m) \<and> m_provider m \<in> activeProviderSlugs (f_active F) \<and>
     (truthy (q_pinnedModelId q) \<longrightarrow> Some (m_id m) = q_pinnedModelId q)"
  by (auto simp: candidate_models_def Let_def set_selectModels eligible_def)

lemma listed_cases:
  assumes "e \<in> set (listServableModels cf scope)" "\<not> ce_auto e"
  shows "e \<in> set (map toCatalogEntry (fst (servableRegistry cf scope))) \<or> e \<in> set (legacyPoolEntries (cf_active cf)) \<and>
      (\<forall>m \<in> set (fst (servableRegistry cf scope)). ''chat'' \<notin> set (m_capabilities m))"
proof -
  obtain models entries where r: "servableRegistry cf scope = (models, entries)" by fastforce
  have en: "entries = map toCatalogEntry models" using servable_registry_entries [of cf scope] by (simp add: r)
  have na: "e \<noteq> auto_entry" using assms(2) by (auto simp: auto_entry_def)
  show ?thesis
  proof (cases "list_ex (\<lambda>m. ''chat'' \<in> set (m_capabilities m)) models")
    case True
    then show ?thesis using assms(1) na by (simp add: listServableModels_def r en Let_def)
  next
    case False
    then have "\<forall>m \<in> set models. ''chat'' \<notin> set (m_capabilities m)" by (simp add: list_ex_iff)
    moreover from False assms(1) na have "e \<in> set entries \<or> e \<in> set (legacyPoolEntries (cf_active cf))"
      by (auto simp: listServableModels_def r Let_def split: option.splits if_splits)
    ultimately show ?thesis by (simp add: r en)
  qed
qed

text \<open>
  C23. Listing and resolution agree: whatever a caller is shown (apart from the automatic model), the caller
  may send back as it stands and is resolved to a model of that name, for every capability the entry claims.
\<close>

theorem listed_models_resolve:
  assumes listed: "e \<in> set (listServableModels cf scope)" "\<not> ce_auto e" "capability \<in> set (ce_capabilities e)"
    and name: "trim (ce_id e) = ce_id e" "ce_id e \<noteq> []" "\<not> isAutoModel (ce_id e)"
  shows "\<exists>m. resolveRequestedModel cf (Some (ce_id e)) capability scope = ResPinned m \<and> to_lower (m_id m) = to_lower (ce_id e)"
proof -
  let ?capable = "capable_models cf capability scope"
  let ?w = "to_lower (ce_id e)"
  have go: "resolveRequestedModel cf (Some (ce_id e)) capability scope =
      (case find_pin ?capable ?w of Some m \<Rightarrow> ResPinned m
       | None \<Rightarrow> (case (if capability = ''chat'' \<and> ?capable = [] then legacy_pin cf ?w else None) of
           Some legacy \<Rightarrow> ResPinned (legacy_ai_model legacy)
         | None \<Rightarrow> ResUnknown (ce_id e) (take MAX_LISTED_IN_ERROR (AUTO_MODEL_ID # map m_id ?capable))))"
    using name by (simp add: resolve_cases Let_def)
  consider (registry) m where "m \<in> set (fst (servableRegistry cf scope))" "e = toCatalogEntry m"
    | (legacy) "e \<in> set (legacyPoolEntries (cf_active cf))" "\<forall>m \<in> set (fst (servableRegistry cf scope)). ''chat'' \<notin> set (m_capabilities m)"
    using listed_cases [OF listed(1, 2)] by auto
  then show ?thesis
  proof cases
    case registry
    with listed(3) have "m \<in> set ?capable" by (simp add: toCatalogEntry_def capable_models_def)
    moreover have "to_lower (m_id m) = ?w" by (simp add: registry toCatalogEntry_def)
    ultimately obtain m' where "find_pin ?capable ?w = Some m'" "to_lower (m_id m') = ?w" using find_pin_id by blast
    then show ?thesis by (simp add: go)
  next
    case legacy
    then have c: "capability = ''chat''" using legacy_entries_mem [of e "[]" "cf_active cf"] listed(3)
      by (simp add: legacyPoolEntries_def)
    from legacy(2) have empty: "?capable = []" by (auto simp: c filter_empty_conv capable_models_def)
    obtain x where x: "legacy_pin cf ?w = Some x"
      using find_hit [OF legacy(1), of "\<lambda>x. to_lower (ce_id x) = ?w"] by (auto simp: legacy_pin_def)
    have "to_lower (ce_id x) = ?w" using find_in [OF x [unfolded legacy_pin_def]] by simp
    moreover have "resolveRequestedModel cf (Some (ce_id e)) capability scope = ResPinned (legacy_ai_model x)"
      unfolding go empty using c x by (simp add: find_pin_def)
    ultimately show ?thesis by (simp add: legacy_ai_model_def)
  qed
qed

definition sample_model :: ai_model where
  "sample_model = \<lparr>m_id = ''m'', m_modelString = ''gpt'', m_provider = ''openai'', m_tier = ''premium'', m_priority = 1,
     m_status = ''active'', m_capabilities = [''chat''], am_displayName = [], am_contextWindow = 0, am_maxTokens = 0\<rparr>"

definition sample_catalog :: catalog_facts where
  "sample_catalog = \<lparr>cf_registry = [sample_model], cf_active = f_active sample_facts, cf_rows = g_rows sample_gateway\<rparr>"

theorem listed_models_resolve_witness:
  "\<exists>m. resolveRequestedModel sample_catalog (Some ''m'') ''chat'' (Some sample_scope) = ResPinned m \<and> to_lower (m_id m) = ''m''"
proof -
  have l: "listServableModels sample_catalog (Some sample_scope) = [auto_entry, toCatalogEntry sample_model]" by code_simp
  have t: "trim ''m'' = ''m''" "to_lower ''m'' = ''m''" "\<not> isAutoModel ''m''" by code_simp+
  show ?thesis
    using listed_models_resolve [of "toCatalogEntry sample_model" sample_catalog "Some sample_scope" "''chat''"]
    by (simp add: l t toCatalogEntry_def sample_model_def)
qed

text \<open>
  C22. A pin that resolves to a registry model is one routing will consider: the model is among the
  candidates of the request it becomes, and an isolated team is only ever resolved to a model of a provider
  it holds a usable key for.
\<close>

theorem resolved_pin_is_a_candidate:
  assumes pin: "resolveRequestedModel cf raw (q_capability q) (Some (q_scope q)) = ResPinned m"
    and reg: "same_registry cf F"
    and q: "q_pinnedModelId q = Some (m_id m)"
    and some: "capable_models cf (q_capability q) (Some (q_scope q)) \<noteq> []"
  shows "selectable_model.truncate m \<in> set (candidate_models F q) \<and>
    (isIsolated (q_scope q) \<and> truthy (rs_ownerTeamId (q_scope q)) \<longrightarrow>
      m_provider m \<in> ownedProviderSlugs (cf_rows cf) (cf_active cf) (option_or (rs_ownerTeamId (q_scope q)) []))"
  using pin
proof (cases rule: resolved_pin)
  case 1
  then have cap: "q_capability q \<in> set (m_capabilities m)" by (simp add: capable_models_def)
  from 1 have m: "m \<in> set (cf_registry cf)" "m_status m = ''active''" "m_provider m \<in> activeProviderSlugs (cf_active cf)"
    "\<forall>team. narrowed (Some (q_scope q)) = Some team \<longrightarrow> m_provider m \<in> ownedProviderSlugs (cf_rows cf) (cf_active cf) team"
    by (simp_all add: servable_registry_mem capable_models_def)
  have "selectable_model.truncate m \<in> rg_model ` set (f_registry F)"
    using m(1) by (simp add: same_registry_models [OF reg])
  then have "selectable_model.truncate m \<in> set (candidate_models F q)"
    using m reg cap q by (simp add: candidate_mem same_registry_def)
  moreover have "m_provider m \<in> ownedProviderSlugs (cf_rows cf) (cf_active cf) (option_or (rs_ownerTeamId (q_scope q)) [])"
    if "isIsolated (q_scope q)" "truthy (rs_ownerTeamId (q_scope q))"
    using m(4) that by (auto simp: narrowed_def isIsolated_def)
  ultimately show ?thesis by blast
next
  case (2 e)
  with some show ?thesis by simp
qed

theorem resolved_pin_is_a_candidate_witness:
  "selectable_model.truncate sample_model \<in> set (candidate_models sample_facts pinned_sample)
   \<and> m_provider sample_model \<in> ownedProviderSlugs (cf_rows sample_catalog) (cf_active sample_catalog) ''t1''"
proof -
  have r: "resolveRequestedModel sample_catalog (Some ''m'') (q_capability pinned_sample) (Some (q_scope pinned_sample)) = ResPinned sample_model"
    by code_simp
  have c: "capable_models sample_catalog (q_capability pinned_sample) (Some (q_scope pinned_sample)) = [sample_model]" by code_simp
  have s: "same_registry sample_catalog sample_facts"
    by (simp add: same_registry_def sample_catalog_def sample_facts_def sample_model_def selectable_model.truncate_def)
  have q: "q_pinnedModelId pinned_sample = Some (m_id sample_model)" by (simp add: pinned_sample_def sample_model_def)
  have o: "isIsolated (q_scope pinned_sample) \<and> rs_ownerTeamId (q_scope pinned_sample) = Some ''t1''"
    by (simp add: pinned_sample_def sample_request_def sample_scope_def resolveScope_def isIsolated_def)
  show ?thesis using resolved_pin_is_a_candidate [OF r s q] o by (simp add: c truthy_def)
qed

lemma no_chat_candidates:
  assumes "same_registry cf F" "capable_models cf (q_capability q) (Some scope) = []" "narrowed (Some scope) = None"
  shows "candidate_models F q = []"
proof -
  have "m \<notin> set (candidate_models F q)" for m
  proof
    assume m: "m \<in> set (candidate_models F q)"
    then obtain a where a: "a \<in> set (cf_registry cf)" "m = selectable_model.truncate a"
      by (auto simp: candidate_mem same_registry_models [OF assms(1)])
    have "a \<in> set (capable_models cf (q_capability q) (Some scope))"
      using m a assms(1, 3) by (simp add: capable_models_def servable_registry_mem candidate_mem same_registry_def)
    with assms(2) show False by simp
  qed
  then show ?thesis by (cases "candidate_models F q") auto
qed


definition legacy_pool :: provider_row where
  "legacy_pool = \<lparr>pr_id = ''p'', pr_baseUrl = None, pr_provider = ''groq'', pr_authHeader = ''Authorization'',
     pr_authPrefix = None, pr_tier = ''standard'', pr_preferredModel = Some ''llama'', pr_extraHeaders = None,
     pr_nativeMessages = None\<rparr>"

definition legacy_facts :: catalog_facts where
  "legacy_facts = \<lparr>cf_registry = [], cf_active = [legacy_pool], cf_rows = g_rows sample_gateway\<rparr>"

definition legacy_routing :: routing_facts where
  "legacy_routing = \<lparr>f_costWeight = 0, f_registry = [], f_active = [legacy_pool]\<rparr>"

definition legacy_request :: discovery_request where
  "legacy_request = (sample_request SHARED_SCOPE)\<lparr>q_pinnedModelId := Some ''llama''\<rparr>"

lemma legacy_auto_routes:
  "routed_key (discoverBestPool sample_env 5 legacy_routing (sample_request SHARED_SCOPE)) sample_gateway = Inr (Some ''k1'')"
  by code_simp

lemma legacy_resolves:
  "resolveRequestedModel legacy_facts (Some ''llama'') ''chat'' (Some SHARED_SCOPE)
     = ResPinned (legacy_ai_model (hd (legacyPoolEntries (cf_active legacy_facts))))
   \<and> map ce_id (listServableModels legacy_facts (Some SHARED_SCOPE)) = [AUTO_MODEL_ID, ''llama'']"
  by code_simp


subsection \<open>Add a key, or wait\<close>

text \<open>The three values the status column takes.\<close>

definition statuses_ok :: "db_key list \<Rightarrow> bool" where
  "statuses_ok rows \<longleftrightarrow> list_all (\<lambda>r. kr_status r \<in> {''active'', ''cooling'', ''banned''}) rows"

lemma found_row: "findRoutable rows k = Some row \<Longrightarrow> \<exists>r \<in> set rows. kr_id r = k \<and> row = project r"
  by (auto simp: findRoutable_def dest: find_in)

lemma project_fields [simp]:
  "kr_id (project r) = kr_id r" "kr_providerId (project r) = kr_providerId r" "kr_status (project r) = kr_status r"
  "kr_ownerTeamId (project r) = kr_ownerTeamId r"
  by (simp_all add: project_def key_row.truncate_def)

lemma byok_route_is_owned:
  assumes g: "gw_ok g" "event_ok (EDiscover F q)" "statuses_ok (g_rows g)"
    and scope: "rs_ownerTeamId (q_scope q) = Some team" "\<not> rs_fallbackToShared (q_scope q)"
    and run: "discoverBestPool E now F q g = (Inr (Some rt, res), g')"
  obtains p x where "p \<in> set (f_active F)" "model_for F q p x" "pr_provider p \<in> ownedProviderSlugs (g_rows g) (f_active F) team"
proof -
  from discover_ok(3) [OF g(1, 2) run refl] obtain row p x where
    row: "findRoutable (g_rows g) (nr_keyId rt) = Some row" "in_scope (q_scope q) (kr_ownerTeamId row)" "kr_status row \<noteq> ''banned''"
    and p: "p \<in> set (f_active F)" "kr_providerId row = pr_id p" "model_for F q p x"
    unfolding served_def by blast
  from found_row [OF row(1)] obtain r where r: "r \<in> set (g_rows g)" "row = project r" by blast
  with g(3) row(3) have "usable r" by (auto simp: statuses_ok_def list_all_iff usable_def)
  moreover from row(2) scope r have "kr_ownerTeamId r = Some team" by (simp add: in_scope_def)
  ultimately have "pr_provider p \<in> ownedProviderSlugs (g_rows g) (f_active F) team"
    using p r by (auto simp: ownedProviderSlugs_def list_ex_iff)
  with p that show ?thesis by blast
qed

lemma servable_candidate:
  assumes "same_registry cf F"
  shows "m \<in> set (candidate_models F q) \<longleftrightarrow> (\<exists>a \<in> set (servable_for cf (q_capability q)). m = selectable_model.truncate a \<and>
    (truthy (q_pinnedModelId q) \<longrightarrow> Some (m_id a) = q_pinnedModelId q))"
proof -
  have "f_active F = cf_active cf" using assms by (simp add: same_registry_def)
  then show ?thesis by (auto simp: candidate_mem same_registry_models [OF assms] servable_for_def)
qed

lemma owned_nonempty: "x \<in> ownedProviderSlugs rows active t \<Longrightarrow> ownedProviderSlugs rows active t \<noteq> {}"
  by blast

lemma missing_none_when_owned:
  assumes reg: "same_registry cf F" "distinct (map m_id (cf_registry cf))"
    and owned: "pr_provider p \<in> ownedProviderSlugs (cf_rows cf) (cf_active cf) team"
    and p: "p \<in> set (cf_active cf)" "model_for F q p x"
  shows "missingProviders cf team (q_capability q) (AskNoRoute (q_pinnedModelId q)) = None"
proof (cases "truthy (q_pinnedModelId q)")
  case True
  with p(2) obtain m where m: "m \<in> set (candidate_models F q)" "m_provider m = pr_provider p" by (auto simp: model_for_def)
  then obtain a where a: "a \<in> set (servable_for cf (q_capability q))" "m = selectable_model.truncate a"
      "Some (m_id a) = q_pinnedModelId q"
    using True by (auto simp: servable_candidate [OF reg(1)])
  then obtain b where b: "find (\<lambda>m. Some (m_id m) = q_pinnedModelId q) (servable_for cf (q_capability q)) = Some b"
    using find_hit by (metis (mono_tags, lifting))
  from find_in [OF b] a(3) have ba: "b \<in> set (servable_for cf (q_capability q))" "Some (m_id b) = Some (m_id a)" by simp_all
  then have same: "b = a" using a(1) reg(2) by (auto simp: servable_for_def distinct_map inj_on_def)
  have prov: "m_provider b \<in> ownedProviderSlugs (cf_rows cf) (cf_active cf) team" using same a m owned by simp
  then show ?thesis using True b by (simp add: missingProviders_def Let_def owned_nonempty)
next
  case False
  show ?thesis
  proof (cases "servable_for cf (q_capability q) = []")
    case True
    then have "candidate_models F q = []" using servable_candidate [OF reg(1), of _ q] by (metis empty_iff list.set(1) list.set_intros(1) neq_Nil_conv)
    with p(2) have chat: "q_capability q = ''chat''" and x: "x = legacy_model (pr_tier p) p" "rm_modelString x \<noteq> []"
      by (auto simp: model_for_def)
    then have "truthy (pr_preferredModel p)" by (cases "pr_preferredModel p") (auto simp: truthy_def legacy_model_def)
    with p(1) owned have "list_ex (\<lambda>p. pr_provider p \<in> ownedProviderSlugs (cf_rows cf) (cf_active cf) team)
        (filter (\<lambda>p. truthy (pr_preferredModel p)) (cf_active cf))" by (auto simp: list_ex_iff)
    with False True chat show ?thesis by (simp add: missingProviders_def Let_def)
  next
    case some: False
    then obtain a where "a \<in> set (servable_for cf (q_capability q))" by (meson last_in_set)
    then have "selectable_model.truncate a \<in> set (candidate_models F q)" using False by (auto simp: servable_candidate [OF reg(1)])
    then have "candidate_models F q \<noteq> []" by auto
    with p(2) obtain m where m: "m \<in> set (candidate_models F q)" "m_provider m = pr_provider p" by (auto simp: model_for_def)
    then obtain b where "b \<in> set (servable_for cf (q_capability q))" "m = selectable_model.truncate b"
      by (auto simp: servable_candidate [OF reg(1)])
    with m owned have "list_ex (\<lambda>m. m_provider m \<in> ownedProviderSlugs (cf_rows cf) (cf_active cf) team) (servable_for cf (q_capability q))"
      unfolding list_ex_iff by (intro bexI [of _ b]) simp_all
    with False some show ?thesis by (simp add: missingProviders_def Let_def)
  qed
qed

text \<open>
  A team served only by its own keys is told to add one exactly when that is the honest answer: never
  when some state of limits, breakers and caches would have let one of its keys serve the request, and
  always when it has no usable key at all.
\<close>

theorem byok_refusal_is_honest:
  assumes scope: "q_scope q = resolveScope (Some t) n" "st_byokOnly t"
    and reg: "same_registry cf F" "cf_rows cf = g_rows g" "distinct (map m_id (cf_registry cf))"
    and g: "gw_ok g" "event_ok (EDiscover F q)" "statuses_ok (g_rows g)"
  shows "(byokKeyRequired cf (q_scope q) (q_capability q) (AskNoRoute (q_pinnedModelId q)) \<noteq> None \<longrightarrow>
      fst (discoverBestPool E now F q g) \<noteq> Inr (Some rt, res)) \<and>
    (ownedProviderSlugs (g_rows g) (cf_active cf) (st_id t) = {} \<longrightarrow>
      byokKeyRequired cf (q_scope q) (q_capability q) (AskNoRoute (q_pinnedModelId q)) \<noteq> None)"
proof -
  have s: "rs_ownerTeamId (q_scope q) = Some (st_id t)" "\<not> rs_fallbackToShared (q_scope q)" "isByokOnly (q_scope q)"
    using scope by (simp_all add: resolveScope_def isByokOnly_def Let_def)
  have body: "byokKeyRequired cf (q_scope q) (q_capability q) ask \<noteq> None \<longleftrightarrow>
      missingProviders cf (st_id t) (q_capability q) ask \<noteq> None" for ask
    by (simp add: byokKeyRequired_def s)
  have "fst (discoverBestPool E now F q g) \<noteq> Inr (Some rt, res)"
    if missing: "missingProviders cf (st_id t) (q_capability q) (AskNoRoute (q_pinnedModelId q)) \<noteq> None"
  proof
    assume "fst (discoverBestPool E now F q g) = Inr (Some rt, res)"
    then obtain g' where run: "discoverBestPool E now F q g = (Inr (Some rt, res), g')" by (metis prod.collapse)
    obtain p x where p: "p \<in> set (f_active F)" "model_for F q p x"
        "pr_provider p \<in> ownedProviderSlugs (g_rows g) (f_active F) (st_id t)"
      by (rule byok_route_is_owned [OF g s(1, 2) run])
    have a: "f_active F = cf_active cf" using reg(1) by (simp add: same_registry_def)
    have "missingProviders cf (st_id t) (q_capability q) (AskNoRoute (q_pinnedModelId q)) = None"
      by (rule missing_none_when_owned [OF reg(1, 3) _ _ p(2)]) (use p reg(2) a in simp_all)
    with missing show False by simp
  qed
  moreover have "missingProviders cf (st_id t) (q_capability q) (AskNoRoute (q_pinnedModelId q)) \<noteq> None"
    if "ownedProviderSlugs (g_rows g) (cf_active cf) (st_id t) = {}"
    using that by (simp add: missingProviders_def Let_def reg(2) list_ex_iff)
  ultimately show ?thesis unfolding body by blast
qed

definition byok_team :: scope_team where
  "byok_team = \<lparr>st_id = ''t2'', st_byokFallback = None, st_byokOnly = True\<rparr>"

definition byok_request :: discovery_request where
  "byok_request = sample_request (resolveScope (Some byok_team) 0)"

theorem byok_refusal_is_honest_witness:
  "byokKeyRequired legacy_facts (q_scope byok_request) ''chat'' (AskNoRoute None) \<noteq> None
   \<and> (\<forall>rt res. fst (discoverBestPool sample_env 5 legacy_routing byok_request sample_gateway) \<noteq> Inr (Some rt, res))"
proof -
  have q: "q_scope byok_request = resolveScope (Some byok_team) 0" "q_capability byok_request = ''chat''" "q_pinnedModelId byok_request = None"
    by (simp_all add: byok_request_def sample_request_def)
  have e: "event_ok (EDiscover legacy_routing byok_request)"
    by (simp add: legacy_routing_def legacy_pool_def byok_request_def sample_request_def resolveScope_def byok_team_def pool_ok_def)
  have s: "same_registry legacy_facts legacy_routing" by (simp add: same_registry_def legacy_facts_def legacy_routing_def)
  have none: "ownedProviderSlugs (g_rows sample_gateway) (cf_active legacy_facts) (st_id byok_team) = {}"
    by (simp add: ownedProviderSlugs_def sample_gateway_def sample_key_def byok_team_def)
  have st: "statuses_ok (g_rows sample_gateway)" by (simp add: statuses_ok_def sample_gateway_def sample_key_def)
  note all = byok_refusal_is_honest [OF q(1) _ s _ _ sample_ok e st]
  have r: "cf_rows legacy_facts = g_rows sample_gateway" "distinct (map m_id (cf_registry legacy_facts))" "st_byokOnly byok_team"
    by (simp_all add: legacy_facts_def byok_team_def)
  have need: "byokKeyRequired legacy_facts (q_scope byok_request) ''chat'' (AskNoRoute None) \<noteq> None"
    using all [OF r(3, 1, 2), of sample_env 5] none unfolding q(2, 3) by blast
  then show ?thesis using all [OF r(3, 1, 2), of sample_env 5] unfolding q(2, 3) by blast
qed

end
