(* ===== verification/Response_Cache.thy ===== *)
theory Response_Cache
  imports Kv_Laws Scope Json "HOL-Library.AList"
begin

text \<open>
  The exact-match response cache: \<open>src/lib/responseCache.ts\<close> with its settings in
  \<open>src/services/cache.service.ts\<close>. The digest of a document (its canonical text hashed) is a parameter, and
  so are the writer and the reader of stored entries; what is needed of them is a hypothesis where it is
  used. The usage counts of an answer are numbers, as the code's types say.
\<close>

record cached_completion =
  cc_id :: string
  cc_created :: rat
  cc_model :: string
  cc_provider :: string
  cc_content :: string
  cc_finishReason :: string
  cc_promptTokens :: rat
  cc_completionTokens :: rat

definition CANONICAL_MODEL :: string where "CANONICAL_MODEL = ''alayra-nexus-1''"

definition CACHEABLE_PARAMS :: "string list" where
  "CACHEABLE_PARAMS = [''temperature'', ''top_p'', ''max_tokens'', ''stop'', ''tools'', ''tool_choice'',
     ''response_format'', ''seed'', ''frequency_penalty'', ''presence_penalty'', ''n'', ''logprobs'', ''logit_bias'']"

subsection \<open>Identity\<close>

definition body_messages :: "json \<Rightarrow> json list" where
  "body_messages body = (case jget ''messages'' (Some body) of Some (JArr ms) \<Rightarrow> ms | _ \<Rightarrow> [])"

definition isCacheable :: "json \<Rightarrow> bool" where
  "isCacheable body = (body_messages body \<noteq> [] \<and>
     (case jget ''n'' (Some body) of Some (JNum (Some n)) \<Rightarrow> n \<le> 1 | Some (JNum None) \<Rightarrow> False | _ \<Rightarrow> True))"

definition cache_params :: "json \<Rightarrow> (string \<times> json) list" where
  "cache_params body = List.map_filter (\<lambda>p. map_option (Pair p) (jget p (Some body))) CACHEABLE_PARAMS"

definition cache_document :: "json \<Rightarrow> string \<Rightarrow> string option \<Rightarrow> json" where
  "cache_document body namespace pinnedModelId = JObj [(''ns'', JStr namespace),
     (''model'', JStr (option_or pinnedModelId CANONICAL_MODEL)), (''messages'', JArr (body_messages body)),
     (''params'', JObj (cache_params body))]"

definition responseCacheKey :: "(json \<Rightarrow> string) \<Rightarrow> json \<Rightarrow> string \<Rightarrow> string option \<Rightarrow> string" where
  "responseCacheKey digest body namespace pinnedModelId = digest (cache_document body namespace pinnedModelId)"

definition without_stream :: "(string \<times> json) list \<Rightarrow> (string \<times> json) list" where
  "without_stream kvs = filter (\<lambda>(k, _). k \<noteq> ''stream'') kvs"

definition messages_document :: "(string \<times> json) list \<Rightarrow> string \<Rightarrow> string option \<Rightarrow> json" where
  "messages_document raw namespace pinnedModelId = JObj [(''api'', JStr ''messages''), (''ns'', JStr namespace),
     (''model'', JStr (option_or pinnedModelId CANONICAL_MODEL)), (''body'', JObj (without_stream raw))]"

definition messagesCacheKey :: "(json \<Rightarrow> string) \<Rightarrow> (string \<times> json) list \<Rightarrow> string \<Rightarrow> string option \<Rightarrow> string" where
  "messagesCacheKey digest raw namespace pinnedModelId = digest (messages_document raw namespace pinnedModelId)"

subsection \<open>Entries\<close>

definition RESP_CACHE_PREFIX :: string where "RESP_CACHE_PREFIX = ''nexus:respcache:''"

definition cacheRedisKey :: "string \<Rightarrow> string" where
  "cacheRedisKey key = RESP_CACHE_PREFIX @ key"

definition getCached :: "(string \<Rightarrow> cached_completion option) \<Rightarrow> int \<Rightarrow> string \<Rightarrow> cached_completion option kv" where
  "getCached parse now key = bind_m (kv_get now (cacheRedisKey key)) (\<lambda>raw. return_m (case raw of
       None \<Rightarrow> None | Some t \<Rightarrow> if t = [] then None else parse t))"

definition setCached :: "(cached_completion \<Rightarrow> string) \<Rightarrow> int \<Rightarrow> string \<Rightarrow> cached_completion \<Rightarrow> rat \<Rightarrow> bool kv" where
  "setCached stringify now key entry ttlSeconds = kv_set now (cacheRedisKey key) (stringify entry) [OptEX (max 1 \<lfloor>ttlSeconds\<rfloor>)]"

definition toCompletionJson :: "cached_completion \<Rightarrow> json" where
  "toCompletionJson c = JObj [(''id'', JStr (cc_id c)), (''object'', JStr ''chat.completion''),
     (''created'', JNum (Some (cc_created c))), (''model'', JStr (cc_model c)),
     (''choices'', JArr [JObj [(''index'', JNum (Some 0)),
        (''message'', JObj [(''role'', JStr ''assistant''), (''content'', JStr (cc_content c))]),
        (''finish_reason'', JStr (cc_finishReason c))]]),
     (''usage'', JObj [(''prompt_tokens'', JNum (Some (cc_promptTokens c))),
        (''completion_tokens'', JNum (Some (cc_completionTokens c))),
        (''total_tokens'', JNum (Some (cc_promptTokens c + cc_completionTokens c)))])]"

definition jstring :: "json option \<Rightarrow> string option" where
  "jstring v = (case v of Some (JStr s) \<Rightarrow> Some s | _ \<Rightarrow> None)"

definition first_choice :: "json \<Rightarrow> json option" where
  "first_choice data = (case jget ''choices'' (Some data) of Some (JArr (c # _)) \<Rightarrow> Some c | _ \<Rightarrow> None)"

definition buildFromCompletion :: "int \<Rightarrow> json \<Rightarrow> string \<Rightarrow> cached_completion option" where
  "buildFromCompletion now data provider =
     (let first = first_choice data; usage = jget ''usage'' (Some data) in
      case jstring (jget ''content'' (jget ''message'' first)) of
        None \<Rightarrow> None
      | Some content \<Rightarrow> if content = [] then None else Some
          \<lparr>cc_id = option_or (jstring (jget ''id'' (Some data))) (''chatcmpl-cache-'' @ int_string now),
           cc_created = option_or (jnumber (jget ''created'' (Some data))) (of_int (now div 1000)),
           cc_model = option_or (jstring (jget ''model'' (Some data))) CANONICAL_MODEL,
           cc_provider = provider, cc_content = content,
           cc_finishReason = option_or (jstring (jget ''finish_reason'' first)) ''stop'',
           cc_promptTokens = option_or (jnumber (jget ''prompt_tokens'' usage)) 0,
           cc_completionTokens = option_or (jnumber (jget ''completion_tokens'' usage)) 0\<rparr>)"

definition buildFromStreamContent :: "int \<Rightarrow> string \<Rightarrow> string \<Rightarrow> string \<Rightarrow> rat \<Rightarrow> rat \<Rightarrow> cached_completion" where
  "buildFromStreamContent now content model provider promptTokens completionTokens =
     \<lparr>cc_id = ''chatcmpl-cache-'' @ int_string now, cc_created = of_int (now div 1000), cc_model = model,
      cc_provider = provider, cc_content = content, cc_finishReason = ''stop'', cc_promptTokens = promptTokens,
      cc_completionTokens = completionTokens\<rparr>"

subsection \<open>Settings\<close>

definition DEFAULT_TTL_SECONDS :: int where "DEFAULT_TTL_SECONDS = 3600"

text \<open>\<open>parseInt(s, 10)\<close>: the integer a text begins with.\<close>

definition parse_int :: "string \<Rightarrow> int option" where
  "parse_int s = (let t = trim_start s;
       neg = (case t of c # _ \<Rightarrow> c = CHR ''-'' | [] \<Rightarrow> False);
       r = (case t of c # cs \<Rightarrow> if c = CHR ''-'' \<or> c = CHR ''+'' then cs else t | [] \<Rightarrow> t);
       ds = takeWhile is_digit r
     in if ds = [] then None else Some (if neg then - int (digits_val ds) else int (digits_val ds)))"

definition parseTtl :: "string option \<Rightarrow> int" where
  "parseTtl v = (case parse_int (trim (option_or v [])) of
       Some n \<Rightarrow> if 0 < n then n else DEFAULT_TTL_SECONDS | None \<Rightarrow> DEFAULT_TTL_SECONDS)"

record cache_config =
  cg_enabled :: bool
  cg_ttlSeconds :: int

definition cache_truthy :: "string option \<Rightarrow> bool" where
  "cache_truthy v = (to_lower (trim (option_or v [])) \<in> {''1'', ''true'', ''yes'', ''on''})"

definition getCacheConfig :: "(string \<Rightarrow> string option) \<Rightarrow> (string \<Rightarrow> string option) \<Rightarrow> cache_config" where
  "getCacheConfig settings env =
     (let seeded = (\<lambda>name. case settings name of None \<Rightarrow> env name | Some v \<Rightarrow> Some v)
      in \<lparr>cg_enabled = cache_truthy (seeded ''CACHE_ENABLED''), cg_ttlSeconds = parseTtl (seeded ''CACHE_TTL_SECONDS'')\<rparr>)"

definition cache_settings :: "bool \<Rightarrow> rat \<Rightarrow> (string \<times> string) list" where
  "cache_settings enabled ttlSeconds = [(''CACHE_ENABLED'', if enabled then ''true'' else ''false''),
     (''CACHE_TTL_SECONDS'', int_string (if 0 < ttlSeconds then \<lfloor>ttlSeconds\<rfloor> else DEFAULT_TTL_SECONDS))]"

section \<open>What the cache promises\<close>

subsection \<open>Identity\<close>

lemma map_filter_cong_opt:
  "(\<And>x. x \<in> set xs \<Longrightarrow> f x = g x) \<Longrightarrow> List.map_filter f xs = List.map_filter g xs"
  by (induction xs) (simp_all split: option.split)

lemma map_of_map_filter:
  "distinct ps \<Longrightarrow> map_of (List.map_filter (\<lambda>p. map_option (Pair p) (h p)) ps) k = (if k \<in> set ps then h k else None)"
  by (induction ps) (auto split: option.splits)

lemma cacheable_params_distinct: "distinct CACHEABLE_PARAMS"
  by (simp add: CACHEABLE_PARAMS_def)

lemma cache_params_eq:
  "cache_params a = cache_params b \<longleftrightarrow> list_all (\<lambda>p. jget p (Some a) = jget p (Some b)) CACHEABLE_PARAMS"
proof
  assume e: "cache_params a = cache_params b"
  show "list_all (\<lambda>p. jget p (Some a) = jget p (Some b)) CACHEABLE_PARAMS" unfolding list_all_iff
  proof
    fix p assume "p \<in> set CACHEABLE_PARAMS"
    then have "map_of (cache_params x) p = jget p (Some x)" for x
      by (simp add: cache_params_def map_of_map_filter [OF cacheable_params_distinct])
    then show "jget p (Some a) = jget p (Some b)" using e by metis
  qed
next
  assume "list_all (\<lambda>p. jget p (Some a) = jget p (Some b)) CACHEABLE_PARAMS"
  then show "cache_params a = cache_params b"
    unfolding cache_params_def list_all_iff by (intro map_filter_cong_opt) simp
qed


text \<open>A digest that tells the sample documents apart.\<close>

definition sample_body :: "bool \<Rightarrow> json" where
  "sample_body stream = JObj [(''messages'', JArr [JStr ''hi'']), (''stream'', JBool stream), (''temperature'', JNum (Some 0))]"

definition sample_digest :: "json \<Rightarrow> string" where
  "sample_digest d = (case jget ''api'' (Some d) of None \<Rightarrow> option_or (jstring (jget ''ns'' (Some d))) [] | Some _ \<Rightarrow> ''m'')"


text \<open>Scopes of different owners have different namespaces, so their entries are apart.\<close>

lemma cache_owner:
  assumes "inj_on digest {cache_document a (rs_namespace s) pin, cache_document b (rs_namespace s') pin'}"
    and "s = resolveScope t n" "s' = resolveScope t' n'"
    and "responseCacheKey digest a (rs_namespace s) pin = responseCacheKey digest b (rs_namespace s') pin'"
  shows "rs_ownerTeamId s = rs_ownerTeamId s'"
proof -
  have "cache_document a (rs_namespace s) pin = cache_document b (rs_namespace s') pin'"
    using assms(4) unfolding responseCacheKey_def by (subst (asm) inj_on_eq_iff [OF assms(1)]) simp_all
  then have "rs_namespace s = rs_namespace s'" by (simp add: cache_document_def)
  then show ?thesis using assms(2, 3) namespace_owner by metis
qed

subsection \<open>Storing and reading back\<close>

lemma cacheRedisKey_inj [simp]: "cacheRedisKey a = cacheRedisKey b \<longleftrightarrow> a = b"
  by (simp add: cacheRedisKey_def)

lemma view_purge_other: "k' \<noteq> k \<Longrightarrow> view t (purge now k s) k' = view t s k'"
  by (cases "map_of s k") (auto simp: purge_def view_def map_of_store_delete)

lemma after_setCached:
  "setCached enc now key entry ttl s = (Inr True, store_set (cacheRedisKey key)
     \<lparr>val_of = VStr (enc entry), expires_at = Some (now + max 1 \<lfloor>ttl\<rfloor> * 1000)\<rparr> (purge now (cacheRedisKey key) s))"
  by (simp add: setCached_def kv_set_ex_run)

text \<open>
  C21. A stored answer is what is read back, under its own key and for exactly its lifetime, one second at
  least; and what is replayed from it makes the same entry again.
\<close>

theorem cached_answer_roundtrip:
  assumes codec: "parse (stringify entry) = Some entry" "stringify entry \<noteq> []"
    and stored: "setCached stringify now key entry ttl s = (r, s')" and later: "now \<le> now'"
  shows "fst (getCached parse now' key s') = Inr (if now' < now + max 1 \<lfloor>ttl\<rfloor> * 1000 then Some entry else None) \<and>
    (key' \<noteq> key \<longrightarrow> view now' s' (cacheRedisKey key') = view now' s (cacheRedisKey key')) \<and>
    (cc_content entry \<noteq> [] \<longrightarrow> buildFromCompletion now' (toCompletionJson entry) (cc_provider entry) = Some entry)"
proof (intro conjI)
  let ?k = "cacheRedisKey key" and ?dead = "now + max 1 \<lfloor>ttl\<rfloor> * 1000"
  have s': "s' = store_set ?k \<lparr>val_of = VStr (stringify entry), expires_at = Some ?dead\<rparr> (purge now ?k s)"
    using stored by (simp add: after_setCached)
  have v: "view now' s' ?k = (if now' < ?dead then Some \<lparr>val_of = VStr (stringify entry), expires_at = Some ?dead\<rparr> else None)"
    by (simp add: s' view_store_set expired_def)
  have h: "holds_str now' s' ?k" by (simp add: holds_str_def v)
  have "getCached parse now' key s' = (Inr (case str_at now' s' ?k of None \<Rightarrow> None | Some t \<Rightarrow> if t = [] then None else parse t), purge now' ?k s')"
    by (simp add: getCached_def bind_m_def kv_get_run [OF h] return_m_def)
  then show "fst (getCached parse now' key s') = Inr (if now' < ?dead then Some entry else None)"
    by (simp add: str_at_def v codec)
  show "key' \<noteq> key \<longrightarrow> view now' s' (cacheRedisKey key') = view now' s (cacheRedisKey key')"
    by (simp add: s' view_store_set view_purge_other)
  show "cc_content entry \<noteq> [] \<longrightarrow> buildFromCompletion now' (toCompletionJson entry) (cc_provider entry) = Some entry"
    by (simp add: buildFromCompletion_def toCompletionJson_def first_choice_def jget_def jstring_def jnumber_def)
qed

definition sample_entry :: cached_completion where
  "sample_entry = buildFromStreamContent 7000 ''hello'' ''gpt'' ''openai'' 3 2"

theorem cached_answer_roundtrip_witness:
  "fst (getCached (\<lambda>_. Some sample_entry) 1999 ''k'' (snd (setCached (\<lambda>_. ''x'') 1000 ''k'' sample_entry (1/2) []))) = Inr (Some sample_entry)
   \<and> fst (getCached (\<lambda>_. Some sample_entry) 2000 ''k'' (snd (setCached (\<lambda>_. ''x'') 1000 ''k'' sample_entry (1/2) []))) = Inr None"
proof -
  obtain r s' where w: "setCached (\<lambda>_. ''x'') 1000 ''k'' sample_entry (1/2) [] = (r, s')" by fastforce
  have "max 1 \<lfloor>1/2 :: rat\<rfloor> = 1" by simp
  then show ?thesis
    using cached_answer_roundtrip [OF _ _ w, of "\<lambda>_. Some sample_entry" 1999]
      cached_answer_roundtrip [OF _ _ w, of "\<lambda>_. Some sample_entry" 2000] by (simp add: w)
qed

end
