(* ===== verification/Upstream_Failure.thy ===== *)
theory Upstream_Failure
  imports Response_Cache
begin

text \<open>
  What a provider's error says about the key that sent the request, and what of it the caller may read:
  \<open>src/services/proxy/upstreamFailure.ts\<close>. The document parser and writer are parameters.
\<close>

datatype failure_kind = RateLimited | AuthFailed | ServerFailed | ClientFault

definition ANTHROPIC_KINDS :: "(string \<times> failure_kind) list" where
  "ANTHROPIC_KINDS = [(''authentication_error'', AuthFailed), (''rate_limit_error'', RateLimited),
     (''billing_error'', RateLimited), (''overloaded_error'', ServerFailed), (''api_error'', ServerFailed),
     (''timeout_error'', ServerFailed), (''permission_error'', ClientFault)]"

text \<open>The \<open>error\<close> object of an Anthropic error body.\<close>

definition anthropic_error :: "json option \<Rightarrow> (string \<times> json) list option" where
  "anthropic_error b = (if jobject b \<noteq> None \<and> jget ''type'' b = Some (JStr ''error'')
     then jobject (jget ''error'' b) else None)"

definition anthropicErrorKind :: "(string \<Rightarrow> json option) \<Rightarrow> string \<Rightarrow> string option" where
  "anthropicErrorKind parse txt = (case anthropic_error (parse txt) of None \<Rightarrow> None
     | Some err \<Rightarrow> jstring (map_of err ''type''))"

definition classifyFailure :: "(string \<Rightarrow> json option) \<Rightarrow> int \<Rightarrow> string \<Rightarrow> bool \<Rightarrow> failure_kind" where
  "classifyFailure parse status txt native =
     (case (if native then map_of ANTHROPIC_KINDS (option_or (anthropicErrorKind parse txt) []) else None) of
        Some named \<Rightarrow> named
      | None \<Rightarrow> if status = 429 then RateLimited
          else if \<not> native \<and> (status = 401 \<or> status = 403) then AuthFailed
          else if 500 \<le> status then ServerFailed else ClientFault)"

definition SCRUBBED :: "(int \<times> string) list" where
  "SCRUBBED = [(401, ''The provider refused the credential of the pool that served this request.''),
     (403, ''The provider refused this request for the pool that served it.''),
     (429, ''The provider is rate limiting the pool that served this request. Retry later.'')]"

definition optional_text :: "string \<Rightarrow> json option \<Rightarrow> (string \<times> json) list" where
  "optional_text name v = (case jstring v of Some s \<Rightarrow> [(name, JStr s)] | None \<Rightarrow> [])"

text \<open>A member that is undefined is left out by the writer.\<close>

definition optional_member :: "string \<Rightarrow> json option \<Rightarrow> (string \<times> json) list" where
  "optional_member name v = (case v of Some x \<Rightarrow> [(name, x)] | None \<Rightarrow> [])"

definition scrubbed_body :: "json option \<Rightarrow> string \<Rightarrow> json" where
  "scrubbed_body b message = (case anthropic_error b of
       Some err \<Rightarrow> JObj ([(''type'', JStr ''error''),
           (''error'', JObj (optional_member ''type'' (map_of err ''type'') @ [(''message'', JStr message)]))]
         @ optional_text ''request_id'' (jget ''request_id'' b))
     | None \<Rightarrow> let err = option_or (jobject (jget ''error'' b)) [] in
         JObj [(''error'', JObj ([(''message'', JStr message)] @ optional_text ''type'' (map_of err ''type'')
           @ optional_text ''code'' (map_of err ''code'')))])"

definition callerErrorBody :: "(string \<Rightarrow> json option) \<Rightarrow> (json \<Rightarrow> string) \<Rightarrow> int \<Rightarrow> string \<Rightarrow> bool \<Rightarrow> string" where
  "callerErrorBody parse stringify status txt tenantOnSharedKey = (case map_of SCRUBBED status of
       Some message \<Rightarrow> if tenantOnSharedKey then stringify (scrubbed_body (parse txt) message) else txt
     | None \<Rightarrow> txt)"

definition RELAYED :: "string list" where
  "RELAYED = [''retry-after'', ''request-id'', ''x-should-retry'']"

definition put_header :: "string \<Rightarrow> string \<Rightarrow> (string \<times> string) list \<Rightarrow> (string \<times> string) list" where
  "put_header k v hs = AList.update k v hs"

text \<open>\<open>removed\<close> is what \<open>strippedHeader\<close> answers: the text to show, if there is any.\<close>

definition nativeAnswerHeaders :: "(string \<Rightarrow> string option) \<Rightarrow> string option \<Rightarrow> (string \<times> string) list" where
  "nativeAnswerHeaders upstream_header removed =
     fold (\<lambda>name out. case upstream_header name of Some v \<Rightarrow> put_header name v out | None \<Rightarrow> out) RELAYED
       ((''X-Nexus-Native'', ''anthropic'') #
        (case removed of Some r \<Rightarrow> if r \<noteq> [] then [(''X-Nexus-Stripped'', r)] else [] | None \<Rightarrow> []))"

subsection \<open>What the caller may learn\<close>


definition error_doc :: "string \<Rightarrow> json" where
  "error_doc message = JObj [(''error'', JObj [(''type'', JStr ''auth''), (''message'', JStr message)])]"


end
