(* ===== verification/Stream_Tally.thy ===== *)
theory Stream_Tally
  imports Usage_Pricing Model_Path Response_Cache
begin

text \<open>
  Reading a streamed answer as it passes: \<open>src/lib/streamTally.ts\<close>, and the event frames the gateway writes
  itself, \<open>src/services/proxy/sse.ts\<close>. A chunk is the text the stream's decoder gave for it; the parser and
  the writer of documents are parameters, and the numbers of a parsed document are finite. A frame that is
  the document \<open>null\<close> makes the reader throw, which is why reading is in the monad of \<open>Prelude\<close>.
\<close>

datatype stream_format = OpenAiStream | AnthropicStream
datatype tally_error = NullFrame

record stream_tally =
  sl_pending :: string
  sl_content :: string
  sl_usage :: "(rat \<times> rat option) option"
  sl_detail :: usage_detail
  sl_dropped :: bool
  sl_failed :: bool
  sl_parts :: anthropic_parts

definition createStreamTally :: stream_tally where
  "createStreamTally = \<lparr>sl_pending = [], sl_content = [], sl_usage = None, sl_detail = no_detail, sl_dropped = False,
     sl_failed = False, sl_parts = no_parts\<rparr>"

definition MAX_FRAME_CHARS :: nat where "MAX_FRAME_CHARS = 1000000"

definition jtruthy :: "json option \<Rightarrow> bool" where
  "jtruthy v = (case v of None \<Rightarrow> False | Some JNull \<Rightarrow> False | Some (JBool b) \<Rightarrow> b | Some (JNum n) \<Rightarrow> n \<noteq> Some 0
     | Some (JStr s) \<Rightarrow> s \<noteq> [] | Some (JArr _) \<Rightarrow> True | Some (JObj _) \<Rightarrow> True)"

text \<open>\<open>v?.[0]\<close>.\<close>

definition jfirst :: "json option \<Rightarrow> json option" where
  "jfirst v = (case v of Some (JArr (c # _)) \<Rightarrow> Some c | Some (JObj kvs) \<Rightarrow> map_of kvs ''0'' | _ \<Rightarrow> None)"

subsection \<open>One frame\<close>

definition add_content :: "json option \<Rightarrow> stream_tally \<Rightarrow> stream_tally" where
  "add_content piece st = (case piece of Some (JStr s) \<Rightarrow> st\<lparr>sl_content := sl_content st @ s\<rparr> | _ \<Rightarrow> st)"

definition add_detail :: "json option \<Rightarrow> stream_tally \<Rightarrow> stream_tally" where
  "add_detail reported st = (if jtruthy reported
     then st\<lparr>sl_detail := mergeUsageDetail (sl_detail st) (readUsageDetail reported)\<rparr> else st)"

definition readOpenAiFrame :: "json \<Rightarrow> stream_tally \<Rightarrow> stream_tally" where
  "readOpenAiFrame frame st =
     (let f = Some frame;
          st1 = add_content (jget ''content'' (jget ''delta'' (jfirst (jget ''choices'' f)))) st;
          u = jget ''usage'' f;
          st2 = (case jnumber (jget ''prompt_tokens'' u) of None \<Rightarrow> st1
            | Some n \<Rightarrow> st1\<lparr>sl_usage := Some (n, Some (option_or (jnumber (jget ''completion_tokens'' u)) 0))\<rparr>)
      in add_detail (nullish_or u (nullish_or (jget ''usage'' (jget ''message'' f)) (jget ''usageMetadata'' f))) st2)"

definition readAnthropicFrame :: "json \<Rightarrow> stream_tally \<Rightarrow> stream_tally" where
  "readAnthropicFrame frame st =
     (let f = Some frame; ty = jstring (jget ''type'' f); d = jget ''delta'' f in
      if ty = Some ''content_block_delta'' then
        add_content (nullish_or (jget ''text'' d) (nullish_or (jget ''thinking'' d) (jget ''partial_json'' d))) st
      else if ty = Some ''error'' then st\<lparr>sl_failed := True\<rparr>
      else let delta = (ty = Some ''message_delta'');
               reported = (if ty = Some ''message_start'' then jget ''usage'' (jget ''message'' f)
                 else if delta then jget ''usage'' f else None)
        in if \<not> jtruthy reported then st
           else let parts = mergeAnthropicUsage (sl_parts st) reported delta; t = anthropicTotals parts;
                    st1 = st\<lparr>sl_parts := parts\<rparr>;
                    st2 = (case at_input t of None \<Rightarrow> st1
                      | Some n \<Rightarrow> st1\<lparr>sl_usage := Some (of_int n, map_option of_int (at_output t))\<rparr>)
             in add_detail reported st2)"

definition frame_of :: "(string \<Rightarrow> json option) \<Rightarrow> string \<Rightarrow> json option" where
  "frame_of parse raw = (let line = trim raw in
     if \<not> starts_with ''data:'' line then None
     else let j = trim (drop 5 line) in if j = [] \<or> j = ''[DONE]'' then None else parse j)"

definition apply_frame :: "stream_format \<Rightarrow> json \<Rightarrow> stream_tally \<Rightarrow> stream_tally" where
  "apply_frame fmt frame st = (case fmt of OpenAiStream \<Rightarrow> readOpenAiFrame frame st | AnthropicStream \<Rightarrow> readAnthropicFrame frame st)"

definition readFrame :: "(string \<Rightarrow> json option) \<Rightarrow> stream_format \<Rightarrow> string \<Rightarrow> (stream_tally, tally_error, unit) run" where
  "readFrame parse fmt raw st = (case frame_of parse raw of None \<Rightarrow> (Inr (), st)
     | Some frame \<Rightarrow> if frame = JNull then (Inl NullFrame, st) else (Inr (), apply_frame fmt frame st))"

subsection \<open>Chunks\<close>

definition newline :: char where "newline = CHR 0x0A"

lemma shorter_rest: "x \<in> set p \<Longrightarrow> length (tl (dropWhile (\<lambda>c. c \<noteq> x) p)) < length p"
  using length_dropWhile_le [of "\<lambda>c. c \<noteq> x" p] by (cases p) (auto simp: less_Suc_eq_le)

text \<open>The lines that are complete; a throw leaves the line it came from in \<open>pending\<close>.\<close>

function eat_lines :: "(string \<Rightarrow> json option) \<Rightarrow> stream_format \<Rightarrow> string \<Rightarrow> (stream_tally, tally_error, unit) run" where
  "eat_lines parse fmt pending st =
     (if newline \<notin> set pending then (Inr (), st\<lparr>sl_pending := pending\<rparr>)
      else case readFrame parse fmt (takeWhile (\<lambda>c. c \<noteq> newline) pending) st of
          (Inl e, st') \<Rightarrow> (Inl e, st'\<lparr>sl_pending := pending\<rparr>)
        | (Inr _, st') \<Rightarrow> eat_lines parse fmt (tl (dropWhile (\<lambda>c. c \<noteq> newline) pending)) st')"
  by pat_completeness auto
termination
  by (relation "measure (\<lambda>(parse, fmt, pending, st). length pending)")
    (simp_all del: length_tl add: shorter_rest)

declare eat_lines.simps [simp del]

definition consume :: "(string \<Rightarrow> json option) \<Rightarrow> stream_format \<Rightarrow> string \<Rightarrow> (stream_tally, tally_error, unit) run" where
  "consume parse fmt piece st = (if piece = [] then (Inr (), st)
     else case eat_lines parse fmt (sl_pending st @ piece) st of
         (Inl e, st') \<Rightarrow> (Inl e, st')
       | (Inr _, st') \<Rightarrow> (Inr (), if MAX_FRAME_CHARS < length (sl_pending st') then st'\<lparr>sl_pending := [], sl_dropped := True\<rparr> else st'))"

definition tally_push :: "(string \<Rightarrow> json option) \<Rightarrow> stream_format \<Rightarrow> string \<Rightarrow> (stream_tally, tally_error, unit) run" where
  "tally_push parse fmt piece = consume parse fmt piece"

definition tally_end :: "(string \<Rightarrow> json option) \<Rightarrow> stream_format \<Rightarrow> string \<Rightarrow> (stream_tally, tally_error, unit) run" where
  "tally_end parse fmt flush = then_m (consume parse fmt flush) (\<lambda>st.
     if sl_pending st = [] then (Inr (), st)
     else case readFrame parse fmt (sl_pending st) st of
         (Inl e, st') \<Rightarrow> (Inl e, st') | (Inr _, st') \<Rightarrow> (Inr (), st'\<lparr>sl_pending := []\<rparr>))"

fun tally_stream :: "(string \<Rightarrow> json option) \<Rightarrow> stream_format \<Rightarrow> string list \<Rightarrow> (stream_tally, tally_error, unit) run" where
  "tally_stream parse fmt [] = return_m ()"
| "tally_stream parse fmt (p # ps) = then_m (tally_push parse fmt p) (tally_stream parse fmt ps)"

subsection \<open>The gateway's own frames\<close>

definition last_four :: "string \<Rightarrow> string" where
  "last_four s = drop (length s - 4) s"

definition boundary_push :: "string \<Rightarrow> string \<Rightarrow> string" where
  "boundary_push tail chunk = last_four (tail @ last_four chunk)"

definition boundary_closed :: "string \<Rightarrow> bool" where
  "boundary_closed tail \<longleftrightarrow> tail = [] \<or> ends_with [CHR 0x0A, CHR 0x0A] tail \<or>
     ends_with [CHR 0x0D, CHR 0x0A, CHR 0x0D, CHR 0x0A] tail \<or> ends_with [CHR 0x0D, CHR 0x0D] tail"

definition sse_data :: "string \<Rightarrow> string" where
  "sse_data j = ''data: '' @ j @ [newline, newline]"

definition single_chunk :: "int \<Rightarrow> json \<Rightarrow> json" where
  "single_chunk now data = (let first = first_choice data in JObj
     [(''id'', JStr (option_or (jstring (jget ''id'' (Some data))) (''chatcmpl-'' @ int_string now))),
      (''object'', JStr ''chat.completion.chunk''),
      (''created'', JNum (Some (option_or (jnumber (jget ''created'' (Some data))) (of_int (now div 1000))))),
      (''model'', JStr (option_or (jstring (jget ''model'' (Some data))) [])),
      (''choices'', JArr [JObj [(''index'', JNum (Some 0)),
         (''delta'', JObj [(''role'', JStr ''assistant''),
            (''content'', JStr (option_or (jstring (jget ''content'' (jget ''message'' first))) []))]),
         (''finish_reason'', JStr (option_or (jstring (jget ''finish_reason'' first)) ''stop''))]])])"

definition toSingleSseChunk :: "(json \<Rightarrow> string) \<Rightarrow> int \<Rightarrow> json \<Rightarrow> string" where
  "toSingleSseChunk stringify now data = sse_data (stringify (single_chunk now data)) @ sse_data ''[DONE]''"

section \<open>Chunks do not matter\<close>

abbreviation line_list :: "string \<Rightarrow> string list" where
  "line_list t \<equiv> split_on (\<lambda>c. c = newline) t"

definition read_line :: "(string \<Rightarrow> json option) \<Rightarrow> stream_format \<Rightarrow> string \<Rightarrow> stream_tally \<Rightarrow> stream_tally" where
  "read_line parse fmt raw st = (case frame_of parse raw of None \<Rightarrow> st | Some frame \<Rightarrow> apply_frame fmt frame st)"

text \<open>The whole answer read line by line, which is what the incremental reader must agree with.\<close>

definition tally_of :: "(string \<Rightarrow> json option) \<Rightarrow> stream_format \<Rightarrow> string \<Rightarrow> stream_tally" where
  "tally_of parse fmt t = fold (read_line parse fmt) (line_list t) createStreamTally"

lemma add_content_pending: "add_content x (st\<lparr>sl_pending := p\<rparr>) = (add_content x st)\<lparr>sl_pending := p\<rparr>"
  by (cases x) (simp_all add: add_content_def split: json.split)

lemma add_detail_pending: "add_detail x (st\<lparr>sl_pending := p\<rparr>) = (add_detail x st)\<lparr>sl_pending := p\<rparr>"
  by (simp add: add_detail_def)

lemma add_content_keeps [simp]: "sl_parts (add_content x st) = sl_parts st" "sl_pending (add_content x st) = sl_pending st"
  by (simp_all add: add_content_def split: option.split json.split)

lemma add_detail_keeps [simp]: "sl_pending (add_detail x st) = sl_pending st"
  by (simp add: add_detail_def)

lemma openai_pending: "readOpenAiFrame f (st\<lparr>sl_pending := p\<rparr>) = (readOpenAiFrame f st)\<lparr>sl_pending := p\<rparr>"
  unfolding readOpenAiFrame_def Let_def
  by (cases "jnumber (jget ''prompt_tokens'' (jget ''usage'' (Some f)))")
    (simp_all only: option.case add_content_pending add_detail_pending stream_tally.update_convs, simp_all add: add_detail_def)

lemma anthropic_pending: "readAnthropicFrame f (st\<lparr>sl_pending := p\<rparr>) = (readAnthropicFrame f st)\<lparr>sl_pending := p\<rparr>"
  by (simp add: readAnthropicFrame_def Let_def add_content_pending add_detail_def split: option.split)

lemma apply_frame_pending:
  "apply_frame fmt frame (st\<lparr>sl_pending := p\<rparr>) = (apply_frame fmt frame st)\<lparr>sl_pending := p\<rparr>"
  by (cases fmt) (simp_all add: apply_frame_def openai_pending anthropic_pending)

lemma read_line_pending: "read_line parse fmt l (st\<lparr>sl_pending := p\<rparr>) = (read_line parse fmt l st)\<lparr>sl_pending := p\<rparr>"
  by (simp add: read_line_def apply_frame_pending split: option.split)

lemma read_lines_pending:
  fixes p :: string
  shows "fold (read_line parse fmt) ls (st\<lparr>sl_pending := p\<rparr>) = (fold (read_line parse fmt) ls st)\<lparr>sl_pending := p\<rparr>"
  by (induction ls arbitrary: st) (simp_all add: read_line_pending)

lemma readFrame_line: "frame_of parse l \<noteq> Some JNull \<Longrightarrow> readFrame parse fmt l st = (Inr (), read_line parse fmt l st)"
  by (simp add: readFrame_def read_line_def split: option.split)

lemma frame_of_empty [simp]: "frame_of parse [] = None"
  by (simp add: frame_of_def trim_def starts_with_def)

lemma split_on_append: "split_on p (a @ b) = butlast (split_on p a) @ split_on p (last (split_on p a) @ b)"
proof (induction a)
  case (Cons c a)
  show ?case
  proof (cases "p c")
    case True
    then show ?thesis using Cons by simp
  next
    case False
    obtain w ws where w: "split_on p a = w # ws" by (cases "split_on p a") auto
    show ?thesis
    proof (cases "ws = []")
      case True
      then show ?thesis using False Cons w by simp
    next
      case more: False
      then show ?thesis using False Cons w by simp
    qed
  qed
qed simp

lemma last_line_clean: "\<forall>c \<in> set (last (line_list t)). c \<noteq> newline"
proof (induction t)
  case (Cons c t)
  then show ?case by (cases "line_list t") (auto split: if_splits)
qed simp

lemma split_at_newline:
  "newline \<in> set t \<Longrightarrow> line_list t = takeWhile (\<lambda>c. c \<noteq> newline) t # line_list (tl (dropWhile (\<lambda>c. c \<noteq> newline) t))"
  by (induction t) auto

lemma eat_lines_read:
  assumes "\<forall>l \<in> set (butlast (line_list t)). frame_of parse l \<noteq> Some JNull"
  shows "eat_lines parse fmt t st =
    (Inr (), (fold (read_line parse fmt) (butlast (line_list t)) st)\<lparr>sl_pending := last (line_list t)\<rparr>)"
  using assms
proof (induction t arbitrary: st rule: measure_induct_rule [of length])
  case (less t)
  show ?case
  proof (cases "newline \<in> set t")
    case False
    then have "line_list t = [t]" by (intro split_on_whole) auto
    then show ?thesis using False by (subst eat_lines.simps) simp
  next
    case True
    let ?l = "takeWhile (\<lambda>c. c \<noteq> newline) t" and ?r = "tl (dropWhile (\<lambda>c. c \<noteq> newline) t)"
    note s = split_at_newline [OF True]
    have "frame_of parse ?l \<noteq> Some JNull" using less.prems by (simp add: s)
    note rd = readFrame_line [OF this]
    have "eat_lines parse fmt ?r (read_line parse fmt ?l st) =
        (Inr (), (fold (read_line parse fmt) (butlast (line_list ?r)) (read_line parse fmt ?l st))\<lparr>sl_pending := last (line_list ?r)\<rparr>)"
      by (rule less.IH [OF shorter_rest [OF True]]) (use less.prems in \<open>simp add: s\<close>)
    then show ?thesis using True by (subst eat_lines.simps) (simp add: rd s)
  qed
qed

lemma split_on_clean: "(\<forall>c \<in> set q. \<not> p c) \<Longrightarrow> split_on p (q @ b) = (q @ hd (split_on p b)) # tl (split_on p b)"
  by (induction q) auto

lemma line_parts:
  shows "set (butlast (line_list a)) \<subseteq> set (line_list (a @ b))"
    and "\<exists>l \<in> set (line_list (a @ b)). length (last (line_list a)) \<le> length l"
proof -
  let ?q = "last (line_list a)"
  have e: "line_list (a @ b) = butlast (line_list a) @ line_list (?q @ b)" by (rule split_on_append)
  then show "set (butlast (line_list a)) \<subseteq> set (line_list (a @ b))" by simp
  have "line_list (?q @ b) = (?q @ hd (line_list b)) # tl (line_list b)"
    by (rule split_on_clean) (rule last_line_clean)
  then show "\<exists>l \<in> set (line_list (a @ b)). length ?q \<le> length l" by (simp add: e)
qed

text \<open>The state after the text \<open>t\<close>: its complete lines read, the rest pending.\<close>

definition tally_after :: "(string \<Rightarrow> json option) \<Rightarrow> stream_format \<Rightarrow> string \<Rightarrow> stream_tally" where
  "tally_after parse fmt t = (fold (read_line parse fmt) (butlast (line_list t)) createStreamTally)\<lparr>sl_pending := last (line_list t)\<rparr>"

definition plain_stream :: "(string \<Rightarrow> json option) \<Rightarrow> string \<Rightarrow> bool" where
  "plain_stream parse t \<longleftrightarrow> list_all (\<lambda>l. length l \<le> MAX_FRAME_CHARS \<and> frame_of parse l \<noteq> Some JNull) (line_list t)"

lemma consume_after:
  assumes "plain_stream parse (t @ p @ rest)"
  shows "consume parse fmt p (tally_after parse fmt t) = (Inr (), tally_after parse fmt (t @ p))"
proof (cases "p = []")
  case True
  then show ?thesis by (simp add: consume_def)
next
  case False
  let ?q = "last (line_list t)"
  let ?st = "fold (read_line parse fmt) (butlast (line_list t)) createStreamTally"
  have e: "line_list (t @ p) = butlast (line_list t) @ line_list (?q @ p)" by (rule split_on_append)
  have whole: "\<forall>l \<in> set (line_list (t @ p @ rest)). length l \<le> MAX_FRAME_CHARS \<and> frame_of parse l \<noteq> Some JNull"
    using assms by (simp add: plain_stream_def list_all_iff)
  have sub: "set (butlast (line_list (t @ p))) \<subseteq> set (line_list (t @ p @ rest))" using line_parts(1) [of "t @ p" rest] by simp
  have "\<forall>l \<in> set (butlast (line_list (?q @ p))). frame_of parse l \<noteq> Some JNull"
    using sub whole by (auto simp: e butlast_append)
  from eat_lines_read [OF this, of fmt "?st\<lparr>sl_pending := ?q\<rparr>"]
  have run: "eat_lines parse fmt (?q @ p) (?st\<lparr>sl_pending := ?q\<rparr>) = (Inr (), tally_after parse fmt (t @ p))"
    by (simp add: tally_after_def e read_lines_pending butlast_append)
  obtain l where "l \<in> set (line_list (t @ p @ rest))" "length (last (line_list (t @ p))) \<le> length l"
    using line_parts(2) [of "t @ p" rest] by auto
  with whole have "length (last (line_list (t @ p))) \<le> MAX_FRAME_CHARS" by (meson le_trans)
  moreover have "sl_pending (tally_after parse fmt t) = ?q" by (simp add: tally_after_def)
  ultimately show ?thesis using False run by (simp add: consume_def tally_after_def)
qed

lemma stream_after:
  assumes "plain_stream parse (t @ concat ps @ rest)"
  shows "tally_stream parse fmt ps (tally_after parse fmt t) = (Inr (), tally_after parse fmt (t @ concat ps))"
  using assms
proof (induction ps arbitrary: t)
  case (Cons p ps)
  have "consume parse fmt p (tally_after parse fmt t) = (Inr (), tally_after parse fmt (t @ p))"
    by (rule consume_after [of parse t p "concat ps @ rest"]) (use Cons.prems in simp)
  moreover have "tally_stream parse fmt ps (tally_after parse fmt (t @ p)) = (Inr (), tally_after parse fmt ((t @ p) @ concat ps))"
    by (rule Cons.IH) (use Cons.prems in simp)
  ultimately show ?case by (simp add: tally_push_def then_run)
qed (simp add: return_run)

lemma tally_after_start: "tally_after parse fmt [] = createStreamTally"
  by (simp add: tally_after_def createStreamTally_def)

lemma tally_of_after:
  "tally_of parse fmt t = (read_line parse fmt (last (line_list t)) (tally_after parse fmt t))\<lparr>sl_pending := []\<rparr>"
proof -
  let ?st = "fold (read_line parse fmt) (butlast (line_list t)) createStreamTally"
  have "line_list t = butlast (line_list t) @ [last (line_list t)]" by (rule append_butlast_last_id [symmetric]) simp
  then have "tally_of parse fmt t = read_line parse fmt (last (line_list t)) ?st"
    unfolding tally_of_def by (metis fold_append comp_apply fold_simps(1,2))
  moreover have "sl_pending (tally_of parse fmt t) = []"
    using arg_cong [OF read_lines_pending [of parse fmt "line_list t" "[]" createStreamTally], of sl_pending]
    by (simp add: tally_of_def createStreamTally_def)
  ultimately show ?thesis by (simp add: tally_after_def read_line_pending)
qed

lemma whole_stream:
  assumes ok: "plain_stream parse (concat ps @ fl)"
  shows "then_m (tally_stream parse fmt ps) (tally_end parse fmt fl) createStreamTally = (Inr (), tally_of parse fmt (concat ps @ fl))"
proof -
  let ?t = "concat ps @ fl"
  have "tally_stream parse fmt ps createStreamTally = (Inr (), tally_after parse fmt (concat ps))"
    using stream_after [of parse "[]" ps fl fmt] ok by (simp add: tally_after_start)
  moreover have "consume parse fmt fl (tally_after parse fmt (concat ps)) = (Inr (), tally_after parse fmt ?t)"
    using consume_after [of parse "concat ps" fl "[]" fmt] ok by simp
  moreover have pend: "sl_pending (tally_after parse fmt ?t) = last (line_list ?t)" by (simp add: tally_after_def)
  moreover have "frame_of parse (last (line_list ?t)) \<noteq> Some JNull"
    using ok by (simp add: plain_stream_def list_all_iff)
  ultimately show ?thesis
    by (cases "last (line_list ?t) = []")
      (simp_all add: then_run tally_end_def tally_of_after readFrame_line read_line_def)
qed

text \<open>
  C19. What is read off a stream does not depend on where the network cut it: over any chunks, and whatever
  the decoder gives at the end, the reader ends in the state of reading the whole text line by line, as long
  as no line passes the frame limit and no frame is the document \<open>null\<close>.
\<close>

theorem tally_ignores_chunking:
  assumes "plain_stream parse (concat pieces @ flush)"
  shows "then_m (tally_stream parse fmt pieces) (tally_end parse fmt flush) createStreamTally
      = (Inr (), tally_of parse fmt (concat pieces @ flush)) \<and>
    (concat pieces' @ flush' = concat pieces @ flush \<longrightarrow>
      then_m (tally_stream parse fmt pieces') (tally_end parse fmt flush') createStreamTally
      = then_m (tally_stream parse fmt pieces) (tally_end parse fmt flush) createStreamTally)"
  using whole_stream [OF assms] whole_stream [of parse pieces' flush'] assms by simp

text \<open>A parser for examples: one document.\<close>

definition hello_frame :: json where
  "hello_frame = JObj [(''choices'', JArr [JObj [(''delta'', JObj [(''content'', JStr ''hello'')])]]),
     (''usage'', JObj [(''prompt_tokens'', JNum (Some 3))])]"

definition sample_parse :: "string \<Rightarrow> json option" where
  "sample_parse t = (if t = ''H'' then Some hello_frame else if t = ''null'' then Some JNull else None)"

definition sample_stream :: string where
  "sample_stream = ''data: H'' @ [newline, newline] @ ''data: [DONE]'' @ [newline]"

theorem tally_ignores_chunking_witness:
  "then_m (tally_stream sample_parse OpenAiStream [''da'', drop 2 sample_stream]) (tally_end sample_parse OpenAiStream [])
     createStreamTally = (Inr (), tally_of sample_parse OpenAiStream sample_stream)
   \<and> sl_content (tally_of sample_parse OpenAiStream sample_stream) = ''hello''"
proof -
  have "line_list (concat [''da'', drop 2 sample_stream] @ []) = [''data: H'', [], ''data: [DONE]'', []]" by code_simp
  moreover have "frame_of sample_parse ''data: H'' = Some hello_frame \<and> frame_of sample_parse ''data: [DONE]'' = None" by code_simp
  ultimately have "plain_stream sample_parse (concat [''da'', drop 2 sample_stream] @ [])"
    by (simp add: plain_stream_def MAX_FRAME_CHARS_def hello_frame_def)
  from tally_ignores_chunking [OF this, of OpenAiStream] have
    "then_m (tally_stream sample_parse OpenAiStream [''da'', drop 2 sample_stream]) (tally_end sample_parse OpenAiStream [])
       createStreamTally = (Inr (), tally_of sample_parse OpenAiStream sample_stream)"
    by (simp add: sample_stream_def)
  moreover have "sl_content (tally_of sample_parse OpenAiStream sample_stream) = ''hello''" by code_simp
  ultimately show ?thesis ..
qed

lemma eat_null_line:
  assumes "newline \<notin> set l" "frame_of parse l = Some JNull"
  shows "eat_lines parse fmt (l @ newline # r) st = (Inl NullFrame, st\<lparr>sl_pending := l @ newline # r\<rparr>)"
proof -
  have "takeWhile (\<lambda>c. c \<noteq> newline) (l @ newline # r) = l" using assms(1) by (induction l) auto
  then show ?thesis using assms(2) by (subst eat_lines.simps) (simp add: readFrame_def)
qed

text \<open>
  A frame that is the document \<open>null\<close> stops the reader with a thrown error, whatever was read before it;
  and when it is the last line of its chunk, ending the reading throws again.
\<close>

theorem null_frame_throws:
  assumes "parse ''null'' = Some JNull" and "sl_pending st = []"
  shows "\<exists>st'. tally_push parse fmt (''data: null'' @ [newline, newline]) st = (Inl NullFrame, st') \<and>
    fst (tally_end parse fmt [] st') = Inl NullFrame"
proof -
  have t: "trim ''data: null'' = ''data: null''" "trim '' null'' = ''null''" "trim (''data: null'' @ [newline, newline]) = ''data: null''"
    by code_simp+
  have n: "newline \<notin> set ''data: null''" "newline \<in> set (''data: null'' @ [newline, newline])" by (simp_all add: newline_def)
  have dr: "drop 5 ''data: null'' = '' null''" by simp
  have f: "frame_of parse ''data: null'' = Some JNull" "frame_of parse (''data: null'' @ [newline, newline]) = Some JNull"
    unfolding frame_of_def Let_def t dr using assms(1) by (simp_all add: starts_with_def)
  have "eat_lines parse fmt (''data: null'' @ newline # [newline]) st = (Inl NullFrame, st\<lparr>sl_pending := ''data: null'' @ newline # [newline]\<rparr>)"
    by (rule eat_null_line) (rule n(1), rule f(1))
  then have p: "tally_push parse fmt (''data: null'' @ [newline, newline]) st
      = (Inl NullFrame, st\<lparr>sl_pending := ''data: null'' @ [newline, newline]\<rparr>)"
    unfolding tally_push_def consume_def by (simp add: assms(2))
  have "fst (tally_end parse fmt [] (st\<lparr>sl_pending := ''data: null'' @ [newline, newline]\<rparr>)) = Inl NullFrame"
    unfolding tally_end_def consume_def using f(2) by (simp add: then_run readFrame_def)
  with p show ?thesis by blast
qed

theorem null_frame_throws_witness:
  "fst (tally_push sample_parse OpenAiStream (''data: null'' @ [newline, newline]) createStreamTally) = Inl NullFrame"
  using null_frame_throws [of sample_parse createStreamTally OpenAiStream]
  by (auto simp: sample_parse_def createStreamTally_def)

subsection \<open>Frames of the gateway's own\<close>

lemma last_four_append: "last_four (a @ last_four b) = last_four (a @ b)"
  by (cases "length b \<le> 4") (simp_all add: last_four_def)

lemma last_four_long: "4 \<le> length y \<Longrightarrow> last_four (x @ y) = last_four y"
  by (simp add: last_four_def)

lemma last_four_twice: "last_four (last_four a @ b) = last_four (a @ b)"
proof (cases "length a \<le> 4")
  case True
  then show ?thesis by (simp add: last_four_def)
next
  case False
  then have l: "4 \<le> length (last_four a @ b)" by (simp add: last_four_def)
  have "a @ b = take (length a - 4) a @ (last_four a @ b)" by (simp add: last_four_def)
  then show ?thesis using last_four_long [OF l] by metis
qed

lemma boundary_tail: "foldl boundary_push (last_four t) pieces = last_four (t @ concat pieces)"
  by (induction pieces arbitrary: t) (simp_all add: boundary_push_def last_four_append last_four_twice)

lemma ends_with_last_four: "length p \<le> 4 \<Longrightarrow> ends_with p (last_four t) = ends_with p t"
proof -
  assume p: "length p \<le> 4"
  show ?thesis
  proof (cases "length t \<le> 4")
    case True
    then show ?thesis by (simp add: last_four_def)
  next
    case False
    with p show ?thesis by (simp add: last_four_def ends_with_def)
  qed
qed

text \<open>
  The gateway closes a stream with a frame of its own only between events: over any chunks, the boundary
  is closed exactly when nothing was relayed or the relayed text ends in a blank line.
\<close>

theorem boundary_is_exact:
  "boundary_closed (foldl boundary_push [] pieces) \<longleftrightarrow> boundary_closed (concat pieces)"
proof -
  have "foldl boundary_push [] pieces = last_four (concat pieces)"
    using boundary_tail [of "[]" pieces] by (simp add: last_four_def)
  moreover have "last_four t = [] \<longleftrightarrow> t = []" for t by (cases t rule: rev_cases) (auto simp: last_four_def)
  ultimately show ?thesis by (simp add: boundary_closed_def ends_with_last_four)
qed

text \<open>The text of an object, written without line breaks, as the platform's writer gives it.\<close>

definition compact :: "string \<Rightarrow> bool" where
  "compact j \<longleftrightarrow> j \<noteq> [] \<and> hd j = CHR ''{'' \<and> last j = CHR ''}'' \<and> newline \<notin> set j"

lemma trim_edges: "s \<noteq> [] \<Longrightarrow> \<not> is_space (hd s) \<Longrightarrow> \<not> is_space (last s) \<Longrightarrow> trim s = s"
proof -
  assume s: "s \<noteq> []" "\<not> is_space (hd s)" "\<not> is_space (last s)"
  then have "dropWhile is_space s = s" "dropWhile is_space (rev s) = rev s"
    unfolding dropWhile_eq_self_iff by (simp_all add: hd_rev)
  then show ?thesis by (simp add: trim_def)
qed

lemma trim_skip: "is_space c \<Longrightarrow> trim (c # s) = trim s"
  by (simp add: trim_def)

lemma frame_of_data:
  assumes "compact j" "parse j = Some d"
  shows "frame_of parse (''data: '' @ j) = Some d"
proof -
  have sp: "\<not> is_space (CHR ''{'')" "\<not> is_space (CHR ''}'')" "\<not> is_space (CHR ''d'')" "is_space (CHR '' '')"
    by (simp_all add: is_space_def)
  from assms(1) have j: "j \<noteq> []" "hd j = CHR ''{''" "last j = CHR ''}''" by (simp_all add: compact_def)
  have "trim (''data: '' @ j) = ''data: '' @ j" by (rule trim_edges) (use j sp in simp_all)
  moreover have "trim j = j" by (rule trim_edges) (use j sp in simp_all)
  moreover have "j \<noteq> ''[DONE]''" using j by auto
  ultimately show ?thesis using assms(2) j(1) by (simp add: frame_of_def Let_def starts_with_def trim_skip sp)
qed

text \<open>
  An answer replayed as one event reads back as it was: a client reading the replay, cut anywhere, gets
  the whole content of the answer and no usage, whatever the content.
\<close>

theorem replay_reads_back:
  assumes codec: "parse (stringify (single_chunk now data)) = Some (single_chunk now data)"
    and flat: "compact (stringify (single_chunk now data))" "length (stringify (single_chunk now data)) + 6 \<le> MAX_FRAME_CHARS"
    and cut: "concat pieces = toSingleSseChunk stringify now data"
  shows "\<exists>st. then_m (tally_stream parse OpenAiStream pieces) (tally_end parse OpenAiStream []) createStreamTally = (Inr (), st) \<and>
    sl_content st = option_or (jstring (jget ''content'' (jget ''message'' (first_choice data)))) [] \<and>
    sl_usage st = None \<and> \<not> sl_dropped st"
proof -
  let ?c = "single_chunk now data" and ?d = "''data: [DONE]''"
  let ?j = "stringify ?c"
  have jn: "newline \<notin> set ?j" using flat(1) by (simp add: compact_def)
  have nl: "line_list (x @ newline # y) = x # line_list y" if "newline \<notin> set x" for x y
    using that by (induction x) auto
  have nd: "newline \<notin> set ?d" "newline \<notin> set (''data: '' @ ?j)" using jn by (simp_all add: newline_def)
  have "toSingleSseChunk stringify now data = (''data: '' @ ?j) @ newline # ([] @ newline # (?d @ newline # ([] @ newline # [])))"
    by (simp add: toSingleSseChunk_def sse_data_def)
  then have lines: "line_list (toSingleSseChunk stringify now data) = [''data: '' @ ?j, [], ?d, [], []]"
    using nl [OF nd(2)] nl [OF nd(1)] nl [of "[]"] by simp
  have stop_line: "frame_of parse ?d = None"
  proof -
    have "trim ?d = ?d" "trim '' [DONE]'' = ''[DONE]''" by code_simp+
    moreover have "drop 5 ?d = '' [DONE]''" by simp
    ultimately show ?thesis unfolding frame_of_def Let_def by (simp add: starts_with_def)
  qed
  have frame: "frame_of parse (''data: '' @ ?j) = Some ?c" by (rule frame_of_data [of ?j parse]) (rule flat(1), rule codec)
  have object: "?c \<noteq> JNull" by (simp add: single_chunk_def Let_def)
  have "plain_stream parse (concat pieces @ [])"
    using object flat(2) by (simp add: plain_stream_def cut lines frame [simplified] stop_line [simplified] MAX_FRAME_CHARS_def)
  note run = whole_stream [OF this, of OpenAiStream]
  have "tally_of parse OpenAiStream (toSingleSseChunk stringify now data) = readOpenAiFrame ?c createStreamTally"
    by (simp add: tally_of_def lines read_line_def frame [simplified] stop_line [simplified] apply_frame_def)
  then show ?thesis using run
    by (simp add: cut readOpenAiFrame_def single_chunk_def Let_def jget_def jfirst_def add_content_def add_detail_def
        jnumber_def nullish_or_def jtruthy_def createStreamTally_def)
qed

definition sample_stringify :: "json \<Rightarrow> string" where "sample_stringify d = ''{}''"

definition sample_replay :: string where
  "sample_replay = toSingleSseChunk sample_stringify 0 (toCompletionJson sample_entry)"

definition replay_parse :: "string \<Rightarrow> json option" where
  "replay_parse t = Some (single_chunk 0 (toCompletionJson sample_entry))"

theorem replay_reads_back_witness:
  "\<exists>st. then_m (tally_stream replay_parse OpenAiStream [sample_replay]) (tally_end replay_parse OpenAiStream []) createStreamTally = (Inr (), st) \<and>
     sl_content st = ''hello''"
proof -
  have c: "option_or (jstring (jget ''content'' (jget ''message'' (first_choice (toCompletionJson sample_entry))))) [] = ''hello''"
    by (simp add: sample_entry_def buildFromStreamContent_def toCompletionJson_def jget_def first_choice_def jstring_def)
  have k: "compact (sample_stringify d)" "length (sample_stringify d) + 6 \<le> MAX_FRAME_CHARS" for d
    by (simp_all add: sample_stringify_def compact_def newline_def MAX_FRAME_CHARS_def)
  have cat: "concat [sample_replay] = toSingleSseChunk sample_stringify 0 (toCompletionJson sample_entry)"
    by (simp only: sample_replay_def concat.simps append_Nil2)
  have p: "replay_parse (sample_stringify (single_chunk 0 (toCompletionJson sample_entry))) = Some (single_chunk 0 (toCompletionJson sample_entry))"
    by (simp only: replay_parse_def)
  obtain st where run: "then_m (tally_stream replay_parse OpenAiStream [sample_replay]) (tally_end replay_parse OpenAiStream []) createStreamTally = (Inr (), st)"
    and content: "sl_content st = option_or (jstring (jget ''content'' (jget ''message'' (first_choice (toCompletionJson sample_entry))))) []"
    using replay_reads_back [of replay_parse sample_stringify 0 "toCompletionJson sample_entry" "[sample_replay]", OF p k cat] by (elim exE conjE) (rule that)
  show ?thesis by (rule exI [of _ st]) (simp only: run content c simp_thms)
qed

end
