(* ===== verification/Guardrails.thy ===== *)
theory Guardrails
  imports Json "HOL-Library.AList"
begin

text \<open>
  Content filtering: \<open>src/lib/guardrails.ts\<close>, the output side in \<open>src/services/proxy/responseHelpers.ts\<close>
  and the configuration read in \<open>src/services/guardrails.service.ts\<close>. The language's regular expressions
  are a parameter: an engine compiles a source text (or fails), tests a text and replaces every match.
  A compiled rule always has the \<open>g\<close> flag and its \<open>lastIndex\<close> is put back before every use, so testing and
  replacing are functions of the text.
\<close>

datatype guardrail_action = BlockAction | RedactAction
datatype guardrail_direction = DirInput | DirOutput | DirBoth

record guardrail_rule =
  gr_name :: string
  gr_pattern :: string
  gr_flags :: "string option"
  gr_action :: guardrail_action
  gr_appliesTo :: "guardrail_direction option"
  gr_replacement :: "string option"

record 'rx engine =
  en_compile :: "string \<Rightarrow> string \<Rightarrow> 'rx option"
  en_test :: "'rx \<Rightarrow> string \<Rightarrow> bool"
  en_replace :: "'rx \<Rightarrow> string \<Rightarrow> string \<Rightarrow> string"

record 'rx compiled_rule =
  cr_rule :: guardrail_rule
  cr_regex :: 'rx

datatype verdict_kind = Allowed | Blocked | Redacted

record text_verdict =
  tv_decision :: verdict_kind
  tv_text :: string
  tv_matched :: "string list"

definition MAX_SCAN_CHARS :: nat where "MAX_SCAN_CHARS = 100000"
definition DEFAULT_REPLACEMENT :: string where "DEFAULT_REPLACEMENT = ''[REDACTED]''"
definition MAX_PATTERN_CHARS :: nat where "MAX_PATTERN_CHARS = 1000"

subsection \<open>Which patterns are refused\<close>

text \<open>
  The three expressions of \<open>isSafePattern\<close>, read by hand: a suffix of the pattern is where a match starts.
  \<open>brace\<close> is \<open>{digits,digits}\<close> with the second run possibly empty, and what follows it.
\<close>

definition is_paren :: "char \<Rightarrow> bool" where
  "is_paren c \<longleftrightarrow> c = CHR ''('' \<or> c = CHR '')''"

definition is_repeat :: "char \<Rightarrow> bool" where
  "is_repeat c \<longleftrightarrow> c = CHR ''*'' \<or> c = CHR ''+''"

definition brace :: "string \<Rightarrow> string option" where
  "brace s = (case s of c # r \<Rightarrow>
       if c = CHR ''{'' \<and> takeWhile is_digit r \<noteq> [] then
         (case dropWhile is_digit r of d # r2 \<Rightarrow>
            if d = CHR '','' then
              (case dropWhile is_digit r2 of e # r3 \<Rightarrow> if e = CHR ''}'' then Some r3 else None | [] \<Rightarrow> None)
            else None
          | [] \<Rightarrow> None)
       else None
     | [] \<Rightarrow> None)"

definition lookaround :: "string \<Rightarrow> bool" where
  "lookaround r \<longleftrightarrow> starts_with ''?'' r \<and>
     (let r2 = (if starts_with ''?:'' r then drop 2 r else drop 1 r)
      in r2 \<noteq> [] \<and> hd r2 \<in> {CHR ''='', CHR ''!'', CHR ''<''})"

definition group_repeats :: "string \<Rightarrow> bool" where
  "group_repeats s \<longleftrightarrow> s \<noteq> [] \<and> hd s = CHR ''('' \<and> \<not> lookaround (tl s) \<and>
     (\<exists>c \<in> set (takeWhile (\<lambda>c. \<not> is_paren c) (tl s)). is_repeat c)"

definition brace_in_group :: "string \<Rightarrow> bool" where
  "brace_in_group s = (case brace s of None \<Rightarrow> False
     | Some r \<Rightarrow> (case dropWhile (\<lambda>c. \<not> is_paren c) r of
           p # q # _ \<Rightarrow> p = CHR '')'' \<and> (is_repeat q \<or> q = CHR ''{'')
         | _ \<Rightarrow> False))"

definition group_repeated :: "string \<Rightarrow> bool" where
  "group_repeated s = (case s of p # r \<Rightarrow> p = CHR '')'' \<and> (r \<noteq> [] \<and> is_repeat (hd r) \<or> brace r \<noteq> None) | [] \<Rightarrow> False)"

text \<open>The bodies of the groups \<open>(\<dots>|\<dots>)*\<close> or \<open>+\<close>: no match can start inside another.\<close>

definition alternation_body :: "string \<Rightarrow> string option" where
  "alternation_body s = (case s of [] \<Rightarrow> None
     | p # r \<Rightarrow> let body = takeWhile (\<lambda>c. \<not> is_paren c) r in
        if p = CHR ''('' \<and> CHR ''|'' \<in> set body
          \<and> (case dropWhile (\<lambda>c. \<not> is_paren c) r of e # q # _ \<Rightarrow> e = CHR '')'' \<and> is_repeat q | _ \<Rightarrow> False)
        then Some body else None)"

fun suffixes_of :: "string \<Rightarrow> string list" where
  "suffixes_of [] = [[]]"
| "suffixes_of (c # s) = (c # s) # suffixes_of s"

definition isSafePattern :: "string \<Rightarrow> bool" where
  "isSafePattern pattern =
     (if MAX_PATTERN_CHARS < length pattern then False
      else if list_ex (\<lambda>s. group_repeats s \<or> brace_in_group s) (suffixes_of pattern)
           \<and> list_ex group_repeated (suffixes_of pattern) then False
      else list_all (\<lambda>body. distinct (split_on (\<lambda>c. c = CHR ''|'') body))
             (List.map_filter alternation_body (suffixes_of pattern)))"

definition compile_rule :: "'rx engine \<Rightarrow> guardrail_rule option \<Rightarrow> 'rx compiled_rule option" where
  "compile_rule eng rule = (case rule of None \<Rightarrow> None
     | Some r \<Rightarrow>
        if gr_pattern r = [] \<or> gr_name r = [] then None
        else if \<not> isSafePattern (gr_pattern r) then None
        else let flags = option_or (gr_flags r) ''gi'' in
          (case en_compile eng (gr_pattern r) (if CHR ''g'' \<in> set flags then flags else flags @ ''g'') of
             None \<Rightarrow> None
           | Some rx \<Rightarrow> Some \<lparr>cr_rule = r, cr_regex = rx\<rparr>))"

definition compileRules :: "'rx engine \<Rightarrow> guardrail_rule option list \<Rightarrow> 'rx compiled_rule list" where
  "compileRules eng rules = List.map_filter (compile_rule eng) rules"

subsection \<open>One text\<close>

definition appliesToDirection :: "guardrail_rule \<Rightarrow> guardrail_direction \<Rightarrow> bool" where
  "appliesToDirection rule dir = (let a = option_or (gr_appliesTo rule) DirBoth in a = DirBoth \<or> a = dir)"

fun eval_rules :: "'rx engine \<Rightarrow> string \<Rightarrow> string \<Rightarrow> guardrail_direction \<Rightarrow> 'rx compiled_rule list
    \<Rightarrow> string list \<Rightarrow> string \<Rightarrow> bool \<Rightarrow> text_verdict" where
  "eval_rules eng txt scan dir [] matched out redacted =
     \<lparr>tv_decision = (if redacted then Redacted else Allowed), tv_text = out, tv_matched = matched\<rparr>"
| "eval_rules eng txt scan dir (rule # rules) matched out redacted =
     (if \<not> appliesToDirection (cr_rule rule) dir then eval_rules eng txt scan dir rules matched out redacted
      else if \<not> en_test eng (cr_regex rule) scan then eval_rules eng txt scan dir rules matched out redacted
      else let matched' = matched @ [gr_name (cr_rule rule)] in
        if gr_action (cr_rule rule) = BlockAction
        then \<lparr>tv_decision = Blocked, tv_text = txt, tv_matched = matched'\<rparr>
        else eval_rules eng txt scan dir rules matched'
               (en_replace eng (cr_regex rule) out (option_or (gr_replacement (cr_rule rule)) DEFAULT_REPLACEMENT)) True)"

definition evaluateText :: "'rx engine \<Rightarrow> string \<Rightarrow> 'rx compiled_rule list \<Rightarrow> guardrail_direction \<Rightarrow> text_verdict" where
  "evaluateText eng txt rules dir = eval_rules eng txt (take MAX_SCAN_CHARS txt) dir rules [] txt False"

subsection \<open>Messages\<close>

definition text_part :: "json \<Rightarrow> string option" where
  "text_part p = (case jget ''text'' (Some p) of Some (JStr t) \<Rightarrow> Some t | _ \<Rightarrow> None)"

definition readContent :: "json \<Rightarrow> string" where
  "readContent content = (case content of JStr s \<Rightarrow> s
     | JArr ps \<Rightarrow> concat (map (\<lambda>p. option_or (text_part p) []) ps)
     | _ \<Rightarrow> [])"

definition set_field :: "string \<Rightarrow> json \<Rightarrow> json \<Rightarrow> json" where
  "set_field k v j = (case j of JObj kvs \<Rightarrow> JObj (AList.update k v kvs) | _ \<Rightarrow> j)"

definition writeContent :: "json \<Rightarrow> (string \<Rightarrow> string) \<Rightarrow> json" where
  "writeContent content redactOne = (case content of JStr s \<Rightarrow> JStr (redactOne s)
     | JArr ps \<Rightarrow> JArr (map (\<lambda>p. case text_part p of Some t \<Rightarrow> set_field ''text'' (JStr (redactOne t)) p | None \<Rightarrow> p) ps)
     | _ \<Rightarrow> content)"

definition add_names :: "string list \<Rightarrow> string list \<Rightarrow> string list" where
  "add_names seen ns = fold (\<lambda>n s. if n \<in> set s then s else s @ [n]) ns seen"

record messages_verdict =
  mv_decision :: verdict_kind
  mv_messages :: "json list"
  mv_matched :: "string list"

fun eval_messages :: "'rx engine \<Rightarrow> 'rx compiled_rule list \<Rightarrow> json list \<Rightarrow> json list \<Rightarrow> string list \<Rightarrow> bool \<Rightarrow> json list
    \<Rightarrow> messages_verdict" where
  "eval_messages eng rules messages [] matched anyRedacted out =
     \<lparr>mv_decision = (if anyRedacted then Redacted else Allowed), mv_messages = out, mv_matched = matched\<rparr>"
| "eval_messages eng rules messages (m # ms) matched anyRedacted out =
     (case jget ''content'' (Some m) of
        None \<Rightarrow> eval_messages eng rules messages ms matched anyRedacted (out @ [m])
      | Some content \<Rightarrow>
          let verdict = evaluateText eng (readContent content) rules DirInput;
              matched' = add_names matched (tv_matched verdict) in
          (case tv_decision verdict of
             Blocked \<Rightarrow> \<lparr>mv_decision = Blocked, mv_messages = messages, mv_matched = matched'\<rparr>
           | Redacted \<Rightarrow> eval_messages eng rules messages ms matched' True
               (out @ [set_field ''content'' (writeContent content (\<lambda>s. tv_text (evaluateText eng s rules DirInput))) m])
           | Allowed \<Rightarrow> eval_messages eng rules messages ms matched' anyRedacted (out @ [m])))"

definition evaluateMessages :: "'rx engine \<Rightarrow> json list \<Rightarrow> 'rx compiled_rule list \<Rightarrow> messages_verdict" where
  "evaluateMessages eng messages rules = eval_messages eng rules messages messages [] False []"

subsection \<open>Answers\<close>

definition hasOutputRules :: "'rx compiled_rule list \<Rightarrow> bool" where
  "hasOutputRules rules = list_ex (\<lambda>r. option_or (gr_appliesTo (cr_rule r)) DirBoth \<noteq> DirInput) rules"

definition WITHHELD :: string where "WITHHELD = ''[Response withheld by content guardrails.]''"

definition choice_content :: "json \<Rightarrow> string option" where
  "choice_content choice = (case jget ''content'' (jget ''message'' (Some choice)) of Some (JStr t) \<Rightarrow> Some t | _ \<Rightarrow> None)"

definition set_choice_content :: "string \<Rightarrow> json \<Rightarrow> json" where
  "set_choice_content t choice = (case jget ''message'' (Some choice) of
       Some msg \<Rightarrow> set_field ''message'' (set_field ''content'' (JStr t) msg) choice | None \<Rightarrow> choice)"

definition guard_choice :: "'rx engine \<Rightarrow> 'rx compiled_rule list \<Rightarrow> json \<Rightarrow> string list \<times> json" where
  "guard_choice eng rules choice = (case choice_content choice of
       None \<Rightarrow> ([], choice)
     | Some t \<Rightarrow> let verdict = evaluateText eng t rules DirOutput in
        (tv_matched verdict,
         case tv_decision verdict of
           Blocked \<Rightarrow> set_field ''finish_reason'' (JStr ''content_filter'') (set_choice_content WITHHELD choice)
         | Redacted \<Rightarrow> set_choice_content (tv_text verdict) choice
         | Allowed \<Rightarrow> choice))"

definition applyOutputGuardrails :: "'rx engine \<Rightarrow> json \<Rightarrow> 'rx compiled_rule list \<Rightarrow> json \<times> string list" where
  "applyOutputGuardrails eng data rules = (case jget ''choices'' (Some data) of
       Some (JArr choices) \<Rightarrow>
         (let judged = map (guard_choice eng rules) choices
          in (set_field ''choices'' (JArr (map snd judged)) data, fold (\<lambda>j seen. add_names seen (fst j)) judged []))
     | _ \<Rightarrow> (data, []))"

subsection \<open>The configuration\<close>

record 'rx guardrail_config =
  gc_enabled :: bool
  gc_bufferedSafe :: bool
  gc_rules :: "guardrail_rule option list"
  gc_compiled :: "'rx compiled_rule list"

definition truthy_setting :: "string option \<Rightarrow> bool" where
  "truthy_setting v = (to_lower (trim (option_or v [])) \<in> {''1'', ''true'', ''yes'', ''on''})"

text \<open>The parser of the stored document: \<open>None\<close> when it throws, \<open>Some None\<close> for anything but an array.\<close>

definition parseRules :: "(string \<Rightarrow> guardrail_rule option list option option) \<Rightarrow> string option \<Rightarrow> guardrail_rule option list" where
  "parseRules parse raw = (if trim (option_or raw []) = [] then []
     else option_or (option_or (parse (option_or raw [])) None) [])"

definition getGuardrailConfig :: "'rx engine \<Rightarrow> (string \<Rightarrow> guardrail_rule option list option option)
    \<Rightarrow> (string \<Rightarrow> string option) \<Rightarrow> (string \<Rightarrow> string option) \<Rightarrow> 'rx guardrail_config" where
  "getGuardrailConfig eng parse settings env =
     (let seeded = (\<lambda>name. case settings name of None \<Rightarrow> env name | Some v \<Rightarrow> Some v);
          rules = parseRules parse (seeded ''GUARDRAILS_RULES'')
      in \<lparr>gc_enabled = truthy_setting (seeded ''GUARDRAILS_ENABLED''),
          gc_bufferedSafe = truthy_setting (seeded ''GUARDRAILS_BUFFERED_SAFE''),
          gc_rules = rules, gc_compiled = compileRules eng rules\<rparr>)"

section \<open>What the filters do\<close>

subsection \<open>One text: which rules fire\<close>

text \<open>Rules are tested against the text as it came, never against what an earlier rule left of it.\<close>

definition firing :: "'rx engine \<Rightarrow> 'rx compiled_rule list \<Rightarrow> guardrail_direction \<Rightarrow> string \<Rightarrow> 'rx compiled_rule list" where
  "firing eng rules dir t = filter (\<lambda>r. appliesToDirection (cr_rule r) dir \<and> en_test eng (cr_regex r) (take MAX_SCAN_CHARS t)) rules"

definition blocking :: "'rx compiled_rule \<Rightarrow> bool" where
  "blocking r \<longleftrightarrow> gr_action (cr_rule r) = BlockAction"

definition masked :: "'rx engine \<Rightarrow> 'rx compiled_rule list \<Rightarrow> string \<Rightarrow> string" where
  "masked eng rs t = fold (\<lambda>r o'. en_replace eng (cr_regex r) o' (option_or (gr_replacement (cr_rule r)) DEFAULT_REPLACEMENT)) rs t"

definition judged_text :: "'rx engine \<Rightarrow> 'rx compiled_rule list \<Rightarrow> string \<Rightarrow> text_verdict" where
  "judged_text eng fired t =
     (if list_ex blocking fired
      then \<lparr>tv_decision = Blocked, tv_text = t,
            tv_matched = map (gr_name \<circ> cr_rule) (takeWhile (Not \<circ> blocking) fired @ [hd (dropWhile (Not \<circ> blocking) fired)])\<rparr>
      else \<lparr>tv_decision = (if fired = [] then Allowed else Redacted), tv_text = masked eng fired t,
            tv_matched = map (gr_name \<circ> cr_rule) fired\<rparr>)"

lemma eval_rules_blocked:
  assumes "list_ex blocking (filter (\<lambda>r. appliesToDirection (cr_rule r) dir \<and> en_test eng (cr_regex r) scan) rules)"
  shows "eval_rules eng t scan dir rules matched out redacted =
    (let fired = filter (\<lambda>r. appliesToDirection (cr_rule r) dir \<and> en_test eng (cr_regex r) scan) rules in
     \<lparr>tv_decision = Blocked, tv_text = t,
      tv_matched = matched @ map (gr_name \<circ> cr_rule) (takeWhile (Not \<circ> blocking) fired @ [hd (dropWhile (Not \<circ> blocking) fired)])\<rparr>)"
  using assms
  by (induction rules arbitrary: matched out redacted) (auto simp: Let_def blocking_def)

lemma eval_rules_passed:
  assumes "\<not> list_ex blocking (filter (\<lambda>r. appliesToDirection (cr_rule r) dir \<and> en_test eng (cr_regex r) scan) rules)"
  shows "eval_rules eng t scan dir rules matched out redacted =
    (let fired = filter (\<lambda>r. appliesToDirection (cr_rule r) dir \<and> en_test eng (cr_regex r) scan) rules in
     \<lparr>tv_decision = (if redacted \<or> fired \<noteq> [] then Redacted else Allowed), tv_text = masked eng fired out,
      tv_matched = matched @ map (gr_name \<circ> cr_rule) fired\<rparr>)"
  using assms
  by (induction rules arbitrary: matched out redacted) (auto simp: Let_def blocking_def masked_def)

lemma evaluateText_judged: "evaluateText eng t rules dir = judged_text eng (firing eng rules dir t) t"
  unfolding evaluateText_def judged_text_def firing_def
  by (simp add: eval_rules_blocked eval_rules_passed Let_def)

lemma judged_text_decision [simp]:
  "tv_decision (judged_text eng fired t) = Blocked \<longleftrightarrow> (\<exists>r \<in> set fired. blocking r)"
  "tv_decision (judged_text eng fired t) = Allowed \<longleftrightarrow> fired = []"
  "tv_decision (judged_text eng fired t) = Redacted \<longleftrightarrow> fired \<noteq> [] \<and> (\<forall>r \<in> set fired. \<not> blocking r)"
  by (auto simp: judged_text_def list_ex_iff)

lemma judged_text_masked: "(\<forall>r \<in> set fired. \<not> blocking r) \<Longrightarrow> tv_text (judged_text eng fired t) = masked eng fired t"
  by (auto simp: judged_text_def list_ex_iff)

subsection \<open>Messages\<close>

definition message_fires :: "'rx engine \<Rightarrow> 'rx compiled_rule list \<Rightarrow> json \<Rightarrow> 'rx compiled_rule list" where
  "message_fires eng rules m = (case jget ''content'' (Some m) of None \<Rightarrow> []
     | Some content \<Rightarrow> firing eng rules DirInput (readContent content))"

text \<open>What becomes of a message that is let through: its text is masked where it stands.\<close>

definition masked_message :: "'rx engine \<Rightarrow> 'rx compiled_rule list \<Rightarrow> json \<Rightarrow> json" where
  "masked_message eng rules m = (if message_fires eng rules m = [] then m
     else case jget ''content'' (Some m) of None \<Rightarrow> m
       | Some content \<Rightarrow> set_field ''content'' (writeContent content (\<lambda>s. tv_text (evaluateText eng s rules DirInput))) m)"

lemma message_cases:
  "eval_messages eng rules messages (m # ms) matched any out =
    (if (\<exists>r \<in> set (message_fires eng rules m). blocking r)
     then \<lparr>mv_decision = Blocked, mv_messages = messages, mv_matched = mv_matched (eval_messages eng rules messages (m # ms) matched any out)\<rparr>
     else eval_messages eng rules messages ms (add_names matched (map (gr_name \<circ> cr_rule) (message_fires eng rules m)))
       (any \<or> message_fires eng rules m \<noteq> []) (out @ [masked_message eng rules m]))"
proof (cases "jget ''content'' (Some m)")
  case None
  then show ?thesis by (simp add: message_fires_def masked_message_def add_names_def)
next
  case (Some content)
  define fired where "fired = firing eng rules DirInput (readContent content)"
  have f: "message_fires eng rules m = fired" using Some by (simp add: message_fires_def fired_def)
  have v: "evaluateText eng (readContent content) rules DirInput = judged_text eng fired (readContent content)"
    by (simp add: evaluateText_judged fired_def)
  show ?thesis
  proof (cases "\<exists>r \<in> set fired. blocking r")
    case True
    then show ?thesis using Some by (simp add: v f Let_def judged_text_def list_ex_iff)
  next
    case False
    then have "tv_matched (judged_text eng fired (readContent content)) = map (gr_name \<circ> cr_rule) fired"
      by (auto simp: judged_text_def list_ex_iff)
    then show ?thesis using Some False
      by (cases "fired = []") (simp_all add: v f Let_def judged_text_def list_ex_iff masked_message_def)
  qed
qed

lemma eval_messages_blocked:
  assumes "\<exists>m \<in> set ms. \<exists>r \<in> set (message_fires eng rules m). blocking r"
  shows "mv_decision (eval_messages eng rules messages ms matched any out) = Blocked
    \<and> mv_messages (eval_messages eng rules messages ms matched any out) = messages"
  using assms
proof (induction ms arbitrary: matched any out)
  case (Cons m ms)
  show ?case
  proof (cases "\<exists>r \<in> set (message_fires eng rules m). blocking r")
    case True
    then show ?thesis by (subst (1 2) message_cases) simp
  next
    case False
    with Cons.prems have "\<exists>m \<in> set ms. \<exists>r \<in> set (message_fires eng rules m). blocking r" by auto
    from Cons.IH [OF this] False show ?thesis by (subst (1 2) message_cases) simp
  qed
qed simp

lemma eval_messages_passed:
  assumes "\<not> (\<exists>m \<in> set ms. \<exists>r \<in> set (message_fires eng rules m). blocking r)"
  shows "mv_decision (eval_messages eng rules messages ms matched any out)
      = (if any \<or> (\<exists>m \<in> set ms. message_fires eng rules m \<noteq> []) then Redacted else Allowed)
    \<and> mv_messages (eval_messages eng rules messages ms matched any out) = out @ map (masked_message eng rules) ms"
  using assms
proof (induction ms arbitrary: matched any out)
  case (Cons m ms)
  then have n: "\<not> (\<exists>r \<in> set (message_fires eng rules m). blocking r)"
    and r: "\<not> (\<exists>m \<in> set ms. \<exists>r \<in> set (message_fires eng rules m). blocking r)" by auto
  show ?case
    using Cons.IH [OF r, of "add_names matched (map (gr_name \<circ> cr_rule) (message_fires eng rules m))"
      "any \<or> message_fires eng rules m \<noteq> []" "out @ [masked_message eng rules m]"] n
    by (subst (1 2) message_cases) auto
qed simp

lemma masked_message_quiet: "message_fires eng rules m = [] \<Longrightarrow> masked_message eng rules m = m"
  by (simp add: masked_message_def)


subsection \<open>A match across two parts\<close>

text \<open>A small engine for examples: patterns are literal text.\<close>

fun literal_in :: "string \<Rightarrow> string \<Rightarrow> bool" where
  "literal_in p [] \<longleftrightarrow> p = []"
| "literal_in p (c # s) \<longleftrightarrow> starts_with p (c # s) \<or> literal_in p s"

function literal_replace :: "string \<Rightarrow> string \<Rightarrow> string \<Rightarrow> string" where
  "literal_replace p r [] = []"
| "literal_replace p r (c # s) = (if p \<noteq> [] \<and> starts_with p (c # s)
     then r @ literal_replace p r (drop (length p) (c # s)) else c # literal_replace p r s)"
  by pat_completeness auto
termination
  by (relation "measure (\<lambda>(p, r, s). length s)") (auto simp: neq_Nil_conv)

definition literal_engine :: "string engine" where
  "literal_engine = \<lparr>en_compile = (\<lambda>p _. Some p), en_test = literal_in, en_replace = (\<lambda>p t r. literal_replace p r t)\<rparr>"

lemma set_field_same: "jget k (Some j) = Some v \<Longrightarrow> set_field k v j = j"
  by (cases j) (simp_all add: jget_def set_field_def update_triv)

lemma text_part_same: "text_part p = Some t \<Longrightarrow> set_field ''text'' (JStr t) p = p"
  by (auto simp: text_part_def set_field_same split: option.splits json.splits)

lemma quiet_text: "firing eng rules dir t = [] \<Longrightarrow> tv_text (evaluateText eng t rules dir) = t"
  by (simp add: evaluateText_judged judged_text_def masked_def)

lemma quiet_parts:
  assumes "\<forall>p \<in> set parts. \<forall>t. text_part p = Some t \<longrightarrow> firing eng rules DirInput t = []"
  shows "writeContent (JArr parts) (\<lambda>s. tv_text (evaluateText eng s rules DirInput)) = JArr parts"
  using assms by (auto simp: writeContent_def quiet_text text_part_same intro!: map_idI split: option.splits)

text \<open>
  A match that spans two parts of a message is found, reported as redacted, and left in place: the
  rules are tested on the parts joined together, but each part is then redacted alone.
\<close>

theorem split_match_survives:
  assumes content: "jget ''content'' (Some m) = Some (JArr parts)"
    and found: "firing eng rules DirInput (readContent (JArr parts)) \<noteq> []"
    and masks: "\<forall>r \<in> set rules. \<not> blocking r"
    and apart: "\<forall>p \<in> set parts. \<forall>t. text_part p = Some t \<longrightarrow> firing eng rules DirInput t = []"
  shows "mv_decision (evaluateMessages eng [m] rules) = Redacted \<and> mv_messages (evaluateMessages eng [m] rules) = [m]"
proof -
  have f: "message_fires eng rules m = firing eng rules DirInput (readContent (JArr parts))"
    using content by (simp add: message_fires_def)
  have nb: "\<not> (\<exists>m' \<in> set [m]. \<exists>r \<in> set (message_fires eng rules m'). blocking r)"
    using masks f by (auto simp: firing_def)
  have "masked_message eng rules m = m"
    using content by (simp add: masked_message_def quiet_parts [OF apart] set_field_same)
  then show ?thesis
    using eval_messages_passed [OF nb, of "[m]" "[]" False "[]"] f found by (simp add: evaluateMessages_def)
qed

definition secret_rule :: "string compiled_rule" where
  "secret_rule = \<lparr>cr_rule = \<lparr>gr_name = ''secret'', gr_pattern = ''secret'', gr_flags = None, gr_action = RedactAction,
     gr_appliesTo = None, gr_replacement = None\<rparr>, cr_regex = ''secret''\<rparr>"

definition split_message :: json where
  "split_message = JObj [(''role'', JStr ''user''), (''content'', JArr [JObj [(''type'', JStr ''text''), (''text'', JStr ''my sec'')],
     JObj [(''type'', JStr ''text''), (''text'', JStr ''ret'')]])]"

theorem split_match_survives_witness:
  "mv_decision (evaluateMessages literal_engine [split_message] [secret_rule]) = Redacted
   \<and> mv_messages (evaluateMessages literal_engine [split_message] [secret_rule]) = [split_message]
   \<and> literal_in ''secret'' (readContent (option_or (jget ''content'' (Some split_message)) JNull))"
proof -
  let ?parts = "[JObj [(''type'', JStr ''text''), (''text'', JStr ''my sec'')], JObj [(''type'', JStr ''text''), (''text'', JStr ''ret'')]]"
  have c: "jget ''content'' (Some split_message) = Some (JArr ?parts)" by (simp add: split_message_def jget_def)
  have r: "readContent (JArr ?parts) = ''my secret''" by (simp add: readContent_def text_part_def jget_def)
  have fire: "firing literal_engine [secret_rule] DirInput t = (if literal_in ''secret'' (take MAX_SCAN_CHARS t) then [secret_rule] else [])" for t
    by (simp add: firing_def secret_rule_def literal_engine_def appliesToDirection_def)
  have short: "take MAX_SCAN_CHARS t = t" if "length t < 20" for t :: string using that by (simp add: MAX_SCAN_CHARS_def)
  have lit: "literal_in ''secret'' (readContent (option_or (jget ''content'' (Some split_message)) JNull))"
    by (simp add: c r starts_with_def)
  have nb: "\<not> blocking secret_rule" by (simp add: secret_rule_def blocking_def)
  have "mv_decision (evaluateMessages literal_engine [split_message] [secret_rule]) = Redacted
   \<and> mv_messages (evaluateMessages literal_engine [split_message] [secret_rule]) = [split_message]"
    by (rule split_match_survives [OF c]) (simp_all add: r fire short text_part_def jget_def starts_with_def nb)
  with lit show ?thesis by blast
qed

subsection \<open>Patterns\<close>

lemma suffixes_of_append: "s \<in> set (suffixes_of s') \<Longrightarrow> s \<in> set (suffixes_of (pre @ s'))"
  by (induction pre) auto

lemma suffixes_of_self: "s \<in> set (suffixes_of s)"
  by (cases s) auto

lemma suffix_in: "s \<in> set (suffixes_of (pre @ s))"
  by (rule suffixes_of_append) (rule suffixes_of_self)

lemma body_takeWhile:
  assumes "\<forall>c \<in> set body. \<not> is_paren c" "is_paren p"
  shows "takeWhile (\<lambda>c. \<not> is_paren c) (body @ p # r) = body" "dropWhile (\<lambda>c. \<not> is_paren c) (body @ p # r) = p # r"
  using assms by (induction body) auto

lemma repeated_group_refused:
  assumes body: "\<forall>c \<in> set body. \<not> is_paren c" and rep: "\<exists>c \<in> set body. is_repeat c"
    and plain: "\<not> lookaround (body @ CHR '')'' # q # post)" and q: "is_repeat q"
  shows "\<not> isSafePattern (pre @ CHR ''('' # body @ CHR '')'' # q # post)"
proof -
  let ?g = "CHR ''('' # body @ CHR '')'' # q # post"
  have p: "is_paren (CHR '')'')" by (simp add: is_paren_def)
  have "group_repeats ?g" using rep plain by (auto simp: group_repeats_def body_takeWhile [OF body p])
  moreover have "?g \<in> set (suffixes_of (pre @ ?g))" by (rule suffix_in)
  moreover have "group_repeated (CHR '')'' # q # post)" using q by (simp add: group_repeated_def)
  moreover have "CHR '')'' # q # post \<in> set (suffixes_of (pre @ ?g))"
    using suffix_in [of "CHR '')'' # q # post" "pre @ CHR ''('' # body"] by simp
  ultimately show ?thesis unfolding isSafePattern_def list_ex_iff by auto
qed

lemma repeated_branch_refused:
  assumes body: "\<forall>c \<in> set body. \<not> is_paren c" and dup: "\<not> distinct (split_on (\<lambda>c. c = CHR ''|'') body)" and q: "is_repeat q"
  shows "\<not> isSafePattern (pre @ CHR ''('' # body @ CHR '')'' # q # post)"
proof -
  let ?g = "CHR ''('' # body @ CHR '')'' # q # post"
  have p: "is_paren (CHR '')'')" by (simp add: is_paren_def)
  have bar: "CHR ''|'' \<in> set body"
  proof (rule ccontr)
    assume "CHR ''|'' \<notin> set body"
    then have "split_on (\<lambda>c. c = CHR ''|'') body = [body]" by (induction body) auto
    with dup show False by simp
  qed
  have "alternation_body ?g = Some body"
    using bar q by (simp add: alternation_body_def body_takeWhile [OF body p])
  moreover have "?g \<in> set (suffixes_of (pre @ ?g))" by (rule suffix_in)
  ultimately have "body \<in> set (List.map_filter alternation_body (suffixes_of (pre @ ?g)))"
    by (force simp: List.map_filter_def)
  with dup show ?thesis unfolding isSafePattern_def list_all_iff by auto
qed

text \<open>
  A repeated group whose body has a repetition of its own, or two equal branches, is refused wherever
  it stands in a pattern, so it is never compiled, as long as its body has no parenthesis and it is
  written as a plain group.
\<close>

theorem nested_repetition_refused:
  assumes body: "\<forall>c \<in> set body. \<not> is_paren c" and q: "is_repeat q" and plain: "hd (body @ '')'') \<noteq> CHR ''?''"
    and bad: "(\<exists>c \<in> set body. is_repeat c) \<or> \<not> distinct (split_on (\<lambda>c. c = CHR ''|'') body)"
    and rule: "gr_pattern r = pre @ ''('' @ body @ '')'' @ [q] @ post"
  shows "\<not> isSafePattern (gr_pattern r) \<and> compile_rule eng (Some r) = None"
proof -
  have "\<not> lookaround (body @ CHR '')'' # q # post)"
    using plain by (cases body) (auto simp: lookaround_def starts_with_def)
  then have "\<not> isSafePattern (gr_pattern r)"
    using bad repeated_group_refused [OF body _ _ q] repeated_branch_refused [OF body _ q] by (auto simp: rule)
  then show ?thesis by (simp add: compile_rule_def)
qed

theorem nested_repetition_refused_witness:
  "compile_rule literal_engine (Some \<lparr>gr_name = ''n'', gr_pattern = ''x(a+)+'', gr_flags = None, gr_action = BlockAction,
     gr_appliesTo = None, gr_replacement = None\<rparr>) = None"
  using nested_repetition_refused [of "''a+''" "CHR ''+''" "\<lparr>gr_name = ''n'', gr_pattern = ''x(a+)+'', gr_flags = None,
     gr_action = BlockAction, gr_appliesTo = None, gr_replacement = None\<rparr>" "''x''" "[]" literal_engine]
  by (simp add: is_paren_def is_repeat_def)

text \<open>
  The same two shapes pass once the inner atom has a group of its own, or the group is written as a
  non-capturing one: \<open>((a)+)+\<close> and \<open>(?:a|a)*\<close> are taken for safe, and compiled.
\<close>

theorem nested_shapes_get_through:
  "isSafePattern ''((a)+)+$'' \<and> isSafePattern ''(?:a|a)*$'' \<and> \<not> isSafePattern ''(a+)+$'' \<and> \<not> isSafePattern ''(a|a)*$''"
  by (simp add: isSafePattern_def MAX_PATTERN_CHARS_def group_repeats_def brace_in_group_def group_repeated_def brace_def
      lookaround_def is_paren_def is_repeat_def alternation_body_def List.map_filter_def starts_with_def)

end
