(* ===== verification/Proxy_Run.thy ===== *)
theory Proxy_Run
  imports Model_Catalog Upstream_Failure Stream_Tally Guardrails Budget Url_Guard Token_Estimate
begin

text \<open>
  One proxied request and what it leaves behind: \<open>src/services/proxy/run.ts\<close>, \<open>types.ts\<close>, the recording half
  of \<open>src/services/token.service.ts\<close>, the session fingerprint of \<open>src/lib/sticky.ts\<close> and the header rules of
  \<open>src/lib/providerHeaders.ts\<close>. The world is the gateway with the log of recorded outcomes, of usage events
  handed to the pipeline and of calls made to providers. A request reads its clocks at three instants: when
  it arrives, when it is routed and when it is settled. What the platform and other parts answer (parsing,
  hashing, token counts, settings) is in the environment.
\<close>

subsection \<open>Callers and requests\<close>

record team_context = scope_team +
  tc_name :: "string option"
  tc_budgetUsd :: "rat option"
  tc_budgetPeriod :: budget_period
  tc_assignedTier :: "string option"
  tc_overBudgetAction :: "over_budget_action option"

datatype strategy = Fastest | Balanced | Cheapest

record px_request =
  rq_body :: json
  rq_teamKeyId :: "string option"
  rq_headers :: "(string \<times> json) list"
  rq_team :: "team_context option"
  rq_strategy :: "strategy option"
  rq_messagesBody :: "(string \<times> json) list option"

datatype outcome = Success | Blocked_by_rule | Client_error | Budget_blocked | Ssrf_blocked | No_capacity
  | Client_cancelled | Upstream_error

record usage_row =
  ue_sessionId :: string
  ue_modelId :: string
  ue_modelName :: string
  ue_provider :: string
  ue_inputTokens :: int
  ue_outputTokens :: int
  ue_estimatedUsd :: rat
  ue_outcome :: outcome
  ue_latencyMs :: int
  ue_cached :: bool
  ue_savedUsd :: rat
  ue_teamKeyId :: "string option"
  ue_teamId :: "string option"
  ue_detail :: "usage_detail option"

record upstream_call =
  uc_url :: string
  uc_route :: nexus_route
  uc_headers :: "(string \<times> string) list"
  uc_body :: json

record world =
  w_gw :: gateway
  w_outcomes :: "outcome list"
  w_rows :: "usage_row list"
  w_calls :: "upstream_call list"

datatype px_error = GwFailed gw_error | ReaderThrew

type_synonym 'a px = "(world, px_error, 'a) run"

record 'rx px_env =
  pe_arrived :: int
  pe_routed :: int
  pe_done :: int
  pe_gw :: gateway_env
  pe_routing :: routing_facts
  pe_catalog :: catalog_facts
  pe_priceRow :: "string \<Rightarrow> string \<Rightarrow> json option"
  pe_spendSince :: "string \<Rightarrow> int \<Rightarrow> rat"
  pe_engine :: "'rx engine"
  pe_guard :: "'rx guardrail_config"
  pe_cache :: cache_config
  pe_policy :: ssrf_policy
  pe_url :: "string \<Rightarrow> url option"
  pe_tpm :: tpm_reconcile
  pe_estimate :: tpm_estimate
  pe_defaultMaxTokens :: rat
  pe_countMessages :: "json list \<Rightarrow> int"
  pe_countText :: "string \<Rightarrow> int"
  pe_digest :: "json \<Rightarrow> string"
  pe_hash :: "string \<Rightarrow> string"
  pe_anonymized :: bool
  pe_writeEntry :: "cached_completion \<Rightarrow> string"
  pe_readEntry :: "string \<Rightarrow> cached_completion option"
  pe_parse :: "string \<Rightarrow> json option"
  pe_stringify :: "json \<Rightarrow> string"
  pe_idleMs :: int
  pe_maxMs :: int
  pe_modelRegistry :: "json list option"

text \<open>What the input guardrails leave: \<open>gd_redacted\<close> is \<open>effectiveMessages !== messages\<close>.\<close>

record guarded =
  gd_headers :: "(string \<times> string) list"
  gd_effective :: "json list"
  gd_redacted :: bool
  gd_outputFiltering :: bool
  gd_bufferStream :: bool

subsection \<open>Steps on the world\<close>

definition on_gw :: "'a gw \<Rightarrow> 'a px" where
  "on_gw m w = (case m (w_gw w) of (r, g) \<Rightarrow> (map_sum GwFailed id r, w\<lparr>w_gw := g\<rparr>))"

text \<open>\<open>void \<dots>.catch(() => {})\<close>: run, and forget the answer and the error.\<close>

definition quietly :: "'a gw \<Rightarrow> unit px" where
  "quietly m w = (Inr (), w\<lparr>w_gw := snd (m (w_gw w))\<rparr>)"

definition emit_row :: "usage_row \<Rightarrow> unit px" where
  "emit_row e w = (Inr (), w\<lparr>w_rows := w_rows w @ [e]\<rparr>)"

definition log_outcome :: "outcome \<Rightarrow> unit px" where
  "log_outcome x w = (Inr (), w\<lparr>w_outcomes := w_outcomes w @ [x]\<rparr>)"

definition log_call :: "upstream_call \<Rightarrow> unit px" where
  "log_call c w = (Inr (), w\<lparr>w_calls := w_calls w @ [c]\<rparr>)"

subsection \<open>Recording\<close>

text \<open>\<open>recordOutcome\<close>: a failure's row, with the route's names once there is a route.\<close>

definition recordOutcome :: "'rx px_env \<Rightarrow> px_request \<Rightarrow> nexus_route option \<Rightarrow> int \<Rightarrow> outcome \<Rightarrow> unit px" where
  "recordOutcome E rq route elapsed x = emit_row
     \<lparr>ue_sessionId = [], ue_modelId = (case route of Some rt \<Rightarrow> nr_modelString rt | None \<Rightarrow> []),
      ue_modelName = (case route of Some rt \<Rightarrow> nr_modelString rt | None \<Rightarrow> []),
      ue_provider = (case route of Some rt \<Rightarrow> nr_providerSlug rt | None \<Rightarrow> []),
      ue_inputTokens = 0, ue_outputTokens = 0, ue_estimatedUsd = 0, ue_outcome = x,
      ue_latencyMs = max 0 elapsed, ue_cached = False, ue_savedUsd = 0, ue_teamKeyId = rq_teamKeyId rq,
      ue_teamId = map_option st_id (rq_team rq), ue_detail = None\<rparr>"

definition observe :: "'rx px_env \<Rightarrow> px_request \<Rightarrow> nexus_route option \<Rightarrow> int \<Rightarrow> outcome \<Rightarrow> bool \<Rightarrow> unit px" where
  "observe E rq route at_time x persist =
     then_m (log_outcome x)
       (if x \<noteq> Success \<and> persist then recordOutcome E rq route (at_time - pe_arrived E) x else return_m ())"

record usage_params =
  up_sessionId :: string
  up_modelId :: string
  up_modelName :: string
  up_provider :: string
  up_input :: int
  up_output :: int
  up_cached :: bool
  up_outcome :: outcome
  up_at :: int
  up_detail :: "usage_detail option"
  up_tools :: "server_tool_use option"

definition request_price :: "'rx px_env \<Rightarrow> usage_params \<Rightarrow> rat" where
  "request_price E p = (case pe_priceRow E (up_modelName p) (up_modelId p) of None \<Rightarrow> 0
     | Some m \<Rightarrow> tokenCost (Some m) (up_provider p) (up_input p) (up_output p)
         (option_or (up_detail p) no_detail) (option_or (up_tools p) []))"

definition recordTokenUsage :: "'rx px_env \<Rightarrow> px_request \<Rightarrow> usage_params \<Rightarrow> unit px" where
  "recordTokenUsage E rq p =
     (let price = request_price E p;
          estimatedUsd = (if up_cached p then 0 else price);
          savedUsd = (if up_cached p then price else 0);
          charge = (case rq_team rq of
              Some team \<Rightarrow> if st_id team \<noteq> [] \<and> 0 < estimatedUsd
                then quietly (on_kv (addSpend (up_at p) (st_id team) (tc_budgetPeriod team) estimatedUsd (up_at p)))
                else return_m ()
            | None \<Rightarrow> return_m ())
      in then_m charge (emit_row
        \<lparr>ue_sessionId = (if pe_anonymized E then pe_hash E (up_sessionId p) else up_sessionId p),
         ue_modelId = up_modelId p, ue_modelName = up_modelName p, ue_provider = up_provider p,
         ue_inputTokens = up_input p, ue_outputTokens = up_output p, ue_estimatedUsd = estimatedUsd,
         ue_outcome = up_outcome p, ue_latencyMs = max 0 (up_at p - pe_arrived E), ue_cached = up_cached p,
         ue_savedUsd = savedUsd, ue_teamKeyId = rq_teamKeyId rq, ue_teamId = map_option st_id (rq_team rq),
         ue_detail = up_detail p\<rparr>))"

definition routeUsage :: "'rx px_env \<Rightarrow> nexus_route \<Rightarrow> string \<Rightarrow> int \<Rightarrow> int \<Rightarrow> outcome \<Rightarrow> usage_detail
    \<Rightarrow> server_tool_use option \<Rightarrow> usage_params" where
  "routeUsage E route sessionId inputTokens outputTokens x detail tools =
     \<lparr>up_sessionId = sessionId, up_modelId = option_or (nr_modelId route) (nr_modelString route),
      up_modelName = nr_modelString route, up_provider = nr_providerSlug route, up_input = inputTokens,
      up_output = outputTokens, up_cached = False, up_outcome = x, up_at = pe_done E, up_detail = Some detail,
      up_tools = tools\<rparr>"

subsection \<open>Sessions\<close>

definition FINGERPRINT_MESSAGES :: nat where "FINGERPRINT_MESSAGES = 2"

definition named_text :: "json option \<Rightarrow> string option" where
  "named_text v = (case jstring v of Some s \<Rightarrow> if trim s \<noteq> [] then Some (trim s) else None | None \<Rightarrow> None)"

definition message_part :: "json \<Rightarrow> string \<times> bool" where
  "message_part m = (case m of
       JObj _ \<Rightarrow> let t = extractText (jget ''content'' (Some m))
         in (option_or (jstring (jget ''role'' (Some m))) [] @ '':'' @ t, trim t \<noteq> [])
     | JArr _ \<Rightarrow> ('':'', False)
     | _ \<Rightarrow> ([], False))"

definition sessionHash :: "(string \<Rightarrow> string) \<Rightarrow> json \<Rightarrow> (string \<times> json) list \<Rightarrow> string option" where
  "sessionHash hash body headers =
     (case named_text (map_of headers ''x-nexus-session'') of
        Some i \<Rightarrow> Some (hash (''id:'' @ i))
      | None \<Rightarrow> (case named_text (jget ''user'' (Some body)) of
          Some u \<Rightarrow> Some (hash (''user:'' @ u))
        | None \<Rightarrow> let parts = map message_part (take FINGERPRINT_MESSAGES (body_messages body)) in
            if list_ex snd parts then Some (hash (''msg:'' @ join_with '' '' (map fst parts))) else None))"

subsection \<open>Headers\<close>

definition MAX_HEADERS :: nat where "MAX_HEADERS = 20"
definition MAX_VALUE_LENGTH :: nat where "MAX_VALUE_LENGTH = 1024"

fun collect_headers :: "nat \<Rightarrow> (string \<times> json) list \<Rightarrow> (string \<times> string) list \<Rightarrow> (string \<times> string) list" where
  "collect_headers n [] out = out"
| "collect_headers n ((k, v) # kvs) out =
     (if MAX_HEADERS \<le> n then out
      else case v of
        JStr s \<Rightarrow> if trim k \<noteq> [] \<and> length s \<le> MAX_VALUE_LENGTH then collect_headers (Suc n) kvs (put_header (trim k) s out)
                  else collect_headers n kvs out
      | _ \<Rightarrow> collect_headers n kvs out)"

definition parseExtraHeaders :: "(string \<Rightarrow> json option) \<Rightarrow> string option \<Rightarrow> (string \<times> string) list" where
  "parseExtraHeaders parse doc = (if \<not> truthy doc then []
     else case jobject (parse (option_or doc [])) of None \<Rightarrow> [] | Some kvs \<Rightarrow> collect_headers 0 kvs [])"

definition withExtraHeaders :: "(string \<Rightarrow> json option) \<Rightarrow> string option \<Rightarrow> (string \<times> string) list \<Rightarrow> (string \<times> string) list" where
  "withExtraHeaders parse extraHeaders systemHeaders =
     fold (\<lambda>(k, v). put_header k v) systemHeaders (parseExtraHeaders parse extraHeaders)"

definition authHeaderValue :: "string option \<Rightarrow> string \<Rightarrow> string" where
  "authHeaderValue prefix key = (let p = trim (option_or prefix ''Bearer'') in if p \<noteq> [] then p @ '' '' @ key else key)"

definition providerAuthHeader :: "string \<Rightarrow> string option \<Rightarrow> string \<Rightarrow> (string \<times> string) list" where
  "providerAuthHeader name prefix key =
     [(if trim name \<noteq> [] then trim name else ''Authorization'', authHeaderValue prefix key)]"

end
