(* ===== verification/Anthropic_Native.thy ===== *)
theory Anthropic_Native
  imports Proxy_Run
begin

text \<open>
  When a Messages request goes to Anthropic's own API as the caller sent it, and what of it may leave:
  \<open>src/services/proxy/anthropicNative.ts\<close>, \<open>anthropicPolicy.ts\<close> and \<open>anthropicGuard.ts\<close>. An object is the
  list of its entries, each name once.
\<close>

type_synonym jobj = "(string \<times> json) list"

subsection \<open>The pool's settings\<close>

record native_policy =
  np_enabled :: "bool option"
  np_allow :: "string list"

definition NATIVE_DEFAULTS :: native_policy where
  "NATIVE_DEFAULTS = \<lparr>np_enabled = None, np_allow = []\<rparr>"

definition readNativePolicy :: "(string \<Rightarrow> json option) \<Rightarrow> string option \<Rightarrow> native_policy" where
  "readNativePolicy parse raw = (if \<not> truthy raw then NATIVE_DEFAULTS
     else case jobject (parse (option_or raw [])) of None \<Rightarrow> NATIVE_DEFAULTS
       | Some p \<Rightarrow> \<lparr>np_enabled = (case map_of p ''enabled'' of Some (JBool b) \<Rightarrow> Some b | _ \<Rightarrow> None),
           np_allow = (case map_of p ''allow'' of Some (JArr xs) \<Rightarrow> List.map_filter (\<lambda>x. map_option trim (jstring (Some x))) xs
             | _ \<Rightarrow> [])\<rparr>)"

definition PRICED_FIELDS :: "string list" where
  "PRICED_FIELDS = [''model'', ''messages'', ''max_tokens'', ''system'', ''stream'', ''stop_sequences'', ''temperature'',
     ''top_p'', ''top_k'', ''thinking'', ''tools'', ''tool_choice'', ''metadata'', ''cache_control'', ''output_config'',
     ''diagnostics'']"

definition CLIENT_TOOL_PREFIXES :: "string list" where
  "CLIENT_TOOL_PREFIXES = [''memory_'', ''bash_'', ''text_editor_'', ''computer_'', ''browser_toolset_'']"

text \<open>A type without its \<open>_\<close> and eight digits at the end.\<close>

definition toolFamily :: "string \<Rightarrow> string" where
  "toolFamily ty = (let n = length ty in
     if 9 \<le> n \<and> ty ! (n - 9) = CHR ''_'' \<and> list_all is_digit (drop (n - 8) ty) then take (n - 9) ty else ty)"

definition isServerTool :: "json \<Rightarrow> bool" where
  "isServerTool tool = (case jstring (jget ''type'' (Some tool)) of None \<Rightarrow> False
     | Some ty \<Rightarrow> ty \<noteq> ''custom'' \<and> \<not> list_ex (\<lambda>p. starts_with p ty) CLIENT_TOOL_PREFIXES)"

definition hasServerTools :: "jobj \<Rightarrow> bool" where
  "hasServerTools body = (case map_of body ''tools'' of Some (JArr ts) \<Rightarrow> list_ex isServerTool ts | _ \<Rightarrow> False)"

subsection \<open>The body\<close>

definition field_allowed :: "native_policy \<Rightarrow> bool \<Rightarrow> string \<Rightarrow> bool" where
  "field_allowed policy sharedKey field \<longleftrightarrow> field \<in> set PRICED_FIELDS \<or>
     field \<in> set (np_allow policy) \<and> \<not> (sharedKey \<and> field = ''container'')"

definition tool_type :: "json \<Rightarrow> string" where
  "tool_type t = option_or (jstring (jget ''type'' (Some t))) []"

definition tool_kept :: "native_policy \<Rightarrow> (string \<Rightarrow> bool) \<Rightarrow> json \<Rightarrow> bool" where
  "tool_kept policy priced t \<longleftrightarrow> \<not> isServerTool t \<or> toolFamily (tool_type t) \<in> set (np_allow policy) \<or> priced (toolFamily (tool_type t))"

text \<open>A \<open>tool_choice\<close> names its tool by text.\<close>

definition names_removed :: "json option \<Rightarrow> string list \<Rightarrow> bool" where
  "names_removed choice removed \<longleftrightarrow> jget ''type'' choice = Some (JStr ''tool'') \<and>
     (case jstring (jget ''name'' choice) of Some n \<Rightarrow> n \<in> set removed | None \<Rightarrow> False)"

definition shapeTools :: "native_policy \<Rightarrow> (string \<Rightarrow> bool) \<Rightarrow> json list \<Rightarrow> jobj \<Rightarrow> jobj \<times> string list" where
  "shapeTools policy priced tools out =
     (let kept = filter (tool_kept policy priced) tools;
          gone = filter (\<lambda>t. \<not> tool_kept policy priced t) tools;
          removed = List.map_filter (\<lambda>t. jstring (jget ''name'' (Some t))) gone;
          stripped = map (\<lambda>t. ''tool:'' @ tool_type t) gone
      in if length kept = length tools then (out, stripped)
         else let choice = map_of out ''tool_choice'';
                  out1 = (if kept \<noteq> [] then AList.update ''tools'' (JArr kept) out else AList.delete ''tools'' out)
           in if choice \<noteq> None \<and> (names_removed choice removed \<or> kept = [])
              then (AList.delete ''tool_choice'' out1, stripped @ [''tool_choice'']) else (out1, stripped))"

record shaped =
  sh_body :: jobj
  sh_stripped :: "string list"

definition shapeNativeBody :: "jobj \<Rightarrow> native_policy \<Rightarrow> (string \<Rightarrow> bool) \<Rightarrow> bool \<Rightarrow> shaped" where
  "shapeNativeBody body policy priced sharedKey =
     (let out = filter (\<lambda>(f, _). field_allowed policy sharedKey f) body;
          stripped = map fst (filter (\<lambda>(f, _). \<not> field_allowed policy sharedKey f) body)
      in case map_of out ''tools'' of
           Some (JArr tools) \<Rightarrow> (case shapeTools policy priced tools out of (out', gone) \<Rightarrow> \<lparr>sh_body = out', sh_stripped = stripped @ gone\<rparr>)
         | _ \<Rightarrow> \<lparr>sh_body = out, sh_stripped = stripped\<rparr>)"

subsection \<open>Beta features\<close>

definition BETA_FEATURES :: "(string \<times> string) list" where
  "BETA_FEATURES = [(''fast-mode-'', ''speed''), (''advisor-tool-'', ''advisor''), (''mcp-client-'', ''mcp_servers''),
     (''code-execution-'', ''code_execution''), (''skills-'', ''container''), (''context-management-'', ''context_management''),
     (''context-1m-'', ''context-1m'')]"

definition changesAuth :: "string \<Rightarrow> bool" where
  "changesAuth beta \<longleftrightarrow> starts_with ''oauth-'' beta"

definition splitList :: "string option \<Rightarrow> string list" where
  "splitList v = filter (\<lambda>b. b \<noteq> []) (map trim (split_on (\<lambda>c. c = CHR '','') (option_or v [])))"

definition beta_feature :: "string \<Rightarrow> string option" where
  "beta_feature b = map_option snd (find (\<lambda>(p, _). starts_with p b) BETA_FEATURES)"

definition operator_beta :: "string \<Rightarrow> string list \<times> string list \<Rightarrow> string list \<times> string list" where
  "operator_beta b st = (case st of (keep, stripped) \<Rightarrow>
     if changesAuth b then (keep, stripped @ [''anthropic-beta:'' @ b]) else (List.insert b keep, stripped))"

definition caller_beta :: "native_policy \<Rightarrow> string \<Rightarrow> string list \<times> string list \<Rightarrow> string list \<times> string list" where
  "caller_beta policy b st = (case st of (keep, stripped) \<Rightarrow>
     if b \<in> set keep then st
     else if changesAuth b \<or> (case beta_feature b of Some f \<Rightarrow> f \<notin> set (np_allow policy) | None \<Rightarrow> False)
     then (keep, stripped @ [''anthropic-beta:'' @ b])
     else (List.insert b keep, stripped))"

text \<open>The set of kept betas, most recent first, is written in the order they were added.\<close>

definition nativeBetas :: "string option \<Rightarrow> string option \<Rightarrow> native_policy \<Rightarrow> string option \<times> string list" where
  "nativeBetas operator caller policy =
     (case fold (caller_beta policy) (splitList caller) (fold operator_beta (splitList operator) ([], [])) of
       (keep, stripped) \<Rightarrow> (if keep = [] then None else Some (join_with '','' (rev keep)), stripped))"

subsection \<open>Telling the caller\<close>

definition STRIPPED_NAMED :: nat where "STRIPPED_NAMED = 32"

definition is_token_char :: "char \<Rightarrow> bool" where
  "is_token_char c \<longleftrightarrow> is_digit c \<or> (65 \<le> (of_char c :: nat) \<and> (of_char c :: nat) \<le> 90)
     \<or> (97 \<le> (of_char c :: nat) \<and> (of_char c :: nat) \<le> 122) \<or> c \<in> {CHR ''_'', CHR ''.'', CHR '':'', CHR ''-''}"

definition safe_name :: "string \<Rightarrow> string" where
  "safe_name s = take 96 (map (\<lambda>c. if is_token_char c then c else CHR ''_'') s)"

definition strippedHeader :: "string list \<Rightarrow> string option" where
  "strippedHeader stripped = (if stripped = [] then None
     else Some (join_with '', '' (map safe_name (take STRIPPED_NAMED stripped)
       @ (if STRIPPED_NAMED < length stripped then [''and '' @ nat_string (length stripped - STRIPPED_NAMED) @ '' more''] else []))))"

subsection \<open>What the guardrails can see\<close>

definition only :: "jobj \<Rightarrow> string list \<Rightarrow> bool" where
  "only b names \<longleftrightarrow> list_all (\<lambda>(k, _). k \<in> set names) b"

definition has_type :: "jobj \<Rightarrow> string \<Rightarrow> bool" where
  "has_type b ty \<longleftrightarrow> map_of b ''type'' = Some (JStr ty)"

definition textBlock :: "json \<Rightarrow> bool" where
  "textBlock j = (case j of JObj b \<Rightarrow> has_type b ''text'' \<and> only b [''type'', ''text'', ''cache_control''] | _ \<Rightarrow> False)"

definition image_source_ok :: "json \<Rightarrow> bool" where
  "image_source_ok j = (case j of JObj s \<Rightarrow>
       has_type s ''base64'' \<and> only s [''type'', ''media_type'', ''data''] \<or> has_type s ''url'' \<and> only s [''type'', ''url'']
     | _ \<Rightarrow> False)"

definition imageBlock :: "json \<Rightarrow> bool" where
  "imageBlock j = (case j of JObj b \<Rightarrow> has_type b ''image'' \<and> only b [''type'', ''source'', ''cache_control'']
       \<and> (case map_of b ''source'' of Some s \<Rightarrow> image_source_ok s | None \<Rightarrow> False)
     | _ \<Rightarrow> False)"

definition toolResult :: "json \<Rightarrow> bool" where
  "toolResult j = (case j of JObj b \<Rightarrow> has_type b ''tool_result''
       \<and> only b [''type'', ''tool_use_id'', ''content'', ''is_error'', ''cache_control'']
       \<and> (case map_of b ''content'' of None \<Rightarrow> True | Some (JStr _) \<Rightarrow> True | Some (JArr cs) \<Rightarrow> list_all textBlock cs | _ \<Rightarrow> False)
     | _ \<Rightarrow> False)"

definition toolUse :: "json \<Rightarrow> bool" where
  "toolUse j = (case j of JObj b \<Rightarrow> has_type b ''tool_use'' \<and> only b [''type'', ''id'', ''name'', ''input'', ''cache_control'']
     | _ \<Rightarrow> False)"

definition blockSentToday :: "json \<Rightarrow> bool" where
  "blockSentToday b \<longleftrightarrow> textBlock b \<or> imageBlock b \<or> toolResult b \<or> toolUse b"

definition messageSentToday :: "json \<Rightarrow> bool" where
  "messageSentToday j = (case j of JObj m \<Rightarrow> only m [''role'', ''content'']
       \<and> (case map_of m ''content'' of Some (JStr _) \<Rightarrow> True | Some (JArr bs) \<Rightarrow> list_all blockSentToday bs | _ \<Rightarrow> False)
     | _ \<Rightarrow> False)"

definition customTool :: "json \<Rightarrow> bool" where
  "customTool j = (case j of JObj t \<Rightarrow> (map_of t ''type'' = None \<or> has_type t ''custom'')
       \<and> only t [''type'', ''name'', ''description'', ''input_schema'', ''cache_control'']
     | _ \<Rightarrow> False)"

definition GUARDED_FIELDS :: "string list" where
  "GUARDED_FIELDS = [''model'', ''messages'', ''system'', ''max_tokens'', ''stream'', ''stop_sequences'', ''temperature'', ''top_p'',
     ''tools'', ''tool_choice'', ''top_k'', ''thinking'', ''metadata'', ''cache_control'', ''diagnostics'', ''output_config'']"

definition object_of :: "string list \<Rightarrow> json \<Rightarrow> bool" where
  "object_of names j = (case j of JObj b \<Rightarrow> only b names | _ \<Rightarrow> False)"

definition all_in :: "(json \<Rightarrow> bool) \<Rightarrow> json \<Rightarrow> bool" where
  "all_in ok j = (case j of JArr xs \<Rightarrow> list_all ok xs | _ \<Rightarrow> False)"

definition optional_ok :: "json option \<Rightarrow> (json \<Rightarrow> bool) \<Rightarrow> bool" where
  "optional_ok v ok = (case v of None \<Rightarrow> True | Some x \<Rightarrow> ok x)"

definition sentWholeToday :: "jobj \<Rightarrow> bool" where
  "sentWholeToday body \<longleftrightarrow> only body GUARDED_FIELDS
     \<and> (case map_of body ''messages'' of Some ms \<Rightarrow> all_in messageSentToday ms | None \<Rightarrow> False)
     \<and> optional_ok (map_of body ''system'') (\<lambda>v. case v of JStr _ \<Rightarrow> True | _ \<Rightarrow> all_in textBlock v)
     \<and> optional_ok (map_of body ''tools'') (all_in customTool)
     \<and> optional_ok (map_of body ''metadata'') (object_of [''user_id''])
     \<and> optional_ok (map_of body ''output_config'') (object_of [''effort''])"

text \<open>Files of the key's organisation, in a block or nested in it. The recursion ends as each nested block is smaller.\<close>

lemma size_entry: "map_of b k = Some v \<Longrightarrow> size v < size (JObj b)"
  by (induction b) (auto split: if_splits)

lemma size_element: "c \<in> set cs \<Longrightarrow> size c < size (JArr cs)"
  by (induction cs) auto

function namesOrgFile :: "json \<Rightarrow> bool" where
  "namesOrgFile j = (case j of JObj b \<Rightarrow>
       has_type b ''container_upload''
       \<or> (case map_of b ''source'' of Some (JObj s) \<Rightarrow> has_type s ''file''
             \<or> (case map_of s ''content'' of Some (JArr cs) \<Rightarrow> list_ex namesOrgFile cs | _ \<Rightarrow> False)
           | _ \<Rightarrow> False)
       \<or> (case map_of b ''content'' of Some (JArr cs) \<Rightarrow> list_ex namesOrgFile cs | _ \<Rightarrow> False)
     | _ \<Rightarrow> False)"
  by pat_completeness auto
termination
proof (relation "measure size", goal_cases)
  case 1
  show ?case by simp
next
  case (2 j b src s con cs z)
  then have "size z < size (JArr cs)" "size (JArr cs) < size (JObj s)" "size (JObj s) < size (JObj b)"
    by (auto dest: size_entry intro: size_element simp del: json.size)
  with 2 show ?case by simp
next
  case (3 j b con cs z)
  then have "size z < size (JArr cs)" "size (JArr cs) < size (JObj b)"
    by (auto dest: size_entry intro: size_element simp del: json.size)
  with 3 show ?case by simp
qed

definition referencesOrgFiles :: "jobj \<Rightarrow> bool" where
  "referencesOrgFiles body = (case map_of body ''messages'' of
       Some (JArr ms) \<Rightarrow> list_ex (\<lambda>m. case jget ''content'' (Some m) of Some (JArr cs) \<Rightarrow> list_ex namesOrgFile cs | _ \<Rightarrow> False) ms
     | _ \<Rightarrow> False)"

subsection \<open>The native request\<close>

definition NATIVE_PROVIDER :: string where "NATIVE_PROVIDER = ''anthropic''"
definition NATIVE_HEADERS :: "string list" where "NATIVE_HEADERS = [''anthropic-version'', ''anthropic-beta'']"
definition DEFAULT_VERSION :: string where "DEFAULT_VERSION = ''2023-06-01''"

text \<open>A repeated header is an array of its values.\<close>

definition header_text :: "json option \<Rightarrow> string option" where
  "header_text v = (case v of Some (JArr xs) \<Rightarrow> Some (join_with '','' (List.map_filter (\<lambda>x. jstring (Some x)) xs)) | _ \<Rightarrow> jstring v)"

definition pickNativeHeaders :: "(string \<times> json) list \<Rightarrow> (string \<times> string) list" where
  "pickNativeHeaders reqHeaders = List.map_filter (\<lambda>name. case header_text (map_of reqHeaders name) of
       Some v \<Rightarrow> if trim v \<noteq> [] then Some (name, trim v) else None | None \<Rightarrow> None) NATIVE_HEADERS"

definition poolSpeaksNative :: "nexus_route \<Rightarrow> native_policy \<Rightarrow> bool" where
  "poolSpeaksNative route policy = option_or (np_enabled policy) (to_lower (trim (nr_authHeader route)) = ''x-api-key'')"

definition servesRequestedModel :: "json option \<Rightarrow> nexus_route \<Rightarrow> bool" where
  "servesRequestedModel requested route \<longleftrightarrow> \<not> nr_wasDowngrade route \<and>
     (case jstring requested of Some r \<Rightarrow> to_lower (trim r) = to_lower (nr_modelString route) | None \<Rightarrow> False)"

text \<open>The registry is \<open>None\<close> when it cannot be read.\<close>

definition serverToolPricing :: "json list option \<Rightarrow> nexus_route \<Rightarrow> string \<Rightarrow> bool" where
  "serverToolPricing registry route family =
     (let m = find (\<lambda>r. jget ''modelString'' (Some r) = Some (JStr (nr_modelString route))
                \<or> (nr_modelId route \<noteq> None \<and> jget ''id'' (Some r) = map_option JStr (nr_modelId route))) (option_or registry [])
      in serverToolPriced m family)"

definition nativeHeaders :: "(string \<Rightarrow> json option) \<Rightarrow> (string \<times> string) list \<Rightarrow> nexus_route \<Rightarrow> native_policy
    \<Rightarrow> (string \<times> string) list \<times> string list" where
  "nativeHeaders parse caller route policy =
     (let configured = parseExtraHeaders parse (nr_extraHeaders route);
          own = (\<lambda>name. map_option snd (find (\<lambda>(k, _). to_lower k = name) configured));
          reserved = NATIVE_HEADERS @ [''content-type'', to_lower (trim (nr_authHeader route))]
      in case nativeBetas (own ''anthropic-beta'') (map_of caller ''anthropic-beta'') policy of
        (betas, stripped) \<Rightarrow>
          (fold (\<lambda>(k, v). put_header k v)
             ([(''anthropic-version'', option_or (map_of caller ''anthropic-version'') (option_or (own ''anthropic-version'') DEFAULT_VERSION))]
               @ (case betas of Some v \<Rightarrow> if v \<noteq> [] then [(''anthropic-beta'', v)] else [] | None \<Rightarrow> [])
               @ [(''Content-Type'', ''application/json'')]
               @ providerAuthHeader (nr_authHeader route) (nr_authPrefix route) (nr_decryptedKey route))
             (filter (\<lambda>(k, _). to_lower k \<notin> set reserved) configured),
           stripped))"

record native_request =
  nq_url :: string
  nq_body :: jobj
  nq_headers :: "(string \<times> string) list"
  nq_stripped :: "string list"

text \<open>
  \<open>native\<close> is the caller's own body and headers when the request came in as a Messages request;
  \<open>guardrailsOn\<close> says whether the guardrails are enabled and have rules.
\<close>

definition planNative :: "(string \<Rightarrow> json option) \<Rightarrow> json list option \<Rightarrow> (jobj \<times> (string \<times> string) list) option \<Rightarrow> nexus_route
    \<Rightarrow> guarded \<Rightarrow> bool \<Rightarrow> native_request option" where
  "planNative parse registry native route gd guardrailsOn = (case native of None \<Rightarrow> None | Some (nbody, nheaders) \<Rightarrow>
     if nr_providerSlug route \<noteq> NATIVE_PROVIDER then None
     else let policy = readNativePolicy parse (nr_nativeMessages route) in
       if \<not> poolSpeaksNative route policy \<or> \<not> servesRequestedModel (map_of nbody ''model'') route then None
       else if gd_redacted gd \<or> gd_outputFiltering gd then None
       else let priced = (if hasServerTools nbody then serverToolPricing registry route else (\<lambda>_. False));
                shaped = shapeNativeBody nbody policy priced (\<not> nr_byok route)
         in if \<not> nr_byok route \<and> referencesOrgFiles (sh_body shaped) then None
            else if guardrailsOn \<and> \<not> sentWholeToday (sh_body shaped) then None
            else case nativeHeaders parse nheaders route policy of (hs, stripped) \<Rightarrow>
              Some \<lparr>nq_url = stripTrailingSlash (nr_baseUrl route) @ ''/messages'',
                    nq_body = AList.update ''model'' (JStr (nr_modelString route)) (sh_body shaped),
                    nq_headers = hs, nq_stripped = sh_stripped shaped @ stripped\<rparr>)"

end
