(* ===== verification/Anthropic_Spec.thy ===== *)
theory Anthropic_Spec
  imports Anthropic_Native
begin

text \<open>
  What may leave on the native path: the lemmas of \<open>Anthropic_Native\<close>'s shaping, beta and header rules, and
  the properties of the request that is sent and of the header that tells the caller what was removed.
\<close>

subsection \<open>The body\<close>

lemma map_of_filter_key: "map_of (filter (\<lambda>(f, _). P f) b) k = (if P k then map_of b k else None)"
  by (induction b) auto

lemma shapeTools_body:
  assumes "shapeTools policy priced tools out = (out', gone)"
  shows "map_of out' f = (if f = ''tools'' then
            (if list_all (tool_kept policy priced) tools then map_of out f
             else if list_ex (tool_kept policy priced) tools then Some (JArr (filter (tool_kept policy priced) tools)) else None)
          else if f = ''tool_choice'' then map_of out' f else map_of out f)"
proof -
  have len: "length (filter (tool_kept policy priced) tools) = length tools \<longleftrightarrow> list_all (tool_kept policy priced) tools"
    by (metis filter_id_conv length_filter_less list_all_iff nat_neq_iff)
  have ex: "filter (tool_kept policy priced) tools \<noteq> [] \<longleftrightarrow> list_ex (tool_kept policy priced) tools"
    by (induction tools) auto
  show ?thesis
    using assms unfolding shapeTools_def Let_def len ex
    by (auto simp: update_conv' delete_conv' split: if_splits)
qed

lemma shapeTools_kept:
  assumes "shapeTools policy priced tools out = (out', gone)" and "map_of out ''tools'' = Some (JArr tools)"
    and "map_of out' ''tools'' = Some (JArr ts)"
  shows "list_all (tool_kept policy priced) ts"
  using assms shapeTools_body [OF assms(1), of "''tools''"] by (auto simp: list_all_iff split: if_splits)

lemma shaped_fields:
  fixes body policy priced sharedKey
  defines "b \<equiv> sh_body (shapeNativeBody body policy priced sharedKey)"
  shows "f \<noteq> ''tools'' \<Longrightarrow> f \<noteq> ''tool_choice'' \<Longrightarrow>
      map_of b f = (if field_allowed policy sharedKey f then map_of body f else None)" (is "?T \<Longrightarrow> ?C \<Longrightarrow> ?Q")
    and "map_of b ''tools'' = Some (JArr ts) \<Longrightarrow> list_all (tool_kept policy priced) ts"
proof -
  let ?out = "filter (\<lambda>(f, _). field_allowed policy sharedKey f) body"
  have out: "map_of ?out k = (if field_allowed policy sharedKey k then map_of body k else None)" for k
    by (rule map_of_filter_key)
  consider (same) "b = ?out" "\<nexists>ts. map_of ?out ''tools'' = Some (JArr ts)"
    | (tools) tools out' gone where "map_of ?out ''tools'' = Some (JArr tools)"
        "shapeTools policy priced tools ?out = (out', gone)" "b = out'"
  proof (cases "\<exists>ts. map_of ?out ''tools'' = Some (JArr ts)")
    case False
    then have "b = ?out" unfolding b_def shapeNativeBody_def Let_def by (auto split: option.splits json.splits)
    then show ?thesis using False that(1) by blast
  next
    case True
    then obtain ts where ts: "map_of ?out ''tools'' = Some (JArr ts)" by blast
    obtain out' gone where st: "shapeTools policy priced ts ?out = (out', gone)" by (cases "shapeTools policy priced ts ?out")
    have "b = out'" unfolding b_def shapeNativeBody_def Let_def using ts st by simp
    then show ?thesis using that(2) ts st by blast
  qed
  then have "(?T \<longrightarrow> ?C \<longrightarrow> ?Q) \<and> (map_of b ''tools'' = Some (JArr ts) \<longrightarrow> list_all (tool_kept policy priced) ts)"
  proof cases
    case same
    then have b: "map_of b k = (if field_allowed policy sharedKey k then map_of body k else None)" for k using out by simp
    have "map_of b ''tools'' \<noteq> Some (JArr ts)" using same by blast
    then show ?thesis unfolding b by simp
  next
    case tools
    have "?T \<longrightarrow> ?C \<longrightarrow> ?Q"
    proof (intro impI)
      assume ?T ?C
      then have "map_of b f = map_of ?out f" using shapeTools_body [OF tools(2), of f] tools(3) by argo
      then show ?Q by (simp only: out)
    qed
    moreover have "map_of b ''tools'' = Some (JArr ts) \<longrightarrow> list_all (tool_kept policy priced) ts"
      using shapeTools_kept [OF tools(2,1)] tools(3) by simp
    ultimately show ?thesis by blast
  qed
  note all = this
  show "?T \<Longrightarrow> ?C \<Longrightarrow> ?Q" using all by blast
  show "map_of b ''tools'' = Some (JArr ts) \<Longrightarrow> list_all (tool_kept policy priced) ts" using all by blast
qed

lemma shaped_present: "map_of (sh_body (shapeNativeBody body policy priced sharedKey)) f \<noteq> None \<Longrightarrow> field_allowed policy sharedKey f"
proof (cases "f = ''tools'' \<or> f = ''tool_choice''")
  case True
  then show ?thesis by (auto simp: field_allowed_def PRICED_FIELDS_def)
next
  case False
  then show "map_of (sh_body (shapeNativeBody body policy priced sharedKey)) f \<noteq> None \<Longrightarrow> ?thesis"
    using shaped_fields(1) by (metis (full_types))
qed

subsection \<open>The property of the body\<close>

text \<open>
  C25. Whatever the caller sends, a request that goes to Anthropic's own API carries only fields the gateway
  prices, or that the pool's settings allow (and never a container on a shared key); every server tool in it
  is allowed or priced for the routed model; the model is the routed one; and every other field is exactly
  the caller's. It goes there only for a pool of that provider that chose the model the caller named, and
  only when the guardrails changed nothing and read no answer.
\<close>

theorem native_request_is_priced:
  fixes parse registry nbody nheaders route gd guards nq
  defines "policy \<equiv> readNativePolicy parse (nr_nativeMessages route)"
  assumes "planNative parse registry (Some (nbody, nheaders)) route gd guards = Some nq"
  shows "nr_providerSlug route = NATIVE_PROVIDER \<and> servesRequestedModel (map_of nbody ''model'') route
    \<and> \<not> gd_redacted gd \<and> \<not> gd_outputFiltering gd
    \<and> map_of (nq_body nq) ''model'' = Some (JStr (nr_modelString route))
    \<and> (\<forall>f. map_of (nq_body nq) f \<noteq> None \<longrightarrow> field_allowed policy (\<not> nr_byok route) f)
    \<and> (\<forall>f. f \<notin> {''model'', ''tools'', ''tool_choice''} \<longrightarrow>
         map_of (nq_body nq) f = (if field_allowed policy (\<not> nr_byok route) f then map_of nbody f else None))
    \<and> (\<forall>ts. map_of (nq_body nq) ''tools'' = Some (JArr ts) \<longrightarrow>
         list_all (tool_kept policy (serverToolPricing registry route)) ts)"
proof -
  let ?priced = "if hasServerTools nbody then serverToolPricing registry route else (\<lambda>_. False)"
  let ?b = "sh_body (shapeNativeBody nbody policy ?priced (\<not> nr_byok route))"
  have sent: "nr_providerSlug route = NATIVE_PROVIDER" "servesRequestedModel (map_of nbody ''model'') route"
      "\<not> gd_redacted gd" "\<not> gd_outputFiltering gd" "nq_body nq = AList.update ''model'' (JStr (nr_modelString route)) ?b"
    using assms(2) unfolding planNative_def policy_def Let_def by (auto split: if_splits prod.splits)
  have model: "map_of (nq_body nq) f = (if f = ''model'' then Some (JStr (nr_modelString route)) else map_of ?b f)" for f
    by (simp add: sent(5) update_conv')
  have "tool_kept policy ?priced t \<Longrightarrow> tool_kept policy (serverToolPricing registry route) t" for t
    by (auto simp: tool_kept_def split: if_splits)
  then have kept: "list_all (tool_kept policy ?priced) ts \<Longrightarrow> list_all (tool_kept policy (serverToolPricing registry route)) ts" for ts
    by (simp add: list_all_iff)
  have "field_allowed policy (\<not> nr_byok route) ''model''" by (simp add: field_allowed_def PRICED_FIELDS_def)
  note own = this
  show ?thesis
  proof (intro conjI allI impI)
    fix f assume "map_of (nq_body nq) f \<noteq> None"
    then show "field_allowed policy (\<not> nr_byok route) f"
      using own shaped_present [of nbody policy ?priced "\<not> nr_byok route" f] by (cases "f = ''model''") (auto simp: model)
  next
    fix f assume "f \<notin> {''model'', ''tools'', ''tool_choice''}"
    then show "map_of (nq_body nq) f = (if field_allowed policy (\<not> nr_byok route) f then map_of nbody f else None)"
      using shaped_fields(1) [of f nbody policy ?priced] unfolding model by simp
  next
    fix ts assume "map_of (nq_body nq) ''tools'' = Some (JArr ts)"
    then have "map_of ?b ''tools'' = Some (JArr ts)" unfolding model by simp
    then show "list_all (tool_kept policy (serverToolPricing registry route)) ts"
      by (rule kept [OF shaped_fields(2)])
  qed (use sent model in simp_all)
qed

text \<open>A pool on Anthropic's own API, a request for its model with a fast mode and a search tool nobody prices.\<close>

definition native_route :: nexus_route where
  "native_route = \<lparr>nr_keyId = ''k1'', nr_decryptedKey = ''sk'', nr_keyMask = maskKey ''sk'', nr_baseUrl = ''https://a/v1/'', nr_modelString = ''m1'',
     nr_modelId = None, nr_providerSlug = ''anthropic'', nr_tier = ''fast'', nr_authHeader = ''x-api-key'', nr_authPrefix = Some [],
     nr_extraHeaders = None, nr_nativeMessages = None, nr_wasDowngrade = False, nr_isProbe = False, nr_sticky = False,
     nr_byok = False, nr_keyStatus = ''active'', nr_rpmLimit = 1, nr_tpmLimit = 1\<rparr>"

definition native_guarded :: guarded where
  "native_guarded = \<lparr>gd_headers = [], gd_effective = [], gd_redacted = False, gd_outputFiltering = False, gd_bufferStream = False\<rparr>"

definition native_sample :: jobj where
  "native_sample = [(''model'', JStr ''M1''), (''speed'', JStr ''fast''),
     (''tools'', JArr [JObj [(''type'', JStr ''web_search_20260209''), (''name'', JStr ''s'')], JObj [(''name'', JStr ''mine'')]])]"

theorem native_request_is_priced_witness:
  "\<exists>nq. planNative (\<lambda>_. None) (Some []) (Some (native_sample, [])) native_route native_guarded False = Some nq
     \<and> map_of (nq_body nq) ''speed'' = None"
proof -
  have "planNative (\<lambda>_. None) (Some []) (Some (native_sample, [])) native_route native_guarded False \<noteq> None"
    by code_simp
  then obtain nq where p: "planNative (\<lambda>_. None) (Some []) (Some (native_sample, [])) native_route native_guarded False = Some nq"
    by blast
  have "\<not> field_allowed (readNativePolicy (\<lambda>_. None) (nr_nativeMessages native_route)) (\<not> nr_byok native_route) ''speed''"
    by code_simp
  moreover have "\<forall>f. map_of (nq_body nq) f \<noteq> None \<longrightarrow>
      field_allowed (readNativePolicy (\<lambda>_. None) (nr_nativeMessages native_route)) (\<not> nr_byok native_route) f"
    using native_request_is_priced [OF p] by (elim conjE)
  ultimately have "map_of (nq_body nq) ''speed'' = None" by blast
  with p show ?thesis by blast
qed

subsection \<open>Beta features\<close>

lemma set_trim: "set (trim s) \<subseteq> set s"
  by (auto simp: trim_def dest!: set_dropWhileD)

lemma trim_idem: "trim (trim s) = trim s"
proof (cases "trim s = []")
  case False
  let ?d = "dropWhile is_space s"
  obtain ys where ys: "?d = trim s @ ys"
    unfolding trim_def by (metis rev_append rev_rev_ident takeWhile_dropWhile_id)
  have "?d \<noteq> []" using ys False by auto
  then have "\<not> is_space (hd (trim s))" using hd_dropWhile [of is_space s] ys False by simp
  moreover have "\<not> is_space (last (trim s))"
    using False hd_dropWhile [of is_space "rev ?d"] by (simp add: trim_def last_rev)
  ultimately show ?thesis using False by (intro trim_edges)
next
  case True
  then show ?thesis by (simp add: trim_def [of "[]"])
qed

lemma split_on_pieces: "x \<in> set (split_on p s) \<Longrightarrow> c \<in> set x \<Longrightarrow> \<not> p c"
proof (induction s arbitrary: x)
  case (Cons a s)
  then show ?case using Cons.IH [of "hd (split_on p s)"] by (cases "split_on p s") (auto split: if_splits)
qed simp

lemma split_join:
  "xs \<noteq> [] \<Longrightarrow> \<forall>x \<in> set xs. CHR '','' \<notin> set x \<Longrightarrow> split_on (\<lambda>c. c = CHR '','') (join_with '','' xs) = xs"
proof (induction xs rule: induct_list012)
  case (2 x)
  then have "\<forall>c \<in> set x. c \<noteq> CHR '',''" by auto
  then show ?case by (simp add: split_on_whole)
next
  case (3 x y xs)
  then have "\<forall>c \<in> set x. c \<noteq> CHR '',''" by (metis list.set_intros(1))
  then show ?case using 3 by (simp add: split_on_sep)
qed simp

definition plain_beta :: "string \<Rightarrow> bool" where
  "plain_beta b \<longleftrightarrow> b \<noteq> [] \<and> trim b = b \<and> CHR '','' \<notin> set b"

lemma splitList_plain: "b \<in> set (splitList v) \<Longrightarrow> plain_beta b"
  unfolding splitList_def plain_beta_def using set_trim split_on_pieces by (fastforce simp: trim_idem)

lemma splitList_join: "\<forall>b \<in> set bs. plain_beta b \<Longrightarrow> bs \<noteq> [] \<Longrightarrow> splitList (Some (join_with '','' bs)) = bs"
  unfolding splitList_def by (simp add: split_join plain_beta_def map_idI)

lemma kept_operator: "set (fst (fold operator_beta bs st)) = set (fst st) \<union> {b \<in> set bs. \<not> changesAuth b}"
  by (induction bs arbitrary: st) (auto simp: operator_beta_def split: prod.splits if_splits)

definition feature_allowed :: "native_policy \<Rightarrow> string \<Rightarrow> bool" where
  "feature_allowed policy b \<longleftrightarrow> (case beta_feature b of Some f \<Rightarrow> f \<in> set (np_allow policy) | None \<Rightarrow> True)"

lemma caller_beta_kept: "set (fst (caller_beta policy b st)) =
    set (fst st) \<union> (if \<not> changesAuth b \<and> feature_allowed policy b then {b} else {})"
  by (cases st) (auto simp: caller_beta_def feature_allowed_def split: option.splits)

lemma kept_caller: "set (fst (fold (caller_beta policy) bs st)) =
    set (fst st) \<union> {b \<in> set bs. \<not> changesAuth b \<and> feature_allowed policy b}"
  by (induction bs arbitrary: st) (auto simp: caller_beta_kept)

text \<open>
  The beta features sent are exactly the operator's and the caller's, less every one that changes how the
  request authenticates, and less the caller's that switch on a feature the pool does not allow.
\<close>

theorem betas_sent:
  "set (splitList (fst (nativeBetas operator caller policy))) =
     {b \<in> set (splitList operator). \<not> changesAuth b}
     \<union> {b \<in> set (splitList caller). \<not> changesAuth b \<and> feature_allowed policy b}"
proof -
  let ?keep = "fst (fold (caller_beta policy) (splitList caller) (fold operator_beta (splitList operator) ([], [])))"
  have keep: "set ?keep = {b \<in> set (splitList operator). \<not> changesAuth b}
     \<union> {b \<in> set (splitList caller). \<not> changesAuth b \<and> feature_allowed policy b}"
    by (simp add: kept_caller kept_operator)
  then have "\<forall>b \<in> set (rev ?keep). plain_beta b" using splitList_plain by auto
  then have "?keep \<noteq> [] \<Longrightarrow> splitList (Some (join_with '','' (rev ?keep))) = rev ?keep" by (intro splitList_join) simp_all
  moreover have "splitList None = []" by (simp add: splitList_def trim_def)
  moreover have "fst (nativeBetas operator caller policy) = (if ?keep = [] then None else Some (join_with '','' (rev ?keep)))"
    by (simp add: nativeBetas_def split: prod.split)
  ultimately show ?thesis using keep by (cases "?keep = []") simp_all
qed

subsection \<open>What the caller is told\<close>

definition header_char :: "char \<Rightarrow> bool" where
  "header_char c \<longleftrightarrow> is_token_char c \<or> c \<in> {CHR '','', CHR '' ''}"

lemma set_join_with: "set (join_with sep xs) \<subseteq> set sep \<union> \<Union> (set ` set xs)"
  by (induction sep xs rule: join_with.induct) auto

lemma safe_name_chars: "c \<in> set (safe_name s) \<Longrightarrow> is_token_char c"
proof -
  have "is_token_char (CHR ''_'')" by code_simp
  then show "c \<in> set (safe_name s) \<Longrightarrow> is_token_char c" by (auto simp: safe_name_def dest!: in_set_takeD split: if_splits)
qed

text \<open>
  Whatever names a caller's body and headers have, the header that lists what was removed is made of
  letters, digits and a few marks only: it can hold no line break and start no second header.
\<close>

theorem stripped_header_is_inert: "list_all header_char (option_or (strippedHeader stripped) [])"
proof -
  have lits: "list_all header_char ''and ''" "list_all header_char '' more''" "list_all header_char '', ''" by code_simp+
  have num: "header_char c" if "c \<in> set (nat_string n)" for c n
    using nat_string_digits [of n] that by (auto simp: header_char_def is_token_char_def list_all_iff)
  have names: "header_char c" if "c \<in> set (safe_name s)" for c s
    using safe_name_chars [OF that] by (simp add: header_char_def)
  have "header_char c" if "strippedHeader stripped = Some h" "c \<in> set h" for h c
    using that set_join_with lits num names unfolding strippedHeader_def list_all_iff
    by (fastforce split: if_splits)
  then show ?thesis by (cases "strippedHeader stripped") (simp_all add: list_all_iff)
qed

subsection \<open>The credential\<close>

text \<open>The headers of a given name, in any case, among a list of headers.\<close>

definition headers_named :: "string \<Rightarrow> (string \<times> string) list \<Rightarrow> (string \<times> string) list" where
  "headers_named name hs = filter (\<lambda>(k, _). to_lower k = name) hs"

lemma headers_named_put: "to_lower k \<noteq> name \<Longrightarrow> headers_named name (put_header k v hs) = headers_named name hs"
  by (induction hs) (auto simp: put_header_def headers_named_def)

lemma headers_named_puts:
  "\<forall>(k, v) \<in> set kvs. to_lower k \<noteq> name \<Longrightarrow> headers_named name (fold (\<lambda>(k, v). put_header k v) kvs hs) = headers_named name hs"
  by (induction kvs arbitrary: hs) (auto simp: headers_named_put)

lemma headers_named_new: "headers_named (to_lower k) hs = [] \<Longrightarrow> headers_named (to_lower k) (put_header k v hs) = [(k, v)]"
  by (induction hs) (auto simp: put_header_def headers_named_def split: if_splits)

text \<open>
  C26. On the native path exactly one header carries the pool's authentication name, in whatever case it is
  spelt, and it is the gateway's: no configured header and no caller header can stand beside the credential.
\<close>

theorem native_credential_stands_alone:
  assumes "trim (nr_authHeader route) \<noteq> []"
    and "to_lower (trim (nr_authHeader route)) \<notin> {''anthropic-version'', ''anthropic-beta'', ''content-type''}"
  shows "headers_named (to_lower (trim (nr_authHeader route))) (fst (nativeHeaders parse caller route policy))
    = [(trim (nr_authHeader route), authHeaderValue (nr_authPrefix route) (nr_decryptedKey route))]"
proof -
  let ?n = "to_lower (trim (nr_authHeader route))"
  have lower: "to_lower ''anthropic-version'' \<noteq> ?n" "to_lower ''anthropic-beta'' \<noteq> ?n" "to_lower ''Content-Type'' \<noteq> ?n"
  proof -
    have "to_lower ''anthropic-version'' = ''anthropic-version''" "to_lower ''anthropic-beta'' = ''anthropic-beta''"
      "to_lower ''Content-Type'' = ''content-type''" by code_simp+
    then show "to_lower ''anthropic-version'' \<noteq> ?n" "to_lower ''anthropic-beta'' \<noteq> ?n" "to_lower ''Content-Type'' \<noteq> ?n"
      using assms(2) by auto
  qed
  let ?c = "parseExtraHeaders parse (nr_extraHeaders route)"
  let ?kept = "filter (\<lambda>(k, _). to_lower k \<notin> set (NATIVE_HEADERS @ [''content-type'', ?n])) ?c"
  obtain betas stripped where b: "nativeBetas (map_option snd (find (\<lambda>(k, _). to_lower k = ''anthropic-beta'') ?c))
      (map_of caller ''anthropic-beta'') policy = (betas, stripped)" by (rule prod.exhaust)
  let ?bs = "case betas of Some v \<Rightarrow> if v \<noteq> [] then [(''anthropic-beta'', v)] else [] | None \<Rightarrow> []"
  have "headers_named ?n ?kept = []" by (auto simp: headers_named_def filter_empty_conv)
  moreover have "to_lower k \<noteq> ?n" if "(k, v) \<in> set ?bs" for k v
    using that lower by (auto split: option.splits if_splits)
  ultimately have "headers_named ?n (put_header ''Content-Type'' ct (fold (\<lambda>(k, v). put_header k v) ?bs
      (put_header ''anthropic-version'' ver ?kept))) = []" for ct ver
    using lower by (simp add: headers_named_put headers_named_puts case_prod_beta)
  then show ?thesis
    unfolding nativeHeaders_def Let_def b providerAuthHeader_def using assms(1)
    by (simp add: headers_named_new)
qed

theorem native_credential_stands_alone_witness:
  "headers_named ''x-api-key'' (fst (nativeHeaders (\<lambda>_. None) [(''x-api-key'', ''mine'')] native_route NATIVE_DEFAULTS)) = [(''x-api-key'', ''sk'')]"
proof -
  have h: "trim (nr_authHeader native_route) \<noteq> []"
    "to_lower (trim (nr_authHeader native_route)) \<notin> {''anthropic-version'', ''anthropic-beta'', ''content-type''}"
    and n: "trim (nr_authHeader native_route) = ''x-api-key''"
      "authHeaderValue (nr_authPrefix native_route) (nr_decryptedKey native_route) = ''sk''" by code_simp+
  have low: "to_lower ''x-api-key'' = ''x-api-key''" by code_simp
  show ?thesis
    using native_credential_stands_alone [OF h, of "\<lambda>_. None" "[(''x-api-key'', ''mine'')]" NATIVE_DEFAULTS]
    unfolding n low .
qed

text \<open>
  On the translated path the merge compares names as they are spelt, so a configured header whose name differs
  from the credential's only in case is sent beside it.
\<close>

lemma configured_header_beside_credential:
  "headers_named ''authorization'' (withExtraHeaders (\<lambda>_. Some (JObj [(''authorization'', JStr ''Bearer other'')])) (Some ''{}'')
     ((''Content-Type'', ''application/json'') # providerAuthHeader ''Authorization'' None ''sk''))
   = [(''authorization'', ''Bearer other''), (''Authorization'', ''Bearer sk'')]"
  by code_simp

end
