(* ===== verification/Proxy.thy ===== *)
theory Proxy
  imports Anthropic_Native
begin

text \<open>
  The proxy stage by stage: \<open>src/services/completionsProxy.service.ts\<close> and the stages of
  \<open>src/services/proxy/\<close>. A stage answers the caller (\<open>Inl\<close>) or hands its value to the next (\<open>Inr\<close>), as
  \<open>answered\<close> and \<open>proceed\<close> do; an exception is the error of the run. What the provider does with a call is an
  argument: no answer, a refusal, or a success whose body and stream arrive as given. Traces, metrics and
  operator alerts are output and left out.
\<close>

subsection \<open>Answers\<close>

datatype reply_body = ErrorText string | BlockedBy "string list" | UnknownModel string "string list" | ByokNeeded string
  | OverBudget rat rat int | NoCapacity string int | UrlRefused url_error | ProviderText string | Completion json

datatype answer = Reply int "(string \<times> string) list" reply_body | EventStream "(string \<times> string) list" string

type_synonym 'a stage = "(answer + 'a) px"

text \<open>\<open>persist\<close> is true unless said otherwise.\<close>

abbreviation observed :: "'rx px_env \<Rightarrow> px_request \<Rightarrow> nexus_route option \<Rightarrow> int \<Rightarrow> outcome \<Rightarrow> unit px" where
  "observed E rq route t x \<equiv> observe E rq route t x True"

definition answered :: "answer \<Rightarrow> 'a stage" where "answered a = return_m (Inl a)"
definition proceed :: "'a \<Rightarrow> 'a stage" where "proceed x = return_m (Inr x)"

definition next_stage :: "'a stage \<Rightarrow> ('a \<Rightarrow> answer px) \<Rightarrow> answer px" where
  "next_stage s f = bind_m s (\<lambda>r. case r of Inl a \<Rightarrow> return_m a | Inr x \<Rightarrow> f x)"

subsection \<open>Admission\<close>

definition strategy_weight :: "strategy \<Rightarrow> rat" where
  "strategy_weight s = (case s of Fastest \<Rightarrow> 0 | Balanced \<Rightarrow> 1/2 | Cheapest \<Rightarrow> 1)"

record admission =
  ad_scope :: routing_scope
  ad_pinnedModelId :: "string option"
  ad_strategyWeight :: rat
  ad_overBudgetDowngrade :: bool

definition resolveRequestScope :: "team_context option \<Rightarrow> db_key list \<Rightarrow> routing_scope" where
  "resolveRequestScope team rows = (case team of None \<Rightarrow> resolveScope None 0
     | Some t \<Rightarrow> resolveScope (Some (scope_team.truncate t))
         (if st_byokOnly t then 0 else int (countOwnedUsable (st_id t) rows)))"

definition unknownModelError :: "string \<Rightarrow> string list \<Rightarrow> reply_body" where
  "unknownModelError requested available = UnknownModel
     (''Unknown model \"'' @ requested @ ''\". Send \"'' @ AUTO_MODEL_ID @ ''\" to let Alayra Nexus route for you, or one of the models this gateway serves'')
     available"

definition budget_gate :: "'rx px_env \<Rightarrow> px_request \<Rightarrow> bool stage" where
  "budget_gate E rq = (case rq_team rq of None \<Rightarrow> proceed False
     | Some team \<Rightarrow> (case tc_budgetUsd team of None \<Rightarrow> proceed False
       | Some cap \<Rightarrow>
           bind_m (on_gw (on_kv (checkTeamBudget (pe_arrived E) (st_id team) (Some cap) (tc_budgetPeriod team)
             (option_or (tc_overBudgetAction team) Block) (pe_arrived E) (pe_spendSince E)))) (\<lambda>b.
           if \<not> allowed b then
             then_m (observed E rq None (pe_arrived E) Budget_blocked)
               (answered (Reply 429 [(''Retry-After'', int_string (retryAfterSeconds b))]
                  (OverBudget (spendUsd b) cap (retryAfterSeconds b))))
           else proceed (downgrade b))))"

definition admitRequest :: "'rx px_env \<Rightarrow> px_request \<Rightarrow> admission stage" where
  "admitRequest E rq =
     bind_m (\<lambda>w. (Inr (resolveRequestScope (rq_team rq) (g_rows (w_gw w))), w)) (\<lambda>scope.
     case resolveRequestedModel (pe_catalog E) (jstring (jget ''model'' (Some (rq_body rq)))) ''chat'' (Some scope) of
       ResUnknown requested available \<Rightarrow>
         (case byokKeyRequired (pe_catalog E) scope ''chat'' (AskUnknown requested) of
            Some needsKey \<Rightarrow> then_m (observed E rq None (pe_arrived E) Client_error) (answered (Reply 403 [] (ByokNeeded needsKey)))
          | None \<Rightarrow> then_m (observed E rq None (pe_arrived E) Client_error)
              (answered (Reply 400 [] (unknownModelError requested available))))
     | resolved \<Rightarrow>
         bind_m (budget_gate E rq) (\<lambda>g. case g of Inl a \<Rightarrow> answered a
           | Inr downgraded \<Rightarrow> proceed
               \<lparr>ad_scope = scope, ad_pinnedModelId = (case resolved of ResPinned m \<Rightarrow> Some (m_id m) | _ \<Rightarrow> None),
                ad_strategyWeight = strategy_weight (option_or (rq_strategy rq) Fastest), ad_overBudgetDowngrade = downgraded\<rparr>))"

subsection \<open>Input guardrails\<close>

definition guardrails_on :: "'rx px_env \<Rightarrow> bool" where
  "guardrails_on E \<longleftrightarrow> gc_enabled (pe_guard E) \<and> gc_compiled (pe_guard E) \<noteq> []"

definition guardInput :: "'rx px_env \<Rightarrow> px_request \<Rightarrow> json list \<Rightarrow> bool \<Rightarrow> guarded stage" where
  "guardInput E rq messages isStream =
     (let active = guardrails_on E; rules = gc_compiled (pe_guard E);
          verdict = (if active then evaluateMessages (pe_engine E) messages rules
            else \<lparr>mv_decision = Allowed, mv_messages = messages, mv_matched = []\<rparr>);
          filtering = (active \<and> hasOutputRules rules);
          skipped = (isStream \<and> filtering \<and> \<not> gc_bufferedSafe (pe_guard E))
      in if mv_decision verdict = Blocked then
           then_m (observed E rq None (pe_arrived E) Blocked_by_rule) (answered (Reply 400 [] (BlockedBy (mv_matched verdict))))
         else proceed
           \<lparr>gd_headers = (if active then [(''X-Nexus-Guardrails'', ''on'')] else [])
               @ (if mv_decision verdict = Redacted then [(''X-Nexus-Guardrails-Input'', ''redacted:'' @ join_with '','' (mv_matched verdict))] else [])
               @ (if skipped then [(''X-Nexus-Guardrails-Output'', ''skipped-streaming'')] else []),
            gd_effective = mv_messages verdict, gd_redacted = (mv_decision verdict = Redacted),
            gd_outputFiltering = filtering, gd_bufferStream = (isStream \<and> filtering \<and> gc_bufferedSafe (pe_guard E))\<rparr>)"

subsection \<open>The response cache\<close>

record cache_miss =
  cm_cfg :: cache_config
  cm_storeKey :: "string option"

definition count_of :: "rat \<Rightarrow> int" where "count_of x = \<lfloor>x\<rfloor>"

definition hit_usage :: "'rx px_env \<Rightarrow> cached_completion \<Rightarrow> usage_params" where
  "hit_usage E hit = \<lparr>up_sessionId = ''cache-'' @ int_string (pe_routed E), up_modelId = cc_model hit, up_modelName = cc_model hit,
     up_provider = cc_provider hit, up_input = count_of (cc_promptTokens hit), up_output = count_of (cc_completionTokens hit),
     up_cached = True, up_outcome = Success, up_at = pe_routed E, up_detail = None, up_tools = None\<rparr>"

definition lookUpResponseCache :: "'rx px_env \<Rightarrow> px_request \<Rightarrow> routing_scope \<Rightarrow> string option \<Rightarrow> bool \<Rightarrow> cache_miss stage" where
  "lookUpResponseCache E rq scope pinnedModelId isStream =
     (let cfg = pe_cache E in
      if map_of (rq_headers rq) ''x-nexus-cache-bypass'' \<noteq> Some (JStr ''1'') \<and> cg_enabled cfg \<and> isCacheable (rq_body rq) then
        let key = (case rq_messagesBody rq of
              Some raw \<Rightarrow> messagesCacheKey (pe_digest E) raw (rs_namespace scope) pinnedModelId
            | None \<Rightarrow> responseCacheKey (pe_digest E) (rq_body rq) (rs_namespace scope) pinnedModelId)
        in bind_m (on_gw (on_kv (getCached (pe_readEntry E) (pe_routed E) key))) (\<lambda>found. case found of
             Some hit \<Rightarrow>
               let completion = toCompletionJson hit;
                   headers = [(''X-Nexus-Model'', cc_model hit), (''X-Nexus-Provider'', cc_provider hit), (''X-Nexus-Cache'', ''hit'')]
               in then_m (observed E rq None (pe_routed E) Success)
                  (then_m (recordTokenUsage E rq (hit_usage E hit))
                    (answered (if isStream then EventStream headers (toSingleSseChunk (pe_stringify E) (pe_routed E) completion)
                       else Reply 200 headers (Completion completion))))
           | None \<Rightarrow> proceed \<lparr>cm_cfg = cfg, cm_storeKey = Some key\<rparr>)
      else proceed \<lparr>cm_cfg = cfg, cm_storeKey = None\<rparr>)"

subsection \<open>Dispatch\<close>

text \<open>The body of a good answer: a document, or a read that failed, with whether the caller had left by then.\<close>

datatype body_read = ReadOk json | ReadFailed bool

datatype cut_reason = CutIdle | CutDuration | CutClient

text \<open>
  A chunk of a live stream: its bytes, the text the decoder gave for it, the guard that had fired by the time
  it was written, if one had, and whether the caller was gone after the write.
\<close>

record stream_chunk =
  sc_raw :: string
  sc_text :: string
  sc_cut :: "cut_reason option"
  sc_gone :: bool

text \<open>How the reading ended (\<open>EndThrew\<close> with the guard that cut it, or none for an error of the stream itself).\<close>

datatype stream_end = EndDone | EndThrew "cut_reason option"

record stream_input =
  si_chunks :: "stream_chunk list"
  si_end :: stream_end
  si_departed :: bool
  si_flush :: string

datatype upstream_answer =
    NoAnswer bool bool
  | BadAnswer int string "string \<Rightarrow> string option"
  | GoodAnswer "string \<Rightarrow> string option" body_read "stream_input option"

record dispatched =
  ds_route :: nexus_route
  ds_headers :: "string \<Rightarrow> string option"
  ds_body :: body_read
  ds_stream :: "stream_input option"
  ds_session :: "string option"
  ds_reserve :: rat
  ds_sessionId :: string
  ds_native :: bool
  ds_stripped :: "string list"

definition refundReservation :: "'rx px_env \<Rightarrow> string \<Rightarrow> rat \<Rightarrow> unit px" where
  "refundReservation E keyId reserve = quietly (on_kv (reconcileTpm (pe_tpm E) (pe_done E) keyId reserve (Some 0) (pe_done E)))"

definition withProviderStreamUsage :: "json \<Rightarrow> string \<Rightarrow> bool \<Rightarrow> json" where
  "withProviderStreamUsage body slug streamingUpstream =
     (if \<not> streamingUpstream \<or> \<not> supportsStreamUsageOption slug then body
      else set_field ''stream_options''
        (set_field ''include_usage'' (JBool True) (JObj (option_or (jobject (jget ''stream_options'' (Some body))) []))) body)"

definition reserved_tokens :: "reservation \<Rightarrow> rat" where
  "reserved_tokens r = (case r of Fixed n \<Rightarrow> n | Planned p \<Rightarrow> t_tokens p)"

definition discovery_of :: "'rx px_env \<Rightarrow> px_request \<Rightarrow> admission \<Rightarrow> guarded \<Rightarrow> discovery_request" where
  "discovery_of E rq ad gd =
     \<lparr>q_reserve = Planned (planReserve (pe_estimate E) (of_int (pe_countMessages E (gd_effective gd)))
          (of_int (estimateMessageTokens (gd_effective gd))) (jnumber (jget ''max_tokens'' (Some (rq_body rq)))) (pe_defaultMaxTokens E)),
      q_sessionKey = sessionHash (pe_hash E) (rq_body rq) (rq_headers rq), q_scope = ad_scope ad, q_capability = ''chat'',
      q_userId = jstring (jget ''user'' (Some (rq_body rq))),
      q_preferredTier = (if ad_overBudgetDowngrade ad then Some ''fast''
        else case rq_team rq of Some t \<Rightarrow> tc_assignedTier t | None \<Rightarrow> None),
      q_pinnedModelId = ad_pinnedModelId ad\<rparr>"

definition routing_of :: "'rx px_env \<Rightarrow> admission \<Rightarrow> routing_facts" where
  "routing_of E ad = (if truthy (ad_pinnedModelId ad) then pe_routing E else (pe_routing E)\<lparr>f_costWeight := ad_strategyWeight ad\<rparr>)"

definition no_route :: "'rx px_env \<Rightarrow> px_request \<Rightarrow> admission \<Rightarrow> dispatched stage" where
  "no_route E rq ad =
     (case byokKeyRequired (pe_catalog E) (ad_scope ad) ''chat'' (AskNoRoute (ad_pinnedModelId ad)) of
        Some needsKey \<Rightarrow> then_m (observed E rq None (pe_routed E) Client_error) (answered (Reply 403 [] (ByokNeeded needsKey)))
      | None \<Rightarrow> then_m (observed E rq None (pe_routed E) No_capacity)
          (bind_m (\<lambda>w. (Inr (getNextCooldownSeconds (pe_routed E) (g_rows (w_gw w))), w)) (\<lambda>retryAfter.
             answered (Reply 503 [(''Retry-After'', int_string retryAfter)]
               (NoCapacity (noCapacityMessage (pe_catalog E) (isIsolated (ad_scope ad)) (ad_pinnedModelId ad) retryAfter) retryAfter)))))"

definition upstream_request :: "'rx px_env \<Rightarrow> px_request \<Rightarrow> guarded \<Rightarrow> bool \<Rightarrow> nexus_route \<Rightarrow> native_request option \<Rightarrow> upstream_call" where
  "upstream_request E rq gd isStream route native = (case native of
       Some n \<Rightarrow> \<lparr>uc_url = nq_url n, uc_route = route, uc_headers = nq_headers n, uc_body = JObj (nq_body n)\<rparr>
     | None \<Rightarrow>
         \<lparr>uc_url = stripTrailingSlash (nr_baseUrl route) @ ''/chat/completions'', uc_route = route,
          uc_headers = withExtraHeaders (pe_parse E) (nr_extraHeaders route)
            ((''Content-Type'', ''application/json'') # providerAuthHeader (nr_authHeader route) (nr_authPrefix route) (nr_decryptedKey route)),
          uc_body = withProviderStreamUsage
            ((if gd_bufferStream gd then set_field ''stream'' (JBool False) else id)
               (set_field ''model'' (JStr (nr_modelString route)) (set_field ''messages'' (JArr (gd_effective gd)) (rq_body rq))))
            (nr_providerSlug route) (isStream \<and> \<not> gd_bufferStream gd)\<rparr>)"

definition failure_report :: "'rx px_env \<Rightarrow> nexus_route \<Rightarrow> failure_kind \<Rightarrow> unit gw" where
  "failure_report E route kind = (case kind of
       RateLimited \<Rightarrow> reportRateLimit (pe_done E) (nr_keyId route) RATE_LIMIT_COOLDOWN_SECONDS
     | AuthFailed \<Rightarrow> reportAuthFailure (pe_done E) (nr_keyId route)
     | ServerFailed \<Rightarrow> reportServerFailure (pe_done E) (nr_keyId route) (nr_isProbe route)
     | ClientFault \<Rightarrow> return_m ())"

definition answerUpstreamFailure :: "'rx px_env \<Rightarrow> px_request \<Rightarrow> nexus_route \<Rightarrow> rat \<Rightarrow> native_request option \<Rightarrow> int \<Rightarrow> string
    \<Rightarrow> (string \<Rightarrow> string option) \<Rightarrow> answer px" where
  "answerUpstreamFailure E rq route reserve native status errText hdr =
     (let kind = classifyFailure (pe_parse E) status errText (native \<noteq> None) in
      then_m (on_gw (failure_report E route kind))
      (then_m (refundReservation E (nr_keyId route) reserve)
      (then_m (observed E rq (Some route) (pe_done E) (if kind = ClientFault then Client_error else Upstream_error))
        (return_m (Reply status
           (case native of Some n \<Rightarrow> nativeAnswerHeaders hdr (strippedHeader (nq_stripped n)) | None \<Rightarrow> [])
           (ProviderText (callerErrorBody (pe_parse E) (pe_stringify E) status errText
              (truthy (rq_teamKeyId rq) \<and> \<not> nr_byok route))))))))"

definition no_answer :: "'rx px_env \<Rightarrow> px_request \<Rightarrow> nexus_route \<Rightarrow> rat \<Rightarrow> bool \<Rightarrow> bool \<Rightarrow> answer px" where
  "no_answer E rq route reserve aborted gone =
     then_m (refundReservation E (nr_keyId route) reserve)
       (if gone then then_m (observed E rq (Some route) (pe_done E) Client_cancelled)
          (return_m (Reply 499 [] (ErrorText ''The client closed the request.'')))
        else then_m (on_gw (reportServerFailure (pe_done E) (nr_keyId route) (nr_isProbe route)))
          (then_m (observed E rq (Some route) (pe_done E) Upstream_error)
          (return_m (Reply 504 [] (ErrorText
             (if aborted then ''Upstream timed out before responding.'' else ''Upstream connection failed.''))))))"

definition send :: "'rx px_env \<Rightarrow> (upstream_call \<Rightarrow> upstream_answer) \<Rightarrow> px_request \<Rightarrow> guarded \<Rightarrow> bool \<Rightarrow> nexus_route \<Rightarrow> rat
    \<Rightarrow> string option \<Rightarrow> dispatched stage" where
  "send E U rq gd isStream route reserve session =
     (let native = planNative (pe_parse E) (pe_modelRegistry E)
            (map_option (\<lambda>b. (b, pickNativeHeaders (rq_headers rq))) (rq_messagesBody rq)) route gd (guardrails_on E);
          call = upstream_request E rq gd isStream route native
      in then_m (log_call call) (case U call of
           NoAnswer aborted gone \<Rightarrow> bind_m (no_answer E rq route reserve aborted gone) answered
         | BadAnswer status txt hdr \<Rightarrow> bind_m (answerUpstreamFailure E rq route reserve native status txt hdr) answered
         | GoodAnswer hdr body stream \<Rightarrow> proceed
             \<lparr>ds_route = route, ds_headers = hdr, ds_body = body, ds_stream = stream, ds_session = session, ds_reserve = reserve,
              ds_sessionId = ''proxy-'' @ int_string (pe_routed E), ds_native = (native \<noteq> None),
              ds_stripped = (case native of Some n \<Rightarrow> nq_stripped n | None \<Rightarrow> [])\<rparr>))"

definition dispatchUpstream :: "'rx px_env \<Rightarrow> (upstream_call \<Rightarrow> upstream_answer) \<Rightarrow> px_request \<Rightarrow> admission \<Rightarrow> guarded \<Rightarrow> bool
    \<Rightarrow> dispatched stage" where
  "dispatchUpstream E U rq ad gd isStream =
     bind_m (on_gw (discoverBestPool (pe_gw E) (pe_routed E) (routing_of E ad) (discovery_of E rq ad gd))) (\<lambda>(found, reservation).
       case found of None \<Rightarrow> no_route E rq ad
       | Some route \<Rightarrow>
           let reserve = reserved_tokens reservation in
           case assertSafeUrl (pe_url E (stripTrailingSlash (nr_baseUrl route))) (pe_policy E) of
             Inl err \<Rightarrow> then_m (refundReservation E (nr_keyId route) reserve)
               (then_m (observed E rq (Some route) (pe_routed E) Ssrf_blocked) (answered (Reply 502 [] (UrlRefused err))))
           | Inr _ \<Rightarrow> send E U rq gd isStream route reserve (q_sessionKey (discovery_of E rq ad gd)))"

subsection \<open>Delivery\<close>

definition gatewayHeaders :: "dispatched \<Rightarrow> guarded \<Rightarrow> cache_miss \<Rightarrow> (string \<times> string) list" where
  "gatewayHeaders ds gd cm = fold (\<lambda>(k, v). put_header k v)
     ([(''X-Nexus-Model'', nr_modelString (ds_route ds)), (''X-Nexus-Provider'', nr_providerSlug (ds_route ds)),
       (''X-Nexus-Tier'', nr_tier (ds_route ds))]
      @ (if nr_wasDowngrade (ds_route ds) then [(''X-Nexus-Tier-Downgrade'', ''true'')] else [])
      @ (if nr_sticky (ds_route ds) then [(''X-Nexus-Sticky'', ''true'')] else [])
      @ (if nr_byok (ds_route ds) then [(''X-Nexus-BYOK'', ''true'')] else [])
      @ (if ds_native ds then nativeAnswerHeaders (ds_headers ds) (strippedHeader (ds_stripped ds)) else [])
      @ (if truthy (cm_storeKey cm) then [(''X-Nexus-Cache'', ''miss'')] else [])
      @ gd_headers gd) []"

record delivery =
  dl_dispatched :: dispatched
  dl_guarded :: guarded
  dl_cache :: cache_miss
  dl_headers :: "(string \<times> string) list"

definition markHealthy :: "'rx px_env \<Rightarrow> dispatched \<Rightarrow> unit px" where
  "markHealthy E ds = then_m (quietly (reportSuccess (pe_done E) (nr_keyId (ds_route ds)) (nr_isProbe (ds_route ds))))
     (if truthy (ds_session ds)
      then quietly (on_kv (setStickyKeyId (pe_done E) (option_or (ds_session ds) []) (nr_keyId (ds_route ds))))
      else return_m ())"

definition tpmTokens :: "bool \<Rightarrow> int \<Rightarrow> int \<Rightarrow> int option \<Rightarrow> int" where
  "tpmTokens native inp out cacheReads = (if native then max 0 (inp - option_or cacheReads 0) else inp) + out"

definition settle_tpm :: "'rx px_env \<Rightarrow> dispatched \<Rightarrow> int \<Rightarrow> int \<Rightarrow> usage_detail \<Rightarrow> unit px" where
  "settle_tpm E ds inp out detail = quietly (on_kv (reconcileTpm (pe_tpm E) (pe_done E) (nr_keyId (ds_route ds)) (ds_reserve ds)
     (Some (of_int (tpmTokens (ds_native ds) inp out (cachedInputTokens detail)))) (pe_done E)))"

definition store_entry :: "'rx px_env \<Rightarrow> cache_miss \<Rightarrow> cached_completion option \<Rightarrow> unit px" where
  "store_entry E cm entry = (if \<not> truthy (cm_storeKey cm) then return_m () else case entry of None \<Rightarrow> return_m ()
     | Some e \<Rightarrow> quietly (on_kv (setCached (pe_writeEntry E) (pe_done E) (option_or (cm_storeKey cm) []) e
         (of_int (cg_ttlSeconds (cm_cfg cm))))))"

text \<open>\<open>None\<close> for a body that could not be read: the reservation is given back and the failure recorded.\<close>

definition readJsonBody :: "'rx px_env \<Rightarrow> px_request \<Rightarrow> delivery \<Rightarrow> json option px" where
  "readJsonBody E rq d = (case ds_body (dl_dispatched d) of
       ReadOk data \<Rightarrow> return_m (Some data)
     | ReadFailed cancelled \<Rightarrow>
         then_m (refundReservation E (nr_keyId (ds_route (dl_dispatched d))) (ds_reserve (dl_dispatched d)))
         (then_m (observed E rq (Some (ds_route (dl_dispatched d))) (pe_done E) (if cancelled then Client_cancelled else Upstream_error))
           (return_m None)))"

definition reported_tokens :: "bool \<Rightarrow> json \<Rightarrow> int option \<times> int option" where
  "reported_tokens native data = (let u = jget ''usage'' (Some data) in
     if native then (at_input (readAnthropicTokens u), at_output (readAnthropicTokens u))
     else (map_option count_of (jnumber (jget ''prompt_tokens'' u)), map_option count_of (jnumber (jget ''completion_tokens'' u))))"

definition settleJson :: "'rx px_env \<Rightarrow> px_request \<Rightarrow> delivery \<Rightarrow> json \<Rightarrow> unit px" where
  "settleJson E rq d data =
     (let ds = dl_dispatched d; route = ds_route ds; reported = reported_tokens (ds_native ds) data;
          inp = option_or (fst reported) (pe_countMessages E (gd_effective (dl_guarded d)));
          out = option_or (snd reported) 1;
          detail = readUsageDetail (nullish_or (jget ''usage'' (Some data)) (jget ''usageMetadata'' (Some data)));
          tools = (if ds_native ds then readServerToolUse (jget ''usage'' (Some data)) else None)
      in then_m (observed E rq (Some route) (pe_done E) Success)
         (then_m (store_entry E (dl_cache d) (buildFromCompletion (pe_done E) data (nr_providerSlug route)))
         (then_m (settle_tpm E ds inp out detail)
           (recordTokenUsage E rq (routeUsage E route (ds_sessionId ds) inp out Success detail tools)))))"

definition body_failed :: answer where
  "body_failed = Reply 504 [] (ErrorText ''Upstream response timed out or was malformed.'')"

definition deliverBuffered :: "'rx px_env \<Rightarrow> px_request \<Rightarrow> delivery \<Rightarrow> answer px" where
  "deliverBuffered E rq d = bind_m (readJsonBody E rq d) (\<lambda>data.
     if \<not> jtruthy data then return_m body_failed
     else case applyOutputGuardrails (pe_engine E) (the data) (gc_compiled (pe_guard E)) of (filtered, matched) \<Rightarrow>
       then_m (markHealthy E (dl_dispatched d))
       (then_m (settleJson E rq d filtered)
         (return_m (EventStream
           (put_header ''X-Nexus-Guardrails-Output''
              (if matched \<noteq> [] then ''buffered:'' @ join_with '','' matched else ''buffered'') (dl_headers d))
           (toSingleSseChunk (pe_stringify E) (pe_done E) filtered)))))"

definition deliverJson :: "'rx px_env \<Rightarrow> px_request \<Rightarrow> delivery \<Rightarrow> answer px" where
  "deliverJson E rq d = bind_m (readJsonBody E rq d) (\<lambda>data.
     if \<not> jtruthy data then return_m body_failed
     else case (if gd_outputFiltering (dl_guarded d)
            then applyOutputGuardrails (pe_engine E) (the data) (gc_compiled (pe_guard E)) else (the data, [])) of (filtered, matched) \<Rightarrow>
       then_m (markHealthy E (dl_dispatched d))
       (then_m (settleJson E rq d filtered)
         (return_m (Reply 200
           (if matched \<noteq> [] then put_header ''X-Nexus-Guardrails-Output'' (''applied:'' @ join_with '','' matched) (dl_headers d)
            else dl_headers d) (Completion filtered)))))"

subsection \<open>The live stream\<close>

record relay =
  rl_tally :: stream_tally
  rl_tail :: string
  rl_written :: string
  rl_cut :: "cut_reason option"
  rl_failed :: bool

text \<open>\<open>cutShort ??= reason\<close>.\<close>

definition first_cut :: "cut_reason option \<Rightarrow> cut_reason option \<Rightarrow> cut_reason option" where
  "first_cut old new = (case old of None \<Rightarrow> new | Some _ \<Rightarrow> old)"

fun relay_chunks :: "(string \<Rightarrow> json option) \<Rightarrow> stream_format \<Rightarrow> stream_end \<Rightarrow> stream_chunk list \<Rightarrow> relay \<Rightarrow> relay" where
  "relay_chunks parse fmt ending [] r = (case ending of EndDone \<Rightarrow> r
     | EndThrew c \<Rightarrow> r\<lparr>rl_failed := True, rl_cut := first_cut (rl_cut r) c\<rparr>)"
| "relay_chunks parse fmt ending (c # cs) r = (case tally_push parse fmt (sc_text c) (rl_tally r) of
       (Inl _, t) \<Rightarrow> r\<lparr>rl_tally := t, rl_failed := True\<rparr>
     | (Inr _, t) \<Rightarrow>
         let r1 = r\<lparr>rl_tally := t, rl_tail := boundary_push (rl_tail r) (sc_raw c), rl_written := rl_written r @ sc_raw c,
                    rl_cut := first_cut (rl_cut r) (sc_cut c)\<rparr>
         in if sc_gone c then r1\<lparr>rl_cut := first_cut (rl_cut r1) (Some CutClient)\<rparr>
            else relay_chunks parse fmt ending cs r1)"

definition relay_stream :: "(string \<Rightarrow> json option) \<Rightarrow> stream_format \<Rightarrow> stream_input \<Rightarrow> relay" where
  "relay_stream parse fmt input =
     (let r = relay_chunks parse fmt (si_end input) (si_chunks input)
            \<lparr>rl_tally = createStreamTally, rl_tail = [], rl_written = [], rl_cut = None, rl_failed = False\<rparr>
      in if si_departed input then r\<lparr>rl_cut := first_cut (rl_cut r) (Some CutClient)\<rparr> else r)"

definition cut_message :: "'rx px_env \<Rightarrow> cut_reason \<Rightarrow> string" where
  "cut_message E reason = (if reason = CutIdle
     then ''The provider sent nothing for '' @ int_string (math_round (of_int (pe_idleMs E) / 1000)) @ ''s, so this answer is incomplete.''
     else ''This answer passed the '' @ int_string (math_round (of_int (pe_maxMs E) / 60000)) @ ''-minute limit for one request and is incomplete.'')"

definition cutFrame :: "'rx px_env \<Rightarrow> cut_reason \<Rightarrow> stream_format \<Rightarrow> string" where
  "cutFrame E reason fmt = (case fmt of
       AnthropicStream \<Rightarrow> ''event: error'' @ [newline] @ sse_data (pe_stringify E (JObj [(''type'', JStr ''error''),
         (''error'', JObj [(''type'', JStr ''api_error''), (''message'', JStr (cut_message E reason))])]))
     | OpenAiStream \<Rightarrow> sse_data (pe_stringify E (JObj [(''error'', JObj [(''message'', JStr (cut_message E reason)),
         (''type'', JStr ''upstream_timeout''), (''code'', JStr (if reason = CutIdle then ''stream_idle'' else ''stream_duration''))])])))"

definition stream_outcome :: "relay \<Rightarrow> outcome" where
  "stream_outcome r = (if rl_cut r = Some CutClient then Client_cancelled
     else if rl_failed r \<or> sl_failed (rl_tally r) then Upstream_error else Success)"

definition closing_frame :: "'rx px_env \<Rightarrow> stream_format \<Rightarrow> relay \<Rightarrow> string" where
  "closing_frame E fmt r = (case rl_cut r of None \<Rightarrow> []
     | Some c \<Rightarrow> if c \<noteq> CutClient \<and> boundary_closed (rl_tail r) then cutFrame E c fmt else [])"

definition settle_stream :: "'rx px_env \<Rightarrow> px_request \<Rightarrow> delivery \<Rightarrow> relay \<Rightarrow> unit px" where
  "settle_stream E rq d r =
     (let ds = dl_dispatched d; route = ds_route ds; x = stream_outcome r; t = rl_tally r;
          report = (if x = Upstream_error then quietly (reportServerFailure (pe_done E) (nr_keyId route) (nr_isProbe route))
            else markHealthy E ds);
          inp = (case sl_usage t of Some (n, _) \<Rightarrow> count_of n | None \<Rightarrow> pe_countMessages E (gd_effective (dl_guarded d)));
          out = (case sl_usage t of Some (_, Some n) \<Rightarrow> count_of n | _ \<Rightarrow> max 1 (pe_countText E (sl_content t)));
          entry = (if x = Success \<and> \<not> sl_dropped t \<and> sl_content t \<noteq> []
            then Some (buildFromStreamContent (pe_done E) (sl_content t) (nr_modelString route) (nr_providerSlug route) (of_int inp) (of_int out))
            else None)
      in then_m report
         (then_m (observe E rq (Some route) (pe_done E) x False)
         (then_m (store_entry E (dl_cache d) entry)
         (then_m (settle_tpm E ds inp out (sl_detail t))
           (recordTokenUsage E rq (routeUsage E route (ds_sessionId ds) inp out x (sl_detail t) (p_serverToolUse (sl_parts t))))))))"

definition deliverStream :: "'rx px_env \<Rightarrow> px_request \<Rightarrow> delivery \<Rightarrow> stream_input \<Rightarrow> answer px" where
  "deliverStream E rq d input =
     (let fmt = (if ds_native (dl_dispatched d) then AnthropicStream else OpenAiStream);
          r = relay_stream (pe_parse E) fmt input
      in case tally_end (pe_parse E) fmt (si_flush input) (rl_tally r) of
           (Inl _, _) \<Rightarrow> throw_m ReaderThrew
         | (Inr _, t) \<Rightarrow> let r1 = r\<lparr>rl_tally := t\<rparr> in
             then_m (settle_stream E rq d r1)
               (return_m (EventStream (dl_headers d) (rl_written r @ closing_frame E fmt r1))))"

subsection \<open>The request\<close>

text \<open>An answer relayed untouched is not stored.\<close>

definition delivery_of :: "guarded \<Rightarrow> cache_miss \<Rightarrow> dispatched \<Rightarrow> delivery" where
  "delivery_of gd cm ds = (let cm' = (if ds_native ds then cm\<lparr>cm_storeKey := None\<rparr> else cm) in
     \<lparr>dl_dispatched = ds, dl_guarded = gd, dl_cache = cm', dl_headers = gatewayHeaders ds gd cm'\<rparr>)"

definition deliver :: "'rx px_env \<Rightarrow> px_request \<Rightarrow> bool \<Rightarrow> delivery \<Rightarrow> answer px" where
  "deliver E rq isStream d =
     (if gd_bufferStream (dl_guarded d) then deliverBuffered E rq d
      else case ds_stream (dl_dispatched d) of
        Some input \<Rightarrow> if isStream then deliverStream E rq d input else deliverJson E rq d
      | None \<Rightarrow> deliverJson E rq d)"

definition handleProxy :: "'rx px_env \<Rightarrow> (upstream_call \<Rightarrow> upstream_answer) \<Rightarrow> px_request \<Rightarrow> answer px" where
  "handleProxy E U rq =
     (let messages = body_messages (rq_body rq); isStream = (jget ''stream'' (Some (rq_body rq)) = Some (JBool True)) in
      next_stage (admitRequest E rq) (\<lambda>ad.
      next_stage (guardInput E rq messages isStream) (\<lambda>gd.
      next_stage (lookUpResponseCache E rq (ad_scope ad) (ad_pinnedModelId ad) isStream) (\<lambda>cm.
      next_stage (dispatchUpstream E U rq ad gd isStream) (\<lambda>ds. deliver E rq isStream (delivery_of gd cm ds))))))"

end
