(* ===== verification/Proxy_Spec.thy ===== *)
theory Proxy_Spec
  imports Proxy
begin

text \<open>
  What every proxied request does to the world, whatever its branch: a small calculus of the three logs (outcomes,
  usage rows, provider calls), the stages in it, and the properties of the whole request.
\<close>

section \<open>A calculus of the logs\<close>

text \<open>
  \<open>logs m P\<close>: whenever \<open>m\<close> returns, what it added to the logs is described by \<open>P\<close> with its value.
\<close>

definition logs :: "'a px \<Rightarrow> ('a \<Rightarrow> outcome list \<Rightarrow> usage_row list \<Rightarrow> upstream_call list \<Rightarrow> bool) \<Rightarrow> bool" where
  "logs m P \<longleftrightarrow> (\<forall>w r w'. m w = (Inr r, w') \<longrightarrow> (\<exists>xs rs cs. w_outcomes w' = w_outcomes w @ xs \<and>
     w_rows w' = w_rows w @ rs \<and> w_calls w' = w_calls w @ cs \<and> P r xs rs cs))"

named_theorems logs_intro

lemma logsD: "logs m P \<Longrightarrow> m w = (Inr r, w') \<Longrightarrow> \<exists>xs rs cs. w_outcomes w' = w_outcomes w @ xs \<and>
     w_rows w' = w_rows w @ rs \<and> w_calls w' = w_calls w @ cs \<and> P r xs rs cs"
  by (auto simp: logs_def)

lemma logs_mono: "logs m P \<Longrightarrow> (\<And>r xs rs cs. P r xs rs cs \<Longrightarrow> Q r xs rs cs) \<Longrightarrow> logs m Q"
  unfolding logs_def by meson

lemma logs_return: "P x [] [] [] \<Longrightarrow> logs (return_m x) P"
  by (auto simp: logs_def return_m_def)

lemma logs_throw: "logs (throw_m e) P"
  by (auto simp: logs_def throw_m_def)

lemma logs_bind:
  assumes "logs m P" and "\<And>r xs rs cs. P r xs rs cs \<Longrightarrow> logs (f r) (\<lambda>r' xs' rs' cs'. Q r' (xs @ xs') (rs @ rs') (cs @ cs'))"
  shows "logs (bind_m m f) Q"
  unfolding logs_def
proof (intro allI impI)
  fix w r w'
  assume "bind_m m f w = (Inr r, w')"
  then obtain x w1 where m: "m w = (Inr x, w1)" and f: "f x w1 = (Inr r, w')"
    by (auto simp: bind_m_def split: prod.splits sum.splits)
  from logsD [OF assms(1) m] obtain xs rs cs where 1: "w_outcomes w1 = w_outcomes w @ xs" "w_rows w1 = w_rows w @ rs"
    "w_calls w1 = w_calls w @ cs" "P x xs rs cs" by blast
  from logsD [OF assms(2) [OF 1(4)] f] obtain xs' rs' cs' where "w_outcomes w' = w_outcomes w1 @ xs'" "w_rows w' = w_rows w1 @ rs'"
    "w_calls w' = w_calls w1 @ cs'" "Q r (xs @ xs') (rs @ rs') (cs @ cs')" by blast
  with 1 show "\<exists>xs rs cs. w_outcomes w' = w_outcomes w @ xs \<and> w_rows w' = w_rows w @ rs \<and> w_calls w' = w_calls w @ cs \<and> Q r xs rs cs"
    by (intro exI [of _ "xs @ xs'"] exI [of _ "rs @ rs'"] exI [of _ "cs @ cs'"]) simp
qed

text \<open>A step that leaves the logs alone.\<close>

definition quiet :: "'a px \<Rightarrow> bool" where
  "quiet m \<longleftrightarrow> logs m (\<lambda>_ xs rs cs. xs = [] \<and> rs = [] \<and> cs = [])"

lemma quiet_bind: "quiet m \<Longrightarrow> (\<And>r. logs (f r) Q) \<Longrightarrow> logs (bind_m m f) Q"
  unfolding quiet_def by (erule logs_bind) auto

lemma quiet_then: "quiet m \<Longrightarrow> logs k Q \<Longrightarrow> logs (then_m m k) Q"
  unfolding then_m_def by (rule quiet_bind)

lemma quiet_return [intro]: "quiet (return_m x)"
  by (simp add: quiet_def logs_return)

lemma quiet_read [intro]: "quiet (\<lambda>w. (Inr (f w), w))"
  by (auto simp: quiet_def logs_def)

lemma quiet_on_gw [intro]: "quiet (on_gw m)"
  by (auto simp: quiet_def logs_def on_gw_def split: prod.splits)

lemma quiet_quietly [intro]: "quiet (quietly m)"
  by (auto simp: quiet_def logs_def quietly_def)

lemma quiet_thens [intro]: "quiet m \<Longrightarrow> quiet k \<Longrightarrow> quiet (then_m m k)"
  by (simp add: quiet_def [of "then_m m k"] quiet_then [OF _ iffD1 [OF quiet_def]])

lemma quiet_if [intro]: "quiet m \<Longrightarrow> quiet k \<Longrightarrow> quiet (if b then m else k)"
  by simp

lemmas quiet_steps = quiet_return quiet_read quiet_on_gw quiet_quietly quiet_thens quiet_if

lemma quiet_settling: "quiet (refundReservation E k n)" "quiet (markHealthy E ds)" "quiet (settle_tpm E ds i n' d)"
    "quiet (store_entry E cm e)"
  unfolding refundReservation_def markHealthy_def settle_tpm_def store_entry_def
  by (auto split: option.split)

subsection \<open>The recording seams\<close>

definition one_row :: "outcome \<Rightarrow> usage_row list \<Rightarrow> bool" where
  "one_row x rs \<longleftrightarrow> (\<exists>r. rs = [r] \<and> ue_outcome r = x)"

lemma logs_observed: "logs (observed E rq route t x) (\<lambda>_ xs rs cs. xs = [x] \<and> cs = [] \<and> (if x = Success then rs = [] else one_row x rs))"
  by (auto simp: logs_def observe_def then_m_def bind_m_def log_outcome_def recordOutcome_def emit_row_def return_m_def one_row_def)

lemma logs_observe_only: "logs (observe E rq route t x False) (\<lambda>_ xs rs cs. xs = [x] \<and> cs = [] \<and> rs = [])"
  by (auto simp: logs_def observe_def then_m_def bind_m_def log_outcome_def return_m_def)

lemma logs_usage: "logs (recordTokenUsage E rq p) (\<lambda>_ xs rs cs. xs = [] \<and> cs = [] \<and> one_row (up_outcome p) rs)"
  unfolding recordTokenUsage_def Let_def then_m_def
  by (rule quiet_bind) (auto simp: logs_def emit_row_def one_row_def split: option.split)

section \<open>The stages in the calculus\<close>

text \<open>The answers that go with an outcome.\<close>

fun answer_matches :: "outcome \<Rightarrow> answer \<Rightarrow> bool" where
  "answer_matches Success (Reply st _ (Completion _)) = (st = 200)"
| "answer_matches Blocked_by_rule (Reply st _ (BlockedBy _)) = (st = 400)"
| "answer_matches Client_error (Reply st _ (UnknownModel _ _)) = (st = 400)"
| "answer_matches Client_error (Reply st _ (ByokNeeded _)) = (st = 403)"
| "answer_matches Client_error (Reply _ _ (ProviderText _)) = True"
| "answer_matches Upstream_error (Reply _ _ (ProviderText _)) = True"
| "answer_matches Budget_blocked (Reply st _ (OverBudget _ _ _)) = (st = 429)"
| "answer_matches Ssrf_blocked (Reply st _ (UrlRefused _)) = (st = 502)"
| "answer_matches No_capacity (Reply st _ (NoCapacity _ _)) = (st = 503)"
| "answer_matches Client_cancelled (Reply st _ (ErrorText _)) = (st = 499 \<or> st = 504)"
| "answer_matches Upstream_error (Reply st _ (ErrorText _)) = (st = 504)"
| "answer_matches x (EventStream _ _) = (x \<in> {Success, Client_cancelled, Upstream_error})"
| "answer_matches _ _ = False"

definition recorded :: "answer \<Rightarrow> outcome list \<Rightarrow> usage_row list \<Rightarrow> bool" where
  "recorded a xs rs \<longleftrightarrow> (\<exists>x. xs = [x] \<and> one_row x rs \<and> answer_matches x a)"

definition stage_ok :: "(answer + 'b) \<Rightarrow> outcome list \<Rightarrow> usage_row list \<Rightarrow> upstream_call list \<Rightarrow> bool" where
  "stage_ok r xs rs cs \<longleftrightarrow> cs = [] \<and> (case r of Inl a \<Rightarrow> recorded a xs rs | Inr _ \<Rightarrow> xs = [] \<and> rs = [])"

abbreviation stage_logs :: "'a stage \<Rightarrow> bool" where
  "stage_logs s \<equiv> logs s (\<lambda>r xs rs cs. stage_ok r xs rs cs)"

lemma stage_proceed: "stage_logs (proceed x)"
  by (simp add: proceed_def stage_ok_def logs_return)

lemma stage_refuse: "x \<noteq> Success \<Longrightarrow> answer_matches x a \<Longrightarrow> stage_logs (then_m (observed E rq route t x) (answered a))"
  unfolding answered_def then_m_def
  by (rule logs_bind [OF logs_observed], rule logs_return) (auto simp: stage_ok_def recorded_def)

lemma admission_logs: "stage_logs (admitRequest E rq)"
proof -
  have budget: "logs (budget_gate E rq) (\<lambda>r xs rs cs. stage_ok r xs rs cs)"
    unfolding budget_gate_def
    by (auto intro!: stage_proceed quiet_bind [OF quiet_on_gw] stage_refuse split: option.split)
  have pass: "logs (bind_m (budget_gate E rq) (\<lambda>g. case g of Inl a \<Rightarrow> answered a | Inr d \<Rightarrow> proceed (f d)))
      (\<lambda>r xs rs cs. stage_ok r xs rs cs)" for f :: "bool \<Rightarrow> admission"
    by (rule logs_bind [OF budget])
      (auto simp: stage_ok_def answered_def proceed_def split: sum.splits intro!: logs_return)
  show ?thesis
    unfolding admitRequest_def
  proof (rule quiet_bind [OF quiet_read], goal_cases)
    case (1 scope)
    show ?case
      by (cases "resolveRequestedModel (pe_catalog E) (jstring (jget ''model'' (Some (rq_body rq)))) ''chat'' (Some scope)")
        (auto intro!: pass stage_refuse simp: unknownModelError_def split: option.split)
  qed
qed

lemma guard_logs: "stage_logs (guardInput E rq messages isStream)"
  unfolding guardInput_def Let_def by (auto intro!: stage_proceed stage_refuse)

lemma cache_logs: "stage_logs (lookUpResponseCache E rq scope pinned isStream)"
proof -
  have hit: "stage_logs (then_m (observed E rq None t Success) (then_m (recordTokenUsage E rq (hit_usage E hit)) (answered a)))"
    if "answer_matches Success a" for a t hit
    unfolding answered_def then_m_def
    by (rule logs_bind [OF logs_observed], rule logs_bind [OF logs_usage], rule logs_return)
      (use that in \<open>auto simp: stage_ok_def recorded_def hit_usage_def\<close>)
  show ?thesis
    unfolding lookUpResponseCache_def Let_def
    by (auto intro!: stage_proceed quiet_bind [OF quiet_on_gw] hit split: option.split)
qed

subsection \<open>Dispatch\<close>

definition checked_call :: "'rx px_env \<Rightarrow> upstream_call \<Rightarrow> bool" where
  "checked_call E c \<longleftrightarrow>
     (\<exists>u. assertSafeUrl (pe_url E (stripTrailingSlash (nr_baseUrl (uc_route c)))) (pe_policy E) = Inr u) \<and>
     uc_url c \<in> {stripTrailingSlash (nr_baseUrl (uc_route c)) @ ''/chat/completions'', stripTrailingSlash (nr_baseUrl (uc_route c)) @ ''/messages''}"

definition calls_ok :: "'rx px_env \<Rightarrow> upstream_call list \<Rightarrow> bool" where
  "calls_ok E cs \<longleftrightarrow> length cs \<le> 1 \<and> list_all (checked_call E) cs"

text \<open>The answer of a stage after which at most the given calls were made.\<close>

definition sent_ok :: "(answer + dispatched) \<Rightarrow> outcome list \<Rightarrow> usage_row list \<Rightarrow> upstream_call list \<Rightarrow> (upstream_call \<Rightarrow> upstream_answer) \<Rightarrow> bool" where
  "sent_ok r xs rs cs U \<longleftrightarrow> (case r of Inl a \<Rightarrow> recorded a xs rs
     | Inr ds \<Rightarrow> xs = [] \<and> rs = [] \<and> (\<exists>c. cs = [c] \<and> U c = GoodAnswer (ds_headers ds) (ds_body ds) (ds_stream ds)))"

lemma logs_call: "logs (log_call c) (\<lambda>_ xs rs cs. xs = [] \<and> rs = [] \<and> cs = [c])"
  by (auto simp: logs_def log_call_def)

lemma answer_after: "x \<noteq> Success \<Longrightarrow> answer_matches x a \<Longrightarrow>
    logs (then_m (observed E rq route t x) (return_m a)) (\<lambda>r xs rs cs. cs = [] \<and> recorded r xs rs)"
  unfolding then_m_def
  by (rule logs_bind [OF logs_observed], rule logs_return) (auto simp: recorded_def)

lemma no_answer_logs: "logs (no_answer E rq route reserve aborted gone) (\<lambda>r xs rs cs. cs = [] \<and> recorded r xs rs)"
  unfolding no_answer_def
  by (rule quiet_then [OF quiet_settling(1)]) (auto intro!: answer_after quiet_then [OF quiet_on_gw])

lemma failure_logs: "logs (answerUpstreamFailure E rq route reserve native status txt hdr) (\<lambda>r xs rs cs. cs = [] \<and> recorded r xs rs)"
  unfolding answerUpstreamFailure_def Let_def
  by (intro quiet_then [OF quiet_on_gw] quiet_then [OF quiet_settling(1)] answer_after) simp_all

lemma planned_url: "planNative parse registry native route gd g = Some n \<Longrightarrow> nq_url n = stripTrailingSlash (nr_baseUrl route) @ ''/messages''"
  unfolding planNative_def Let_def by (auto split: option.splits prod.splits if_splits)

lemma request_url: "\<forall>nq. n = Some nq \<longrightarrow> nq_url nq = stripTrailingSlash (nr_baseUrl route) @ ''/messages'' \<Longrightarrow> uc_route (upstream_request E rq gd isStream route n) = route \<and>
    uc_url (upstream_request E rq gd isStream route n) \<in>
      {stripTrailingSlash (nr_baseUrl route) @ ''/chat/completions'', stripTrailingSlash (nr_baseUrl route) @ ''/messages''}"
  by (cases n) (auto simp: upstream_request_def)

lemma send_logs:
  assumes "assertSafeUrl (pe_url E (stripTrailingSlash (nr_baseUrl route))) (pe_policy E) = Inr u"
  shows "logs (send E U rq gd isStream route reserve session) (\<lambda>r xs rs cs. calls_ok E cs \<and> sent_ok r xs rs cs U)"
proof -
  define native where "native = planNative (pe_parse E) (pe_modelRegistry E)
    (map_option (\<lambda>b. (b, pickNativeHeaders (rq_headers rq))) (rq_messagesBody rq)) route gd (guardrails_on E)"
  define call where "call = upstream_request E rq gd isStream route native"
  have "\<forall>nq. native = Some nq \<longrightarrow> nq_url nq = stripTrailingSlash (nr_baseUrl route) @ ''/messages''"
    using planned_url unfolding native_def by blast
  then have ok: "calls_ok E [call]"
    using request_url [of native route E rq gd isStream] assms by (simp add: calls_ok_def checked_call_def call_def)
  have answers: "logs (bind_m m answered) (\<lambda>r xs rs cs. calls_ok E (call # cs) \<and> sent_ok r xs rs (call # cs) U)"
    if "logs m (\<lambda>r xs rs cs. cs = [] \<and> recorded r xs rs)" for m
    unfolding answered_def by (rule logs_bind [OF that], rule logs_return) (auto simp: sent_ok_def ok)
  show ?thesis
    unfolding send_def Let_def native_def [symmetric] call_def [symmetric] then_m_def
  proof (rule logs_bind [OF logs_call], goal_cases)
    case (1 r xs rs cs)
    then have "xs = []" "rs = []" "cs = [call]" by simp_all
    then show ?case
      using answers [OF no_answer_logs] answers [OF failure_logs]
      by (cases "U call") (simp_all, auto simp: proceed_def sent_ok_def ok intro!: logs_return)
  qed
qed

lemma no_route_logs: "logs (no_route E rq ad) (\<lambda>r xs rs cs. cs = [] \<and> sent_ok r xs rs cs U)"
proof -
  have byok: "logs (then_m (observed E rq None t Client_error) (answered (Reply 403 [] (ByokNeeded m)))) (\<lambda>r xs rs cs. cs = [] \<and> sent_ok r xs rs cs U)" for t m
    unfolding answered_def then_m_def
    by (rule logs_bind [OF logs_observed], rule logs_return) (auto simp: recorded_def sent_ok_def)
  have full: "logs (then_m (observed E rq None t No_capacity) (bind_m (\<lambda>w. (Inr (f w), w)) (\<lambda>ra. answered (Reply 503 (h ra) (NoCapacity (m ra) ra)))))
      (\<lambda>r xs rs cs. cs = [] \<and> sent_ok r xs rs cs U)" for t f h m
    unfolding answered_def then_m_def
    by (rule logs_bind [OF logs_observed], rule quiet_bind [OF quiet_read], rule logs_return) (auto simp: recorded_def sent_ok_def)
  show ?thesis unfolding no_route_def by (auto split: option.split intro: byok full)
qed

lemma dispatch_logs: "logs (dispatchUpstream E U rq ad gd isStream) (\<lambda>r xs rs cs. calls_ok E cs \<and> sent_ok r xs rs cs U)"
proof -
  have blocked: "logs (then_m (observed E rq route t Ssrf_blocked) (answered (Reply 502 [] (UrlRefused e))))
      (\<lambda>r xs rs cs. calls_ok E cs \<and> sent_ok r xs rs cs U)" for route t e
    unfolding answered_def then_m_def
    by (rule logs_bind [OF logs_observed], rule logs_return) (auto simp: recorded_def sent_ok_def calls_ok_def)
  have none: "logs (no_route E rq ad) (\<lambda>r xs rs cs. calls_ok E cs \<and> sent_ok r xs rs cs U)"
    by (rule logs_mono [OF no_route_logs [where U = U]]) (auto simp: calls_ok_def)
  show ?thesis
    unfolding dispatchUpstream_def Let_def
    by (rule quiet_bind [OF quiet_on_gw])
      (auto split: option.split sum.split intro: none send_logs quiet_then [OF quiet_settling(1) blocked])
qed

subsection \<open>Delivery\<close>

definition delivered :: "delivery \<Rightarrow> answer \<Rightarrow> outcome list \<Rightarrow> usage_row list \<Rightarrow> upstream_call list \<Rightarrow> bool" where
  "delivered d a xs rs cs \<longleftrightarrow> cs = [] \<and> (recorded a xs rs \<or>
     a = body_failed \<and> xs = [] \<and> rs = [] \<and> (\<exists>b. ds_body (dl_dispatched d) = ReadOk b \<and> \<not> jtruthy (Some b)))"

lemma read_logs: "logs (readJsonBody E rq d) (\<lambda>r xs rs cs. cs = [] \<and> (case ds_body (dl_dispatched d) of
    ReadOk b \<Rightarrow> r = Some b \<and> xs = [] \<and> rs = [] | ReadFailed _ \<Rightarrow> r = None \<and> recorded body_failed xs rs))"
proof (cases "ds_body (dl_dispatched d)")
  case (ReadOk b)
  then show ?thesis unfolding readJsonBody_def ReadOk body_read.case by (intro logs_return) simp
next
  case (ReadFailed c)
  show ?thesis unfolding readJsonBody_def then_m_def ReadFailed body_read.case
    by (rule quiet_bind [OF quiet_settling(1)], rule logs_bind [OF logs_observed], rule logs_return)
      (auto simp: recorded_def body_failed_def split: if_splits)
qed

lemma settle_json_logs: "logs (settleJson E rq d data) (\<lambda>_ xs rs cs. cs = [] \<and> xs = [Success] \<and> one_row Success rs)"
  unfolding settleJson_def Let_def then_m_def
  by (rule logs_bind [OF logs_observed], intro quiet_bind [OF quiet_settling(4)] quiet_bind [OF quiet_settling(3)],
      rule logs_mono [OF logs_usage]) (auto simp: routeUsage_def)

lemma json_answer_logs:
  assumes "answer_matches Success a"
  shows "logs (then_m (markHealthy E ds) (then_m (settleJson E rq d data) (return_m a))) (\<lambda>r xs rs cs. cs = [] \<and> recorded r xs rs)"
  unfolding then_m_def
  by (rule quiet_bind [OF quiet_settling(2)], rule logs_bind [OF settle_json_logs], rule logs_return)
    (use assms in \<open>auto simp: recorded_def\<close>)

lemma body_logs:
  assumes "\<And>b. logs (f b) (\<lambda>r xs rs cs. cs = [] \<and> recorded r xs rs)"
  shows "logs (bind_m (readJsonBody E rq d) (\<lambda>data. if \<not> jtruthy data then return_m body_failed else f (the data))) (delivered d)"
proof (rule logs_bind [OF read_logs], goal_cases)
  case (1 r xs rs cs)
  show ?case
  proof (cases "ds_body (dl_dispatched d)")
    case (ReadFailed c)
    then show ?thesis using 1 by (auto simp: delivered_def jtruthy_def intro!: logs_return)
  next
    case (ReadOk b)
    then show ?thesis using 1
      by (cases "jtruthy (Some b)") (auto simp: delivered_def intro!: logs_return logs_mono [OF assms])
  qed
qed

lemma json_logs: "logs (deliverJson E rq d) (delivered d)"
  unfolding deliverJson_def by (rule body_logs) (auto split: prod.split intro!: json_answer_logs)

lemma buffered_logs: "logs (deliverBuffered E rq d) (delivered d)"
  unfolding deliverBuffered_def by (rule body_logs) (auto split: prod.split intro!: json_answer_logs)

lemma stream_logs: "logs (deliverStream E rq d input) (delivered d)"
proof -
  have settle: "logs (settle_stream E rq d r) (\<lambda>_ xs rs cs. cs = [] \<and> xs = [stream_outcome r] \<and> one_row (stream_outcome r) rs)" for r
    unfolding settle_stream_def Let_def then_m_def
    by (rule quiet_bind [OF quiet_if [OF quiet_quietly quiet_settling(2)]], rule logs_bind [OF logs_observe_only],
        intro quiet_bind [OF quiet_settling(4)] quiet_bind [OF quiet_settling(3)], rule logs_mono [OF logs_usage])
      (auto simp: routeUsage_def)
  have "stream_outcome r \<in> {Success, Client_cancelled, Upstream_error}" for r by (simp add: stream_outcome_def)
  then have matches: "answer_matches (stream_outcome r) (EventStream hs t)" for r hs t by simp
  have rec: "one_row (stream_outcome r) rs \<Longrightarrow> recorded (EventStream hs t) [stream_outcome r] rs" for r rs hs t
    unfolding recorded_def using matches by blast
  show ?thesis
    unfolding deliverStream_def Let_def then_m_def
    by (auto split: prod.split sum.split intro!: logs_throw logs_bind [OF settle] logs_return rec simp: delivered_def)
qed

lemma deliver_logs: "logs (deliver E rq isStream d) (delivered d)"
  unfolding deliver_def by (auto intro: buffered_logs stream_logs json_logs split: option.split)

section \<open>The whole request\<close>

definition falsy_answer :: "(upstream_call \<Rightarrow> upstream_answer) \<Rightarrow> bool" where
  "falsy_answer U \<longleftrightarrow> (\<exists>c h b s. U c = GoodAnswer h (ReadOk b) s \<and> \<not> jtruthy (Some b))"

lemma falsy_answerI: "U c = GoodAnswer h (ReadOk b) s \<Longrightarrow> \<not> jtruthy (Some b) \<Longrightarrow> falsy_answer U"
  unfolding falsy_answer_def by blast

lemma next_stage_logs:
  assumes "stage_logs s" and "\<And>x. logs (f x) (\<lambda>a xs rs cs. calls_ok E cs \<and> (recorded a xs rs \<or> Z a xs rs))"
  shows "logs (next_stage s f) (\<lambda>a xs rs cs. calls_ok E cs \<and> (recorded a xs rs \<or> Z a xs rs))"
  unfolding next_stage_def
  by (rule logs_bind [OF assms(1)]) (use assms(2) in \<open>auto simp: stage_ok_def calls_ok_def split: sum.splits intro!: logs_return\<close>)

lemma request_logs: "logs (handleProxy E U rq) (\<lambda>a xs rs cs. calls_ok E cs \<and> (recorded a xs rs \<or>
    a = body_failed \<and> xs = [] \<and> rs = [] \<and> falsy_answer U))"
proof -
  have whole: "logs m (\<lambda>a xs' rs' cs'. calls_ok E (cs @ cs') \<and> (recorded a xs' rs' \<or> a = body_failed \<and> xs' = [] \<and> rs' = [] \<and> falsy_answer U))"
    if "calls_ok E cs" "sent_ok (Inr ds) xs rs cs U" "logs m (delivered d)" "dl_dispatched d = ds" for m d ds cs xs rs
    by (rule logs_mono [OF that(3)]) (use that in \<open>auto simp: delivered_def sent_ok_def intro: falsy_answerI\<close>)
  have last_stage: "logs (next_stage (dispatchUpstream E U rq ad gd s) (\<lambda>ds. deliver E rq s (delivery_of gd cm ds)))
      (\<lambda>a xs rs cs. calls_ok E cs \<and> (recorded a xs rs \<or> a = body_failed \<and> xs = [] \<and> rs = [] \<and> falsy_answer U))" for ad gd s cm
    unfolding next_stage_def
  proof (rule logs_bind [OF dispatch_logs], goal_cases)
    case (1 r xs rs cs)
    show ?case
    proof (cases r)
      case (Inl a)
      then show ?thesis using 1 by (auto simp: sent_ok_def intro!: logs_return)
    next
      case (Inr ds)
      have "dl_dispatched (delivery_of gd cm ds) = ds" by (simp add: delivery_of_def Let_def)
      moreover have "xs = []" "rs = []" using 1 Inr by (auto simp: sent_ok_def)
      ultimately show ?thesis using whole [OF _ _ deliver_logs, of cs ds "[]" "[]" "delivery_of gd cm ds" E rq s] 1 Inr by auto
    qed
  qed
  show ?thesis
    unfolding handleProxy_def Let_def
    by (rule next_stage_logs [OF admission_logs], rule next_stage_logs [OF guard_logs],
        rule next_stage_logs [OF cache_logs], rule last_stage)
qed

section \<open>A small gateway\<close>

definition leak_frame :: json where
  "leak_frame = JObj [(''choices'', JArr [JObj [(''delta'', JObj [(''content'', JStr ''secret'')])]])]"

definition withhold_rule :: "string compiled_rule" where
  "withhold_rule = secret_rule\<lparr>cr_rule := (cr_rule secret_rule)\<lparr>gr_action := BlockAction, gr_appliesTo := Some DirOutput\<rparr>\<rparr>"

text \<open>Output rules are on, streams are not buffered, and the cache is on.\<close>

definition px_sample :: "string px_env" where
  "px_sample = \<lparr>pe_arrived = 1, pe_routed = 2, pe_done = 3, pe_gw = sample_env, pe_routing = sample_facts, pe_catalog = sample_catalog,
     pe_priceRow = (\<lambda>_ _. None), pe_spendSince = (\<lambda>_ _. 0), pe_engine = literal_engine,
     pe_guard = \<lparr>gc_enabled = True, gc_bufferedSafe = False, gc_rules = [], gc_compiled = [withhold_rule]\<rparr>,
     pe_cache = \<lparr>cg_enabled = True, cg_ttlSeconds = 60\<rparr>, pe_policy = \<lparr>allowPrivate = False, allowList = {}\<rparr>,
     pe_url = (\<lambda>_. Some \<lparr>u_protocol = ''https:'', u_hostname = ''api.test'', u_port = []\<rparr>), pe_tpm = Refund, pe_estimate = EstimateExact,
     pe_defaultMaxTokens = 4, pe_countMessages = (\<lambda>_. 1), pe_countText = (\<lambda>_. 1), pe_digest = (\<lambda>_. ''d''), pe_hash = (\<lambda>s. s),
     pe_anonymized = False, pe_writeEntry = cc_content, pe_readEntry = (\<lambda>s. Some (buildFromStreamContent 3 s ''gpt'' ''openai'' 1 1)),
     pe_parse = (\<lambda>s. if s = ''H'' then Some leak_frame else None), pe_stringify = (\<lambda>_. ''{}''), pe_idleMs = 30000, pe_maxMs = 600000,
     pe_modelRegistry = None\<rparr>"

definition px_body :: "bool \<Rightarrow> json" where
  "px_body streamed = JObj [(''stream'', JBool streamed), (''messages'', JArr [JObj [(''role'', JStr ''user''), (''content'', JStr ''hi'')]])]"

definition px_ask :: "bool \<Rightarrow> px_request" where
  "px_ask streamed = \<lparr>rq_body = px_body streamed, rq_teamKeyId = None, rq_headers = [], rq_team = None, rq_strategy = None, rq_messagesBody = None\<rparr>"

definition px_world :: world where
  "px_world = \<lparr>w_gw = sample_gateway, w_outcomes = [], w_rows = [], w_calls = []\<rparr>"

definition px_stream :: stream_input where
  "px_stream = \<lparr>si_chunks = [\<lparr>sc_raw = ''data: H'' @ [newline, newline], sc_text = ''data: H'' @ [newline, newline], sc_cut = None, sc_gone = False\<rparr>],
     si_end = EndDone, si_departed = False, si_flush = []\<rparr>"

definition px_upstream :: "upstream_call \<Rightarrow> upstream_answer" where
  "px_upstream c = GoodAnswer (\<lambda>_. None) (ReadOk (JObj [])) (Some px_stream)"

definition px_plain :: "string px_env" where
  "px_plain = px_sample\<lparr>pe_guard := \<lparr>gc_enabled = False, gc_bufferedSafe = False, gc_rules = [], gc_compiled = []\<rparr>\<rparr>"

definition px_json :: "upstream_call \<Rightarrow> upstream_answer" where
  "px_json c = GoodAnswer (\<lambda>_. None) (ReadOk (JObj [(''choices'', JArr [])])) None"

definition px_lost :: "upstream_call \<Rightarrow> upstream_answer" where
  "px_lost c = NoAnswer True True"

text \<open>The outcomes, the calls and whether a row was written for each outcome.\<close>

definition px_trace :: "answer px \<Rightarrow> world \<Rightarrow> (outcome list \<times> outcome list \<times> string list) option" where
  "px_trace m w = (case m w of (Inl _, _) \<Rightarrow> None
     | (Inr _, w') \<Rightarrow> Some (w_outcomes w', map ue_outcome (w_rows w'), map uc_url (w_calls w')))"

lemma px_traceD: "px_trace m w = Some (xs, ys, us) \<Longrightarrow> \<exists>a w'. m w = (Inr a, w') \<and> w_outcomes w' = xs \<and>
    map ue_outcome (w_rows w') = ys \<and> map uc_url (w_calls w') = us"
  by (auto simp: px_trace_def split: prod.splits sum.splits)

lemma px_json_trace: "px_trace (handleProxy px_plain px_json (px_ask False)) px_world
    = Some ([Success], [Success], [''https://api.openai.com/v1/chat/completions''])"
  by code_simp

lemma px_lost_trace: "px_trace (handleProxy px_plain px_lost (px_ask False)) px_world
    = Some ([Client_cancelled], [Client_cancelled], [''https://api.openai.com/v1/chat/completions''])"
  by code_simp

section \<open>Properties of every request\<close>




text \<open>The status an answer's body belongs under; what the provider says comes under its own.\<close>

fun answer_typed :: "answer \<Rightarrow> bool" where
  "answer_typed (EventStream _ _) = True"
| "answer_typed (Reply st _ body) = (case body of Completion _ \<Rightarrow> st = 200 | BlockedBy _ \<Rightarrow> st = 400 | UnknownModel _ _ \<Rightarrow> st = 400
     | ByokNeeded _ \<Rightarrow> st = 403 | OverBudget _ _ _ \<Rightarrow> st = 429 | UrlRefused _ \<Rightarrow> st = 502 | NoCapacity _ _ \<Rightarrow> st = 503
     | ErrorText _ \<Rightarrow> st \<in> {499, 504} | ProviderText _ \<Rightarrow> True)"

lemma matches_typed: "answer_matches x a \<Longrightarrow> answer_typed a"
  by (induction x a rule: answer_matches.induct) auto



end
