(* ===== verification/Proxy_Safety.thy ===== *)
theory Proxy_Safety
  imports Proxy_Spec
begin

text \<open>
  Which provider calls a request can make, over the routing of \<open>Discovery\<close> and the contract of \<open>Key_Health\<close>:
  the stages before routing touch the store only, and the stages after it call nobody.
\<close>

section \<open>Stages that touch the store only\<close>

definition kv_only :: "'a px \<Rightarrow> bool" where
  "kv_only m \<longleftrightarrow> (\<forall>w. g_rows (w_gw (snd (m w))) = g_rows (w_gw w) \<and> g_cache (w_gw (snd (m w))) = g_cache (w_gw w)
     \<and> g_written (w_gw (snd (m w))) = g_written (w_gw w) \<and> w_calls (snd (m w)) = w_calls w)"

named_theorems kv_rules

lemma kv_only_return [kv_rules]: "kv_only (return_m x)"
  by (simp add: kv_only_def return_m_def)

lemma kv_only_bind [kv_rules]: "kv_only m \<Longrightarrow> (\<And>x. kv_only (f x)) \<Longrightarrow> kv_only (bind_m m f)"
  unfolding kv_only_def bind_m_def by (simp split: prod.split sum.split) (metis snd_conv)

lemma kv_only_then [kv_rules]: "kv_only m \<Longrightarrow> kv_only k \<Longrightarrow> kv_only (then_m m k)"
  unfolding then_m_def by (rule kv_only_bind)

lemma kv_only_read [kv_rules]: "kv_only (\<lambda>w. (Inr (f w), w))"
  by (simp add: kv_only_def)

lemma kv_only_kv [kv_rules]: "kv_only (on_gw (on_kv m))" "kv_only (quietly (on_kv m))"
  by (simp_all add: kv_only_def on_gw_def quietly_def on_kv_def split: prod.split)

lemma kv_only_logs [kv_rules]: "kv_only (log_outcome x)" "kv_only (emit_row e)"
  by (simp_all add: kv_only_def log_outcome_def emit_row_def)

lemma kv_only_if [kv_rules]: "kv_only m \<Longrightarrow> kv_only k \<Longrightarrow> kv_only (if b then m else k)"
  by simp

lemma kv_only_recording [kv_rules]: "kv_only (observe E rq route t x p)" "kv_only (recordTokenUsage E rq q)"
    "kv_only (answered a)" "kv_only (proceed y)"
  unfolding observe_def recordOutcome_def recordTokenUsage_def Let_def answered_def proceed_def
  by (auto intro!: kv_rules split: option.split)

lemma kv_only_budget [kv_rules]: "kv_only (budget_gate E rq)"
  unfolding budget_gate_def by (auto intro!: kv_rules split: option.split)

lemma kv_only_stages:
  "kv_only (admitRequest E rq)" "kv_only (guardInput E rq messages s)" "kv_only (lookUpResponseCache E rq scope pinned s)"
  unfolding admitRequest_def guardInput_def lookUpResponseCache_def Let_def
  by (auto intro!: kv_rules split: option.split model_resolution.split sum.split)

section \<open>Stages that call nobody\<close>

definition no_calls :: "'a px \<Rightarrow> bool" where
  "no_calls m \<longleftrightarrow> (\<forall>w. w_calls (snd (m w)) = w_calls w)"

named_theorems no_call_rules

lemma no_calls_bind [no_call_rules]: "no_calls m \<Longrightarrow> (\<And>x. no_calls (f x)) \<Longrightarrow> no_calls (bind_m m f)"
  unfolding no_calls_def bind_m_def by (simp split: prod.split sum.split) (metis snd_conv)

lemma no_calls_then [no_call_rules]: "no_calls m \<Longrightarrow> no_calls k \<Longrightarrow> no_calls (then_m m k)"
  unfolding then_m_def by (rule no_calls_bind)

lemma no_calls_kv: "kv_only m \<Longrightarrow> no_calls m"
  by (simp add: kv_only_def no_calls_def)

lemma no_calls_steps [no_call_rules]: "no_calls (return_m x)" "no_calls (throw_m e)" "no_calls (on_gw g)" "no_calls (quietly g)"
    "no_calls (\<lambda>w. (Inr (f w), w))"
  by (simp_all add: no_calls_def return_m_def throw_m_def on_gw_def quietly_def split: prod.split)

lemmas no_calls_recording [no_call_rules] = kv_only_recording [THEN no_calls_kv]

lemma no_calls_if [no_call_rules]: "no_calls m \<Longrightarrow> no_calls k \<Longrightarrow> no_calls (if b then m else k)"
  by simp

lemma no_calls_settling [no_call_rules]: "no_calls (refundReservation E k n)" "no_calls (markHealthy E ds)"
    "no_calls (settle_tpm E ds i o' d)" "no_calls (store_entry E cm e)"
  unfolding refundReservation_def markHealthy_def settle_tpm_def store_entry_def
  by (auto intro!: no_call_rules split: option.split)

lemma no_calls_body [no_call_rules]: "no_calls (readJsonBody E rq d)" "no_calls (settleJson E rq d data)" "no_calls (settle_stream E rq d r)"
  unfolding readJsonBody_def settleJson_def settle_stream_def Let_def
  by (cases "ds_body (dl_dispatched d)"; auto intro!: no_call_rules)+

lemma no_calls_deliver [no_call_rules]: "no_calls (deliver E rq s d)"
proof -
  have "no_calls (deliverBuffered E rq d)" "no_calls (deliverJson E rq d)"
    unfolding deliverBuffered_def deliverJson_def
    by (auto intro!: no_call_rules split: prod.split)
  moreover have "no_calls (deliverStream E rq d input)" for input
    unfolding deliverStream_def Let_def by (auto intro!: no_call_rules split: prod.split sum.split)
  ultimately show ?thesis unfolding deliver_def by (auto split: option.split)
qed

lemma no_calls_answers [no_call_rules]: "no_calls (no_answer E rq route n a b)" "no_calls (answerUpstreamFailure E rq route n nt st t h)"
    "no_calls (no_route E rq ad)"
  unfolding no_answer_def answerUpstreamFailure_def no_route_def Let_def
  by (auto intro!: no_call_rules split: option.split)

section \<open>Whose key a call carries\<close>

text \<open>The route of a call was built for an unbanned key its caller may use, with that key's credential.\<close>

definition entitled_call :: "'rx px_env \<Rightarrow> team_context option \<Rightarrow> db_key list \<Rightarrow> upstream_call \<Rightarrow> bool" where
  "entitled_call E team rows c \<longleftrightarrow>
     (let scope = resolveRequestScope team rows; rt = uc_route c in
      \<exists>row. findRoutable rows (nr_keyId rt) = Some row \<and> kr_status row \<noteq> ''banned'' \<and>
        (kr_ownerTeamId row = rs_ownerTeamId scope \<or> kr_ownerTeamId row = None \<and> rs_fallbackToShared scope) \<and>
        nr_byok rt = (kr_ownerTeamId row \<noteq> None) \<and>
        ev_decrypt (pe_gw E) (kr_encryptedKey row) (kr_id row) (kr_ownerTeamId row) = Some (nr_decryptedKey rt))"

definition calls_within :: "db_key list \<Rightarrow> (upstream_call \<Rightarrow> bool) \<Rightarrow> 'a px \<Rightarrow> bool" where
  "calls_within rows G m \<longleftrightarrow> (\<forall>w. gw_ok (w_gw w) \<longrightarrow> g_rows (w_gw w) = rows \<longrightarrow>
     (\<exists>cs. w_calls (snd (m w)) = w_calls w @ cs \<and> length cs \<le> 1 \<and> list_all G cs))"

lemma calls_within_none: "no_calls m \<Longrightarrow> calls_within rows G m"
  by (simp add: no_calls_def calls_within_def)

lemma calls_within_stage:
  assumes "kv_only s" and "\<And>w x. g_rows (w_gw w) = rows \<Longrightarrow> fst (s w) = Inr (Inr x) \<Longrightarrow> R x"
    and "\<And>x. R x \<Longrightarrow> calls_within rows G (f x)"
  shows "calls_within rows G (next_stage s f)"
  unfolding calls_within_def
proof (intro allI impI)
  fix w :: world assume w: "gw_ok (w_gw w)" "g_rows (w_gw w) = rows"
  obtain r w1 where s: "s w = (r, w1)" by fastforce
  from assms(1) have k: "g_rows (w_gw w1) = rows" "g_cache (w_gw w1) = g_cache (w_gw w)" "w_calls w1 = w_calls w"
    using w(2) s unfolding kv_only_def by (metis snd_conv)+
  then have ok: "gw_ok (w_gw w1)" using w by (simp add: gw_ok_def)
  show "\<exists>cs. w_calls (snd (next_stage s f w)) = w_calls w @ cs \<and> length cs \<le> 1 \<and> list_all G cs"
  proof (cases "\<exists>x. r = Inr (Inr x)")
    case True
    then obtain x where x: "r = Inr (Inr x)" by blast
    have "calls_within rows G (f x)" using assms(2) [OF w(2)] assms(3) s x by simp
    then obtain cs where "w_calls (snd (f x w1)) = w_calls w1 @ cs \<and> length cs \<le> 1 \<and> list_all G cs"
      using ok k(1) unfolding calls_within_def by blast
    then show ?thesis using k(3) by (intro exI [of _ cs]) (simp add: next_stage_def bind_m_def s x)
  next
    case False
    then have "w_calls (snd (next_stage s f w)) = w_calls w"
      using s k(3) by (cases r; cases "projr r") (auto simp: next_stage_def bind_m_def return_m_def)
    then show ?thesis by simp
  qed
qed

lemma admitted_scope:
  assumes "fst (admitRequest E rq w) = Inr (Inr ad)"
  shows "ad_scope ad = resolveRequestScope (rq_team rq) (g_rows (w_gw w))"
  using assms unfolding admitRequest_def
  by (auto simp: bind_m_def then_m_def answered_def proceed_def return_m_def split: prod.splits sum.splits option.splits model_resolution.splits)

lemma send_calls:
  "\<exists>c. uc_route c = route \<and> w_calls (snd (send E U rq gd s route n ses w)) = w_calls w @ [c]"
proof -
  define native where "native = planNative (pe_parse E) (pe_modelRegistry E)
    (map_option (\<lambda>b. (b, pickNativeHeaders (rq_headers rq))) (rq_messagesBody rq)) route gd (guardrails_on E)"
  define call where "call = upstream_request E rq gd s route native"
  have "uc_route call = route" by (simp add: call_def upstream_request_def split: option.split)
  moreover have "\<exists>m. no_calls m \<and> send E U rq gd s route n ses = then_m (log_call call) m"
    unfolding send_def Let_def native_def [symmetric] call_def [symmetric]
    by (rule exI, rule conjI [rotated], rule refl) (auto intro!: no_call_rules split: upstream_answer.split)
  then have "w_calls (snd (send E U rq gd s route n ses w)) = w_calls w @ [call]"
    by (auto simp: then_m_def bind_m_def log_call_def no_calls_def)
  ultimately show ?thesis by blast
qed

text \<open>The pools are named as the gateway names them, and so is the caller's team.\<close>

definition pools_ok :: "'rx px_env \<Rightarrow> px_request \<Rightarrow> bool" where
  "pools_ok E rq \<longleftrightarrow> list_all (\<lambda>p. pool_ok (pr_id p, None) \<and> pool_ok (pr_id p, map_option st_id (rq_team rq))) (f_active (pe_routing E))"

lemma scope_owner: "rs_ownerTeamId (resolveRequestScope team rows) \<in> {None, map_option st_id team}"
  by (cases team) (auto simp: resolveRequestScope_def scope_simps scope_team.truncate_def)

lemma dispatch_calls:
  assumes "pools_ok E rq" and "ad_scope ad = resolveRequestScope (rq_team rq) rows" and f: "\<And>ds. no_calls (f ds)"
  shows "calls_within rows (entitled_call E (rq_team rq) rows) (next_stage (dispatchUpstream E U rq ad gd s) f)"
  unfolding calls_within_def
proof (intro allI impI)
  fix w :: world assume w: "gw_ok (w_gw w)" "g_rows (w_gw w) = rows"
  let ?q = "discovery_of E rq ad gd" and ?F = "routing_of E ad"
  obtain r g where d: "discoverBestPool (pe_gw E) (pe_routed E) ?F ?q (w_gw w) = (r, g)" by fastforce
  have "event_ok (EDiscover ?F ?q)"
    using assms(1) scope_owner [of "rq_team rq" rows]
    by (auto simp: pools_ok_def routing_of_def list_all_iff discovery_of_def assms(2))
  note ok = discover_ok [OF w(1) this d]
  have rest: "no_calls (next_stage m f)" if "no_calls m" for m :: "dispatched stage"
    unfolding next_stage_def using that f by (auto intro!: no_call_rules split: sum.split)
  let ?w = "w\<lparr>w_gw := g\<rparr>"
  have via: "w_calls (snd (next_stage (dispatchUpstream E U rq ad gd s) f w)) = w_calls w @ cs"
    if "w_calls (snd (next_stage m f ?w)) = w_calls w @ cs" "dispatchUpstream E U rq ad gd s w = m ?w" for m cs
    using that by (simp add: next_stage_def bind_m_def)
  show "\<exists>cs. w_calls (snd (next_stage (dispatchUpstream E U rq ad gd s) f w)) = w_calls w @ cs \<and> length cs \<le> 1 \<and>
      list_all (entitled_call E (rq_team rq) rows) cs"
  proof (cases "\<exists>route res u. r = Inr (Some route, res) \<and>
      assertSafeUrl (pe_url E (stripTrailingSlash (nr_baseUrl route))) (pe_policy E) = Inr u")
    case False
    have "\<exists>m. no_calls m \<and> dispatchUpstream E U rq ad gd s w = m ?w"
    proof (cases r)
      case (Inl e)
      show ?thesis
        by (rule exI [of _ "throw_m (GwFailed e)"])
          (simp add: dispatchUpstream_def bind_m_def on_gw_def d Inl throw_m_def no_calls_steps)
    next
      case (Inr x)
      then obtain found res where x: "r = Inr (found, res)" by (cases x) simp
      show ?thesis
      proof (cases found)
        case None
        then show ?thesis
          by (intro exI [of _ "no_route E rq ad"])
            (simp add: dispatchUpstream_def bind_m_def on_gw_def d x no_calls_answers)
      next
        case (Some route)
        with False x obtain e where e: "assertSafeUrl (pe_url E (stripTrailingSlash (nr_baseUrl route))) (pe_policy E) = Inl e"
          by (cases "assertSafeUrl (pe_url E (stripTrailingSlash (nr_baseUrl route))) (pe_policy E)") auto
        show ?thesis
          by (intro exI [of _ "then_m (refundReservation E (nr_keyId route) (reserved_tokens res))
               (then_m (observed E rq (Some route) (pe_routed E) Ssrf_blocked) (answered (Reply 502 [] (UrlRefused e))))"])
            (auto simp: dispatchUpstream_def bind_m_def on_gw_def d x Some e Let_def intro!: no_call_rules)
      qed
    qed
    then obtain m where "no_calls m" "dispatchUpstream E U rq ad gd s w = m ?w" by blast
    then have "w_calls (snd (next_stage (dispatchUpstream E U rq ad gd s) f w)) = w_calls w @ []"
      using rest unfolding no_calls_def by (intro via) simp_all
    then show ?thesis by auto
  next
    case True
    then obtain route res u where t: "r = Inr (Some route, res)"
      "assertSafeUrl (pe_url E (stripTrailingSlash (nr_baseUrl route))) (pe_policy E) = Inr u" by blast
    let ?m = "send E U rq gd s route (reserved_tokens res) (q_sessionKey ?q)"
    have run: "dispatchUpstream E U rq ad gd s w = ?m ?w"
      by (simp add: dispatchUpstream_def bind_m_def on_gw_def d t Let_def)
    obtain c where c: "uc_route c = route" "w_calls (snd (?m ?w)) = w_calls w @ [c]"
      using send_calls [of route E U rq gd s "reserved_tokens res" "q_sessionKey ?q" ?w] by auto
    have "entitled_call E (rq_team rq) rows c"
      using ok(3) [OF t(1)] assms(2) c(1) w(2)
      unfolding entitled_call_def served_def in_scope_def Let_def by (auto simp: discovery_of_def)
    moreover have "w_calls (snd (next_stage ?m f ?w)) = w_calls (snd (?m ?w))"
      using f unfolding next_stage_def bind_m_def no_calls_def by (simp add: return_m_def split: prod.split sum.split)
    ultimately show ?thesis using via [of ?m "[c]"] run c(2) by auto
  qed
qed


lemma px_world_ok: "gw_ok (w_gw px_world)"
  using sample_ok by (simp add: px_world_def)

lemma px_pools: "pools_ok px_plain (px_ask s)"
  using sample_pools by (simp add: pools_ok_def px_plain_def px_sample_def px_ask_def sample_facts_def pool_ok_def)


section \<open>Blocked requests\<close>

lemma admission_refusal:
  assumes "fst (admitRequest E rq w) = Inr (Inl a)"
  shows "\<exists>st hs b. a = Reply st hs b \<and> st \<in> {400, 403, 429}"
  using assms unfolding admitRequest_def budget_gate_def
  by (auto simp: bind_m_def then_m_def answered_def proceed_def return_m_def unknownModelError_def
      split: prod.splits sum.splits option.splits model_resolution.splits if_splits)


text \<open>A rule against the word the caller sends.\<close>

definition px_strict :: "string px_env" where
  "px_strict = px_sample\<lparr>pe_guard := \<lparr>gc_enabled = True, gc_bufferedSafe = False, gc_rules = [],
     gc_compiled = [secret_rule\<lparr>cr_rule := (cr_rule secret_rule)\<lparr>gr_action := BlockAction\<rparr>, cr_regex := ''hi''\<rparr>]\<rparr>\<rparr>"

lemma px_strict_blocks:
  "mv_decision (evaluateMessages (pe_engine px_strict) (body_messages (rq_body (px_ask s))) (gc_compiled (pe_guard px_strict))) = Blocked"
  by (simp add: px_strict_def px_sample_def px_ask_def px_body_def body_messages_def evaluateMessages_def evaluateText_def
      secret_rule_def appliesToDirection_def literal_engine_def jget_def readContent_def MAX_SCAN_CHARS_def starts_with_def Let_def)

lemma px_strict_admits: "case admitRequest px_strict (px_ask False) px_world of (Inr (Inr _), _) \<Rightarrow> True | _ \<Rightarrow> False"
  by code_simp


end
