(* ===== verification/Proxy_Replay.thy ===== *)
theory Proxy_Replay
  imports Proxy_Safety
begin

text \<open>
  The response cache and the output rules together. A streamed answer is relayed as it comes, so the rules for
  answers do not see it, and \<open>deliverStream\<close> stores it; the entry's key does not say whether the request was
  streamed. The run below plays both requests through \<open>handleProxy\<close>.
\<close>

subsection \<open>The parts of the two runs\<close>

text \<open>What the guardrails make of the question of the sample: no input rule applies.\<close>

definition px_gd :: "bool \<Rightarrow> guarded" where
  "px_gd s = \<lparr>gd_headers = (''X-Nexus-Guardrails'', ''on'') # (if s then [(''X-Nexus-Guardrails-Output'', ''skipped-streaming'')] else []),
     gd_effective = [JObj [(''role'', JStr ''user''), (''content'', JStr ''hi'')]], gd_redacted = False,
     gd_outputFiltering = True, gd_bufferStream = False\<rparr>"

lemma px_guard: "guardInput px_sample (px_ask s) (body_messages (px_body s)) s' = proceed (px_gd s')"
  by (simp add: guardInput_def guardrails_on_def px_sample_def px_body_def body_messages_def evaluateMessages_def evaluateText_def
      withhold_rule_def secret_rule_def appliesToDirection_def hasOutputRules_def jget_def readContent_def px_gd_def Let_def proceed_def)

definition px_tally :: stream_tally where
  "px_tally = createStreamTally\<lparr>sl_content := ''secret''\<rparr>"

lemma px_frames: "eat_lines (pe_parse px_sample) OpenAiStream (''data: H'' @ [newline, newline]) createStreamTally = (Inr (), px_tally)"
  by code_simp

lemma px_push: "tally_push (pe_parse px_sample) OpenAiStream (''data: H'' @ [newline, newline]) createStreamTally = (Inr (), px_tally)"
  using px_frames by (simp add: tally_push_def consume_def MAX_FRAME_CHARS_def px_tally_def createStreamTally_def)

lemma px_read: "relay_stream (pe_parse px_sample) OpenAiStream px_stream
    = \<lparr>rl_tally = px_tally, rl_tail = boundary_push [] (''data: H'' @ [newline, newline]),
       rl_written = ''data: H'' @ [newline, newline], rl_cut = None, rl_failed = False\<rparr>"
  using px_push by (simp add: relay_stream_def px_stream_def first_cut_def)

lemma px_flush: "tally_end (pe_parse px_sample) OpenAiStream [] px_tally = (Inr (), px_tally)"
  by (simp add: tally_end_def then_m_def bind_m_def consume_def px_tally_def createStreamTally_def)

text \<open>What the live stream of the sample comes to.\<close>

definition px_stream_answer :: "px_request \<Rightarrow> delivery \<Rightarrow> answer px" where
  "px_stream_answer rq d = then_m
     (settle_stream px_sample rq d \<lparr>rl_tally = px_tally, rl_tail = boundary_push [] (''data: H'' @ [newline, newline]),
        rl_written = ''data: H'' @ [newline, newline], rl_cut = None, rl_failed = False\<rparr>)
     (return_m (EventStream (dl_headers d) (''data: H'' @ [newline, newline])))"

lemma px_streams: "\<not> ds_native (dl_dispatched d) \<Longrightarrow> deliverStream px_sample rq d px_stream = px_stream_answer rq d"
proof -
  assume n: "\<not> ds_native (dl_dispatched d)"
  have f: "si_flush px_stream = []" by (simp add: px_stream_def)
  from n show ?thesis
    by (simp del: append.simps add: deliverStream_def px_read f px_flush px_stream_answer_def closing_frame_def)
qed

definition px_deliver :: "px_request \<Rightarrow> bool \<Rightarrow> delivery \<Rightarrow> answer px" where
  "px_deliver rq s d = (if s \<and> \<not> gd_bufferStream (dl_guarded d) \<and> ds_stream (dl_dispatched d) = Some px_stream \<and> \<not> ds_native (dl_dispatched d)
     then px_stream_answer rq d else deliver px_sample rq s d)"

lemma px_delivers: "deliver px_sample rq s d = px_deliver rq s d"
  by (simp add: px_deliver_def deliver_def px_streams)

lemma px_runs: "handleProxy px_sample px_upstream (px_ask s) =
    next_stage (admitRequest px_sample (px_ask s)) (\<lambda>ad.
    next_stage (lookUpResponseCache px_sample (px_ask s) (ad_scope ad) (ad_pinnedModelId ad) s) (\<lambda>cm.
    next_stage (dispatchUpstream px_sample px_upstream (px_ask s) ad (px_gd s) s)
      (\<lambda>ds. px_deliver (px_ask s) s (delivery_of (px_gd s) cm ds))))"
proof -
  have body: "rq_body (px_ask s) = px_body s" by (simp add: px_ask_def)
  have flag: "(jget ''stream'' (Some (px_body s)) = Some (JBool True)) = s" by (simp add: px_body_def jget_def)
  have skip: "next_stage (proceed x) f = f x" for x :: "'x" and f
    by (simp add: next_stage_def proceed_def fun_eq_iff bind_m_def return_m_def)
  show ?thesis unfolding handleProxy_def Let_def body flag px_guard skip px_delivers ..
qed

subsection \<open>The two requests, one after the other\<close>

definition px_told :: "answer px \<Rightarrow> world \<Rightarrow> (int \<times> json option \<times> string list) option" where
  "px_told m w = (case m w of (Inl _, _) \<Rightarrow> None
     | (Inr (Reply st _ (Completion j)), w') \<Rightarrow> Some (st, Some j, map uc_url (w_calls w'))
     | (Inr (Reply st _ _), w') \<Rightarrow> Some (st, None, map uc_url (w_calls w'))
     | (Inr (EventStream _ _), w') \<Rightarrow> Some (200, None, map uc_url (w_calls w')))"

definition px_both :: "(int \<times> json option \<times> string list) option" where
  "px_both = px_told (handleProxy px_sample px_upstream (px_ask False)) (snd (handleProxy px_sample px_upstream (px_ask True) px_world))"

definition px_entry :: cached_completion where
  "px_entry = buildFromStreamContent 3 ''secret'' ''gpt'' ''openai'' 1 1"

lemma px_both_is: "px_both = Some (200, Some (toCompletionJson px_entry), [''https://api.openai.com/v1/chat/completions''])"
  unfolding px_both_def px_runs by code_simp

text \<open>The rule of the sample, on the answer of the second request: it applies, and replaces the text.\<close>

definition px_choice :: json where
  "px_choice = JObj [(''index'', JNum (Some 0)), (''message'', JObj [(''role'', JStr ''assistant''), (''content'', JStr ''secret'')]),
     (''finish_reason'', JStr ''stop'')]"

lemma px_choices: "jget ''choices'' (Some (toCompletionJson px_entry)) = Some (JArr [px_choice])"
  by (simp add: px_entry_def buildFromStreamContent_def toCompletionJson_def jget_def px_choice_def)

lemma px_verdict: "tv_matched (evaluateText literal_engine ''secret'' [withhold_rule] DirOutput) = [''secret'']"
  by (simp add: evaluateText_def withhold_rule_def secret_rule_def appliesToDirection_def literal_engine_def MAX_SCAN_CHARS_def
      starts_with_def Let_def)

lemma px_judged: "fst (guard_choice literal_engine [withhold_rule] px_choice) = [''secret'']"
proof -
  have "choice_content px_choice = Some ''secret''" by code_simp
  then show ?thesis using px_verdict by (simp add: guard_choice_def Let_def)
qed

lemma px_rule_applies:
  "snd (applyOutputGuardrails (pe_engine px_sample) (toCompletionJson px_entry) (gc_compiled (pe_guard px_sample))) \<noteq> []"
proof -
  have "pe_engine px_sample = literal_engine" "gc_compiled (pe_guard px_sample) = [withhold_rule]" by (simp_all add: px_sample_def)
  then show ?thesis using px_judged by (simp add: applyOutputGuardrails_def px_choices add_names_def Let_def)
qed

text \<open>
  A gateway with an output rule that withholds answers, told not to buffer streams. A streamed request is
  answered past the rule, which its header says; a second request for the same words, not streamed, whose
  answer the rule would apply to, is then given the first one's text out of the cache, without a call.
\<close>

theorem streamed_answer_is_replayed_past_the_rules:
  "\<exists>st j. px_both = Some (st, Some j, [''https://api.openai.com/v1/chat/completions'']) \<and> st = 200
     \<and> cc_content px_entry = ''secret'' \<and> j = toCompletionJson px_entry
     \<and> guardrails_on px_sample \<and> snd (applyOutputGuardrails (pe_engine px_sample) j (gc_compiled (pe_guard px_sample))) \<noteq> []"
  using px_both_is px_rule_applies by (simp add: px_entry_def buildFromStreamContent_def guardrails_on_def px_sample_def)

end
