(* ===== verification/Spec2Isabelle.thy ===== *)
theory Spec2Isabelle
  imports Kv_Scan Token_Estimate Url_Guard Model_Path Usage_Pricing Budget Ttl_Memo Key_Health Providers Env_Number
    Backup_Runner_Spec Totp Lifecycle Usage_Pipeline Bpe_Count Anthropic_Spec Proxy_Replay
begin

text \<open>
  A verification of the gateway core of Alayra Nexus.

  Nexus answers a request in four moves: it decides which key of which provider may serve it and
  reserves that key's capacity, it sends the request, it settles what the request really cost, and it
  records how the key behaved. The theories follow those moves.

  The store. \<open>Kv_Store\<close> is \<open>src/lib/kv/memory.ts\<close>, the in-process store that stands in for Redis: an
  insertion-ordered map from names to text or sets with deadlines, one function per command, expiry
  noticed lazily. \<open>Kv_Laws\<close> says what each command answers and leaves visible, \<open>Kv_Commands\<close> has the
  commands as data, histories of them and \<open>MULTI\<close>/\<open>EXEC\<close>, \<open>Kv_Scan\<close> the cursor walks of
  \<open>src/lib/redisScan.ts\<close> over the patterns of \<open>Kv_Glob\<close> (\<open>src/lib/kv/glob.ts\<close>), and \<open>Kv_Views\<close> the
  calculus in which longer scripts are run over what a client sees.

  Capacity. \<open>Rate_Window\<close> is the sliding window of \<open>src/lib/rateWindow.ts\<close>; \<open>Admission\<close> the four scripts of
  \<open>src/lib/admission.ts\<close> and their callers; \<open>Admission_Spec\<close> the limiter they refine; \<open>Reconcile\<close> what
  becomes of a reservation and of the Max Users set. \<open>Breaker\<close> and \<open>Breaker_Refine\<close> are
  \<open>src/lib/breaker.ts\<close> and its refinement of a four-field state machine. \<open>Select_Key\<close> and
  \<open>Select_Spec\<close> are the one-round-trip selection of \<open>src/lib/selectKey.ts\<close>. \<open>Token_Estimate\<close> is the
  token estimator of \<open>src/lib/tokenEstimate.ts\<close>. The exact count of \<open>src/lib/bpeCount.ts\<close> is in four
  theories: \<open>Bpe_Heap\<close> the array heap, \<open>Bpe_Table\<close> the hash table of mergeable pairs, \<open>Bpe_Merge\<close> the two
  merges (a scan, and a heap over a linked list) with their proof against the plain rule, and
  \<open>Bpe_Count\<close> pieces, slices and messages. The rank file and the piece expression are parameters; what
  the module's arrays held before is one too.

  Routing. \<open>Cost_Routing\<close> orders models (\<open>src/lib/routing.ts\<close>, \<open>src/lib/modelSelect.ts\<close>), \<open>Scope\<close>
  resolves whose keys a request may use (\<open>src/lib/scope.ts\<close>), \<open>Key_Rows\<close> is the key table and the
  contract of its port, \<open>Key_Caches\<close> the caches in front of it (\<open>src/lib/keyRowCache.ts\<close>,
  \<open>src/lib/lastUsed.ts\<close>), \<open>Discovery\<close> the sweeps and sticky pins of \<open>src/services/routing\<close> with the
  preset table \<open>Providers\<close>, \<open>Discovery_Spec\<close> what they promise, and \<open>Key_Health\<close> the reports that
  follow a request, over histories of both.

  Accounts. \<open>Usage_Pricing\<close> reads and prices usage reports, \<open>Budget\<close> keeps the teams' spending windows
  over the calendar of \<open>Js_Date\<close>, and \<open>Usage_Pipeline\<close> is the buffer of \<open>src/services/usagePipeline.ts\<close>
  through which usage rows reach the database, with flushes that overlap emits.

  Operation. \<open>Backup_Schedule\<close> reads schedules and computes due instants and retention
  (\<open>src/lib/backupSchedule.ts\<close>), and \<open>Backup_Names\<close> shows that the order of the file names is the order of
  their instants. \<open>Backup_Target\<close> is the contract of a place backups are written to, piece by piece and
  then committed or given up; \<open>Backup_Store\<close> (\<open>src/lib/backup/backupStore.ts\<close>) provides it over chunk
  rows, \<open>Backup_Copy\<close> (\<open>src/lib/backupDestination.ts\<close>, \<open>src/services/backupCopy.service.ts\<close>) over a folder.
  \<open>Backup_Runner\<close> is one run and the ticks of several replicas that share a lock
  (\<open>src/services/backupSchedule.service.ts\<close>), \<open>Backup_Runner_Spec\<close> what they promise. \<open>Lifecycle\<close> is how
  the process ends (\<open>src/lib/lifecycle.ts\<close>), and \<open>Totp\<close> the second factor of the operators
  (\<open>src/lib/totp.ts\<close>), with HMAC a parameter.

  A request. \<open>Proxy_Run\<close> has what every stage shares: the request, the settings and clock readings of a run,
  the world (key table and store, outcomes, usage rows, provider calls), outcomes and usage rows
  (\<open>src/services/proxy/run.ts\<close>, \<open>src/services/token.service.ts\<close>), session fingerprints (\<open>src/lib/sticky.ts\<close>) and
  outbound headers (\<open>src/lib/providerHeaders.ts\<close>). \<open>Proxy\<close> is \<open>handleProxy\<close> of
  \<open>src/services/completionsProxy.service.ts\<close> with the stages of \<open>src/services/proxy/\<close>: admission, input
  guardrails, the response cache, dispatch, and delivery whole, buffered or as a live stream. Each stage
  answers the caller or hands its value on. The provider is an argument, a function from the call made to no
  answer, an error, or a good answer with its body and its stream as chunks. \<open>Proxy_Spec\<close> holds a small logic of what
  a computation adds to the outcomes, rows and calls (\<open>logs\<close>), with one lemma per stage; from it come the
  accounting and the typing of answers. \<open>Proxy_Safety\<close> follows the key table through the stages that touch only the
  store, and shows whose keys a call may use and what a blocked request leaves alone. \<open>Proxy_Replay\<close> plays a streamed
  request and then the same one whole, and shows that the second is given the unfiltered text of the first out of the cache.

  The parts the stages call: \<open>Guardrails\<close> (\<open>src/lib/guardrails.ts\<close>, \<open>src/services/guardrails.service.ts\<close>), with the
  expression engine a parameter; \<open>Response_Cache\<close> (\<open>src/lib/responseCache.ts\<close>), with the digest and the entry
  codec parameters; \<open>Model_Catalog\<close> (\<open>src/services/modelCatalog.service.ts\<close>, \<open>src/services/byokOnly.service.ts\<close>): what is
  listed and what a requested name resolves to; \<open>Stream_Tally\<close> (\<open>src/lib/streamTally.ts\<close>): the reader that
  follows a stream piece by piece; \<open>Upstream_Failure\<close> (\<open>src/services/proxy/upstreamFailure.ts\<close>): what a provider's
  error says of the key and what of it the caller sees; \<open>Anthropic_Native\<close> with \<open>Anthropic_Spec\<close>
  (\<open>anthropicNative.ts\<close>, \<open>anthropicPolicy.ts\<close> and \<open>anthropicGuard.ts\<close> of \<open>src/services/proxy\<close>): when a request goes to
  Anthropic as sent, and what is left of its fields, tools, betas and headers.

  Support: \<open>Ttl_Memo\<close>, \<open>Env_Number\<close>, \<open>Model_Path\<close>, \<open>Url_Guard\<close>, with
  the language's text and numbers in \<open>Prelude\<close>, its maps in \<open>Js_Map\<close>, its sort in \<open>Js_Sort\<close> and its
  parsed documents in \<open>Json\<close>.

  How the code is read. Synchronous code is a function of its state to a value or an error and a new
  state (\<open>run\<close> in \<open>Prelude\<close>); the scripts are atomic because nothing can run between two of their
  commands. Asynchronous code is modelled at the instants where it runs: one request at one instant,
  a memo's reads, the inserts of a flush, the steps of a wind-down and
  the awaits of a backup tick as separate steps that settle later. Clocks are arguments. Numbers are exact: rounding
  of doubles beyond 2^53 is not modelled. Text is a list of 8-bit characters, except where the
  estimator works on UTF-16 units.

  Fuel. Only the cursor walks of \<open>Kv_Scan\<close> take fuel; the number of entries of the store and one more is
  enough, which \<open>delete_walk_returns\<close> proves.

  Not modelled: the web dashboard, the HTTP routes, the command line and the server start, which are glue; administrator
  accounts, single sign-on, audit, analytics and notifications, which are database queries and messages around libraries;
  the translation between the Messages dialect and chat completions, and the reply that captures it; the archive format of
  backups and their restore, over the platform's compression and ciphers; the database and its migrations,
  of which only the queries routing makes are read; the cipher, the tokenizer's rank file, the expression engine
  and the URL parser, which are parameters; sockets, timers and departures of clients, whose outcomes are
  arguments of a run; traces, metrics and operator alerts, which are output; the Redis back end, whose scripts are
  modelled by their in-process twins. A request runs alone from its admission to its end: concurrent requests meet only
  in the store, whose scripts are atomic, and in the histories of \<open>Key_Health\<close>.
\<close>

end
